(* ===== verification/Solowan_Prelude.thy ===== *)
theory Solowan_Prelude
  imports Main "HOL-Library.Word" "HOL-Library.Monad_Syntax"
begin

text \<open>
  Shared vocabulary of the development: the machine types of the C sources, C memory accesses
  as partial operations on byte lists, and the generic lemmas the component theories use.

  A fault of the C program (an access outside an object, a failed \<open>assert\<close>, a null
  dereference) is the value \<^const>\<open>None\<close> of the option monad; everything else is
  \<^const>\<open>Some\<close>.  A pointer into a byte array is the array (a list) with an index.
\<close>

unbundle bit_operations_syntax

named_theorems mem_simps \<open>successful memory accesses\<close>
named_theorems len_simps \<open>lengths kept by memory operations\<close>

type_synonym u8 = "8 word"
type_synonym u16 = "16 word"
type_synonym u32 = "32 word"
type_synonym u64 = "64 word"
type_synonym bytes = "u8 list"

section \<open>Assertions and bounded loops\<close>

definition c_assert :: "bool \<Rightarrow> unit option" where
  "c_assert b = (if b then Some () else None)"

lemma c_assert_True [simp]: "c_assert True = Some ()"
  by (simp add: c_assert_def)

lemma c_assert_False [simp]: "c_assert False = None"
  by (simp add: c_assert_def)

lemma c_assert_bind: "(c_assert b \<bind> f) = Some y \<longleftrightarrow> b \<and> f () = Some y"
  by (simp add: c_assert_def)

lemma c_assert_eq_Some [simp]: "c_assert b = Some u \<longleftrightarrow> b"
  by (simp add: c_assert_def)

text \<open>A \<open>for\<close> loop over the elements of a list whose body may fault.\<close>

fun foldM :: "('a \<Rightarrow> 's \<Rightarrow> 's option) \<Rightarrow> 'a list \<Rightarrow> 's \<Rightarrow> 's option" where
  "foldM f [] s = Some s"
| "foldM f (x # xs) s = f x s \<bind> foldM f xs"

lemma foldM_append: "foldM f (xs @ ys) s = foldM f xs s \<bind> foldM f ys"
proof (induction xs arbitrary: s)
  case (Cons x xs)
  then show ?case by (cases "f x s") simp_all
qed simp

lemma foldM_cong: "(\<And>x s. x \<in> set xs \<Longrightarrow> f x s = g x s) \<Longrightarrow> foldM f xs s = foldM g xs s"
  by (induction xs arbitrary: s) (auto intro: Option.bind_cong)

text \<open>What every successful round keeps holds at the end.\<close>

lemma foldM_keeps:
  assumes "foldM f xs s = Some s'" and "I s" and "\<And>x s s'. f x s = Some s' \<Longrightarrow> I s \<Longrightarrow> I s'"
  shows "I s'"
  using assms(1,2)
proof (induction xs arbitrary: s)
  case (Cons x xs)
  then obtain s1 where "f x s = Some s1" "foldM f xs s1 = Some s'" by (auto simp: bind_eq_Some_conv)
  then show ?case using Cons.IH assms(3) Cons.prems(2) by blast
qed simp

text \<open>The while rule of these loops: a body that succeeds and keeps the invariant on every element.\<close>

lemma foldM_inv:
  assumes "I s"
    and "\<And>x s. x \<in> set xs \<Longrightarrow> I s \<Longrightarrow> \<exists>s'. f x s = Some s' \<and> I s'"
  shows "\<exists>s'. foldM f xs s = Some s' \<and> I s'"
  using assms
proof (induction xs arbitrary: s)
  case (Cons x xs)
  then obtain s1 where "f x s = Some s1" "I s1" by (meson list.set_intros(1))
  with Cons show ?case by simp
qed simp

section \<open>Memory accesses\<close>

definition load8 :: "bytes \<Rightarrow> nat \<Rightarrow> u8 option" where
  "load8 buf i = (if i < length buf then Some (buf ! i) else None)"

definition load_bytes :: "bytes \<Rightarrow> nat \<Rightarrow> nat \<Rightarrow> bytes option" where
  "load_bytes buf off n = (if off + n \<le> length buf then Some (take n (drop off buf)) else None)"

definition store_bytes :: "bytes \<Rightarrow> nat \<Rightarrow> bytes \<Rightarrow> bytes option" where
  "store_bytes buf off bs =
    (if off + length bs \<le> length buf
     then Some (take off buf @ bs @ drop (off + length bs) buf) else None)"

text \<open>\<open>memcpy (dst + doff, src + soff, n)\<close> between two distinct objects.\<close>

definition memcpy :: "bytes \<Rightarrow> nat \<Rightarrow> bytes \<Rightarrow> nat \<Rightarrow> nat \<Rightarrow> bytes option" where
  "memcpy dst doff src soff n = load_bytes src soff n \<bind> store_bytes dst doff"

text \<open>\<open>!memcmp (a + aoff, b + boff, n)\<close>.\<close>

definition memeq :: "bytes \<Rightarrow> nat \<Rightarrow> bytes \<Rightarrow> nat \<Rightarrow> nat \<Rightarrow> bool option" where
  "memeq a aoff b boff n = do {
     x \<leftarrow> load_bytes a aoff n;
     y \<leftarrow> load_bytes b boff n;
     Some (x = y) }"

lemma load8_Some [mem_simps]: "i < length buf \<Longrightarrow> load8 buf i = Some (buf ! i)"
  by (simp add: load8_def)

lemma load_bytes_Some [mem_simps]:
  "off + n \<le> length buf \<Longrightarrow> load_bytes buf off n = Some (take n (drop off buf))"
  by (simp add: load_bytes_def)

lemma store_bytes_Some [mem_simps]:
  "off + length bs \<le> length buf \<Longrightarrow>
   store_bytes buf off bs = Some (take off buf @ bs @ drop (off + length bs) buf)"
  by (simp add: store_bytes_def)

lemma memcpy_Some [mem_simps]:
  "soff + n \<le> length src \<Longrightarrow> doff + n \<le> length dst \<Longrightarrow>
   memcpy dst doff src soff n =
     Some (take doff dst @ take n (drop soff src) @ drop (doff + n) dst)"
  by (simp add: memcpy_def mem_simps)

lemma memeq_Some [mem_simps]:
  "aoff + n \<le> length a \<Longrightarrow> boff + n \<le> length b \<Longrightarrow>
   memeq a aoff b boff n = Some (take n (drop aoff a) = take n (drop boff b))"
  by (simp add: memeq_def mem_simps)

lemma store_bytes_length [len_simps]: "store_bytes buf off bs = Some buf' \<Longrightarrow> length buf' = length buf"
  by (auto simp: store_bytes_def split: if_splits)

lemma memcpy_length [len_simps]: "memcpy dst doff src soff n = Some dst' \<Longrightarrow> length dst' = length dst"
  by (auto simp: memcpy_def bind_eq_Some_conv dest: store_bytes_length)

text \<open>
  What a sequence of stores has written so far: the first \<open>n\<close> bytes of a buffer.  The two lemmas
  say how a store at the end of, and inside, the written prefix changes it.
\<close>

lemma take_store_end:
  assumes "store_bytes buf n bs = Some buf'"
  shows "take (n + length bs) buf' = take n buf @ bs"
proof -
  have "n \<le> length buf" and "buf' = take n buf @ bs @ drop (n + length bs) buf"
    using assms by (simp_all add: store_bytes_def split: if_splits)
  then show ?thesis by simp
qed

lemma take_store_inside:
  assumes "store_bytes buf off bs = Some buf'" and "take n buf = xs @ ys @ zs"
    and "length xs = off" and "length ys = length bs" and "n \<le> length buf"
  shows "take n buf' = xs @ bs @ zs"
proof -
  have n: "n = length xs + length ys + length zs"
    using arg_cong [OF assms(2), of length] assms(5) by simp
  obtain r where buf: "buf = xs @ ys @ zs @ r"
    by (metis append.assoc append_take_drop_id assms(2))
  have "buf' = xs @ bs @ zs @ r"
    using assms(1,3,4) by (auto simp: store_bytes_def buf split: if_splits)
  then show ?thesis using n assms(4) by simp
qed

section \<open>Truncation to 16 bits\<close>

definition u16_of :: "nat \<Rightarrow> nat" where
  "u16_of n = n mod 65536"

text \<open>\<open>a -= b\<close> on a \<open>uint16_t\<close>.\<close>

definition sub16 :: "nat \<Rightarrow> nat \<Rightarrow> nat" where
  "sub16 a b = (a + (65536 - b mod 65536)) mod 65536"

lemma u16_of_small [simp]: "n < 65536 \<Longrightarrow> u16_of n = n"
  by (simp add: u16_of_def)

lemma u16_of_less [simp]: "u16_of n < 65536"
  by (simp add: u16_of_def)

lemma sub16_small [simp]: "b \<le> a \<Longrightarrow> a < 65536 \<Longrightarrow> sub16 a b = a - b"
proof -
  assume "b \<le> a" "a < 65536"
  then have "a + (65536 - b mod 65536) = (a - b) + 65536" by simp
  with \<open>a < 65536\<close> show ?thesis by (simp add: sub16_def)
qed

lemma sub16_less [simp]: "sub16 a b < 65536"
  by (simp add: sub16_def)

section \<open>Lists\<close>

lemma list_update_eq_map_upt:
  "i < length xs \<Longrightarrow> xs[i := v] = take i xs @ v # drop (Suc i) xs"
  by (rule upd_conv_take_nth_drop)

lemma take_add_drop: "take (m + n) xs = take m xs @ take n (drop m xs)"
  by (rule take_add)

lemma take_eq_nth:
  assumes "take n (drop i xs) = take n (drop j ys)" and "k < n"
    and "i + n \<le> length xs" and "j + n \<le> length ys"
  shows "xs ! (i + k) = ys ! (j + k)"
proof -
  have "take n (drop i xs) ! k = take n (drop j ys) ! k" using assms(1) by simp
  then show ?thesis using assms(2-4) by simp
qed

lemma slice_eqI:
  assumes "i + n \<le> length xs" and "j + n \<le> length ys"
    and "\<And>k. k < n \<Longrightarrow> xs ! (i + k) = ys ! (j + k)"
  shows "take n (drop i xs) = take n (drop j ys)"
  using assms by (intro nth_equalityI) auto

end
