(* ===== verification/Rabin_Fingerprint.thy ===== *)
theory Rabin_Fingerprint
  imports Solowan_Prelude
begin

text \<open>
  Rabin fingerprints of 64-byte windows and the selection of the fingerprints that represent a
  packet: \<open>full_rfp\<close>, \<open>inc_rfp\<close>, the factor table filled by
  \<open>init_common\<close> and \<open>calculateRelevantFPs\<close> of \<open>lib/dedup_common.c\<close>, with the
  constants of \<open>lib/solowan_rolling.h\<close>.  The main facts: the rolling update equals the
  fingerprint computed from scratch, and the selection terminates inside its array with correct
  offsets and fingerprints.
\<close>

section \<open>Constants\<close>

abbreviation (input) BETA :: nat where "BETA \<equiv> 64"
abbreviation (input) MAX_FP_PER_PKT :: nat where "MAX_FP_PER_PKT \<equiv> 32"
abbreviation (input) MAX_ITER :: nat where "MAX_ITER \<equiv> 4"

definition P_factor :: u64 where "P_factor = 1048583"
definition MOD_MASK :: u64 where "MOD_MASK = push_bit 60 1 - 1"
definition SELECT_FP_MASK :: u64 where "SELECT_FP_MASK = push_bit 5 1 - 1"

section \<open>Fingerprints\<close>

text \<open>Row \<open>b\<close> of the table \<open>fpfactors\<close>, filled from the previous column.\<close>

primrec fpfactors :: "u8 \<Rightarrow> nat \<Rightarrow> u64" where
  "fpfactors b 0 = ucast b"
| "fpfactors b (Suc j) = (fpfactors b j * P_factor) AND MOD_MASK"

definition rfp_window :: "bytes \<Rightarrow> u64" where
  "rfp_window w =
     foldl (\<lambda>fp i. (fp + fpfactors (w ! i) (BETA - i - 1)) AND MOD_MASK) 0 [0..<BETA]"

definition full_rfp :: "bytes \<Rightarrow> nat \<Rightarrow> u64 option" where
  "full_rfp p off = load_bytes p off BETA \<bind> (\<lambda>w. Some (rfp_window w))"

definition inc_rfp :: "u64 \<Rightarrow> u8 \<Rightarrow> u8 \<Rightarrow> u64" where
  "inc_rfp prev_fp new dropped =
     ((prev_fp - fpfactors dropped (BETA - 1)) * P_factor + ucast new) AND MOD_MASK"

section \<open>Selection of the relevant fingerprints\<close>

text \<open>
  An entry of the array \<open>fpma\<close>: the fields \<open>fp\<close> and \<open>offset\<close>, the only ones the selection sets.
  The array is the list of its first \<open>fpNum\<close> entries, and it has \<open>MAX_FP_PER_PKT\<close> places.
\<close>

type_synonym rel_fp = "u64 \<times> nat"

definition add_fp :: "rel_fp list \<Rightarrow> rel_fp \<Rightarrow> rel_fp list option" where
  "add_fp fpma e = (if length fpma < MAX_FP_PER_PKT then Some (fpma @ [e]) else None)"

text \<open>
  The \<open>while\<close> loop; \<open>first\<close> is \<open>fpma[0].fp\<close>, from which every new pass restarts.
\<close>

function relevantFPs_loop ::
  "u32 \<Rightarrow> bytes \<Rightarrow> nat \<Rightarrow> u64 \<Rightarrow> rel_fp list \<Rightarrow> u64 \<Rightarrow> nat \<Rightarrow> nat \<Rightarrow> u64 \<Rightarrow> nat \<Rightarrow> rel_fp list option"
where
  "relevantFPs_loop FPPERPKT packet pktlen first fpma tentativeFP exploring previous selectFPmask iter = do {
     new \<leftarrow> load8 packet exploring;
     dropped \<leftarrow> load8 packet (exploring - BETA);
     let tentativeFP = inc_rfp tentativeFP new dropped;
     (fpma, previous) \<leftarrow>
       (if tentativeFP AND selectFPmask = 0 \<and> exploring - previous \<ge> BETA div 2
        then do { fpma \<leftarrow> add_fp fpma (tentativeFP, exploring - BETA + 1); Some (fpma, exploring) }
        else Some (fpma, previous));
     if Suc exploring \<ge> pktlen
     then if length fpma < unat FPPERPKT \<and> iter < MAX_ITER
       then relevantFPs_loop FPPERPKT packet pktlen first fpma first BETA BETA
              (push_bit 1 selectFPmask) (Suc iter)
       else Some fpma
     else if length fpma = unat FPPERPKT then Some fpma
     else relevantFPs_loop FPPERPKT packet pktlen first fpma tentativeFP (Suc exploring) previous
            selectFPmask iter }"
  by pat_completeness auto
termination
  by (relation "measures [\<lambda>(_, _, _, _, _, _, _, _, _, iter). MAX_ITER - iter,
        \<lambda>(_, _, pktlen, _, _, _, exploring, _, _, _). pktlen - exploring]") auto

declare relevantFPs_loop.simps [simp del]

definition calculateRelevantFPs :: "u32 \<Rightarrow> bytes \<Rightarrow> nat \<Rightarrow> rel_fp list option" where
  "calculateRelevantFPs FPPERPKT packet pktlen = do {
     fp0 \<leftarrow> full_rfp packet 0;
     if BETA \<ge> pktlen then Some [(fp0, 0)]
     else relevantFPs_loop FPPERPKT packet pktlen fp0 [(fp0, 0)] fp0 BETA BETA SELECT_FP_MASK 0 }"

section \<open>The polynomial behind the fingerprints\<close>

text \<open>
  The reference: the bytes of a window as the digits of a number to base \<open>P\<close>, by Horner's rule
  on integers, reduced once modulo \<open>2 ^ 60\<close>.
\<close>

definition horner :: "bytes \<Rightarrow> int" where
  "horner bs = foldl (\<lambda>h b. h * 1048583 + uint b) 0 bs"

definition fp_modulus :: int where
  "fp_modulus = 2 ^ 60"

definition rabin :: "bytes \<Rightarrow> int" where
  "rabin bs = horner bs mod fp_modulus"

text \<open>The residue of a word modulo \<open>fp_modulus\<close> is compatible with the word operations.\<close>

lemma mod64_mod60: "(k :: int) mod 2 ^ 64 mod fp_modulus = k mod fp_modulus"
  by (simp add: fp_modulus_def mod_mod_cancel)

lemma res_add: "uint (x + y :: u64) mod fp_modulus = (uint x + uint y) mod fp_modulus"
  by (simp add: uint_word_ariths mod64_mod60 [simplified])

lemma res_diff: "uint (x - y :: u64) mod fp_modulus = (uint x - uint y) mod fp_modulus"
  by (simp add: uint_word_ariths mod64_mod60 [simplified])

lemma res_mult: "uint (x * y :: u64) mod fp_modulus = (uint x * uint y) mod fp_modulus"
  by (simp add: uint_word_ariths mod64_mod60 [simplified])

lemma uint_MOD_MASK: "uint (x AND MOD_MASK) = uint x mod fp_modulus"
proof -
  have "x AND MOD_MASK = take_bit 60 x"
    by (simp add: MOD_MASK_def take_bit_eq_mask mask_eq_exp_minus_1)
  then have "uint (x AND MOD_MASK) = take_bit 60 (uint x)"
    by (simp only: unsigned_take_bit_eq)
  then show ?thesis by (simp only: take_bit_eq_mod fp_modulus_def)
qed

lemma uint_ucast8: "uint (ucast (b :: u8) :: u64) = uint b"
  by (simp add: unsigned_ucast_eq take_bit_eq_mod uint_lt2p order_less_le_trans [OF uint_lt2p])

lemma uint_P_factor: "uint P_factor = 1048583"
  by (simp add: P_factor_def)

lemma uint_fpfactors: "uint (fpfactors b j) = uint b * 1048583 ^ j mod fp_modulus"
proof (induction j)
  case 0
  have "uint b < fp_modulus" using uint_lt2p [of b] by (simp add: fp_modulus_def)
  then show ?case by (simp add: uint_ucast8)
next
  case (Suc j)
  have "uint (fpfactors b (Suc j)) = uint (fpfactors b j) * 1048583 mod fp_modulus"
    by (simp add: uint_MOD_MASK res_mult uint_P_factor)
  also have "\<dots> = uint b * 1048583 ^ j * 1048583 mod fp_modulus"
    unfolding Suc by (rule mod_mult_left_eq)
  finally show ?case by (simp only: power_Suc2 mult.assoc)
qed

lemma horner_acc:
  "foldl (\<lambda>h b. h * 1048583 + uint b) h bs = h * 1048583 ^ length bs + horner bs"
proof (induction bs arbitrary: h)
  case (Cons b bs)
  show ?case
    using Cons [of "h * 1048583 + uint b"] Cons [of "uint b"]
    by (simp add: horner_def algebra_simps)
qed (simp add: horner_def)

lemma horner_Cons: "horner (b # bs) = uint b * 1048583 ^ length bs + horner bs"
  using horner_acc [of "uint b" bs] by (simp add: horner_def)

lemma horner_snoc: "horner (bs @ [b]) = horner bs * 1048583 + uint b"
  by (simp add: horner_def)

text \<open>After \<open>k\<close> rounds the loop of \<open>full_rfp\<close> holds the first \<open>k\<close> terms of the sum.\<close>

lemma rfp_window_loop:
  assumes "length w = BETA" and "k \<le> BETA"
  shows "uint (foldl (\<lambda>fp i. (fp + fpfactors (w ! i) (BETA - i - 1)) AND MOD_MASK) 0 [0..<k])
     = horner (take k w) * 1048583 ^ (BETA - k) mod fp_modulus"
  using assms(2)
proof (induction k)
  case 0
  then show ?case by (simp add: horner_def)
next
  case (Suc k)
  let ?f = "foldl (\<lambda>fp i. (fp + fpfactors (w ! i) (BETA - i - 1)) AND MOD_MASK) 0 [0..<k]"
  have "uint (foldl (\<lambda>fp i. (fp + fpfactors (w ! i) (BETA - i - 1)) AND MOD_MASK) 0 [0..<Suc k])
     = (uint ?f + uint (fpfactors (w ! k) (BETA - k - 1))) mod fp_modulus"
    by (simp add: uint_MOD_MASK res_add)
  also have "\<dots> = (horner (take k w) * 1048583 ^ (BETA - k)
                 + uint (w ! k) * 1048583 ^ (BETA - k - 1)) mod fp_modulus"
    using Suc unfolding uint_fpfactors by (simp only: mod_add_eq Suc_leD)
  also have "1048583 ^ (BETA - k) = (1048583 :: int) * 1048583 ^ (BETA - k - 1)"
  proof -
    have "BETA - k = Suc (BETA - k - 1)" using Suc.prems by simp
    then show ?thesis by (metis power_Suc)
  qed
  finally show ?case
    using Suc.prems assms(1)
    by (simp only: take_Suc_conv_app_nth Suc_le_eq horner_snoc distrib_right mult.assoc) simp
qed

lemma rfp_window_rabin: "length w = BETA \<Longrightarrow> uint (rfp_window w) = rabin w"
  using rfp_window_loop [of w BETA] by (simp add: rfp_window_def rabin_def)

lemma rabin_roll:
  assumes "length bs = 63"
  shows "((rabin (d # bs) - uint (fpfactors d 63)) * 1048583 + uint n) mod fp_modulus = rabin (bs @ [n])"
proof -
  let ?q = "1048583 :: int"
  have "(rabin (d # bs) - uint (fpfactors d 63)) mod fp_modulus = horner bs mod fp_modulus"
    by (simp only: rabin_def uint_fpfactors mod_diff_eq horner_Cons assms) simp
  then have "(rabin (d # bs) - uint (fpfactors d 63)) * ?q mod fp_modulus = horner bs * ?q mod fp_modulus"
    by (metis mod_mult_left_eq)
  then show ?thesis by (simp only: rabin_def horner_snoc) (metis mod_add_left_eq)
qed

lemma inc_rfp_roll:
  assumes "length bs = 63"
  shows "inc_rfp (rfp_window (d # bs)) n d = rfp_window (bs @ [n])"
proof -
  have "uint (inc_rfp (rfp_window (d # bs)) n d)
      = ((rabin (d # bs) - uint (fpfactors d 63)) * 1048583 + uint n) mod fp_modulus"
  proof -
    let ?x = "rfp_window (d # bs) - fpfactors d 63"
    have "uint (inc_rfp (rfp_window (d # bs)) n d) = (uint (?x * P_factor) + uint n) mod fp_modulus"
      by (simp add: inc_rfp_def uint_MOD_MASK res_add uint_ucast8)
    also have "\<dots> = (uint ?x * 1048583 mod fp_modulus + uint n) mod fp_modulus"
      by (metis mod_add_left_eq res_mult uint_P_factor)
    also have "uint ?x * 1048583 mod fp_modulus
        = (uint (rfp_window (d # bs)) - uint (fpfactors d 63)) * 1048583 mod fp_modulus"
      by (metis mod_mult_left_eq res_diff)
    finally show ?thesis
      using assms by (simp add: mod_add_left_eq rfp_window_rabin)
  qed
  also have "\<dots> = uint (rfp_window (bs @ [n]))"
    using assms by (simp only: rabin_roll) (simp add: rfp_window_rabin)
  finally show ?thesis by (simp only: word_uint_eq_iff)
qed


section \<open>The selection\<close>

text \<open>The fingerprint of the window at offset \<open>i\<close>, and the next one by the rolling update.\<close>

abbreviation rfp_at :: "bytes \<Rightarrow> nat \<Rightarrow> u64" where
  "rfp_at p i \<equiv> rfp_window (take BETA (drop i p))"

lemma full_rfp_at: "i + BETA \<le> length p \<Longrightarrow> full_rfp p i = Some (rfp_at p i)"
  by (simp add: full_rfp_def mem_simps)

lemma inc_rfp_at:
  assumes "i + BETA < length p"
  shows "inc_rfp (rfp_at p i) (p ! (i + BETA)) (p ! i) = rfp_at p (Suc i)"
proof -
  have d: "take BETA (drop i p) = p ! i # take 63 (drop (Suc i) p)"
    using assms by (simp add: Cons_nth_drop_Suc [symmetric] take_Cons')
  have "take BETA (drop (Suc i) p) = take 63 (drop (Suc i) p) @ [p ! (i + BETA)]"
    using assms take_Suc_conv_app_nth [of 63 "drop (Suc i) p"] by (simp add: add.commute)
  then show ?thesis using assms by (simp only: d) (simp add: inc_rfp_roll)
qed

lemma inc_rfp_at_exploring:
  assumes "BETA \<le> e" and "e < length p"
  shows "inc_rfp (rfp_at p (e - BETA)) (p ! e) (p ! (e - BETA)) = rfp_at p (e - BETA + 1)"
  using inc_rfp_at [of "e - BETA" p] assms by simp

text \<open>What holds of every selected entry: it lies in the packet and carries its fingerprint.\<close>

definition fp_entry_ok :: "bytes \<Rightarrow> nat \<Rightarrow> rel_fp \<Rightarrow> bool" where
  "fp_entry_ok packet pktlen e \<longleftrightarrow> snd e + BETA \<le> pktlen \<and> fst e = rfp_at packet (snd e)"

text \<open>What makes an entry eligible: some five consecutive low bits of its fingerprint are clear.\<close>

definition fp_selected :: "rel_fp \<Rightarrow> bool" where
  "fp_selected e \<longleftrightarrow> (\<exists>k\<le>MAX_ITER. fst e AND push_bit k SELECT_FP_MASK = 0)"

definition fps_ok :: "u32 \<Rightarrow> bytes \<Rightarrow> nat \<Rightarrow> rel_fp list \<Rightarrow> bool" where
  "fps_ok n packet pktlen fpma \<longleftrightarrow>
     fpma \<noteq> [] \<and> hd fpma = (rfp_at packet 0, 0) \<and> length fpma \<le> unat n \<and>
     (\<forall>e\<in>set fpma. fp_entry_ok packet pktlen e) \<and> (\<forall>e\<in>set (tl fpma). fp_selected e)"

lemma fps_ok_snoc:
  "fps_ok n p l fpma \<Longrightarrow> length fpma < unat n \<Longrightarrow> fp_entry_ok p l e \<Longrightarrow> fp_selected e \<Longrightarrow>
   fps_ok n p l (fpma @ [e])"
  by (auto simp: fps_ok_def)

text \<open>One round of the loop body: the conditional append keeps the loop invariant.\<close>

lemma relevantFPs_append:
  assumes "fps_ok n p l fpma" and "length fpma < unat n" and "unat n \<le> MAX_FP_PER_PKT"
    and "BETA \<le> e" and "e < l" and "l \<le> length p" and "t = rfp_at p (e - BETA + 1)" and "prev \<le> e"
    and "k \<le> MAX_ITER" and "m = push_bit k SELECT_FP_MASK"
  shows "\<exists>fpma' prev'.
    (if t AND m = 0 \<and> e - prev \<ge> BETA div 2
     then do { fpma' \<leftarrow> add_fp fpma (t, e - BETA + 1); Some (fpma', e) } else Some (fpma, prev))
    = Some (fpma', prev') \<and> fps_ok n p l fpma' \<and> prev' \<le> e"
proof -
  have "fp_entry_ok p l (t, e - BETA + 1)"
    using assms by (simp add: fp_entry_ok_def)
  moreover have "fp_selected (t, e - BETA + 1)" if "t AND m = 0"
    using that assms unfolding fp_selected_def by auto
  ultimately show ?thesis using assms(1-3,8) fps_ok_snoc [OF assms(1,2)] by (auto simp: add_fp_def)
qed

lemma relevantFPs_loop_ok:
  assumes "fps_ok n p l fpma" and "length fpma < unat n \<or> (length fpma = unat n \<and> e = BETA \<and> prev = BETA)"
    and "unat n \<le> MAX_FP_PER_PKT" and "BETA \<le> e" and "e < l" and "l \<le> length p" and "prev \<le> e"
    and "k \<le> MAX_ITER" and "m = push_bit k SELECT_FP_MASK" and "t = rfp_at p (e - BETA)"
    and "first = rfp_at p 0"
  shows "\<exists>fps. relevantFPs_loop n p l first fpma t e prev m k = Some fps \<and> fps_ok n p l fps"
  using assms
proof (induction n p l first fpma t e prev m k rule: relevantFPs_loop.induct)
  case (1 n p l first fpma t e prev m k)
  let ?t = "rfp_at p (e - BETA + 1)"
  have t: "inc_rfp t (p ! e) (p ! (e - BETA)) = ?t"
    using 1 inc_rfp_at_exploring by simp
  have ld: "load8 p e = Some (p ! e)" "load8 p (e - BETA) = Some (p ! (e - BETA))"
    using 1 by (simp_all add: mem_simps)
  obtain fpma' prev' where body:
    "(if ?t AND m = 0 \<and> e - prev \<ge> BETA div 2
      then do { fpma' \<leftarrow> add_fp fpma (?t, e - BETA + 1); Some (fpma', e) } else Some (fpma, prev))
     = Some (fpma', prev')" and ok: "fps_ok n p l fpma'" and prev': "prev' \<le> e"
  proof (cases "length fpma < unat n")
    case True
    then show ?thesis using relevantFPs_append [OF 1(3) True, of e ?t prev k m] 1 that by blast
  next
    case False
    then show ?thesis using 1 that [of fpma prev] by simp
  qed
  have e: "Suc e - BETA = Suc (e - BETA)" using 1 by simp
  have len: "length fpma' \<le> unat n" using ok by (simp add: fps_ok_def)
  have step: "relevantFPs_loop n p l first fpma t e prev m k =
    (if Suc e \<ge> l
     then if length fpma' < unat n \<and> k < MAX_ITER
       then relevantFPs_loop n p l first fpma' first BETA BETA (push_bit 1 m) (Suc k) else Some fpma'
     else if length fpma' = unat n then Some fpma'
     else relevantFPs_loop n p l first fpma' ?t (Suc e) prev' m k)"
    by (subst relevantFPs_loop.simps) (simp only: ld Option.bind.simps t Let_def body prod.case)
  show ?case
  proof (cases "Suc e \<ge> l")
    case True
    show ?thesis
    proof (cases "length fpma' < unat n \<and> k < MAX_ITER")
      case again: True
      then have "\<exists>fps. relevantFPs_loop n p l first fpma' first BETA BETA (push_bit 1 m) (Suc k) = Some fps
          \<and> fps_ok n p l fps"
        using 1(1) [OF ld _ body refl True again] 1(3-) ok t by simp
      then show ?thesis
        using True again by (simp add: step)
    next
      case False
      then show ?thesis
        using True ok by (auto simp: step)
    qed
  next
    case inside: False
    show ?thesis
    proof (cases "length fpma' = unat n")
      case True
      then show ?thesis
        using inside ok by (simp add: step)
    next
      case False
      have "\<exists>fps. relevantFPs_loop n p l first fpma' ?t (Suc e) prev' m k = Some fps
          \<and> fps_ok n p l fps"
        using 1(2) [OF ld _ body refl inside False] 1(3-) ok len False inside prev' t e by simp
      then show ?thesis
        using inside False by (simp add: step)
    qed
  qed
qed


lemma calculateRelevantFPs_ok:
  assumes "BETA \<le> pktlen" and "pktlen \<le> length packet"
    and "1 \<le> unat FPPERPKT" and "unat FPPERPKT \<le> MAX_FP_PER_PKT"
  shows "\<exists>fps. calculateRelevantFPs FPPERPKT packet pktlen = Some fps \<and> fps_ok FPPERPKT packet pktlen fps"
proof -
  have f: "full_rfp packet 0 = Some (rfp_at packet 0)"
    using assms by (simp add: full_rfp_at)
  have i: "fps_ok FPPERPKT packet pktlen [(rfp_at packet 0, 0)]"
    using assms by (simp add: fps_ok_def fp_entry_ok_def)
  show ?thesis
  proof (cases "BETA \<ge> pktlen")
    case True
    then show ?thesis using i by (simp add: calculateRelevantFPs_def f)
  next
    case False
    then show ?thesis
      using relevantFPs_loop_ok [OF i, of BETA BETA 0 SELECT_FP_MASK "rfp_at packet 0"] assms f
      by (simp add: calculateRelevantFPs_def le_eq_less_or_eq)
  qed
qed

text \<open>(C12) The fingerprint of a window computed from scratch by \<open>full_rfp\<close> with the factor table is
  the value of the window's bytes as a base-\<open>P\<close> number modulo \<open>2 ^ 60\<close>, and the incremental update
  \<open>inc_rfp\<close> of the fingerprint at offset \<open>i\<close> is exactly the fingerprint from scratch at offset
  \<open>i + 1\<close>, in spite of the wrap-around of its 64-bit subtraction and multiplication.\<close>

theorem rolling_fingerprint_correct:
  assumes "i + BETA < length p"
  shows "\<exists>fp. full_rfp p i = Some fp \<and> uint fp = rabin (take BETA (drop i p)) \<and>
    full_rfp p (i + 1) = Some (inc_rfp fp (p ! (i + BETA)) (p ! i))"
  using assms inc_rfp_at [of i p] by (simp add: full_rfp_at rfp_window_rabin)

theorem rolling_fingerprint_correct_witness:
  "\<exists>fp. full_rfp (replicate 70 7) 3 = Some fp \<and> uint fp = rabin (replicate 64 7) \<and>
    full_rfp (replicate 70 7) 4 = Some (inc_rfp fp 7 7)"
  using rolling_fingerprint_correct [of 3 "replicate 70 7"] by simp

text \<open>(C13) \<open>calculateRelevantFPs\<close> on a packet of at least 64 bytes, with between 1 and 32 fingerprints
  per packet configured, always terminates, never writes outside its 32-entry array, and returns
  between 1 and \<open>FPPERPKT\<close> entries: the first is the fingerprint at offset 0, every entry lies
  wholly inside the packet and carries the fingerprint from scratch of its window, and every entry
  after the first has five consecutive low bits clear, at most four positions up.\<close>

theorem calculateRelevantFPs_correct:
  assumes "BETA \<le> pktlen" and "pktlen \<le> length packet"
    and "1 \<le> unat FPPERPKT" and "unat FPPERPKT \<le> MAX_FP_PER_PKT"
  shows "\<exists>fps. calculateRelevantFPs FPPERPKT packet pktlen = Some fps \<and>
    1 \<le> length fps \<and> length fps \<le> unat FPPERPKT \<and> snd (hd fps) = 0 \<and>
    (\<forall>(fp, ofs) \<in> set fps. ofs + BETA \<le> pktlen \<and> full_rfp packet ofs = Some fp) \<and>
    (\<forall>(fp, ofs) \<in> set (tl fps). \<exists>k\<le>MAX_ITER. fp AND push_bit k SELECT_FP_MASK = 0)"
proof -
  obtain fps where c: "calculateRelevantFPs FPPERPKT packet pktlen = Some fps"
    and ok: "fps_ok FPPERPKT packet pktlen fps"
    using calculateRelevantFPs_ok [OF assms] by blast
  have "1 \<le> length fps \<and> length fps \<le> unat FPPERPKT \<and> snd (hd fps) = 0"
    using ok by (cases fps) (simp_all add: fps_ok_def)
  moreover have "\<forall>(fp, ofs) \<in> set fps. ofs + BETA \<le> pktlen \<and> full_rfp packet ofs = Some fp"
    using ok assms(2) by (fastforce simp: fps_ok_def fp_entry_ok_def full_rfp_at)
  moreover have "\<forall>(fp, ofs) \<in> set (tl fps). \<exists>k\<le>MAX_ITER. fp AND push_bit k SELECT_FP_MASK = 0"
    using ok by (fastforce simp: fps_ok_def fp_selected_def)
  ultimately show ?thesis using c by blast
qed

theorem calculateRelevantFPs_correct_witness:
  "\<exists>fps. calculateRelevantFPs 32 (replicate 100 1) 100 = Some fps \<and> 1 \<le> length fps \<and> length fps \<le> 32 \<and>
    snd (hd fps) = 0"
  using calculateRelevantFPs_correct [of 100 "replicate 100 1" 32] by auto

end
