(* ===== verification/Murmur_Hash.thy ===== *)
theory Murmur_Hash
  imports Solowan_Prelude
begin

text \<open>
  \<open>lib/MurmurHash3.c\<close>: the 32-bit hash that identifies a packet in the dictionaries and on the
  wire.  Blocks are read in the byte order of the x86 hosts the daemon is built for.  Beside its
  totality on the bytes it is given, the theory shows that every mixing step is a bijection, so
  that the hash separates packets of equal length that differ in a single 4-byte block.
\<close>

section \<open>The hash\<close>

definition rotl32 :: "u32 \<Rightarrow> nat \<Rightarrow> u32" where
  "rotl32 x r = (push_bit r x OR drop_bit (32 - r) x)"

definition getblock32 :: "bytes \<Rightarrow> nat \<Rightarrow> u32 option" where
  "getblock32 data j = do {
     b0 \<leftarrow> load8 data (4 * j);
     b1 \<leftarrow> load8 data (4 * j + 1);
     b2 \<leftarrow> load8 data (4 * j + 2);
     b3 \<leftarrow> load8 data (4 * j + 3);
     Some (ucast b0 OR push_bit 8 (ucast b1) OR push_bit 16 (ucast b2) OR push_bit 24 (ucast b3)) }"

definition fmix32 :: "u32 \<Rightarrow> u32" where
  "fmix32 h = (
     let h = h XOR drop_bit 16 h;
         h = h * 0x85ebca6b;
         h = h XOR drop_bit 13 h;
         h = h * 0xc2b2ae35
     in h XOR drop_bit 16 h)"

definition murmur_k1 :: "u32 \<Rightarrow> u32" where
  "murmur_k1 k1 = rotl32 (k1 * 0xcc9e2d51) 15 * 0x1b873593"

definition murmur_h1 :: "u32 \<Rightarrow> u32 \<Rightarrow> u32" where
  "murmur_h1 h1 k1 = rotl32 (h1 XOR murmur_k1 k1) 13 * 5 + 0xe6546b64"

definition murmur_body :: "bytes \<Rightarrow> nat \<Rightarrow> u32 \<Rightarrow> u32 option" where
  "murmur_body data nblocks seed =
     foldM (\<lambda>j h1. getblock32 data j \<bind> (\<lambda>k1. Some (murmur_h1 h1 k1))) [0..<nblocks] seed"

text \<open>The fall-through cases of the \<open>switch\<close> on the one to three bytes after the last block.\<close>

definition murmur_tail :: "bytes \<Rightarrow> nat \<Rightarrow> nat \<Rightarrow> u32 \<Rightarrow> u32 option" where
  "murmur_tail data tail r h1 = (
     if r = 0 then Some h1
     else do {
       k1 \<leftarrow> (if r \<ge> 3 then load8 data (tail + 2) \<bind> (\<lambda>b. Some (push_bit 16 (ucast b))) else Some 0);
       k1 \<leftarrow> (if r \<ge> 2 then load8 data (tail + 1) \<bind> (\<lambda>b. Some (k1 XOR push_bit 8 (ucast b))) else Some k1);
       b \<leftarrow> load8 data tail;
       Some (h1 XOR murmur_k1 (k1 XOR ucast b)) })"

definition MurmurHash3_x86_32 :: "bytes \<Rightarrow> nat \<Rightarrow> u32 \<Rightarrow> u32 option" where
  "MurmurHash3_x86_32 key len seed = do {
     let nblocks = len div 4;
     h1 \<leftarrow> murmur_body key nblocks seed;
     h1 \<leftarrow> murmur_tail key (nblocks * 4) (len mod 4) h1;
     Some (fmix32 (h1 XOR of_nat len)) }"

text \<open>The seed of \<open>solowan_rolling.h\<close> and the hash of a packet, the function of its bytes that
  the C calls compute.\<close>

definition SEED :: u32 where "SEED = 0x8BADF00D"

definition packet_hash :: "bytes \<Rightarrow> u32" where
  "packet_hash p = the (MurmurHash3_x86_32 p (length p) SEED)"

section \<open>The hash reads exactly the given bytes\<close>

lemma load8_take: "i < n \<Longrightarrow> load8 (take n buf) i = load8 buf i"
  by (simp add: load8_def)

lemma getblock32_Some: "4 * j + 4 \<le> length data \<Longrightarrow> \<exists>k. getblock32 data j = Some k"
  by (simp add: getblock32_def mem_simps)

lemma getblock32_take: "4 * j + 4 \<le> n \<Longrightarrow> getblock32 (take n data) j = getblock32 data j"
  by (simp add: getblock32_def load8_take)

lemma murmur_body_Some: "4 * n \<le> length data \<Longrightarrow> \<exists>h. murmur_body data n seed = Some h"
proof -
  assume le: "4 * n \<le> length data"
  have "\<exists>h. murmur_body data n seed = Some h \<and> True"
    unfolding murmur_body_def
  proof (rule foldM_inv)
    fix j s assume "j \<in> set [0..<n]"
    then obtain k where "getblock32 data j = Some k"
      using getblock32_Some [of j data] le by auto
    then show "\<exists>s'. (getblock32 data j \<bind> (\<lambda>k1. Some (murmur_h1 s k1))) = Some s' \<and> True"
      by simp
  qed simp
  then show ?thesis by simp
qed

lemma murmur_body_take: "4 * n \<le> m \<Longrightarrow> murmur_body (take m data) n seed = murmur_body data n seed"
  unfolding murmur_body_def by (rule foldM_cong) (simp add: getblock32_take)

lemma murmur_tail_Some: "t + r \<le> length data \<Longrightarrow> r < 4 \<Longrightarrow> \<exists>h. murmur_tail data t r h1 = Some h"
  by (simp add: murmur_tail_def mem_simps)

lemma murmur_tail_take: "t + r \<le> m \<Longrightarrow> r < 4 \<Longrightarrow> murmur_tail (take m data) t r h1 = murmur_tail data t r h1"
  by (auto simp: murmur_tail_def load8_take)

lemma murmur_take:
  "MurmurHash3_x86_32 (take len data) len seed = MurmurHash3_x86_32 data len seed"
proof -
  have "4 * (len div 4) \<le> len" "len div 4 * 4 + len mod 4 \<le> len" by simp_all
  then show ?thesis
    by (simp add: MurmurHash3_x86_32_def murmur_body_take murmur_tail_take)
qed

lemma murmur_total: "len \<le> length data \<Longrightarrow> \<exists>h. MurmurHash3_x86_32 data len seed = Some h"
proof -
  assume le: "len \<le> length data"
  obtain h where "murmur_body data (len div 4) seed = Some h"
    using murmur_body_Some [of "len div 4" data seed] le times_div_less_eq_dividend [of 4 len]
    by (meson le_trans)
  moreover obtain h' where "murmur_tail data (len div 4 * 4) (len mod 4) h = Some h'"
    using murmur_tail_Some [of "len div 4 * 4" "len mod 4" data h] le by auto
  ultimately show ?thesis by (simp add: MurmurHash3_x86_32_def)
qed

lemma murmur_packet_hash:
  "len \<le> length data \<Longrightarrow> MurmurHash3_x86_32 data len SEED = Some (packet_hash (take len data))"
  using murmur_total [of len data SEED] by (auto simp: packet_hash_def murmur_take min_def)

section \<open>Every mixing step is a bijection\<close>

lemma rotl32_inj:
  assumes "0 < r" and "r < 32" and "rotl32 x r = rotl32 y r"
  shows "x = y"
proof (rule bit_word_eqI)
  fix n assume n: "n < LENGTH(32)"
  have rot: "bit (rotl32 z r) ((n + r) mod 32) = bit z n" for z
  proof (cases "n + r < 32")
    case True
    then have "\<not> bit z (n + r + (32 - r))" using assms bit_imp_le_length [of z "n + r + (32 - r)"] by auto
    with True show ?thesis using assms by (auto simp: rotl32_def bit_simps add.commute)
  next
    case False
    then have m: "(n + r) mod 32 = n + r - 32" using n assms by (simp add: mod_if)
    then show ?thesis using False n assms by (auto simp: rotl32_def bit_simps m)
  qed
  show "bit x n = bit y n" using rot [of x] rot [of y] assms(3) by simp
qed

lemma xorshift_inj:
  fixes x y :: "'w::len word"
  assumes "0 < s" and "x XOR drop_bit s x = y XOR drop_bit s y"
  shows "x = y"
proof -
  define d where "d = x XOR y"
  have "d = drop_bit s d"
    using assms(2) unfolding d_def
    by (metis (no_types, lifting) drop_bit_xor xor.assoc xor.commute xor.left_commute xor_self_eq xor.right_neutral)
  then have "bit d n = bit d (n + s)" for n
    by (metis add.commute bit_drop_bit_eq comp_apply)
  then have shift: "bit d n = bit d (n + k * s)" for n k
  proof (induction k)
    case (Suc k)
    have "n + Suc k * s = n + k * s + s" by simp
    then show ?case using Suc \<open>\<And>n. bit d n = bit d (n + s)\<close> by metis
  qed simp
  have "\<not> bit d n" for n
  proof -
    have "LENGTH('w) \<le> n + LENGTH('w) * s" using assms(1) by (cases s) auto
    then show ?thesis using shift [of n "LENGTH('w)"] bit_imp_le_length [of d] by (metis leD)
  qed
  then have "bit x n = bit y n" for n unfolding d_def by (simp add: bit_xor_iff)
  then show ?thesis by (simp add: bit_eq_iff)
qed

lemma mult_inv_inj:
  fixes x :: u32
  assumes "x * c = y * c" and "c * i = 1" shows "x = y"
proof -
  have "x * c * i = y * c * i" using assms(1) by simp
  then show ?thesis by (simp only: mult.assoc assms(2) mult_1_right)
qed

lemma odd_factors:
  "(0xcc9e2d51 :: u32) * 0xdee13bb1 = 1" "(0x1b873593 :: u32) * 0x56ed309b = 1"
  "(0x85ebca6b :: u32) * 0xa5cb9243 = 1" "(0xc2b2ae35 :: u32) * 0x7ed1b41d = 1"
  "(5 :: u32) * 0xcccccccd = 1"
  by simp_all

lemma fmix32_inj:
  assumes "fmix32 x = fmix32 y" shows "x = y"
proof -
  define a where "a z = z XOR drop_bit 16 z" for z :: u32
  define b where "b z = z XOR drop_bit 13 z" for z :: u32
  have "a (b (a x * 0x85ebca6b) * 0xc2b2ae35) = a (b (a y * 0x85ebca6b) * 0xc2b2ae35)"
    using assms by (simp only: fmix32_def Let_def a_def b_def)
  then have "b (a x * 0x85ebca6b) * 0xc2b2ae35 = b (a y * 0x85ebca6b) * 0xc2b2ae35"
    unfolding a_def using xorshift_inj [of 16] by simp
  then have "b (a x * 0x85ebca6b) = b (a y * 0x85ebca6b)"
    using mult_inv_inj odd_factors(4) by blast
  then have "a x * 0x85ebca6b = a y * 0x85ebca6b"
    unfolding b_def using xorshift_inj [of 13] by simp
  then have "a x = a y" using mult_inv_inj odd_factors(3) by blast
  then show ?thesis unfolding a_def using xorshift_inj [of 16] by simp
qed

lemma murmur_k1_inj:
  assumes "murmur_k1 x = murmur_k1 y" shows "x = y"
proof -
  have "rotl32 (x * 0xcc9e2d51) 15 = rotl32 (y * 0xcc9e2d51) 15"
    using assms mult_inv_inj odd_factors(2) unfolding murmur_k1_def by blast
  then have "x * 0xcc9e2d51 = y * 0xcc9e2d51" using rotl32_inj [of 15] by simp
  then show ?thesis using mult_inv_inj odd_factors(1) by blast
qed

lemma xor_cancel: "a XOR b = a XOR c \<longleftrightarrow> b = (c :: u32)" "b XOR a = c XOR a \<longleftrightarrow> b = (c :: u32)"
  by (auto simp: bit_eq_iff bit_xor_iff)

lemma murmur_h1_step:
  assumes "murmur_h1 h k = murmur_h1 h' k'" shows "h XOR murmur_k1 k = h' XOR murmur_k1 k'"
proof -
  have "rotl32 (h XOR murmur_k1 k) 13 * 5 = rotl32 (h' XOR murmur_k1 k') 13 * 5"
    using assms by (simp only: murmur_h1_def add_right_cancel)
  then have "rotl32 (h XOR murmur_k1 k) 13 = rotl32 (h' XOR murmur_k1 k') 13"
    using mult_inv_inj odd_factors(5) by blast
  then show ?thesis using rotl32_inj [of 13] by simp
qed

lemma murmur_h1_inj: "murmur_h1 h k = murmur_h1 h' k \<Longrightarrow> h = h'"
  using murmur_h1_step xor_cancel(2) by blast

lemma murmur_h1_block: "murmur_h1 h k = murmur_h1 h k' \<Longrightarrow> k = k'"
  using murmur_h1_step xor_cancel(1) murmur_k1_inj by blast

section \<open>Detection of a changed block\<close>

text \<open>Once two runs of the body differ, blocks that agree never make them meet again.\<close>

lemma murmur_body_differ:
  assumes "foldM (\<lambda>j h1. getblock32 d j \<bind> (\<lambda>k1. Some (murmur_h1 h1 k1))) js h = Some r"
    and "foldM (\<lambda>j h1. getblock32 d' j \<bind> (\<lambda>k1. Some (murmur_h1 h1 k1))) js h' = Some r'"
    and "h \<noteq> h'" and "\<And>j. j \<in> set js \<Longrightarrow> getblock32 d j = getblock32 d' j"
  shows "r \<noteq> r'"
  using assms
proof (induction js arbitrary: h h')
  case (Cons j js)
  obtain k where k: "getblock32 d j = Some k"
    using Cons.prems(1) by (cases "getblock32 d j") simp_all
  then have "getblock32 d' j = Some k" using Cons.prems(4) [of j] by simp
  moreover have "murmur_h1 h k \<noteq> murmur_h1 h' k" using Cons.prems(3) murmur_h1_inj by blast
  ultimately show ?case
    using Cons.IH [of "murmur_h1 h k" "murmur_h1 h' k"] Cons.prems k by simp
qed simp

lemma murmur_tail_inj:
  assumes "murmur_tail d t r h = Some x" and "murmur_tail d' t r h' = Some x" and "r < 4"
    and "\<And>i. i < r \<Longrightarrow> load8 d (t + i) = load8 d' (t + i)"
  shows "h = h'"
proof (cases "r = 0")
  case True
  then show ?thesis using assms by (simp add: murmur_tail_def)
next
  case False
  have eq: "murmur_tail d t r h' = murmur_tail d' t r h'"
    using assms(4) [of 0] assms(4) [of 1] assms(4) [of 2] False
    by (simp add: murmur_tail_def)
  from False assms(1) obtain m where "\<And>g. murmur_tail d t r g = Some (g XOR m)"
    unfolding murmur_tail_def by (auto simp: bind_eq_Some_conv split: if_splits)
  then have "h XOR m = h' XOR m" using assms(1,2) eq by simp
  then show ?thesis by (simp only: xor_cancel)
qed

lemma murmur_body_split:
  "n \<le> N \<Longrightarrow> murmur_body d N s = murmur_body d n s \<bind>
     foldM (\<lambda>j h1. getblock32 d j \<bind> (\<lambda>k1. Some (murmur_h1 h1 k1))) [n..<N]"
proof -
  assume "n \<le> N"
  then have "[0..<N] = [0..<n] @ [n..<N]" using upt_add_eq_append [of 0 n "N - n"] by simp
  then show ?thesis by (simp only: murmur_body_def foldM_append)
qed


text \<open>A block determines its four bytes.\<close>

definition le32 :: "u8 \<Rightarrow> u8 \<Rightarrow> u8 \<Rightarrow> u8 \<Rightarrow> u32" where
  "le32 b0 b1 b2 b3 =
     (ucast b0 OR push_bit 8 (ucast b1) OR push_bit 16 (ucast b2) OR push_bit 24 (ucast b3))"

lemma le32_bytes:
  "ucast (le32 b0 b1 b2 b3) = b0" "ucast (drop_bit 8 (le32 b0 b1 b2 b3)) = b1"
  "ucast (drop_bit 16 (le32 b0 b1 b2 b3)) = b2" "ucast (drop_bit 24 (le32 b0 b1 b2 b3)) = b3"
  by (rule bit_word_eqI; auto simp: le32_def bit_simps dest: bit_imp_le_length)+

lemma le32_inj: "le32 a b c d = le32 a' b' c' d' \<Longrightarrow> a = a' \<and> b = b' \<and> c = c' \<and> d = d'"
  using le32_bytes [of a b c d] le32_bytes [of a' b' c' d'] by simp

lemma getblock32_inj:
  assumes "getblock32 d b = getblock32 d' b" and "4 * b + 4 \<le> length d" and "4 * b + 4 \<le> length d'"
    and "4 * b \<le> i" and "i < 4 * b + 4"
  shows "d ! i = d' ! i"
proof -
  have "le32 (d ! (4 * b)) (d ! (4 * b + 1)) (d ! (4 * b + 2)) (d ! (4 * b + 3))
      = le32 (d' ! (4 * b)) (d' ! (4 * b + 1)) (d' ! (4 * b + 2)) (d' ! (4 * b + 3))"
    using assms(1-3) by (simp add: getblock32_def mem_simps le32_def)
  note bytes = le32_inj [OF this]
  from assms(4,5) have "i = 4 * b \<or> i = 4 * b + 1 \<or> i = 4 * b + 2 \<or> i = 4 * b + 3" by linarith
  with bytes show ?thesis by blast
qed

lemma getblock32_cong:
  assumes "\<And>k. k < 4 \<Longrightarrow> d ! (4 * j + k) = d' ! (4 * j + k)"
    and "4 * j + 4 \<le> length d" and "4 * j + 4 \<le> length d'"
  shows "getblock32 d j = getblock32 d' j"
  using assms(1) [of 0] assms(1) [of 1] assms(1) [of 2] assms(1) [of 3] assms(2,3)
  by (simp add: getblock32_def mem_simps)

lemma murmur_body_change:
  assumes "b < N" and "4 * N \<le> length d" and "length d' = length d"
    and same: "\<And>i. i < length d \<Longrightarrow> i div 4 \<noteq> b \<Longrightarrow> d ! i = d' ! i"
    and i: "i div 4 = b" and diff: "d ! i \<noteq> d' ! i"
    and r: "murmur_body d N s = Some r" and r': "murmur_body d' N s = Some r'"
  shows "r \<noteq> r'"
proof -
  let ?run = "\<lambda>e. foldM (\<lambda>j h1. getblock32 e j \<bind> (\<lambda>k1. Some (murmur_h1 h1 k1)))"
  have blocks: "getblock32 d j = getblock32 d' j" if "j < N" "j \<noteq> b" for j
    using that assms(2,3) by (intro getblock32_cong same) auto
  have pre: "murmur_body d b s = murmur_body d' b s"
    unfolding murmur_body_def using assms(1) by (intro foldM_cong) (simp add: blocks)
  obtain h where h: "murmur_body d b s = Some h"
    using murmur_body_Some [of b d s] assms(1,2) by auto
  obtain k k' where k: "getblock32 d b = Some k" "getblock32 d' b = Some k'"
    using getblock32_Some [of b d] getblock32_Some [of b d'] assms(1-3) by auto
  have "getblock32 d b \<noteq> getblock32 d' b"
  proof -
    have "4 * b \<le> i" "i < 4 * b + 4" using i by linarith+
    then show ?thesis using getblock32_inj [of d b d' i] diff assms(1-3) by auto
  qed
  then have "murmur_h1 h k \<noteq> murmur_h1 h k'" using k murmur_h1_block by auto
  moreover have "?run d [b..<N] h = Some r" "?run d' [b..<N] h = Some r'"
    using r r' h pre assms(1) murmur_body_split [of b N d s] murmur_body_split [of b N d' s] by simp_all
  then have "?run d [Suc b..<N] (murmur_h1 h k) = Some r" "?run d' [Suc b..<N] (murmur_h1 h k') = Some r'"
    using assms(1) k by (simp_all add: upt_conv_Cons)
  ultimately show ?thesis
    using murmur_body_differ [of d "[Suc b..<N]" "murmur_h1 h k" r d' "murmur_h1 h k'" r'] blocks by auto
qed

text \<open>The packet hash is defined on every packet, and two packets of the same length that
  differ inside one aligned 4-byte block, and nowhere else, never have the same
  \<open>MurmurHash3_x86_32\<close> hash: such a corruption of a reconstructed packet is always detected by the
  comparison with the hash sent on the wire.\<close>

theorem murmur_detects_block_change:
  assumes "length q = length p" and "b < length p div 4" and "i div 4 = b" and "p ! i \<noteq> q ! i"
    and "\<forall>j < length p. j div 4 \<noteq> b \<longrightarrow> p ! j = q ! j"
  shows "\<exists>h h'. MurmurHash3_x86_32 p (length p) seed = Some h \<and>
     MurmurHash3_x86_32 q (length q) seed = Some h' \<and> h \<noteq> h'"
proof -
  let ?n = "length p div 4" and ?t = "length p div 4 * 4" and ?m = "length p mod 4"
  have n: "4 * ?n \<le> length p" by simp
  obtain r r' where r: "murmur_body p ?n seed = Some r" "murmur_body q ?n seed = Some r'"
    using murmur_body_Some [of ?n p seed] murmur_body_Some [of ?n q seed] n assms(1) by metis
  then have ne: "r \<noteq> r'"
    using murmur_body_change [of b ?n p q i seed r r'] assms n by blast
  obtain x x' where x: "murmur_tail p ?t ?m r = Some x" "murmur_tail q ?t ?m r' = Some x'"
    using murmur_tail_Some [of ?t ?m p r] murmur_tail_Some [of ?t ?m q r'] assms(1) by auto
  have "load8 p (?t + k) = load8 q (?t + k)" if "k < ?m" for k
  proof -
    have "?t + k < length p" using that by (metis add_less_cancel_left div_mult_mod_eq)
    moreover have "(?t + k) div 4 \<noteq> b" using assms(2) that by (simp add: div_add1_eq)
    ultimately show ?thesis using assms(1,5) by (simp add: load8_def)
  qed
  then have "x \<noteq> x'" using murmur_tail_inj [of p ?t ?m r x q r'] x ne by auto
  then have "fmix32 (x XOR of_nat (length p)) \<noteq> fmix32 (x' XOR of_nat (length q))"
    using assms(1) fmix32_inj xor_cancel(2) by metis
  then show ?thesis using r x assms(1) by (simp add: MurmurHash3_x86_32_def)
qed

theorem murmur_detects_block_change_witness:
  "\<exists>h h'. MurmurHash3_x86_32 [1, 2, 3, 4, 5] 5 SEED = Some h \<and>
     MurmurHash3_x86_32 [1, 9, 3, 4, 5] 5 SEED = Some h' \<and> h \<noteq> h'"
proof -
  have "\<forall>j < length [1, 2, 3, 4, 5 :: u8]. j div 4 \<noteq> 0 \<longrightarrow> [1, 2, 3, 4, 5 :: u8] ! j = [1, 9, 3, 4, 5] ! j"
  proof (intro allI impI)
    fix j assume "j < length [1, 2, 3, 4, 5 :: u8]" "j div 4 \<noteq> 0"
    then have "j = 4" by simp
    then show "[1, 2, 3, 4, 5 :: u8] ! j = [1, 9, 3, 4, 5] ! j" by simp
  qed
  moreover have len: "length [1, 2, 3, 4, 5 :: u8] = 5" "length [1, 9, 3, 4, 5 :: u8] = 5" by simp_all
  ultimately show ?thesis
    using murmur_detects_block_change [of "[1, 9, 3, 4, 5]" "[1, 2, 3, 4, 5]" 0 1 SEED, unfolded len]
    by force
qed

end
