(* ===== verification/Packet_Dictionary.thy ===== *)
theory Packet_Dictionary
  imports Rabin_Fingerprint Murmur_Hash
begin

text \<open>
  The packet dictionary of \<open>lib/dedup_common.c\<close>: the packet store, a ring of the last
  \<open>PKTSTORESIZE\<close> packets, and the fingerprint store, a hash table of buckets of three entries that
  point into it.  One definition per routine; the abstraction is the history of the packets
  stored so far.
\<close>

section \<open>Types and configuration (\<open>lib/solowan_rolling.h\<close>)\<close>

abbreviation (input) PKTS_PER_FP :: nat where "PKTS_PER_FP \<equiv> 3"
abbreviation (input) GAMMA :: nat where "GAMMA \<equiv> 5"

record FPEntryB =
  fpb_fp :: u64
  fpb_pktId :: int
  fpb_offset :: nat

record PktEntry =
  pe_pkt :: bytes
  pe_len :: nat
  pe_hash :: u32

record PktStore =
  ps_pkts :: "PktEntry list"
  ps_pktId :: int

type_synonym FPEntry = "FPEntryB list"
type_synonym FPStore = "FPEntry list"

record Statistics =
  inputBytes :: u64
  outputBytes :: u64
  processedPackets :: u64
  compressedPackets :: u64
  numOfFPEntries :: u64
  lastPktId :: u64
  numberOfFPHashCollisions :: u64
  numberOfFPCollisions :: u64
  numberOfShortPkts :: u64
  uncompressedPackets :: u64
  errorsMissingFP :: u64
  errorsMissingPacket :: u64
  errorsPacketFormat :: u64
  errorsPacketHash :: u64

definition zero_stats :: Statistics where
  "zero_stats = \<lparr> inputBytes = 0, outputBytes = 0, processedPackets = 0, compressedPackets = 0,
     numOfFPEntries = 0, lastPktId = 0, numberOfFPHashCollisions = 0, numberOfFPCollisions = 0,
     numberOfShortPkts = 0, uncompressedPackets = 0, errorsMissingFP = 0, errorsMissingPacket = 0,
     errorsPacketFormat = 0, errorsPacketHash = 0 \<rparr>"

text \<open>The static variables that \<open>init_common\<close> sets once and every routine reads.\<close>

record config =
  MAXPKTSIZE :: u32
  PKTSTORESIZE :: u32
  FPSTORESIZE :: u32
  FPPERPKT :: u32
  FPSFACTOR :: u32
  shared_dictionary_mode :: bool

definition init_common :: "u32 \<Rightarrow> u32 \<Rightarrow> u32 \<Rightarrow> u32 \<Rightarrow> bool \<Rightarrow> config" where
  "init_common pktStoreSize pktSize fpPerPkt fpsFactor shareddict = \<lparr>
     MAXPKTSIZE = pktSize,
     PKTSTORESIZE = pktStoreSize,
     FPSTORESIZE = fpPerPkt * pktStoreSize * fpsFactor,
     FPPERPKT = (if fpPerPkt \<le> 32 then fpPerPkt else 32),
     FPSFACTOR = (if fpsFactor \<le> 4 then fpsFactor else 4),
     shared_dictionary_mode = shareddict \<rparr>"

definition MAX_PKT_SIZE :: "config \<Rightarrow> nat" where "MAX_PKT_SIZE c = unat (MAXPKTSIZE c)"
definition PKT_STORE_SIZE :: "config \<Rightarrow> nat" where "PKT_STORE_SIZE c = unat (PKTSTORESIZE c)"
definition FP_STORE_SIZE :: "config \<Rightarrow> nat" where "FP_STORE_SIZE c = unat (FPSTORESIZE c)"

section \<open>Routines\<close>

definition hashFPStore :: "config \<Rightarrow> u64 \<Rightarrow> u32" where
  "hashFPStore c fp = (
     let fp = drop_bit GAMMA fp;
         h1 = ucast (fp AND 0xffffffff);
         h2 = ucast (drop_bit 32 fp AND 0xffffffff);
         h3 = h1 XOR h2;
         h4 = h3 AND (FPSTORESIZE c - 1)
     in h4 XOR drop_bit 24 h3)"

text \<open>The bucket of a fingerprint; \<^const>\<open>None\<close> when the index is outside the table.\<close>

definition bucket_of :: "config \<Rightarrow> FPStore \<Rightarrow> u64 \<Rightarrow> FPEntry option" where
  "bucket_of c fps fp = (let i = unat (hashFPStore c fp) in if i < length fps then Some (fps ! i) else None)"

text \<open>
  \<open>getPkt\<close>: the result \<open>Some None\<close> is the null pointer, \<open>Some (Some e)\<close> a pointer to the slot
  with contents \<open>e\<close>.
\<close>

definition pkt_slot :: "config \<Rightarrow> int \<Rightarrow> nat" where
  "pkt_slot c pktId = nat (pktId AND uint (PKTSTORESIZE c - 1))"

definition getPkt :: "config \<Rightarrow> PktStore \<Rightarrow> int \<Rightarrow> PktEntry option option" where
  "getPkt c ps pktId = (
     if ps_pktId ps < pktId then Some None
     else if pktId < ps_pktId ps - uint (PKTSTORESIZE c) then Some None
     else if pkt_slot c pktId < length (ps_pkts ps) then Some (Some (ps_pkts ps ! pkt_slot c pktId))
     else None)"

definition putPkt :: "config \<Rightarrow> PktStore \<Rightarrow> bytes \<Rightarrow> nat \<Rightarrow> u32 \<Rightarrow> (PktStore \<times> int) option" where
  "putPkt c ps pkt pktlen pktHash = (
     let pktIdx = pkt_slot c (ps_pktId ps) in
     if pktIdx < length (ps_pkts ps) then do {
       buf \<leftarrow> memcpy (pe_pkt (ps_pkts ps ! pktIdx)) 0 pkt 0 pktlen;
       Some (ps\<lparr> ps_pkts := (ps_pkts ps)[pktIdx := \<lparr> pe_pkt = buf, pe_len = pktlen, pe_hash = pktHash \<rparr>],
                 ps_pktId := ps_pktId ps + 1 \<rparr>, ps_pktId ps) }
     else None)"

text \<open>
  The searches of a bucket: the loop over the entries stops at the first one that satisfies the
  test, and the test of an entry looks at the packet it points to.
\<close>

fun find_entry :: "('e \<Rightarrow> bool option) \<Rightarrow> 'e list \<Rightarrow> 'e option option" where
  "find_entry test [] = Some None"
| "find_entry test (e # es) = test e \<bind> (\<lambda>b. if b then Some (Some e) else find_entry test es)"

definition hash_test :: "config \<Rightarrow> PktStore \<Rightarrow> u64 \<Rightarrow> u32 \<Rightarrow> FPEntryB \<Rightarrow> bool option" where
  "hash_test c ps fp pktHash e = (
     if fpb_fp e = fp then do {
       pkt \<leftarrow> getPkt c ps (fpb_pktId e);
       Some (case pkt of None \<Rightarrow> False | Some p \<Rightarrow> pe_hash p = pktHash) }
     else Some False)"

definition getFPhash :: "config \<Rightarrow> FPStore \<Rightarrow> PktStore \<Rightarrow> u64 \<Rightarrow> u32 \<Rightarrow> FPEntryB option option" where
  "getFPhash c fps ps fp pktHash = bucket_of c fps fp \<bind> find_entry (hash_test c ps fp pktHash)"

definition content_test :: "config \<Rightarrow> PktStore \<Rightarrow> u64 \<Rightarrow> bytes \<Rightarrow> nat \<Rightarrow> FPEntryB \<Rightarrow> bool option" where
  "content_test c ps fp packet ofs e = (
     if fpb_pktId e > 0 \<and> fpb_fp e = fp then do {
       pkt \<leftarrow> getPkt c ps (fpb_pktId e);
       (case pkt of None \<Rightarrow> Some False
        | Some p \<Rightarrow> memeq packet ofs (pe_pkt p) (fpb_offset e) BETA) }
     else Some False)"

text \<open>The chunk is the pointer \<open>packet + ofs\<close>.\<close>

definition getFPcontent :: "config \<Rightarrow> FPStore \<Rightarrow> PktStore \<Rightarrow> u64 \<Rightarrow> bytes \<Rightarrow> nat \<Rightarrow> FPEntryB option option" where
  "getFPcontent c fps ps fp packet ofs = bucket_of c fps fp \<bind> find_entry (content_test c ps fp packet ofs)"

text \<open>\<open>putFP\<close>: expire entries, look for the fingerprint, then store, update or count a collision.\<close>

definition expire_entry :: "int \<Rightarrow> FPEntryB \<Rightarrow> FPEntryB" where
  "expire_entry limit e = (if fpb_pktId e < limit then e\<lparr> fpb_pktId := 0 \<rparr> else e)"

text \<open>The last free position of a bucket, or \<open>PKTS_PER_FP\<close>.\<close>

definition last_empty :: "FPEntry \<Rightarrow> nat" where
  "last_empty b = foldl (\<lambda>pos i. if fpb_pktId (b ! i) = 0 then i else pos) PKTS_PER_FP [0..<PKTS_PER_FP]"

text \<open>The first position with the fingerprint, or \<open>PKTS_PER_FP\<close>.\<close>

definition fp_index :: "FPEntry \<Rightarrow> u64 \<Rightarrow> nat" where
  "fp_index b fp = length (takeWhile (\<lambda>e. fpb_fp e \<noteq> fp) (take PKTS_PER_FP b))"

text \<open>\<open>!memcmp\<close> of the windows of two entries whose packets are both present.\<close>

definition same_chunk :: "PktEntry option \<Rightarrow> nat \<Rightarrow> PktEntry option \<Rightarrow> nat \<Rightarrow> bool option" where
  "same_chunk a aoff b boff = (case (a, b) of
     (Some x, Some y) \<Rightarrow> memeq (pe_pkt y) boff (pe_pkt x) aoff BETA
   | _ \<Rightarrow> Some False)"

definition store_fp :: "FPEntry \<Rightarrow> nat \<Rightarrow> FPEntryB \<Rightarrow> Statistics \<Rightarrow> FPEntry \<times> Statistics" where
  "store_fp b emptyPos e st = (b[emptyPos := e], st\<lparr> numOfFPEntries := numOfFPEntries st + 1 \<rparr>)"

definition update_bucket ::
  "config \<Rightarrow> PktStore \<Rightarrow> FPEntryB \<Rightarrow> nat \<Rightarrow> FPEntry \<Rightarrow> Statistics \<Rightarrow> (FPEntry \<times> Statistics) option" where
  "update_bucket c ps e emptyPos b st = (
     let fpidx = fp_index b (fpb_fp e) in
     if fpidx = PKTS_PER_FP then
       if emptyPos < PKTS_PER_FP then Some (store_fp b emptyPos e st)
       else Some (b, st\<lparr> numberOfFPHashCollisions := numberOfFPHashCollisions st + 1 \<rparr>)
     else do {
       pktE \<leftarrow> getPkt c ps (fpb_pktId e);
       pktEbis \<leftarrow> getPkt c ps (fpb_pktId (b ! fpidx));
       same \<leftarrow> same_chunk pktE (fpb_offset e) pktEbis (fpb_offset (b ! fpidx));
       if same then Some (b[fpidx := e], st)
       else if emptyPos < PKTS_PER_FP then Some (store_fp b emptyPos e st)
       else Some (b, st) })"

definition putFP ::
  "config \<Rightarrow> PktStore \<Rightarrow> u64 \<Rightarrow> int \<Rightarrow> nat \<Rightarrow> FPStore \<times> Statistics \<Rightarrow> (FPStore \<times> Statistics) option" where
  "putFP c ps fp pktId offset s = (case s of (fps, st) \<Rightarrow> do {
     b \<leftarrow> bucket_of c fps fp;
     let b = map (expire_entry (pktId - uint (PKTSTORESIZE c))) b;
     (b, st) \<leftarrow> update_bucket c ps \<lparr> fpb_fp = fp, fpb_pktId = pktId, fpb_offset = offset \<rparr> (last_empty b) b st;
     Some (fps[unat (hashFPStore c fp) := b], st) })"

section \<open>Well-formed configurations\<close>

definition config_ok :: "config \<Rightarrow> bool" where
  "config_ok c \<longleftrightarrow>
     (\<exists>k\<in>{0..<32}. PKT_STORE_SIZE c = 2 ^ k) \<and> (\<exists>m\<in>{8..<32}. FP_STORE_SIZE c = 2 ^ m) \<and>
     1 \<le> unat (FPPERPKT c) \<and> unat (FPPERPKT c) \<le> MAX_FP_PER_PKT \<and>
     BETA \<le> MAX_PKT_SIZE c \<and> MAX_PKT_SIZE c < 65536"

lemma power2_word_minus_1:
  fixes w :: u32
  assumes "unat w = 2 ^ k" and "k < 32"
  shows "w - 1 = mask k"
proof -
  have "(2 :: nat) ^ k < 2 ^ 32" using assms(2) by (intro power_strict_increasing) simp_all
  then have "unat (of_nat (2 ^ k) :: u32) = 2 ^ k" by (simp add: unat_of_nat del: of_nat_power)
  then have "w = of_nat (2 ^ k)" using assms(1) by (simp only: word_unat_eq_iff)
  then have "w = 2 ^ k" by simp
  then show ?thesis by (simp add: mask_eq_exp_minus_1)
qed

lemma uint_mask32: "k < 32 \<Longrightarrow> uint (mask k :: u32) = mask k"
  by (rule bit_eqI) (auto simp: bit_simps)

lemma pkt_slot_mod:
  assumes "config_ok c"
  shows "pkt_slot c (int n) = n mod PKT_STORE_SIZE c"
proof -
  obtain k where k: "k < 32" "unat (PKTSTORESIZE c) = 2 ^ k"
    using assms by (auto simp: config_ok_def PKT_STORE_SIZE_def)
  have "int n AND uint (PKTSTORESIZE c - 1) = take_bit k (int n)"
    using k by (simp add: power2_word_minus_1 uint_mask32 take_bit_eq_mask)
  then show ?thesis
    by (simp add: pkt_slot_def take_bit_eq_mod PKT_STORE_SIZE_def k(2) nat_mod_distrib nat_power_eq)
qed

lemma pkt_slot_less: "config_ok c \<Longrightarrow> pkt_slot c (int n) < PKT_STORE_SIZE c"
  by (auto simp: pkt_slot_mod config_ok_def intro!: mod_less_divisor)

lemma xor_less_2p:
  fixes x y :: u32
  assumes "unat x < 2 ^ m" and "unat y < 2 ^ m"
  shows "unat (x XOR y) < 2 ^ m"
proof -
  have "take_bit m (unat x) = unat x" "take_bit m (unat y) = unat y"
    using assms by (simp_all add: take_bit_nat_eq_self_iff)
  then have "take_bit m (unat (x XOR y)) = unat (x XOR y)"
    by (simp add: unsigned_xor_eq take_bit_xor)
  then show ?thesis by (metis take_bit_nat_less_exp)
qed

lemma hashFPStore_less:
  assumes "config_ok c"
  shows "unat (hashFPStore c fp) < FP_STORE_SIZE c"
proof -
  obtain m where m: "8 \<le> m" "m < 32" "unat (FPSTORESIZE c) = 2 ^ m"
    using assms by (auto simp: config_ok_def FP_STORE_SIZE_def)
  define h3 :: u32 where "h3 = ucast (drop_bit GAMMA fp AND 0xffffffff) XOR
    ucast (drop_bit 32 (drop_bit GAMMA fp) AND 0xffffffff)"
  have h: "hashFPStore c fp = (h3 AND mask m) XOR drop_bit 24 h3"
    using m by (simp add: hashFPStore_def Let_def h3_def power2_word_minus_1)
  have a: "unat (h3 AND mask m) < 2 ^ m"
    by (simp add: take_bit_eq_mask [symmetric] unsigned_take_bit_eq)
  have "unat (drop_bit 24 h3) = unat h3 div 2 ^ 24" by (simp only: unat_drop_bit_eq drop_bit_eq_div [of 24 "unat h3"])
  moreover have "unat h3 < 2 ^ 8 * 2 ^ 24" using unsigned_less [of h3, where 'a = nat] by simp
  ultimately have "unat (drop_bit 24 h3) < 2 ^ 8" by (metis less_mult_imp_div_less)
  also have "(2 :: nat) ^ 8 \<le> 2 ^ m" using m(1) by (intro power_increasing) auto
  finally show ?thesis using a m(3) unfolding h FP_STORE_SIZE_def by (simp add: xor_less_2p)
qed

section \<open>The packet store as a window on the history\<close>

text \<open>
  The history is the list of all packets stored so far; packet number \<open>id\<close> is its
  \<open>id - 1\<close>-th element, and the live ones are the last \<open>PKTSTORESIZE\<close>.
\<close>

definition live :: "config \<Rightarrow> bytes list \<Rightarrow> int \<Rightarrow> bool" where
  "live c hist pid \<longleftrightarrow> 1 \<le> pid \<and> pid \<le> int (length hist) \<and>
     int (length hist) + 1 - int (PKT_STORE_SIZE c) \<le> pid"

definition pkt_of :: "bytes list \<Rightarrow> int \<Rightarrow> bytes" where
  "pkt_of hist pid = hist ! nat (pid - 1)"

definition entry_holds :: "PktEntry \<Rightarrow> bytes \<Rightarrow> bool" where
  "entry_holds e p \<longleftrightarrow> pe_len e = length p \<and> take (length p) (pe_pkt e) = p \<and> pe_hash e = packet_hash p"

definition hist_ok :: "config \<Rightarrow> bytes list \<Rightarrow> bool" where
  "hist_ok c hist \<longleftrightarrow> (\<forall>p\<in>set hist. BETA \<le> length p \<and> length p \<le> MAX_PKT_SIZE c)"

definition ps_rep :: "config \<Rightarrow> bytes list \<Rightarrow> PktStore \<Rightarrow> bool" where
  "ps_rep c hist ps \<longleftrightarrow>
     ps_pktId ps = int (length hist) + 1 \<and> length (ps_pkts ps) = PKT_STORE_SIZE c \<and>
     (\<forall>e\<in>set (ps_pkts ps). length (pe_pkt e) = MAX_PKT_SIZE c) \<and> hist_ok c hist \<and>
     (\<forall>pid. live c hist pid \<longrightarrow> entry_holds (ps_pkts ps ! pkt_slot c pid) (pkt_of hist pid))"

text \<open>The contract of a bounded packet store, as its clients use it.\<close>

locale packet_store =
  fixes get :: "'s \<Rightarrow> int \<Rightarrow> 'e option option"
    and put :: "'s \<Rightarrow> bytes \<Rightarrow> 's option"
    and holds :: "'e \<Rightarrow> bytes \<Rightarrow> bool"
    and rep :: "bytes list \<Rightarrow> 's \<Rightarrow> bool"
    and acceptable :: "bytes \<Rightarrow> bool"
    and capacity :: nat
  assumes put_rep: "rep hist s \<Longrightarrow> acceptable p \<Longrightarrow> \<exists>s'. put s p = Some s' \<and> rep (hist @ [p]) s'"
    and get_recent: "rep hist s \<Longrightarrow> n < length hist \<Longrightarrow> length hist \<le> n + capacity \<Longrightarrow>
      \<exists>e. get s (int n + 1) = Some (Some e) \<and> holds e (hist ! n)"
    and get_expired: "rep hist s \<Longrightarrow> n + capacity < length hist \<Longrightarrow> get s (int n + 1) = Some None"
begin

lemma put_all:
  "rep hist s \<Longrightarrow> \<forall>p\<in>set ps. acceptable p \<Longrightarrow> \<exists>s'. foldM (\<lambda>p s. put s p) ps s = Some s' \<and> rep (hist @ ps) s'"
proof (induction ps arbitrary: hist s)
  case (Cons p ps)
  then obtain s1 where "put s p = Some s1" "rep (hist @ [p]) s1" using put_rep by (meson list.set_intros(1))
  with Cons.IH [of "hist @ [p]" s1] Cons.prems show ?case by simp
qed simp

lemma sliding_window:
  assumes "rep [] s" and "\<forall>p\<in>set ps. acceptable p"
  shows "\<exists>s'. foldM (\<lambda>p s. put s p) ps s = Some s' \<and>
    (\<forall>n < length ps. if length ps \<le> n + capacity
       then \<exists>e. get s' (int n + 1) = Some (Some e) \<and> holds e (ps ! n)
       else get s' (int n + 1) = Some None)"
proof -
  obtain s' where s': "foldM (\<lambda>p s. put s p) ps s = Some s'" "rep ps s'"
    using put_all [OF assms] by auto
  then show ?thesis using get_recent [OF s'(2)] get_expired [OF s'(2)] by auto
qed

end


lemma PKT_STORE_SIZE_pos: "config_ok c \<Longrightarrow> 0 < PKT_STORE_SIZE c"
  by (auto simp: config_ok_def)

lemma uint_PKTSTORESIZE: "uint (PKTSTORESIZE c) = int (PKT_STORE_SIZE c)"
  by (simp add: PKT_STORE_SIZE_def)

lemma live_nat:
  assumes "live c hist pid"
  obtains n where "pid = int (Suc n)" and "n < length hist" and "length hist \<le> n + PKT_STORE_SIZE c"
    and "pkt_of hist pid = hist ! n"
proof -
  have "pid = int (Suc (nat (pid - 1)))" using assms by (simp add: live_def)
  moreover have "nat (pid - 1) < length hist" using assms by (simp add: live_def nat_less_iff)
  moreover have "length hist \<le> nat (pid - 1) + PKT_STORE_SIZE c"
    using assms by (simp add: live_def) linarith
  ultimately show ?thesis using that [of "nat (pid - 1)"] by (simp add: pkt_of_def)
qed

lemma live_Suc:
  "live c hist (int n + 1) \<longleftrightarrow> n < length hist \<and> length hist \<le> n + PKT_STORE_SIZE c"
  by (auto simp: live_def)

lemma getPkt_live:
  assumes "config_ok c" and "ps_rep c hist ps" and "live c hist pid"
  obtains e where "getPkt c ps pid = Some (Some e)" and "entry_holds e (pkt_of hist pid)"
    and "length (pe_pkt e) = MAX_PKT_SIZE c"
proof -
  obtain n where n: "pid = int (Suc n)" using live_nat [OF assms(3)] by metis
  then have slot: "pkt_slot c pid < length (ps_pkts ps)"
    using assms(1,2) pkt_slot_less [of c "Suc n"] by (simp add: ps_rep_def)
  have "getPkt c ps pid = Some (Some (ps_pkts ps ! pkt_slot c pid))"
    using assms slot by (auto simp: getPkt_def ps_rep_def live_def uint_PKTSTORESIZE)
  moreover have "entry_holds (ps_pkts ps ! pkt_slot c pid) (pkt_of hist pid)"
    using assms(2,3) by (simp add: ps_rep_def)
  ultimately show ?thesis using that assms(2) slot by (simp add: ps_rep_def)
qed

lemma getPkt_dead:
  assumes "ps_rep c hist ps" and "\<not> live c hist pid" and "0 \<le> pid" and "pid \<le> int (length hist)"
    and "pid = 0 \<longrightarrow> PKT_STORE_SIZE c \<le> length hist"
  shows "getPkt c ps pid = Some None"
  using assms by (auto simp: getPkt_def ps_rep_def live_def uint_PKTSTORESIZE)

text \<open>Two live packets never share a slot, and the slot a new packet takes belongs to the one that
  leaves the window.\<close>

lemma slot_distinct:
  assumes "config_ok c" and "m \<noteq> n" and "m < n + PKT_STORE_SIZE c" and "n < m + PKT_STORE_SIZE c"
  shows "pkt_slot c (int m) \<noteq> pkt_slot c (int n)"
proof
  assume "pkt_slot c (int m) = pkt_slot c (int n)"
  then have "m mod PKT_STORE_SIZE c = n mod PKT_STORE_SIZE c" using assms(1) by (simp add: pkt_slot_mod)
  then obtain q where "m = n + q * PKT_STORE_SIZE c \<or> n = m + q * PKT_STORE_SIZE c"
    by (metis mod_eq_nat1E mod_eq_nat2E nle_le mult.commute)
  then show False using assms(2-4) by (cases q) auto
qed

lemma ps_rep_put:
  assumes ok: "config_ok c" and rep: "ps_rep c hist ps" and p: "BETA \<le> n" "n \<le> MAX_PKT_SIZE c" "n \<le> length p"
  shows "\<exists>ps'. putPkt c ps p n (packet_hash (take n p)) = Some (ps', int (length hist) + 1) \<and>
    ps_rep c (hist @ [take n p]) ps'"
proof -
  let ?N = "Suc (length hist)" and ?q = "take n p"
  let ?i = "pkt_slot c (int ?N)"
  have i: "?i < length (ps_pkts ps)" using pkt_slot_less [OF ok, of ?N] rep by (simp add: ps_rep_def)
  have len: "length (pe_pkt (ps_pkts ps ! ?i)) = MAX_PKT_SIZE c" using i rep by (simp add: ps_rep_def)
  define e where "e = \<lparr> pe_pkt = ?q @ drop n (pe_pkt (ps_pkts ps ! ?i)), pe_len = n, pe_hash = packet_hash ?q \<rparr>"
  define ps' where "ps' = ps\<lparr> ps_pkts := (ps_pkts ps)[?i := e], ps_pktId := ps_pktId ps + 1 \<rparr>"
  have N: "ps_pktId ps = int ?N" using rep by (simp add: ps_rep_def)
  have put: "putPkt c ps p n (packet_hash ?q) = Some (ps', int (length hist) + 1)"
    using i len p by (simp add: putPkt_def Let_def N mem_simps ps'_def e_def)
  have "entry_holds (ps_pkts ps' ! pkt_slot c pid) (pkt_of (hist @ [?q]) pid)" if l: "live c (hist @ [?q]) pid" for pid
  proof -
    from l obtain m where m: "pid = int (Suc m)" "m < ?N" "?N \<le> m + PKT_STORE_SIZE c"
      "pkt_of (hist @ [?q]) pid = (hist @ [?q]) ! m" by (rule live_nat) simp
    show ?thesis
    proof (cases "m = length hist")
      case True
      then show ?thesis using m i p by (simp add: ps'_def e_def entry_holds_def min_def)
    next
      case False
      then have "live c hist pid" "pkt_of hist pid = hist ! m"
        using m by (auto simp: live_def pkt_of_def)
      then have "entry_holds (ps_pkts ps ! pkt_slot c pid) (hist ! m)"
        using rep unfolding ps_rep_def by metis
      moreover have "pkt_slot c pid \<noteq> ?i"
        using slot_distinct [OF ok, of "Suc m" ?N] m False by auto
      ultimately show ?thesis
        using m False by (simp add: ps'_def nth_append)
    qed
  qed
  moreover have "\<forall>e'\<in>set (ps_pkts ps'). length (pe_pkt e') = MAX_PKT_SIZE c"
    using rep len p set_update_subset_insert [of "ps_pkts ps" ?i e]
    by (auto simp: ps'_def ps_rep_def e_def)
  moreover have "hist_ok c (hist @ [?q])"
    using rep p by (auto simp: ps_rep_def hist_ok_def)
  ultimately have "ps_rep c (hist @ [?q]) ps'"
    using rep N by (simp add: ps_rep_def ps'_def)
  with put show ?thesis by blast
qed

text \<open>The packet store of the model is a \<open>packet_store\<close>, under a well-formed configuration.\<close>

definition put_packet :: "config \<Rightarrow> PktStore \<Rightarrow> bytes \<Rightarrow> PktStore option" where
  "put_packet c ps p = putPkt c ps p (length p) (packet_hash p) \<bind> (\<lambda>(ps', _). Some ps')"

definition storable :: "config \<Rightarrow> bytes \<Rightarrow> bool" where
  "storable c p \<longleftrightarrow> BETA \<le> length p \<and> length p \<le> MAX_PKT_SIZE c"

definition store_rep :: "config \<Rightarrow> bytes list \<Rightarrow> PktStore \<Rightarrow> bool" where
  "store_rep c hist ps \<longleftrightarrow> config_ok c \<and> ps_rep c hist ps"

interpretation ring: packet_store "getPkt c" "put_packet c" entry_holds "store_rep c" "storable c" "PKT_STORE_SIZE c"
  for c
proof
  fix hist s p
  assume "store_rep c hist s"
  then have ok: "config_ok c" and rep: "ps_rep c hist s" by (simp_all add: store_rep_def)
  show "\<exists>s'. put_packet c s p = Some s' \<and> store_rep c (hist @ [p]) s'" if "storable c p"
    using ps_rep_put [OF ok rep, of "length p" p] that ok by (auto simp: put_packet_def storable_def store_rep_def)
  fix n
  show "\<exists>e. getPkt c s (int n + 1) = Some (Some e) \<and> entry_holds e (hist ! n)"
    if n: "n < length hist" "length hist \<le> n + PKT_STORE_SIZE c"
  proof -
    have "live c hist (int n + 1)" using n by (simp add: live_Suc)
    then obtain e where "getPkt c s (int n + 1) = Some (Some e)" "entry_holds e (pkt_of hist (int n + 1))"
      by (rule getPkt_live [OF ok rep])
    then show ?thesis by (simp add: pkt_of_def)
  qed
  show "getPkt c s (int n + 1) = Some None" if "n + PKT_STORE_SIZE c < length hist"
    using getPkt_dead [OF rep, of "int n + 1"] that by (simp add: live_Suc)
qed

text \<open>A small configuration for concrete runs: two packets of at most 100 bytes, 1024 buckets.\<close>

definition demo_config :: config where
  "demo_config = init_common 2 100 8 64 False"

lemma demo_sizes [simp]:
  "PKT_STORE_SIZE demo_config = 2" "FP_STORE_SIZE demo_config = 2 ^ 10" "MAX_PKT_SIZE demo_config = 100"
  "unat (FPPERPKT demo_config) = 8" "\<not> shared_dictionary_mode demo_config"
  by (simp_all add: demo_config_def init_common_def PKT_STORE_SIZE_def FP_STORE_SIZE_def MAX_PKT_SIZE_def)

lemma demo_config_ok: "config_ok demo_config"
proof -
  have "\<exists>k\<in>{0..<32}. PKT_STORE_SIZE demo_config = 2 ^ k" unfolding demo_sizes by (rule bexI [of _ 1]) simp_all
  moreover have "\<exists>m\<in>{8..<32}. FP_STORE_SIZE demo_config = 2 ^ m" unfolding demo_sizes by (rule bexI [of _ 10]) simp_all
  ultimately show ?thesis by (simp only: config_ok_def demo_sizes) simp
qed

text \<open>(C11) The packet store keeps exactly the last \<open>PKTSTORESIZE\<close> packets: storing any sequence of
  packets with \<open>putPkt\<close> in an empty store never faults, and afterwards \<open>getPkt\<close> of packet number
  \<open>n + 1\<close> returns a slot with that packet's bytes, length and hash if it is among the last
  \<open>PKTSTORESIZE\<close> and the null pointer if it is older.\<close>

theorem packet_store_window:
  assumes "config_ok c" and "ps_rep c [] ps" and "\<forall>p\<in>set pkts. storable c p"
  shows "\<exists>ps'. foldM (\<lambda>p s. put_packet c s p) pkts ps = Some ps' \<and>
    (\<forall>n < length pkts. if length pkts \<le> n + PKT_STORE_SIZE c
       then \<exists>e. getPkt c ps' (int n + 1) = Some (Some e) \<and> entry_holds e (pkts ! n)
       else getPkt c ps' (int n + 1) = Some None)"
  using ring.sliding_window [of c ps pkts] assms by (simp add: store_rep_def)

theorem packet_store_window_witness:
  "let ps = \<lparr> ps_pkts = replicate 2 \<lparr> pe_pkt = replicate 100 0, pe_len = 0, pe_hash = 0 \<rparr>, ps_pktId = 1 \<rparr>;
       pkts = [replicate 64 1, replicate 70 2, replicate 80 3] in
   \<exists>ps'. foldM (\<lambda>p s. put_packet demo_config s p) pkts ps = Some ps' \<and>
     getPkt demo_config ps' 1 = Some None \<and>
     (\<exists>e. getPkt demo_config ps' 3 = Some (Some e) \<and> entry_holds e (replicate 80 3))"
proof -
  let ?c = demo_config
  let ?ps = "\<lparr> ps_pkts = replicate 2 \<lparr> pe_pkt = replicate 100 0, pe_len = 0, pe_hash = 0 \<rparr>, ps_pktId = 1 \<rparr>"
  let ?pkts = "[replicate 64 1, replicate 70 2, replicate 80 3] :: bytes list"
  have "ps_rep ?c [] ?ps" by (auto simp: ps_rep_def hist_ok_def live_def)
  moreover have "\<forall>p\<in>set ?pkts. storable ?c p" by (simp add: storable_def)
  ultimately obtain ps' where f: "foldM (\<lambda>p s. put_packet ?c s p) ?pkts ?ps = Some ps'"
    and w: "\<forall>n < length ?pkts. if length ?pkts \<le> n + PKT_STORE_SIZE ?c
       then \<exists>e. getPkt ?c ps' (int n + 1) = Some (Some e) \<and> entry_holds e (?pkts ! n)
       else getPkt ?c ps' (int n + 1) = Some None"
    using packet_store_window [OF demo_config_ok, of ?ps ?pkts] by blast
  have "getPkt ?c ps' 1 = Some None" using w [rule_format, of 0] by simp
  moreover have "\<exists>e. getPkt ?c ps' 3 = Some (Some e) \<and> entry_holds e (replicate 80 3)"
    using w [rule_format, of 2] by simp
  ultimately show ?thesis using f by (simp only: Let_def) blast
qed

end
