(* ===== verification/Fingerprint_Store.thy ===== *)
theory Fingerprint_Store
  imports Packet_Dictionary
begin

text \<open>
  The fingerprint store against the history of stored packets: its invariant, what a lookup by
  content and by hash returns, and the refinement of \<open>putFP\<close> to a function on abstract
  fingerprint tables.  Two hosts whose tables agree abstractly take the same steps, whatever
  uninitialised memory their stores started with.
\<close>

section \<open>Invariant\<close>

definition UINT64_MAX :: u64 where "UINT64_MAX = 0xffffffffffffffff"

definition fp_ok :: "bytes list \<Rightarrow> u64 \<Rightarrow> int \<Rightarrow> nat \<Rightarrow> bool" where
  "fp_ok hist fp pid ofs \<longleftrightarrow>
     ofs + BETA \<le> length (pkt_of hist pid) \<and> fp = rfp_at (pkt_of hist pid) ofs"

text \<open>A free entry (\<open>pktId = 0\<close>) is a fresh one, or it was expired, and then packet 0 is out of
  the window too.\<close>

definition entry_ok :: "config \<Rightarrow> bytes list \<Rightarrow> FPEntryB \<Rightarrow> bool" where
  "entry_ok c hist e \<longleftrightarrow> 0 \<le> fpb_pktId e \<and> fpb_pktId e \<le> int (length hist) \<and>
     (if fpb_pktId e = 0 then fpb_fp e = UINT64_MAX \<or> PKT_STORE_SIZE c \<le> length hist
      else fp_ok hist (fpb_fp e) (fpb_pktId e) (fpb_offset e))"

definition bucket_ok :: "config \<Rightarrow> bytes list \<Rightarrow> FPEntry \<Rightarrow> bool" where
  "bucket_ok c hist b \<longleftrightarrow> length b = PKTS_PER_FP \<and> (\<forall>e\<in>set b. entry_ok c hist e)"

definition fps_rep :: "config \<Rightarrow> bytes list \<Rightarrow> FPStore \<Rightarrow> bool" where
  "fps_rep c hist fps \<longleftrightarrow> length fps = FP_STORE_SIZE c \<and> (\<forall>b\<in>set fps. bucket_ok c hist b)"

lemma pkt_of_append: "1 \<le> pid \<Longrightarrow> pid \<le> int (length hist) \<Longrightarrow> pkt_of (hist @ hs) pid = pkt_of hist pid"
  by (simp add: pkt_of_def nth_append) linarith

lemma entry_ok_append: "entry_ok c hist e \<Longrightarrow> entry_ok c (hist @ hs) e"
  by (auto simp: entry_ok_def fp_ok_def pkt_of_append split: if_splits)

lemma fps_rep_append: "fps_rep c hist fps \<Longrightarrow> fps_rep c (hist @ hs) fps"
  by (simp add: fps_rep_def bucket_ok_def entry_ok_append)

text \<open>A fingerprint of a window is below \<open>2 ^ 60\<close>, so it is never the value of a fresh entry.\<close>

lemma rfp_not_max: "rfp_window w \<noteq> UINT64_MAX" if "length w = BETA"
proof -
  have "uint (rfp_window w) < 2 ^ 60"
    using that by (simp add: rfp_window_rabin rabin_def fp_modulus_def)
  moreover have "uint UINT64_MAX = 2 ^ 64 - 1" by (simp add: UINT64_MAX_def)
  ultimately show ?thesis by auto
qed

lemma rfp_at_not_max: "ofs + BETA \<le> length p \<Longrightarrow> rfp_at p ofs \<noteq> UINT64_MAX"
  by (simp add: rfp_not_max)

lemma bucket_of_ok:
  assumes "config_ok c" and "fps_rep c hist fps"
  shows "bucket_of c fps fp = Some (fps ! unat (hashFPStore c fp))"
    and "bucket_ok c hist (fps ! unat (hashFPStore c fp))"
    and "unat (hashFPStore c fp) < length fps"
proof -
  show less: "unat (hashFPStore c fp) < length fps"
    using hashFPStore_less [OF assms(1)] assms(2) by (simp add: fps_rep_def)
  then show "bucket_of c fps fp = Some (fps ! unat (hashFPStore c fp))" by (simp add: bucket_of_def)
  show "bucket_ok c hist (fps ! unat (hashFPStore c fp))"
    using less assms(2) by (simp add: fps_rep_def)
qed

section \<open>Searching a bucket\<close>

lemma find_entry_total:
  assumes "\<And>e. e \<in> set es \<Longrightarrow> \<exists>b. test e = Some b"
  shows "\<exists>r. find_entry test es = Some r"
  using assms
proof (induction es)
  case (Cons e es)
  then obtain b where "test e = Some b" by (meson list.set_intros(1))
  with Cons show ?case by (cases b) simp_all
qed simp

lemma find_entry_found: "find_entry test es = Some (Some e) \<Longrightarrow> e \<in> set es \<and> test e = Some True"
proof (induction es)
  case (Cons a es)
  then show ?case by (cases "test a") (auto split: if_splits)
qed simp

lemma find_entry_complete:
  assumes "\<And>e. e \<in> set es \<Longrightarrow> \<exists>b. test e = Some b" and "e \<in> set es" and "test e = Some True"
  shows "\<exists>e'. find_entry test es = Some (Some e')"
  using assms
proof (induction es)
  case (Cons a es)
  then obtain b where "test a = Some b" by (meson list.set_intros(1))
  with Cons show ?case by (cases b) auto
qed simp

text \<open>An entry is either live, and then \<open>getPkt\<close> returns its packet, or the null pointer comes back;
  the exception, a fresh entry while the store is not full, never carries a window's fingerprint.\<close>

lemma getPkt_entry:
  assumes "config_ok c" and "ps_rep c hist ps" and "entry_ok c hist e"
    and "fpb_pktId e = 0 \<longrightarrow> fpb_fp e \<noteq> UINT64_MAX"
  shows "if live c hist (fpb_pktId e)
     then \<exists>pe. getPkt c ps (fpb_pktId e) = Some (Some pe) \<and> entry_holds pe (pkt_of hist (fpb_pktId e))
        \<and> length (pe_pkt pe) = MAX_PKT_SIZE c
     else getPkt c ps (fpb_pktId e) = Some None"
proof (cases "live c hist (fpb_pktId e)")
  case True
  then show ?thesis using getPkt_live [OF assms(1,2) True] by metis
next
  case False
  then show ?thesis using getPkt_dead [OF assms(2) False] assms(3,4) by (auto simp: entry_ok_def split: if_splits)
qed

lemma live_len:
  assumes "hist_ok c hist" and "live c hist pid"
  shows "BETA \<le> length (pkt_of hist pid)" and "length (pkt_of hist pid) \<le> MAX_PKT_SIZE c"
proof -
  obtain n where "n < length hist" "pkt_of hist pid = hist ! n" using live_nat [OF assms(2)] by metis
  then show "BETA \<le> length (pkt_of hist pid)" "length (pkt_of hist pid) \<le> MAX_PKT_SIZE c"
    using assms(1) by (simp_all add: hist_ok_def)
qed

text \<open>A window of a stored packet, read from its slot.\<close>

lemma entry_window:
  assumes "entry_holds pe q" and "ofs + n \<le> length q"
  shows "take n (drop ofs (pe_pkt pe)) = take n (drop ofs q)" and "ofs + n \<le> length (pe_pkt pe)"
proof -
  have q: "q = take (length q) (pe_pkt pe)" using assms(1) by (simp add: entry_holds_def)
  then have "length q \<le> length (pe_pkt pe)" by (metis length_take min.cobounded1 min.commute)
  then show "ofs + n \<le> length (pe_pkt pe)" using assms(2) by simp
  have "take n (drop ofs q) = take n (drop ofs (take (length q) (pe_pkt pe)))" using q by simp
  also have "\<dots> = take n (drop ofs (pe_pkt pe))" using assms(2) by (simp add: drop_take min_def)
  finally show "take n (drop ofs (pe_pkt pe)) = take n (drop ofs q)" by simp
qed

section \<open>Lookups\<close>

text \<open>What the two tests decide about an entry, in terms of the history.\<close>

definition content_match :: "config \<Rightarrow> bytes list \<Rightarrow> u64 \<Rightarrow> bytes \<Rightarrow> nat \<Rightarrow> FPEntryB \<Rightarrow> bool" where
  "content_match c hist fp packet ofs e \<longleftrightarrow> live c hist (fpb_pktId e) \<and> fpb_fp e = fp \<and>
     take BETA (drop ofs packet) = take BETA (drop (fpb_offset e) (pkt_of hist (fpb_pktId e)))"

definition hash_match :: "config \<Rightarrow> bytes list \<Rightarrow> u64 \<Rightarrow> u32 \<Rightarrow> FPEntryB \<Rightarrow> bool" where
  "hash_match c hist fp h e \<longleftrightarrow> fpb_fp e = fp \<and> live c hist (fpb_pktId e) \<and>
     packet_hash (pkt_of hist (fpb_pktId e)) = h"

lemma content_test_ok:
  assumes "config_ok c" and "ps_rep c hist ps" and "entry_ok c hist e" and "ofs + BETA \<le> length packet"
  shows "content_test c ps fp packet ofs e = Some (content_match c hist fp packet ofs e)"
proof (cases "fpb_pktId e > 0 \<and> fpb_fp e = fp")
  case True
  then have ok: "fp_ok hist fp (fpb_pktId e) (fpb_offset e)" using assms(3) by (simp add: entry_ok_def)
  show ?thesis
  proof (cases "live c hist (fpb_pktId e)")
    case live: True
    then obtain pe where pe: "getPkt c ps (fpb_pktId e) = Some (Some pe)"
      "entry_holds pe (pkt_of hist (fpb_pktId e))" by (rule getPkt_live [OF assms(1,2)])
    have "fpb_offset e + BETA \<le> length (pkt_of hist (fpb_pktId e))" using ok by (simp add: fp_ok_def)
    note w = entry_window [OF pe(2) this]
    show ?thesis
      using True live pe(1) w assms(4) by (simp add: content_test_def mem_simps content_match_def)
  next
    case False
    then have "getPkt c ps (fpb_pktId e) = Some None"
      using getPkt_dead [OF assms(2) False] assms(3) True by (simp add: entry_ok_def)
    then show ?thesis using True False by (simp add: content_test_def content_match_def)
  qed
next
  case False
  then show ?thesis by (auto simp: content_test_def live_def content_match_def)
qed

lemma getFPcontent_ok:
  assumes "config_ok c" and "ps_rep c hist ps" and "fps_rep c hist fps" and "ofs + BETA \<le> length packet"
  shows "\<exists>r. getFPcontent c fps ps fp packet ofs = Some r \<and> (\<forall>e. r = Some e \<longrightarrow>
     e \<in> set (fps ! unat (hashFPStore c fp)) \<and> content_match c hist fp packet ofs e \<and>
     fpb_offset e + BETA \<le> length (pkt_of hist (fpb_pktId e)))"
proof -
  let ?b = "fps ! unat (hashFPStore c fp)"
  note b = bucket_of_ok [OF assms(1,3), of fp]
  have t: "content_test c ps fp packet ofs e = Some (content_match c hist fp packet ofs e)"
    if "e \<in> set ?b" for e
    using content_test_ok [OF assms(1,2) _ assms(4)] b(2) that by (simp add: bucket_ok_def)
  obtain r where r: "find_entry (content_test c ps fp packet ofs) ?b = Some r"
    using find_entry_total [of ?b] t by blast
  have "e \<in> set ?b \<and> content_match c hist fp packet ofs e \<and>
     fpb_offset e + BETA \<le> length (pkt_of hist (fpb_pktId e))"
    if "r = Some e" for e
  proof -
    have e: "e \<in> set ?b" "content_test c ps fp packet ofs e = Some True"
      using find_entry_found [OF r [unfolded that]] by simp_all
    then have m: "content_match c hist fp packet ofs e" using t by auto
    have "entry_ok c hist e" using b(2) e(1) by (simp add: bucket_ok_def)
    then have "fp_ok hist (fpb_fp e) (fpb_pktId e) (fpb_offset e)"
      using m by (simp add: entry_ok_def content_match_def live_def split: if_splits)
    then show ?thesis using e(1) m by (simp add: fp_ok_def)
  qed
  moreover have "getFPcontent c fps ps fp packet ofs = Some r"
    using r by (simp only: getFPcontent_def b(1) Option.bind.simps)
  ultimately show ?thesis by blast
qed

lemma hash_test_ok:
  assumes "config_ok c" and "ps_rep c hist ps" and "entry_ok c hist e" and "fp \<noteq> UINT64_MAX"
  shows "hash_test c ps fp h e = Some (hash_match c hist fp h e)"
proof (cases "fpb_fp e = fp")
  case True
  then have x: "if live c hist (fpb_pktId e)
     then \<exists>pe. getPkt c ps (fpb_pktId e) = Some (Some pe) \<and> entry_holds pe (pkt_of hist (fpb_pktId e))
        \<and> length (pe_pkt pe) = MAX_PKT_SIZE c
     else getPkt c ps (fpb_pktId e) = Some None"
    using getPkt_entry [OF assms(1-3)] assms(4) by simp
  show ?thesis
  proof (cases "live c hist (fpb_pktId e)")
    case live: True
    then show ?thesis using x True by (auto simp: hash_test_def entry_holds_def hash_match_def)
  next
    case False
    then show ?thesis using x True by (simp add: hash_test_def hash_match_def)
  qed
next
  case False
  then show ?thesis by (simp add: hash_test_def hash_match_def)
qed

lemma getFPhash_ok:
  assumes "config_ok c" and "ps_rep c hist ps" and "fps_rep c hist fps" and "fp \<noteq> UINT64_MAX"
    and "e \<in> set (fps ! unat (hashFPStore c fp))" and "hash_match c hist fp h e"
  shows "\<exists>e'. getFPhash c fps ps fp h = Some (Some e') \<and> hash_match c hist fp h e'"
proof -
  let ?b = "fps ! unat (hashFPStore c fp)"
  note b = bucket_of_ok [OF assms(1,3), of fp]
  have t: "hash_test c ps fp h e = Some (hash_match c hist fp h e)" if "e \<in> set ?b" for e
    using hash_test_ok [OF assms(1,2) _ assms(4)] b(2) that by (simp add: bucket_ok_def)
  obtain e' where e': "find_entry (hash_test c ps fp h) ?b = Some (Some e')"
    using find_entry_complete [of ?b "hash_test c ps fp h" e] t assms(5-) by auto
  then have "e' \<in> set ?b" "hash_test c ps fp h e' = Some True"
    using find_entry_found [OF e'] by simp_all
  then have "hash_match c hist fp h e'" using t by auto
  moreover have "getFPhash c fps ps fp h = Some (Some e')"
    using e' by (simp only: getFPhash_def b(1) Option.bind.simps)
  ultimately show ?thesis by blast
qed

section \<open>The abstract table\<close>

definition norm_entry :: "FPEntryB \<Rightarrow> FPEntryB" where
  "norm_entry e = (if fpb_pktId e = 0 then e\<lparr> fpb_offset := 0 \<rparr> else e)"

definition abs_fps :: "FPStore \<Rightarrow> FPStore" where
  "abs_fps fps = map (map norm_entry) fps"

text \<open>What \<open>putFP\<close> does, in terms of the history alone.\<close>

definition same_window :: "config \<Rightarrow> bytes list \<Rightarrow> FPEntryB \<Rightarrow> FPEntryB \<Rightarrow> bool" where
  "same_window c hist e e' \<longleftrightarrow> live c hist (fpb_pktId e) \<and> live c hist (fpb_pktId e') \<and>
     take BETA (drop (fpb_offset e) (pkt_of hist (fpb_pktId e))) =
     take BETA (drop (fpb_offset e') (pkt_of hist (fpb_pktId e')))"

definition spec_bucket :: "config \<Rightarrow> bytes list \<Rightarrow> FPEntryB \<Rightarrow> nat \<Rightarrow> FPEntry \<Rightarrow> FPEntry" where
  "spec_bucket c hist e emptyPos b = (
     let i = fp_index b (fpb_fp e) in
     if i < PKTS_PER_FP \<and> same_window c hist e (b ! i) then b[i := e]
     else if emptyPos < PKTS_PER_FP then b[emptyPos := e]
     else b)"

definition spec_putFP :: "config \<Rightarrow> bytes list \<Rightarrow> rel_fp \<Rightarrow> FPStore \<Rightarrow> FPStore" where
  "spec_putFP c hist f fps = (case f of (fp, ofs) \<Rightarrow>
     let i = unat (hashFPStore c fp);
         pid = int (length hist);
         b = map (norm_entry \<circ> expire_entry (pid - int (PKT_STORE_SIZE c))) (fps ! i)
     in fps[i := spec_bucket c hist \<lparr> fpb_fp = fp, fpb_pktId = pid, fpb_offset = ofs \<rparr> (last_empty b) b])"

lemma fp_index_le: "fp_index b fp \<le> PKTS_PER_FP"
  unfolding fp_index_def by (metis length_take length_takeWhile_le min.bounded_iff)

lemma fp_index_found:
  assumes "fp_index b fp < PKTS_PER_FP" and "length b = PKTS_PER_FP"
  shows "fpb_fp (b ! fp_index b fp) = fp"
proof -
  have "fp_index b fp < length b" using assms by simp
  then show ?thesis using nth_length_takeWhile [of "\<lambda>e. fpb_fp e \<noteq> fp" b] assms(2) by (simp add: fp_index_def)
qed

lemma fp_index_norm [simp]: "fp_index (map norm_entry b) fp = fp_index b fp"
proof -
  have "(\<lambda>e. fpb_fp e \<noteq> fp) \<circ> norm_entry = (\<lambda>e. fpb_fp e \<noteq> fp)"
    by (rule ext) (simp add: norm_entry_def)
  then show ?thesis by (simp add: fp_index_def take_map takeWhile_map)
qed

lemma last_empty_norm [simp]: "length b = PKTS_PER_FP \<Longrightarrow> last_empty (map norm_entry b) = last_empty b"
proof -
  assume l: "length b = PKTS_PER_FP"
  have "fpb_pktId (norm_entry e) = fpb_pktId e" for e by (simp add: norm_entry_def)
  then show ?thesis unfolding last_empty_def by (intro foldl_cong) (simp_all add: l)
qed

lemma last_empty_le: "last_empty b \<le> PKTS_PER_FP"
  by (simp add: last_empty_def upt_rec)

lemma same_window_norm: "same_window c hist e (norm_entry e') = same_window c hist e e'"
  by (auto simp: same_window_def norm_entry_def live_def)

lemma spec_bucket_norm:
  assumes "length b = PKTS_PER_FP" and "fpb_pktId e \<noteq> 0"
  shows "map norm_entry (spec_bucket c hist e pos b) = spec_bucket c hist e pos (map norm_entry b)"
proof -
  let ?i = "fp_index b (fpb_fp e)"
  have "norm_entry e = e" using assms(2) by (simp add: norm_entry_def)
  moreover have "same_window c hist e (map norm_entry b ! ?i) = same_window c hist e (b ! ?i)"
    if "?i < PKTS_PER_FP" using that assms(1) by (simp add: same_window_norm)
  ultimately show ?thesis
    by (cases "?i < PKTS_PER_FP \<and> same_window c hist e (b ! ?i)"; cases "pos < PKTS_PER_FP")
      (auto simp: spec_bucket_def Let_def map_update)
qed


section \<open>Refinement of \<open>putFP\<close>\<close>

text \<open>Two statistics that differ at most in the two counters of \<open>putFP\<close>.\<close>

definition fp_counters :: "Statistics \<Rightarrow> Statistics \<Rightarrow> bool" where
  "fp_counters st st' \<longleftrightarrow>
     st\<lparr> numOfFPEntries := 0, numberOfFPHashCollisions := 0 \<rparr> =
     st'\<lparr> numOfFPEntries := 0, numberOfFPHashCollisions := 0 \<rparr>"

lemma fp_counters_refl [intro, simp]: "fp_counters st st"
  by (simp add: fp_counters_def)

lemma fp_counters_trans: "fp_counters a b \<Longrightarrow> fp_counters b c \<Longrightarrow> fp_counters a c"
  by (simp add: fp_counters_def)

lemma fp_counters_updates [simp]:
  "fp_counters st (st\<lparr> numOfFPEntries := a \<rparr>)" "fp_counters st (st\<lparr> numberOfFPHashCollisions := b \<rparr>)"
  by (simp_all add: fp_counters_def)

lemma same_chunk_ok:
  assumes "config_ok c" and "ps_rep c hist ps" and "entry_ok c hist e" and "entry_ok c hist e'"
    and "live c hist (fpb_pktId e)" and "fpb_pktId e' = 0 \<longrightarrow> fpb_fp e' \<noteq> UINT64_MAX"
  shows "\<exists>x y. getPkt c ps (fpb_pktId e) = Some x \<and> getPkt c ps (fpb_pktId e') = Some y \<and>
     same_chunk x (fpb_offset e) y (fpb_offset e') = Some (same_window c hist e e')"
proof -
  have fo: "fpb_offset f + BETA \<le> length (pkt_of hist (fpb_pktId f))"
    if "entry_ok c hist f" "live c hist (fpb_pktId f)" for f
    using that by (auto simp: entry_ok_def fp_ok_def live_def split: if_splits)
  obtain x where x: "getPkt c ps (fpb_pktId e) = Some (Some x)" "entry_holds x (pkt_of hist (fpb_pktId e))"
    by (rule getPkt_live [OF assms(1,2,5)])
  note wx = entry_window [OF x(2) fo [OF assms(3,5)]]
  show ?thesis
  proof (cases "live c hist (fpb_pktId e')")
    case True
    then obtain y where y: "getPkt c ps (fpb_pktId e') = Some (Some y)" "entry_holds y (pkt_of hist (fpb_pktId e'))"
      by (rule getPkt_live [OF assms(1,2)])
    note wy = entry_window [OF y(2) fo [OF assms(4) True]]
    have "same_chunk (Some x) (fpb_offset e) (Some y) (fpb_offset e') = Some (same_window c hist e e')"
      using assms(5) True wx wy by (auto simp: same_chunk_def same_window_def mem_simps)
    then show ?thesis using x(1) y(1) by blast
  next
    case False
    then have "getPkt c ps (fpb_pktId e') = Some None"
      using getPkt_entry [OF assms(1,2,4,6)] by simp
    then show ?thesis using x(1) False by (auto simp: same_chunk_def same_window_def)
  qed
qed

lemma update_bucket_ok:
  assumes "config_ok c" and "ps_rep c hist ps" and "bucket_ok c hist b" and "entry_ok c hist e"
    and "live c hist (fpb_pktId e)"
  shows "\<exists>st'. update_bucket c ps e pos b st = Some (spec_bucket c hist e pos b, st') \<and> fp_counters st st'"
proof (cases "fp_index b (fpb_fp e) = PKTS_PER_FP")
  case True
  then show ?thesis
    by (simp add: update_bucket_def spec_bucket_def Let_def store_fp_def)
next
  case False
  let ?i = "fp_index b (fpb_fp e)"
  have i: "?i < PKTS_PER_FP" using False fp_index_le [of b "fpb_fp e"] by simp
  have len: "length b = PKTS_PER_FP" using assms(3) by (simp add: bucket_ok_def)
  have bi: "entry_ok c hist (b ! ?i)" using assms(3) i by (simp add: bucket_ok_def)
  have "fp_ok hist (fpb_fp e) (fpb_pktId e) (fpb_offset e)"
    using assms(4,5) by (auto simp: entry_ok_def live_def split: if_splits)
  then have "fpb_fp e \<noteq> UINT64_MAX" using rfp_at_not_max by (auto simp: fp_ok_def)
  then have nm: "fpb_fp (b ! ?i) \<noteq> UINT64_MAX" using fp_index_found [OF i len] by simp
  obtain x y where xy: "getPkt c ps (fpb_pktId e) = Some x" "getPkt c ps (fpb_pktId (b ! ?i)) = Some y"
    "same_chunk x (fpb_offset e) y (fpb_offset (b ! ?i)) = Some (same_window c hist e (b ! ?i))"
    using same_chunk_ok [OF assms(1,2,4) bi assms(5)] nm by blast
  show ?thesis
    using False i xy
    by (simp add: update_bucket_def spec_bucket_def Let_def store_fp_def)
qed

lemma spec_bucket_ok:
  assumes "bucket_ok c hist b" and "entry_ok c hist e"
  shows "bucket_ok c hist (spec_bucket c hist e pos b)"
proof -
  have "bucket_ok c hist (b[k := e])" for k
    using assms set_update_subset_insert [of b k e] by (auto simp: bucket_ok_def)
  then show ?thesis using assms(1) by (simp add: spec_bucket_def Let_def)
qed

lemma expire_ok: "entry_ok c hist e \<Longrightarrow> entry_ok c hist (expire_entry (int (length hist) - int (PKT_STORE_SIZE c)) e)"
  by (auto simp: expire_entry_def entry_ok_def)

lemma norm_expire: "norm_entry (expire_entry l (norm_entry e)) = norm_entry (expire_entry l e)"
  by (simp add: expire_entry_def norm_entry_def)

lemma putFP_refines:
  assumes "config_ok c" and "ps_rep c hist ps" and "fps_rep c hist fps" and "hist \<noteq> []"
    and "ofs + BETA \<le> length (last hist)" and "fp = rfp_at (last hist) ofs"
  shows "\<exists>fps' st'. putFP c ps fp (int (length hist)) ofs (fps, st) = Some (fps', st') \<and>
     fps_rep c hist fps' \<and> abs_fps fps' = spec_putFP c hist (fp, ofs) (abs_fps fps) \<and> fp_counters st st'"
proof -
  let ?i = "unat (hashFPStore c fp)" and ?l = "int (length hist) - int (PKT_STORE_SIZE c)"
  let ?b = "map (expire_entry ?l) (fps ! ?i)"
  let ?e = "\<lparr> fpb_fp = fp, fpb_pktId = int (length hist), fpb_offset = ofs \<rparr>"
  note b = bucket_of_ok [OF assms(1,3), of fp]
  have last: "pkt_of hist (int (length hist)) = last hist"
  proof -
    have "nat (int (length hist) - 1) = length hist - 1" by linarith
    then show ?thesis using assms(4) by (simp add: pkt_of_def last_conv_nth)
  qed
  have hl: "1 \<le> length hist" using assms(4) by (cases hist) auto
  then have lv: "live c hist (fpb_pktId ?e)"
    using PKT_STORE_SIZE_pos [OF assms(1)] by (simp add: live_def)
  have e: "entry_ok c hist ?e" using assms(4-6) last by (simp add: entry_ok_def fp_ok_def)
  have bok: "bucket_ok c hist ?b" using b(2) expire_ok by (simp add: bucket_ok_def)
  have len: "length ?b = PKTS_PER_FP" using b(2) by (simp add: bucket_ok_def)
  let ?b' = "spec_bucket c hist ?e (last_empty ?b) ?b"
  obtain st' where up: "update_bucket c ps ?e (last_empty ?b) ?b st = Some (?b', st')" "fp_counters st st'"
    using update_bucket_ok [OF assms(1,2) bok e lv] by blast
  have put: "putFP c ps fp (int (length hist)) ofs (fps, st) = Some (fps[?i := ?b'], st')"
    using up(1) by (simp add: putFP_def b(1) Let_def uint_PKTSTORESIZE)
  have "bucket_ok c hist ?b'" using spec_bucket_ok [OF bok e] .
  then have rep: "fps_rep c hist (fps[?i := ?b'])"
    using assms(3) set_update_subset_insert [of fps ?i ?b'] by (auto simp: fps_rep_def)
  have "map norm_entry ?b = map (norm_entry \<circ> expire_entry ?l) (abs_fps fps ! ?i)"
    using b(3) by (simp add: abs_fps_def norm_expire)
  moreover have "map norm_entry ?b' = spec_bucket c hist ?e (last_empty (map norm_entry ?b)) (map norm_entry ?b)"
  proof -
    have "fpb_pktId ?e \<noteq> 0" using assms(4) by simp
    then show ?thesis unfolding last_empty_norm [OF len] by (rule spec_bucket_norm [OF len])
  qed
  ultimately have "abs_fps (fps[?i := ?b']) = spec_putFP c hist (fp, ofs) (abs_fps fps)"
    by (simp add: spec_putFP_def Let_def) (simp add: abs_fps_def map_update)
  then show ?thesis using put rep up(2) by blast
qed

end
