(* ===== verification/Byte_Order.thy ===== *)
theory Byte_Order
  imports Solowan_Prelude
begin

text \<open>
  The network byte order routines of \<open>lib/dedup_common.c\<close> (\<open>hton16/32/64\<close>,
  \<open>ntoh16/32/64\<close>).  The interface the packet codecs rely on is the locale
  \<open>wire_codec\<close>; the three widths interpret it.
\<close>

section \<open>The routines\<close>

text \<open>The bytes the writers store, most significant first.\<close>

definition be16 :: "u16 \<Rightarrow> bytes" where
  "be16 n = [ucast (drop_bit 8 n AND 0xff), ucast (n AND 0xff)]"

definition be32 :: "u32 \<Rightarrow> bytes" where
  "be32 n = [ucast (drop_bit 24 n AND 0xff), ucast (drop_bit 16 n AND 0xff),
             ucast (drop_bit 8 n AND 0xff), ucast (n AND 0xff)]"

definition be64 :: "u64 \<Rightarrow> bytes" where
  "be64 n = [ucast (drop_bit 56 n AND 0xff), ucast (drop_bit 48 n AND 0xff),
             ucast (drop_bit 40 n AND 0xff), ucast (drop_bit 32 n AND 0xff),
             ucast (drop_bit 24 n AND 0xff), ucast (drop_bit 16 n AND 0xff),
             ucast (drop_bit 8 n AND 0xff), ucast (n AND 0xff)]"

definition hton16 :: "bytes \<Rightarrow> nat \<Rightarrow> u16 \<Rightarrow> bytes option" where
  "hton16 p off n = store_bytes p off (be16 n)"

definition hton32 :: "bytes \<Rightarrow> nat \<Rightarrow> u32 \<Rightarrow> bytes option" where
  "hton32 p off n = store_bytes p off (be32 n)"

definition hton64 :: "bytes \<Rightarrow> nat \<Rightarrow> u64 \<Rightarrow> bytes option" where
  "hton64 p off n = store_bytes p off (be64 n)"

text \<open>The readers accumulate \<open>res = (res << 8) + *p++\<close>.\<close>

definition acc_byte :: "'w::len word \<Rightarrow> u8 \<Rightarrow> 'w word" where
  "acc_byte res b = push_bit 8 res + ucast b"

definition ntoh16 :: "bytes \<Rightarrow> nat \<Rightarrow> u16 option" where
  "ntoh16 p off = do {
     b0 \<leftarrow> load8 p off;
     b1 \<leftarrow> load8 p (off + 1);
     Some (acc_byte (ucast b0) b1) }"

definition ntoh32 :: "bytes \<Rightarrow> nat \<Rightarrow> u32 option" where
  "ntoh32 p off = do {
     b0 \<leftarrow> load8 p off;
     b1 \<leftarrow> load8 p (off + 1);
     b2 \<leftarrow> load8 p (off + 2);
     b3 \<leftarrow> load8 p (off + 3);
     Some (acc_byte (acc_byte (acc_byte (ucast b0) b1) b2) b3) }"

definition ntoh64 :: "bytes \<Rightarrow> nat \<Rightarrow> u64 option" where
  "ntoh64 p off = do {
     b0 \<leftarrow> load8 p off;
     b1 \<leftarrow> load8 p (off + 1);
     b2 \<leftarrow> load8 p (off + 2);
     b3 \<leftarrow> load8 p (off + 3);
     b4 \<leftarrow> load8 p (off + 4);
     b5 \<leftarrow> load8 p (off + 5);
     b6 \<leftarrow> load8 p (off + 6);
     b7 \<leftarrow> load8 p (off + 7);
     Some (acc_byte (acc_byte (acc_byte (acc_byte
       (acc_byte (acc_byte (acc_byte (ucast b0) b1) b2) b3) b4) b5) b6) b7) }"

lemma length_be16 [simp]: "length (be16 n) = 2"
  by (simp add: be16_def)

lemma length_be32 [simp]: "length (be32 n) = 4"
  by (simp add: be32_def)

lemma length_be64 [simp]: "length (be64 n) = 8"
  by (simp add: be64_def)

text \<open>Accumulating a byte is a disjoint \<open>OR\<close>, so it can be read bit by bit.\<close>

lemma acc_byte_OR: "acc_byte res b = (push_bit 8 res OR ucast b)"
proof -
  have "push_bit 8 res AND ucast b = 0"
    by (rule bit_eqI) (auto simp: bit_simps dest: bit_imp_le_length)
  then show ?thesis by (simp add: acc_byte_def disjunctive_add_eq_or)
qed

lemma mask_8 [simp]: "(0xff :: 'w::len word) = mask 8"
  by (simp add: mask_eq_exp_minus_1)

text \<open>One step of a reader undoes one step of a writer: the reader holds the bits above the byte.\<close>

lemma acc_byte_step:
  fixes n :: "'w::len word"
  shows "acc_byte (drop_bit (8 + k) n) (ucast (drop_bit k n AND mask 8)) = drop_bit k n"
proof (rule bit_word_eqI)
  fix i assume "i < LENGTH('w)"
  show "bit (acc_byte (drop_bit (8 + k) n) (ucast (drop_bit k n AND mask 8))) i = bit (drop_bit k n) i"
  proof (cases "i < 8")
    case True
    then show ?thesis using \<open>i < LENGTH('w)\<close> by (auto simp: acc_byte_OR bit_simps)
  next
    case False
    then have "8 + k + (i - 8) = k + i" by simp
    with False show ?thesis
      using \<open>i < LENGTH('w)\<close> by (auto simp: acc_byte_OR bit_simps dest: bit_imp_le_length)
  qed
qed

lemma top_byte:
  fixes n :: "'w::len word"
  assumes "LENGTH('w) = 8 + k"
  shows "ucast (ucast (drop_bit k n AND mask 8) :: u8) = drop_bit k n"
  by (rule bit_word_eqI) (use assms in \<open>auto simp: bit_simps dest: bit_imp_le_length\<close>)

lemma be16_recompose: "acc_byte (ucast (be16 n ! 0)) (be16 n ! 1) = n"
  using acc_byte_step [of 0 n] by (simp add: be16_def top_byte)

lemma be32_recompose:
  "acc_byte (acc_byte (acc_byte (ucast (be32 n ! 0)) (be32 n ! 1)) (be32 n ! 2)) (be32 n ! 3) = n"
  using acc_byte_step [of 0 n] acc_byte_step [of 8 n] acc_byte_step [of 16 n]
  by (simp add: be32_def top_byte)

lemma be64_recompose:
  "acc_byte (acc_byte (acc_byte (acc_byte (acc_byte (acc_byte (acc_byte (ucast (be64 n ! 0))
     (be64 n ! 1)) (be64 n ! 2)) (be64 n ! 3)) (be64 n ! 4)) (be64 n ! 5)) (be64 n ! 6)) (be64 n ! 7) = n"
  using acc_byte_step [of 0 n] acc_byte_step [of 8 n] acc_byte_step [of 16 n] acc_byte_step [of 24 n]
    acc_byte_step [of 32 n] acc_byte_step [of 40 n] acc_byte_step [of 48 n]
  by (simp add: be64_def top_byte)

section \<open>The contract of a fixed-width field\<close>

locale wire_codec =
  fixes put :: "bytes \<Rightarrow> nat \<Rightarrow> 'a \<Rightarrow> bytes option"
    and get :: "bytes \<Rightarrow> nat \<Rightarrow> 'a option"
    and enc :: "'a \<Rightarrow> bytes"
    and width :: nat
  assumes enc_length: "length (enc x) = width"
    and put_enc: "put buf off x = store_bytes buf off (enc x)"
    and get_enc: "get (xs @ enc x @ ys) (length xs) = Some x"
    and get_defined: "(\<exists>x. get buf off = Some x) \<longleftrightarrow> off + width \<le> length buf"
begin

lemma put_defined: "(\<exists>buf'. put buf off x = Some buf') \<longleftrightarrow> off + width \<le> length buf"
  by (simp add: put_enc store_bytes_def enc_length)

lemma put_length: "put buf off x = Some buf' \<Longrightarrow> length buf' = length buf"
  by (simp add: put_enc store_bytes_length)

lemma get_prefix:
  assumes "take n buf = xs @ enc x @ ys" and "length xs = off"
  shows "get buf off = Some x"
  using get_enc [of xs x "ys @ drop n buf"] assms
  by (metis append.assoc append_take_drop_id)

lemma get_put:
  assumes "put buf off x = Some buf'"
  shows "get buf' off = Some x"
proof -
  from assms have le: "off + width \<le> length buf" using put_defined by blast
  with assms have "buf' = take off buf @ enc x @ drop (off + width) buf"
    by (simp add: put_enc store_bytes_def enc_length split: if_splits)
  then show ?thesis using get_enc [of "take off buf"] le by simp
qed

lemma put_nth_other:
  assumes "put buf off x = Some buf'" and "i < off \<or> off + width \<le> i" and "i < length buf"
  shows "buf' ! i = buf ! i"
  using assms
  by (auto simp: put_enc store_bytes_def enc_length nth_append split: if_splits)

lemma take_put_end:
  assumes "put buf n x = Some buf'"
  shows "take (n + width) buf' = take n buf @ enc x"
  using take_store_end [of buf n "enc x" buf'] assms by (simp add: put_enc enc_length)

lemma take_put_inside:
  assumes "put buf off x = Some buf'" and "take n buf = xs @ ys @ zs"
    and "length xs = off" and "length ys = width" and "n \<le> length buf"
  shows "take n buf' = xs @ enc x @ zs"
  using take_store_inside [of buf off "enc x" buf' n xs ys zs] assms by (simp add: put_enc enc_length)

lemma enc_inj: "enc x = enc y \<longleftrightarrow> x = y"
  using get_enc [of "[]"] by (metis append.left_neutral option.inject)

end

lemma load8_field:
  "k < length e \<Longrightarrow> load8 (xs @ e @ ys) (length xs + k) = Some (e ! k)"
  by (simp add: load8_def nth_append)

lemma load8_field0:
  "e \<noteq> [] \<Longrightarrow> load8 (xs @ e @ ys) (length xs) = Some (e ! 0)"
  using load8_field [of 0 e xs ys] by simp

lemma ntoh16_be16: "ntoh16 (xs @ be16 x @ ys) (length xs) = Some x"
proof -
  have "be16 x \<noteq> []" by (simp add: be16_def)
  then show ?thesis
    using be16_recompose [of x]
    by (simp add: ntoh16_def load8_field load8_field0 del: One_nat_def add_Suc_right)
qed

lemma ntoh32_be32: "ntoh32 (xs @ be32 x @ ys) (length xs) = Some x"
proof -
  have "be32 x \<noteq> []" by (simp add: be32_def)
  then show ?thesis
    using be32_recompose [of x]
    by (simp add: ntoh32_def load8_field load8_field0 del: One_nat_def add_Suc_right add_2_eq_Suc')
qed

lemma ntoh64_be64: "ntoh64 (xs @ be64 x @ ys) (length xs) = Some x"
proof -
  have "be64 x \<noteq> []" by (simp add: be64_def)
  then show ?thesis
    using be64_recompose [of x]
    by (simp add: ntoh64_def load8_field load8_field0 del: One_nat_def add_Suc_right add_2_eq_Suc')
qed

lemma ntoh16_defined: "(\<exists>x. ntoh16 buf off = Some x) \<longleftrightarrow> off + 2 \<le> length buf"
  by (auto simp: ntoh16_def load8_def)

lemma ntoh32_defined: "(\<exists>x. ntoh32 buf off = Some x) \<longleftrightarrow> off + 4 \<le> length buf"
  by (auto simp: ntoh32_def load8_def)

lemma ntoh64_defined: "(\<exists>x. ntoh64 buf off = Some x) \<longleftrightarrow> off + 8 \<le> length buf"
  by (auto simp: ntoh64_def load8_def)

interpretation w16: wire_codec hton16 ntoh16 be16 2
  by unfold_locales (simp_all add: hton16_def ntoh16_be16 ntoh16_defined)

interpretation w32: wire_codec hton32 ntoh32 be32 4
  by unfold_locales (simp_all add: hton32_def ntoh32_be32 ntoh32_defined)

interpretation w64: wire_codec hton64 ntoh64 be64 8
  by unfold_locales (simp_all add: hton64_def ntoh64_be64 ntoh64_defined)

end
