(* ===== verification/Dedup_Encoder.thy ===== *)
theory Dedup_Encoder
  imports Fingerprint_Store Byte_Order
begin

text \<open>
  The compressor's emit loop of \<open>lib/solowan_rolling.c\<close>: for every relevant fingerprint that
  matches a stored packet it extends the match to both sides and writes a literal run and a
  descriptor into the optimised packet.  The wire format is given abstractly by tokens; the
  invariant says that what has been written is the encoding of tokens that decode to the part of
  the packet consumed so far.
\<close>

section \<open>The wire format\<close>

text \<open>A literal run followed by a reference to bytes \<open>left..right\<close> of a stored packet.\<close>

record token =
  tk_lit :: bytes
  tk_fp :: u64
  tk_hash :: u32
  tk_left :: nat
  tk_right :: nat
  tk_ref :: bytes

definition enc_desc :: "token \<Rightarrow> bytes" where
  "enc_desc t = be64 (tk_fp t) @ be32 (tk_hash t) @ be16 (of_nat (tk_left t)) @ be16 (of_nat (tk_right t))"

definition enc_tok :: "token \<Rightarrow> bytes" where
  "enc_tok t = be16 (of_nat (length (tk_lit t))) @ tk_lit t @ enc_desc t"

definition enc_toks :: "token list \<Rightarrow> bytes" where
  "enc_toks ts = concat (map enc_tok ts)"

definition enc_packet :: "u32 \<Rightarrow> token list \<Rightarrow> bytes \<Rightarrow> bytes" where
  "enc_packet h ts tail = be32 h @ enc_toks ts @ be16 0xffff @ tail"

definition dec_toks :: "token list \<Rightarrow> bytes" where
  "dec_toks ts = concat (map (\<lambda>t. tk_lit t @ tk_ref t) ts)"

lemma enc_toks_simps [simp]: "enc_toks [] = []" "enc_toks (t # ts) = enc_tok t @ enc_toks ts"
  "enc_toks (ts @ us) = enc_toks ts @ enc_toks us"
  by (simp_all add: enc_toks_def)

lemma dec_toks_simps [simp]: "dec_toks [] = []" "dec_toks (t # ts) = tk_lit t @ tk_ref t @ dec_toks ts"
  "dec_toks (ts @ us) = dec_toks ts @ dec_toks us"
  by (simp_all add: dec_toks_def)

lemma length_enc_desc [simp]: "length (enc_desc t) = 16"
  by (simp add: enc_desc_def)

lemma length_enc_tok [simp]: "length (enc_tok t) = 18 + length (tk_lit t)"
  by (simp add: enc_tok_def)

section \<open>Extending a match\<close>

function extend_left :: "bytes \<Rightarrow> nat \<Rightarrow> bytes \<Rightarrow> nat \<Rightarrow> nat \<Rightarrow> nat \<Rightarrow> nat option" where
  "extend_left packet ofs1 stored ofs2 liml deltal = (
     if deltal \<le> liml then do {
       a \<leftarrow> load8 packet (ofs1 - deltal);
       b \<leftarrow> load8 stored (ofs2 - deltal);
       if a = b then extend_left packet ofs1 stored ofs2 liml (Suc deltal) else Some deltal }
     else Some deltal)"
  by pat_completeness auto
termination
  by (relation "measure (\<lambda>(_, _, _, _, liml, deltal). Suc liml - deltal)") auto

function extend_right :: "bytes \<Rightarrow> nat \<Rightarrow> bytes \<Rightarrow> nat \<Rightarrow> nat \<Rightarrow> nat \<Rightarrow> nat option" where
  "extend_right packet ofs1 stored ofs2 limr deltar = (
     if deltar < limr then do {
       a \<leftarrow> load8 packet (ofs1 + deltar + BETA);
       b \<leftarrow> load8 stored (ofs2 + deltar + BETA);
       if a = b then extend_right packet ofs1 stored ofs2 limr (Suc deltar) else Some deltar }
     else Some deltar)"
  by pat_completeness auto
termination
  by (relation "measure (\<lambda>(_, _, _, _, limr, deltar). limr - deltar)") auto

declare extend_left.simps [simp del] extend_right.simps [simp del]

text \<open>
  The maximal match around the windows at \<open>ofs1\<close> of the packet and \<open>ofs2\<close> of the stored packet,
  not reaching before \<open>orig\<close>: the pair \<open>(deltal, deltar)\<close>.  The C ints of this part are never
  negative when the windows lie inside their packets.
\<close>

definition explore_match :: "bytes \<Rightarrow> nat \<Rightarrow> nat \<Rightarrow> nat \<Rightarrow> bytes \<Rightarrow> nat \<Rightarrow> nat \<Rightarrow> (nat \<times> nat) option" where
  "explore_match packet pktlen orig ofs1 stored slen ofs2 = do {
     let liml = (if ofs1 - orig < ofs2 then ofs1 - orig else ofs2);
     d \<leftarrow> extend_left packet ofs1 stored ofs2 liml 1;
     let deltal = d - 1;
     let limr = (if pktlen - ofs1 < slen - ofs2 then pktlen - ofs1 - BETA else slen - ofs2 - BETA);
     deltar \<leftarrow> extend_right packet ofs1 stored ofs2 limr 0;
     Some (deltal, deltar) }"

section \<open>Emitting a match\<close>

text \<open>The local variables of the loop and the output buffer; \<open>em_done\<close> is the \<open>break\<close>.\<close>

record emit =
  em_opt :: bytes
  em_optlen :: nat
  em_orig :: nat
  em_dest :: nat
  em_fpd :: nat
  em_first :: nat
  em_done :: bool

definition emit_literal :: "bytes \<Rightarrow> u32 \<Rightarrow> nat \<Rightarrow> emit \<Rightarrow> emit option" where
  "emit_literal packet h n s = do {
     (opt, dest, first) \<leftarrow>
       (if em_dest s = 0 then do { opt \<leftarrow> hton32 (em_opt s) 0 h; Some (opt, 6, u16_of n) }
        else Some (em_opt s, em_dest s, em_first s));
     opt \<leftarrow> memcpy opt dest packet (em_orig s) n;
     opt \<leftarrow> hton16 opt (em_fpd s) (of_nat n);
     Some (s\<lparr> em_opt := opt, em_dest := dest + n, em_first := first \<rparr>) }"

definition emit_descriptor :: "config \<Rightarrow> u64 \<Rightarrow> u32 \<Rightarrow> nat \<Rightarrow> nat \<Rightarrow> emit \<Rightarrow> emit option" where
  "emit_descriptor c fp shash left right s = do {
     let dest = em_dest s;
     opt \<leftarrow> hton64 (em_opt s) dest fp;
     opt \<leftarrow> hton32 opt (dest + 8) shash;
     opt \<leftarrow> hton16 opt (dest + 12) (of_nat left);
     c_assert (right < MAX_PKT_SIZE c);
     opt \<leftarrow> hton16 opt (dest + 14) (of_nat right);
     opt \<leftarrow> hton16 opt (dest + 16) 0xffff;
     Some (s\<lparr> em_opt := opt, em_fpd := dest + 16, em_dest := dest + 18, em_optlen := u16_of (dest + 18) \<rparr>) }"

definition emit_end :: "bytes \<Rightarrow> nat \<Rightarrow> emit \<Rightarrow> emit option" where
  "emit_end packet pktlen s = (
     if pktlen = em_orig s then Some (s\<lparr> em_done := True \<rparr>)
     else if em_orig s + BETA > pktlen then do {
       opt \<leftarrow> memcpy (em_opt s) (em_dest s) packet (em_orig s) (pktlen - em_orig s);
       Some (s\<lparr> em_opt := opt, em_optlen := u16_of (em_optlen s + (pktlen - em_orig s)),
                em_orig := pktlen, em_done := True \<rparr>) }
     else Some s)"

definition emit_match ::
  "config \<Rightarrow> bytes \<Rightarrow> nat \<Rightarrow> u32 \<Rightarrow> nat \<Rightarrow> u64 \<Rightarrow> u32 \<Rightarrow> bytes \<Rightarrow> nat \<Rightarrow> nat \<Rightarrow> emit \<Rightarrow> emit option" where
  "emit_match c packet pktlen h ofs1 fp shash stored slen ofs2 s = do {
     (deltal, deltar) \<leftarrow> explore_match packet pktlen (em_orig s) ofs1 stored slen ofs2;
     c_assert (ofs1 \<ge> deltal + em_orig s);
     s \<leftarrow> emit_literal packet h (ofs1 - deltal - em_orig s) s;
     s \<leftarrow> emit_descriptor c fp shash (ofs2 - deltal) (ofs2 + deltar + BETA - 1) s;
     emit_end packet pktlen (s\<lparr> em_orig := ofs1 + deltar + BETA \<rparr>) }"

text \<open>The copy of the rest after the loop, and the assertions on the offset field.\<close>

definition emit_rest :: "bytes \<Rightarrow> nat \<Rightarrow> emit \<Rightarrow> emit option" where
  "emit_rest packet pktlen s = (
     if em_orig s < pktlen then do {
       opt \<leftarrow> memcpy (em_opt s) (em_dest s) packet (em_orig s) (pktlen - em_orig s);
       Some (s\<lparr> em_opt := opt, em_optlen := u16_of (em_dest s + pktlen - em_orig s) \<rparr>) }
     else Some s)"

definition emit_check :: "config \<Rightarrow> nat \<Rightarrow> emit \<Rightarrow> unit option" where
  "emit_check c pktlen s = (
     if em_optlen s < pktlen then do {
       first \<leftarrow> ntoh16 (em_opt s) 4;
       c_assert (unat first = em_first s);
       c_assert (unat first < MAX_PKT_SIZE c) }
     else Some ())"

definition emit_start :: "bytes \<Rightarrow> nat \<Rightarrow> emit" where
  "emit_start optpkt pktlen = \<lparr> em_opt = optpkt, em_optlen = pktlen, em_orig = 0, em_dest = 0,
     em_fpd = 4, em_first = 0, em_done = False \<rparr>"

section \<open>Matches are maximal runs of equal bytes\<close>

lemma extend_left_ok:
  assumes "1 \<le> d" and "d \<le> Suc liml" and "liml \<le> ofs1" and "liml \<le> ofs2"
    and "ofs1 \<le> length packet" and "ofs2 \<le> length stored"
    and "\<And>k. 1 \<le> k \<Longrightarrow> k < d \<Longrightarrow> packet ! (ofs1 - k) = stored ! (ofs2 - k)"
  shows "\<exists>e. extend_left packet ofs1 stored ofs2 liml d = Some e \<and> 1 \<le> e \<and> e \<le> Suc liml \<and>
    (\<forall>k. 1 \<le> k \<longrightarrow> k < e \<longrightarrow> packet ! (ofs1 - k) = stored ! (ofs2 - k))"
  using assms
proof (induction packet ofs1 stored ofs2 liml d rule: extend_left.induct)
  case (1 packet ofs1 stored ofs2 liml d)
  show ?case
  proof (cases "d \<le> liml")
    case True
    have ld: "load8 packet (ofs1 - d) = Some (packet ! (ofs1 - d))"
      "load8 stored (ofs2 - d) = Some (stored ! (ofs2 - d))"
      using True 1(2-7) by (simp_all add: mem_simps)
    show ?thesis
    proof (cases "packet ! (ofs1 - d) = stored ! (ofs2 - d)")
      case eq: True
      have "\<exists>e. extend_left packet ofs1 stored ofs2 liml (Suc d) = Some e \<and> 1 \<le> e \<and> e \<le> Suc liml \<and>
        (\<forall>k. 1 \<le> k \<longrightarrow> k < e \<longrightarrow> packet ! (ofs1 - k) = stored ! (ofs2 - k))"
        using 1(1) [OF True ld eq] 1(2-) True eq by (simp add: less_Suc_eq) blast
      then show ?thesis by (subst extend_left.simps) (simp add: True ld eq)
    next
      case False
      then show ?thesis using 1(2-) True by (subst extend_left.simps) (simp add: ld)
    qed
  next
    case False
    then show ?thesis using 1(2-) by (subst extend_left.simps) simp
  qed
qed

lemma extend_right_ok:
  assumes "d \<le> limr" and "ofs1 + limr + BETA \<le> length packet" and "ofs2 + limr + BETA \<le> length stored"
    and "\<And>k. k < d \<Longrightarrow> packet ! (ofs1 + BETA + k) = stored ! (ofs2 + BETA + k)"
  shows "\<exists>e. extend_right packet ofs1 stored ofs2 limr d = Some e \<and> e \<le> limr \<and>
    (\<forall>k < e. packet ! (ofs1 + BETA + k) = stored ! (ofs2 + BETA + k))"
  using assms
proof (induction packet ofs1 stored ofs2 limr d rule: extend_right.induct)
  case (1 packet ofs1 stored ofs2 limr d)
  show ?case
  proof (cases "d < limr")
    case True
    have ld: "load8 packet (ofs1 + d + BETA) = Some (packet ! (ofs1 + d + BETA))"
      "load8 stored (ofs2 + d + BETA) = Some (stored ! (ofs2 + d + BETA))"
      using True 1(2-4) by (simp_all add: mem_simps)
    show ?thesis
    proof (cases "packet ! (ofs1 + d + BETA) = stored ! (ofs2 + d + BETA)")
      case eq: True
      then have "packet ! (ofs1 + BETA + k) = stored ! (ofs2 + BETA + k)" if "k < Suc d" for k
        using that 1(5) [of k] by (auto simp: less_Suc_eq ac_simps)
      then have "\<exists>e. extend_right packet ofs1 stored ofs2 limr (Suc d) = Some e \<and> e \<le> limr \<and>
        (\<forall>k < e. packet ! (ofs1 + BETA + k) = stored ! (ofs2 + BETA + k))"
        using 1(1) [OF True ld eq] 1(2-4) True by simp
      then show ?thesis by (subst extend_right.simps) (simp add: True ld eq)
    next
      case False
      then show ?thesis using 1(2-) True by (subst extend_right.simps) (simp add: ld)
    qed
  next
    case False
    then show ?thesis using 1(2-) by (subst extend_right.simps) simp
  qed
qed

lemma explore_match_ok:
  assumes "orig \<le> ofs1" and "ofs1 + BETA \<le> pktlen" and "pktlen \<le> length packet"
    and "ofs2 + BETA \<le> slen" and "slen \<le> length stored"
    and win: "take BETA (drop ofs1 packet) = take BETA (drop ofs2 stored)"
  shows "\<exists>dl dr. explore_match packet pktlen orig ofs1 stored slen ofs2 = Some (dl, dr) \<and>
    dl + orig \<le> ofs1 \<and> dl \<le> ofs2 \<and> ofs1 + dr + BETA \<le> pktlen \<and> ofs2 + dr + BETA \<le> slen \<and>
    take (dl + BETA + dr) (drop (ofs1 - dl) packet) = take (dl + BETA + dr) (drop (ofs2 - dl) stored)"
proof -
  define liml where "liml = (if ofs1 - orig < ofs2 then ofs1 - orig else ofs2)"
  define limr where "limr = (if pktlen - ofs1 < slen - ofs2 then pktlen - ofs1 - BETA else slen - ofs2 - BETA)"
  have ll: "liml \<le> ofs1 - orig" "liml \<le> ofs2" by (simp_all add: liml_def)
  have lr: "ofs1 + limr + BETA \<le> pktlen" "ofs2 + limr + BETA \<le> slen"
    using assms(2,4) by (auto simp: limr_def)
  obtain e where e: "extend_left packet ofs1 stored ofs2 liml 1 = Some e" "1 \<le> e" "e \<le> Suc liml"
    "\<And>k. 1 \<le> k \<Longrightarrow> k < e \<Longrightarrow> packet ! (ofs1 - k) = stored ! (ofs2 - k)"
  proof -
    have "liml \<le> ofs1" "ofs1 \<le> length packet" "ofs2 \<le> length stored" using ll assms(1-5) by linarith+
    then show ?thesis using extend_left_ok [of 1 liml ofs1 ofs2 packet stored] ll that by auto
  qed
  obtain dr where dr: "extend_right packet ofs1 stored ofs2 limr 0 = Some dr" "dr \<le> limr"
    "\<And>k. k < dr \<Longrightarrow> packet ! (ofs1 + BETA + k) = stored ! (ofs2 + BETA + k)"
    using extend_right_ok [of 0 limr ofs1 packet ofs2 stored] lr assms(3,5) by auto
  have b: "e - 1 \<le> ofs1 - orig" "e - 1 \<le> ofs2" using e(3) ll by linarith+
  have "take (e - 1 + BETA + dr) (drop (ofs1 - (e - 1)) packet)
      = take (e - 1 + BETA + dr) (drop (ofs2 - (e - 1)) stored)"
  proof (rule slice_eqI)
    show "ofs1 - (e - 1) + (e - 1 + BETA + dr) \<le> length packet"
      "ofs2 - (e - 1) + (e - 1 + BETA + dr) \<le> length stored"
      using b lr dr(2) assms by linarith+
    fix k assume k: "k < e - 1 + BETA + dr"
    consider "k < e - 1" | "e - 1 \<le> k" "k < e - 1 + BETA" | "e - 1 + BETA \<le> k" by linarith
    then show "packet ! (ofs1 - (e - 1) + k) = stored ! (ofs2 - (e - 1) + k)"
    proof cases
      case 1
      then have "ofs1 - (e - 1) + k = ofs1 - (e - 1 - k)" "ofs2 - (e - 1) + k = ofs2 - (e - 1 - k)"
        using b assms(1) by linarith+
      then show ?thesis using e(4) [of "e - 1 - k"] 1 by simp
    next
      case 2
      then have "ofs1 - (e - 1) + k = ofs1 + (k - (e - 1))" "ofs2 - (e - 1) + k = ofs2 + (k - (e - 1))"
        using b assms(1) by linarith+
      moreover have "k - (e - 1) < BETA" using 2 by linarith
      moreover have "ofs1 + BETA \<le> length packet" "ofs2 + BETA \<le> length stored" using assms by linarith+
      ultimately show ?thesis using take_eq_nth [OF win, of "k - (e - 1)"] by metis
    next
      case 3
      then have "ofs1 - (e - 1) + k = ofs1 + BETA + (k - (e - 1) - BETA)"
        "ofs2 - (e - 1) + k = ofs2 + BETA + (k - (e - 1) - BETA)"
        using b assms(1) by linarith+
      moreover have "k - (e - 1) - BETA < dr" using k 3 by linarith
      ultimately show ?thesis using dr(3) [of "k - (e - 1) - BETA"] by metis
    qed
  qed
  moreover have "explore_match packet pktlen orig ofs1 stored slen ofs2 = Some (e - 1, dr)"
    using e(1) dr(1) by (simp only: explore_match_def Let_def liml_def limr_def Option.bind.simps)
  ultimately show ?thesis using b lr dr(2) assms(1) by (intro exI conjI) auto
qed

section \<open>What the writers leave in the buffer\<close>

lemma memcpy_prefix:
  assumes "memcpy dst d src so n = Some dst'"
  shows "take (d + n) dst' = take d dst @ take n (drop so src)"
proof -
  obtain bs where bs: "load_bytes src so n = Some bs" "store_bytes dst d bs = Some dst'"
    using assms by (auto simp: memcpy_def bind_eq_Some_conv)
  then have "length bs = n" "bs = take n (drop so src)" by (auto simp: load_bytes_def split: if_splits)
  then show ?thesis using take_store_end [OF bs(2)] by simp
qed

lemma memcpy_defined:
  "so + n \<le> length src \<Longrightarrow> d + n \<le> length dst \<Longrightarrow> \<exists>dst'. memcpy dst d src so n = Some dst'"
  by (simp add: mem_simps)

text \<open>The bytes before the pending length field: the packet hash, or everything up to the end
  marker of the last descriptor.\<close>

definition pending :: "u32 \<Rightarrow> bytes \<Rightarrow> emit \<Rightarrow> bool" where
  "pending h X s \<longleftrightarrow> (if em_dest s = 0 then em_fpd s = 4 \<and> X = be32 h
     else em_dest s = length X + 2 \<and> em_fpd s = length X \<and> take (em_dest s) (em_opt s) = X @ be16 0xffff)"

lemma pending_orig [simp]: "pending h X (s\<lparr> em_orig := k \<rparr>) = pending h X s"
  by (simp add: pending_def)

lemma emit_literal_ok:
  assumes pend: "pending h X s" and fits: "length X + 2 + n \<le> length (em_opt s)"
    and src: "em_orig s + n \<le> length packet" and n: "n < 65536"
  shows "\<exists>opt. emit_literal packet h n s = Some (s\<lparr> em_opt := opt, em_dest := length X + 2 + n,
       em_first := if em_dest s = 0 then n else em_first s \<rparr>) \<and> length opt = length (em_opt s) \<and>
     take (length X + 2 + n) opt = X @ be16 (of_nat n) @ take n (drop (em_orig s) packet)"
proof -
  have "\<exists>opt1 first. (if em_dest s = 0 then do { opt \<leftarrow> hton32 (em_opt s) 0 h; Some (opt, 6, u16_of n) }
      else Some (em_opt s, em_dest s, em_first s)) = Some (opt1, length X + 2, first) \<and>
      first = (if em_dest s = 0 then n else em_first s) \<and> length opt1 = length (em_opt s) \<and>
      (\<exists>ys. take (length X + 2) opt1 = X @ ys \<and> length ys = 2)"
  proof (cases "em_dest s = 0")
    case True
    then have X: "X = be32 h" using pend by (simp add: pending_def)
    then obtain o1 where o1: "hton32 (em_opt s) 0 h = Some o1"
      using w32.put_defined [of "em_opt s" 0 h] fits by auto
    have l: "length o1 = length (em_opt s)" using w32.put_length [OF o1] .
    have "take 4 o1 = X" using w32.take_put_end [OF o1] X by simp
    then have "take 6 o1 = X @ take 2 (drop 4 o1)" using take_add [of 4 2 o1] by simp
    then show ?thesis using True o1 l X fits n by auto
  next
    case False
    then show ?thesis using pend by (auto simp: pending_def)
  qed
  then obtain o1 first ys where o1:
    "(if em_dest s = 0 then do { opt \<leftarrow> hton32 (em_opt s) 0 h; Some (opt, 6, u16_of n) }
      else Some (em_opt s, em_dest s, em_first s)) = Some (o1, length X + 2, first)"
    "first = (if em_dest s = 0 then n else em_first s)" "length o1 = length (em_opt s)"
    "take (length X + 2) o1 = X @ ys" "length ys = 2" by blast
  obtain o2 where o2: "memcpy o1 (length X + 2) packet (em_orig s) n = Some o2"
    using memcpy_defined src fits o1(3) by metis
  have p2: "take (length X + 2 + n) o2 = X @ ys @ take n (drop (em_orig s) packet)"
    using memcpy_prefix [OF o2] o1(4) by simp
  have l2: "length o2 = length (em_opt s)" using memcpy_length [OF o2] o1(3) by simp
  have fpd: "em_fpd s = length X" using pend by (auto simp: pending_def split: if_splits)
  obtain o3 where o3: "hton16 o2 (em_fpd s) (of_nat n) = Some o3"
    using w16.put_defined [of o2 "em_fpd s" "of_nat n"] fits l2 fpd by auto
  have "take (length X + 2 + n) o3 = X @ be16 (of_nat n) @ take n (drop (em_orig s) packet)"
    using w16.take_put_inside [OF o3 p2] fpd o1(5) fits l2 by simp
  moreover have "length o3 = length (em_opt s)" using w16.put_length [OF o3] l2 by simp
  moreover have "emit_literal packet h n s = Some (s\<lparr> em_opt := o3, em_dest := length X + 2 + n,
       em_first := if em_dest s = 0 then n else em_first s \<rparr>)"
    by (simp only: emit_literal_def o1(1) o2 o3 Option.bind.simps prod.case o1(2))
  ultimately show ?thesis by blast
qed

lemma emit_descriptor_ok:
  assumes fits: "em_dest s + 18 \<le> length (em_opt s)" and r: "right < MAX_PKT_SIZE c"
  shows "\<exists>opt. emit_descriptor c fp shash left right s = Some (s\<lparr> em_opt := opt, em_fpd := em_dest s + 16,
       em_dest := em_dest s + 18, em_optlen := u16_of (em_dest s + 18) \<rparr>) \<and>
     length opt = length (em_opt s) \<and>
     take (em_dest s + 18) opt = take (em_dest s) (em_opt s) @ be64 fp @ be32 shash @
       be16 (of_nat left) @ be16 (of_nat right) @ be16 0xffff"
proof -
  let ?d = "em_dest s"
  obtain o1 where o1: "hton64 (em_opt s) ?d fp = Some o1"
    using w64.put_defined [of "em_opt s" ?d fp] fits by auto
  note l1 = w64.put_length [OF o1] and t1 = w64.take_put_end [OF o1]
  obtain o2 where o2: "hton32 o1 (?d + 8) shash = Some o2"
    using w32.put_defined [of o1 "?d + 8" shash] fits l1 by auto
  note l2 = w32.put_length [OF o2] and t2 = w32.take_put_end [OF o2]
  obtain o3 where o3: "hton16 o2 (?d + 12) (of_nat left) = Some o3"
    using w16.put_defined [of o2 "?d + 12"] fits l1 l2 by auto
  note l3 = w16.put_length [OF o3] and t3 = w16.take_put_end [OF o3]
  obtain o4 where o4: "hton16 o3 (?d + 14) (of_nat right) = Some o4"
    using w16.put_defined [of o3 "?d + 14"] fits l1 l2 l3 by auto
  note l4 = w16.put_length [OF o4] and t4 = w16.take_put_end [OF o4]
  obtain o5 where o5: "hton16 o4 (?d + 16) 0xffff = Some o5"
    using w16.put_defined [of o4 "?d + 16"] fits l1 l2 l3 l4 by auto
  note l5 = w16.put_length [OF o5] and t5 = w16.take_put_end [OF o5]
  have "take (?d + 18) o5 = take ?d (em_opt s) @ be64 fp @ be32 shash @
       be16 (of_nat left) @ be16 (of_nat right) @ be16 0xffff"
    using t1 t2 t3 t4 t5 by (simp add: ac_simps)
  moreover have "length o5 = length (em_opt s)" using l1 l2 l3 l4 l5 by simp
  moreover have "emit_descriptor c fp shash left right s = Some (s\<lparr> em_opt := o5, em_fpd := ?d + 16,
       em_dest := ?d + 18, em_optlen := u16_of (?d + 18) \<rparr>)"
    using o1 o2 o3 o4 o5 r by (simp add: emit_descriptor_def Let_def)
  ultimately show ?thesis by blast
qed

section \<open>The invariant of the emit loop\<close>

text \<open>
  \<open>refers fp h q\<close>: the dictionary resolves fingerprint and hash to the stored packet \<open>q\<close>.
\<close>

definition tok_ok :: "(u64 \<Rightarrow> u32 \<Rightarrow> bytes \<Rightarrow> bool) \<Rightarrow> config \<Rightarrow> token \<Rightarrow> bool" where
  "tok_ok refers c t \<longleftrightarrow> (\<exists>q. refers (tk_fp t) (tk_hash t) q \<and> tk_left t \<le> tk_right t \<and>
     tk_right t < length q \<and> length q \<le> MAX_PKT_SIZE c \<and>
     tk_ref t = take (tk_right t - tk_left t + 1) (drop (tk_left t) q))"

definition emit_inv ::
  "(u64 \<Rightarrow> u32 \<Rightarrow> bytes \<Rightarrow> bool) \<Rightarrow> config \<Rightarrow> bytes \<Rightarrow> nat \<Rightarrow> u32 \<Rightarrow> token list \<Rightarrow> emit \<Rightarrow> bool" where
  "emit_inv refers c packet pktlen h ts s \<longleftrightarrow>
     \<not> em_done s \<and> em_orig s + BETA \<le> pktlen \<and> pktlen \<le> length packet \<and> pktlen \<le> MAX_PKT_SIZE c \<and>
     pktlen \<le> length (em_opt s) \<and> dec_toks ts = take (em_orig s) packet \<and>
     (\<forall>t\<in>set ts. tok_ok refers c t) \<and> pending h (be32 h @ enc_toks ts) s \<and>
     (if ts = [] then em_orig s = 0 \<and> em_dest s = 0 \<and> em_optlen s = pktlen
      else 0 < em_dest s \<and> em_dest s + 40 \<le> em_orig s \<and> em_first s = length (tk_lit (hd ts)))"

definition emit_final ::
  "(u64 \<Rightarrow> u32 \<Rightarrow> bytes \<Rightarrow> bool) \<Rightarrow> config \<Rightarrow> bytes \<Rightarrow> nat \<Rightarrow> u32 \<Rightarrow> token list \<Rightarrow> bytes \<Rightarrow> emit \<Rightarrow> bool" where
  "emit_final refers c packet pktlen h ts tail s \<longleftrightarrow>
     ts \<noteq> [] \<and> take (em_optlen s) (em_opt s) = enc_packet h ts tail \<and>
     take pktlen packet = dec_toks ts @ tail \<and> (\<forall>t\<in>set ts. tok_ok refers c t) \<and>
     em_optlen s + 40 \<le> pktlen \<and> pktlen \<le> length (em_opt s) \<and> em_orig s \<le> pktlen \<and>
     em_first s = length (tk_lit (hd ts))"

lemma emit_start_inv:
  "BETA \<le> pktlen \<Longrightarrow> pktlen \<le> length packet \<Longrightarrow> pktlen \<le> MAX_PKT_SIZE c \<Longrightarrow> pktlen \<le> length optpkt \<Longrightarrow>
   emit_inv refers c packet pktlen h [] (emit_start optpkt pktlen)"
  by (simp add: emit_inv_def emit_start_def pending_def)

text \<open>Writing out a token: the literal run up to the match, then its descriptor.\<close>

lemma emit_token_ok:
  assumes inv: "emit_inv refers c packet pktlen h ts s" and max: "MAX_PKT_SIZE c < 65536"
    and t: "tk_lit t = take n (drop (em_orig s) packet)" "em_orig s + n + length (tk_ref t) \<le> pktlen"
    and ref: "BETA \<le> length (tk_ref t)" and r: "tk_right t < MAX_PKT_SIZE c"
  shows "\<exists>s'. (emit_literal packet h n s \<bind> emit_descriptor c (tk_fp t) (tk_hash t) (tk_left t) (tk_right t)) = Some s' \<and>
    pending h (be32 h @ enc_toks (ts @ [t])) s' \<and> 0 < em_dest s' \<and> em_optlen s' = em_dest s' \<and>
    em_dest s' + 40 \<le> em_orig s + n + length (tk_ref t) \<and> length (em_opt s') = length (em_opt s) \<and>
    em_first s' = length (tk_lit (hd (ts @ [t]))) \<and> \<not> em_done s'"
proof -
  let ?X = "be32 h @ enc_toks ts"
  have pend: "pending h ?X s" and len: "pktlen \<le> length (em_opt s)" and pk: "pktlen \<le> length packet"
    and orig: "em_orig s + BETA \<le> pktlen" and pm: "pktlen \<le> MAX_PKT_SIZE c"
    using inv by (simp_all add: emit_inv_def)
  have size: "length ?X + 2 + n + 18 + 40 \<le> em_orig s + n + length (tk_ref t)"
  proof (cases "ts = []")
    case True
    then show ?thesis using ref by simp
  next
    case False
    then have "length ?X + 2 = em_dest s" "em_dest s + 40 \<le> em_orig s"
      using inv by (auto simp: emit_inv_def pending_def split: if_splits)
    then show ?thesis using ref by simp
  qed
  have lit: "length (tk_lit t) = n" using t pk ref by simp
  have "n < 65536" using t(2) pm max ref by linarith
  then obtain o1 where o1: "emit_literal packet h n s = Some (s\<lparr> em_opt := o1, em_dest := length ?X + 2 + n,
       em_first := if em_dest s = 0 then n else em_first s \<rparr>)" "length o1 = length (em_opt s)"
     "take (length ?X + 2 + n) o1 = ?X @ be16 (of_nat n) @ tk_lit t"
  proof -
    have "length ?X + 2 + n \<le> length (em_opt s)" "em_orig s + n \<le> length packet"
      using size t(2) len pk ref by linarith+
    then show ?thesis using emit_literal_ok [OF pend, of n packet] \<open>n < 65536\<close> t(1) that by auto
  qed
  define s1 where "s1 = s\<lparr> em_opt := o1, em_dest := length ?X + 2 + n,
       em_first := if em_dest s = 0 then n else em_first s \<rparr>"
  have d1: "em_dest s1 = length ?X + 2 + n" "em_opt s1 = o1" by (simp_all add: s1_def)
  have "em_dest s1 + 18 \<le> length (em_opt s1)" using size t(2) len o1(2) unfolding d1 by linarith
  then obtain o2 where o2: "emit_descriptor c (tk_fp t) (tk_hash t) (tk_left t) (tk_right t) s1 =
       Some (s1\<lparr> em_opt := o2, em_fpd := em_dest s1 + 16, em_dest := em_dest s1 + 18,
         em_optlen := u16_of (em_dest s1 + 18) \<rparr>)" "length o2 = length o1"
     "take (em_dest s1 + 18) o2 = take (em_dest s1) o1 @ enc_desc t @ be16 0xffff"
    using emit_descriptor_ok [of s1 "tk_right t" c "tk_fp t" "tk_hash t" "tk_left t"] r d1
    by (auto simp: enc_desc_def)
  define s2 where "s2 = s1\<lparr> em_opt := o2, em_fpd := em_dest s1 + 16, em_dest := em_dest s1 + 18,
         em_optlen := u16_of (em_dest s1 + 18) \<rparr>"
  have "take (em_dest s1 + 18) o2 = ?X @ be16 (of_nat n) @ tk_lit t @ enc_desc t @ be16 0xffff"
    using o2(3) o1(3) d1 by simp
  then have "pending h (be32 h @ enc_toks (ts @ [t])) s2"
    using d1 lit by (simp add: pending_def s2_def enc_tok_def)
  moreover have "em_dest s1 + 18 < 65536" using d1 size t(2) pm max by linarith
  moreover have "em_first s2 = length (tk_lit (hd (ts @ [t])))"
    using inv lit by (cases ts) (simp_all add: s2_def s1_def emit_inv_def)
  moreover have "(emit_literal packet h n s \<bind>
      emit_descriptor c (tk_fp t) (tk_hash t) (tk_left t) (tk_right t)) = Some s2"
    by (simp only: o1(1) s1_def [symmetric] Option.bind.simps o2(1) s2_def)
  moreover have "em_dest s2 = em_dest s1 + 18" "em_optlen s2 = u16_of (em_dest s1 + 18)"
    "em_opt s2 = o2" "em_done s2 = em_done s"
    by (simp_all add: s2_def s1_def)
  moreover have "\<not> em_done s" using inv by (simp add: emit_inv_def)
  moreover have "em_dest s1 + 18 + 40 \<le> em_orig s + n + length (tk_ref t)" using size unfolding d1 by linarith
  ultimately show ?thesis using o1(2) o2(2) by (intro exI [of _ s2]) simp
qed

text \<open>The end of the loop body: go on, or finish the packet.\<close>

lemma pending_prefix:
  "pending h X s \<Longrightarrow> 0 < em_dest s \<Longrightarrow>
   take (em_dest s) (em_opt s) = X @ be16 0xffff \<and> em_dest s = length X + 2"
  by (auto simp: pending_def)

lemma emit_tail_final:
  assumes pend: "pending h (be32 h @ enc_toks ts) s" "0 < em_dest s"
    and cpy: "memcpy (em_opt s) (em_dest s) packet (em_orig s) (pktlen - em_orig s) = Some opt"
    and ts: "ts \<noteq> []" "\<forall>t\<in>set ts. tok_ok refers c t" "dec_toks ts = take (em_orig s) packet"
    and sz: "em_dest s + 40 \<le> em_orig s" "em_orig s \<le> pktlen" "pktlen \<le> length packet"
      "pktlen \<le> length (em_opt s)" "pktlen < 65536"
    and first: "em_first s = length (tk_lit (hd ts))"
    and s': "em_opt s' = opt" "em_optlen s' = u16_of (em_dest s + (pktlen - em_orig s))"
      "em_orig s' \<le> pktlen" "em_first s' = em_first s"
  shows "emit_final refers c packet pktlen h ts (drop (em_orig s) (take pktlen packet)) s'"
proof -
  let ?tail = "drop (em_orig s) (take pktlen packet)"
  have tail: "?tail = take (pktlen - em_orig s) (drop (em_orig s) packet)" by (simp add: drop_take)
  have ol: "em_optlen s' = em_dest s + (pktlen - em_orig s)" using s'(2) sz by simp
  have "take (em_optlen s') (em_opt s') = enc_packet h ts ?tail"
    using memcpy_prefix [OF cpy] conjunct1 [OF pending_prefix [OF pend]] unfolding s'(1) ol tail
    by (simp only: enc_packet_def append.assoc)
  moreover have "take pktlen packet = dec_toks ts @ ?tail"
  proof -
    have "take pktlen packet = take (em_orig s) (take pktlen packet) @ ?tail"
      by (simp only: append_take_drop_id)
    then show ?thesis using sz(2) ts(3) by (simp add: min_def)
  qed
  moreover have "length opt = length (em_opt s)" using memcpy_length [OF cpy] .
  ultimately show ?thesis
    unfolding emit_final_def using ol ts(1,2) sz s' first by simp
qed

lemma emit_end_ok:
  assumes max: "MAX_PKT_SIZE c < 65536" and ts: "ts \<noteq> []" "\<forall>t\<in>set ts. tok_ok refers c t"
    "dec_toks ts = take (em_orig s) packet"
    and pend: "pending h (be32 h @ enc_toks ts) s" "0 < em_dest s" "em_optlen s = em_dest s"
    and sz: "em_dest s + 40 \<le> em_orig s" "em_orig s \<le> pktlen" "pktlen \<le> length packet"
      "pktlen \<le> length (em_opt s)" "pktlen \<le> MAX_PKT_SIZE c"
    and first: "em_first s = length (tk_lit (hd ts))" and nd: "\<not> em_done s"
  shows "\<exists>s'. emit_end packet pktlen s = Some s' \<and>
    (if em_done s' then em_orig s' = pktlen \<and> (\<exists>tail. emit_final refers c packet pktlen h ts tail s')
     else emit_inv refers c packet pktlen h ts s')"
proof -
  consider "pktlen = em_orig s" | "em_orig s < pktlen" "pktlen < em_orig s + BETA" | "em_orig s + BETA \<le> pktlen"
    using sz(2) by linarith
  then show ?thesis
  proof cases
    case 1
    have c0: "memcpy (em_opt s) (em_dest s) packet (em_orig s) (pktlen - em_orig s) = Some (em_opt s)"
      using 1 sz by (simp add: mem_simps)
    have "emit_final refers c packet pktlen h ts (drop (em_orig s) (take pktlen packet)) (s\<lparr> em_done := True \<rparr>)"
      using 1 sz max pend(3) first by (intro emit_tail_final [OF pend(1,2) c0 ts]) simp_all
    then show ?thesis using 1 by (auto simp: emit_end_def)
  next
    case 2
    obtain o1 where o1: "memcpy (em_opt s) (em_dest s) packet (em_orig s) (pktlen - em_orig s) = Some o1"
    proof -
      have "em_dest s + (pktlen - em_orig s) \<le> length (em_opt s)" "em_orig s + (pktlen - em_orig s) \<le> length packet"
        using sz 2 by linarith+
      then show ?thesis using memcpy_defined that by blast
    qed
    let ?s = "s\<lparr> em_opt := o1, em_optlen := u16_of (em_optlen s + (pktlen - em_orig s)),
                em_orig := pktlen, em_done := True \<rparr>"
    have "emit_final refers c packet pktlen h ts (drop (em_orig s) (take pktlen packet)) ?s"
      using sz max pend(3) first by (intro emit_tail_final [OF pend(1,2) o1 ts]) simp_all
    moreover have "emit_end packet pktlen s = Some ?s" using 2 o1 by (simp add: emit_end_def)
    ultimately show ?thesis by (intro exI [of _ ?s]) auto
  next
    case 3
    then have "emit_inv refers c packet pktlen h ts s"
      using ts pend sz first nd by (simp add: emit_inv_def)
    moreover have "emit_end packet pktlen s = Some s" using 3 by (simp add: emit_end_def)
    ultimately show ?thesis using nd by (intro exI [of _ s]) auto
  qed
qed

lemma emit_match_ok:
  assumes inv: "emit_inv refers c packet pktlen h ts s" and max: "MAX_PKT_SIZE c < 65536"
    and ofs1: "em_orig s \<le> ofs1" "ofs1 + BETA \<le> pktlen"
    and q: "take (length q) stored = q" "length q \<le> length stored" "length q \<le> MAX_PKT_SIZE c"
    and ofs2: "ofs2 + BETA \<le> length q"
    and win: "take BETA (drop ofs1 packet) = take BETA (drop ofs2 q)" and refers: "refers fp shash q"
  shows "\<exists>s' t. emit_match c packet pktlen h ofs1 fp shash stored (length q) ofs2 s = Some s' \<and>
    (if em_done s' then em_orig s' = pktlen \<and> (\<exists>tail. emit_final refers c packet pktlen h (ts @ [t]) tail s')
     else emit_inv refers c packet pktlen h (ts @ [t]) s')"
proof -
  let ?o = "em_orig s"
  have pk: "pktlen \<le> length packet" "pktlen \<le> MAX_PKT_SIZE c" "pktlen \<le> length (em_opt s)"
    "dec_toks ts = take ?o packet" "\<forall>t\<in>set ts. tok_ok refers c t"
    using inv by (simp_all add: emit_inv_def)
  have sq: "take m (drop k stored) = take m (drop k q)" if "k + m \<le> length q" for k m
  proof -
    have "take m (drop k q) = take m (drop k (take (length q) stored))" using q(1) by simp
    also have "\<dots> = take m (drop k stored)" using that by (simp add: drop_take min_def)
    finally show ?thesis by simp
  qed
  obtain dl dr where ex: "explore_match packet pktlen ?o ofs1 stored (length q) ofs2 = Some (dl, dr)"
    and d: "dl + ?o \<le> ofs1" "dl \<le> ofs2" "ofs1 + dr + BETA \<le> pktlen" "ofs2 + dr + BETA \<le> length q"
    and same: "take (dl + BETA + dr) (drop (ofs1 - dl) packet) = take (dl + BETA + dr) (drop (ofs2 - dl) stored)"
    using explore_match_ok [OF ofs1 pk(1) ofs2 q(2)] win sq [OF ofs2] by auto
  define n where "n = ofs1 - dl - ?o"
  define t where "t = \<lparr> tk_lit = take n (drop ?o packet), tk_fp = fp, tk_hash = shash, tk_left = ofs2 - dl,
    tk_right = ofs2 + dr + BETA - 1, tk_ref = take (dl + BETA + dr) (drop (ofs1 - dl) packet) \<rparr>"
  have n: "?o + n = ofs1 - dl" using d(1) by (simp add: n_def)
  have rl: "length (tk_ref t) = dl + BETA + dr" using d pk(1) by (simp add: t_def)
  have o': "?o + n + length (tk_ref t) = ofs1 + dr + BETA" using n rl d(1) by simp
  have "tk_ref t = take (dl + BETA + dr) (drop (tk_left t) q)"
    using same sq [of "ofs2 - dl" "dl + BETA + dr"] d by (simp add: t_def)
  moreover have "tk_right t - tk_left t + 1 = dl + BETA + dr" using d by (simp add: t_def)
  moreover have "tk_left t \<le> tk_right t" using d by (simp add: t_def)
  moreover have rq: "tk_right t < length q" using d by (simp add: t_def)
  moreover have "refers (tk_fp t) (tk_hash t) q" using refers by (simp add: t_def)
  ultimately have tok: "tok_ok refers c t"
    unfolding tok_ok_def using q(3) by metis
  obtain s1 where s1: "(emit_literal packet h n s \<bind>
      emit_descriptor c (tk_fp t) (tk_hash t) (tk_left t) (tk_right t)) = Some s1"
    "pending h (be32 h @ enc_toks (ts @ [t])) s1" "0 < em_dest s1" "em_optlen s1 = em_dest s1"
    "em_dest s1 + 40 \<le> ofs1 + dr + BETA" "length (em_opt s1) = length (em_opt s)"
    "em_first s1 = length (tk_lit (hd (ts @ [t])))" "\<not> em_done s1"
  proof -
    have "tk_lit t = take n (drop ?o packet)" by (simp add: t_def)
    moreover have "?o + n + length (tk_ref t) \<le> pktlen" "BETA \<le> length (tk_ref t)"
      using o' rl d(3) by linarith+
    moreover have "tk_right t < MAX_PKT_SIZE c" using rq q(3) by linarith
    ultimately show ?thesis using emit_token_ok [OF inv max, of t n] that unfolding o' by blast
  qed
  define s2 where "s2 = s1\<lparr> em_orig := ofs1 + dr + BETA \<rparr>"
  have dec: "dec_toks (ts @ [t]) = take (em_orig s2) packet"
  proof -
    have "em_orig s2 = ?o + n + (dl + BETA + dr)" using o' rl by (simp add: s2_def)
    then have "take (em_orig s2) packet = take ?o packet @ take n (drop ?o packet) @
        take (dl + BETA + dr) (drop (?o + n) packet)"
      by (simp only: take_add append.assoc)
    then show ?thesis using pk(4) n by (simp add: t_def)
  qed
  have "pending h (be32 h @ enc_toks (ts @ [t])) s2" using s1(2) unfolding s2_def pending_orig .
  then obtain s' where s': "emit_end packet pktlen s2 = Some s'"
    "if em_done s' then em_orig s' = pktlen \<and> (\<exists>tail. emit_final refers c packet pktlen h (ts @ [t]) tail s')
     else emit_inv refers c packet pktlen h (ts @ [t]) s'"
    using emit_end_ok [OF max, of "ts @ [t]" refers s2 packet h pktlen] tok pk dec s1 d(3)
    by (auto simp: s2_def)
  have "emit_match c packet pktlen h ofs1 fp shash stored (length q) ofs2 s = Some s'"
    using ex s1(1) s'(1) d(1)
    by (auto simp: emit_match_def n_def t_def s2_def bind_eq_Some_conv add.commute)
  then show ?thesis using s'(2) by blast
qed

section \<open>The end of the packet\<close>

lemma tok_ok_ref: "tok_ok refers c t \<Longrightarrow> tk_ref t \<noteq> []"
  by (auto simp: tok_ok_def)

lemma emit_check_final:
  assumes fin: "emit_final refers c packet pktlen h ts tail s" and max: "pktlen \<le> MAX_PKT_SIZE c"
    and m16: "MAX_PKT_SIZE c < 65536" and pk: "pktlen \<le> length packet"
  shows "emit_check c pktlen s = Some ()"
proof -
  obtain t ts' where ts: "ts = t # ts'" using fin by (cases ts) (auto simp: emit_final_def)
  have "take (em_optlen s) (em_opt s) = be32 h @ be16 (of_nat (length (tk_lit t))) @
      (tk_lit t @ enc_desc t @ enc_toks ts' @ be16 0xffff @ tail)"
    using fin by (simp add: emit_final_def ts enc_packet_def enc_tok_def)
  then have get: "ntoh16 (em_opt s) 4 = Some (of_nat (length (tk_lit t)))"
    by (rule w16.get_prefix) simp
  have "tok_ok refers c t" using fin by (simp add: emit_final_def ts)
  then have "tk_ref t \<noteq> []" by (rule tok_ok_ref)
  moreover have "length (tk_lit t) + length (tk_ref t) \<le> pktlen"
  proof -
    have "length (take pktlen packet) = length (dec_toks ts @ tail)" using fin by (simp add: emit_final_def)
    then show ?thesis using pk by (simp add: ts)
  qed
  ultimately have "length (tk_lit t) < pktlen" by (cases "tk_ref t") simp_all
  then have "unat (of_nat (length (tk_lit t)) :: u16) = length (tk_lit t)" "length (tk_lit t) < MAX_PKT_SIZE c"
    using max m16 by (simp_all add: unat_of_nat)
  then show ?thesis using fin get by (simp add: emit_check_def emit_final_def ts)
qed

text \<open>From the invariant at the end of the loop to the finished packet: nothing matched, or a
  shorter packet that encodes the original one.\<close>

lemma emit_finish:
  assumes m16: "MAX_PKT_SIZE c < 65536" and pk: "pktlen \<le> length packet" "pktlen \<le> MAX_PKT_SIZE c"
    and st: "if em_done s then em_orig s = pktlen \<and> (\<exists>tail. emit_final refers c packet pktlen h ts tail s)
       else emit_inv refers c packet pktlen h ts s"
  shows "\<exists>s'. emit_rest packet pktlen s = Some s' \<and> emit_check c pktlen s' = Some () \<and> em_orig s' \<le> pktlen \<and>
     (if ts = [] then em_optlen s' = pktlen else (\<exists>tail. emit_final refers c packet pktlen h ts tail s'))"
proof (cases "em_done s")
  case True
  then obtain tail where "em_orig s = pktlen" and f: "emit_final refers c packet pktlen h ts tail s"
    using st by auto
  moreover have "ts \<noteq> []" using f by (simp add: emit_final_def)
  ultimately show ?thesis using emit_check_final [OF f pk(2) m16 pk(1)] by (auto simp: emit_rest_def)
next
  case False
  then have inv: "emit_inv refers c packet pktlen h ts s" using st by simp
  then have o: "em_orig s < pktlen" and cap: "pktlen \<le> length (em_opt s)" by (simp_all add: emit_inv_def)
  have "em_dest s \<le> em_orig s" using inv by (auto simp: emit_inv_def split: if_splits)
  then have d: "em_dest s + (pktlen - em_orig s) \<le> pktlen" using o by linarith
  have "em_orig s + (pktlen - em_orig s) \<le> length packet"
    "em_dest s + (pktlen - em_orig s) \<le> length (em_opt s)" using o pk(1) cap d by linarith+
  then obtain o1 where o1: "memcpy (em_opt s) (em_dest s) packet (em_orig s) (pktlen - em_orig s) = Some o1"
    using memcpy_defined by blast
  let ?s = "s\<lparr> em_opt := o1, em_optlen := u16_of (em_dest s + (pktlen - em_orig s)) \<rparr>"
  have rest: "emit_rest packet pktlen s = Some ?s" using o o1 by (simp add: emit_rest_def)
  show ?thesis
  proof (cases "ts = []")
    case True
    then have "em_optlen ?s = pktlen" using inv pk(2) m16 by (simp add: emit_inv_def)
    then show ?thesis using rest True o by (intro exI [of _ ?s]) (simp add: emit_check_def)
  next
    case ts: False
    have f: "emit_final refers c packet pktlen h ts (drop (em_orig s) (take pktlen packet)) ?s"
      using inv ts o m16 pk by (intro emit_tail_final [OF _ _ o1 ts]) (simp_all add: emit_inv_def)
    then show ?thesis
      using rest ts o emit_check_final [OF f pk(2) m16 pk(1)] by (intro exI [of _ ?s]) auto
  qed
qed

end
