(* ===== verification/Dedup_Decoder.thy ===== *)
theory Dedup_Decoder
  imports Dedup_Encoder
begin

text \<open>
  The parsing loop of \<open>uncomp\<close> (\<open>lib/uncomp.c\<close>, private dictionary): it walks over the descriptors
  of an optimised packet and rebuilds the packet from literal runs and pieces of stored packets.
  The loop is shown to invert the encoding of tokens whose references the dictionary resolves.
\<close>

section \<open>The loop\<close>

text \<open>\<open>uc_pos\<close> is the pointer \<open>optpkt\<close>, \<open>uc_packet\<close> the output array; the other fields are the
  16-bit variables of the same names.\<close>

record uncomp_state =
  uc_pos :: nat
  uc_optlen :: nat
  uc_orig :: nat
  uc_pktlen :: nat
  uc_packet :: bytes

text \<open>How the loop is left: normally, on a format error, or on a fingerprint that is not found.\<close>

datatype uncomp_exit =
    Parsed uncomp_state
  | Format_error uncomp_state
  | Missing_fp u64 u32 uncomp_state

definition copy_literal :: "config \<Rightarrow> bytes \<Rightarrow> nat \<Rightarrow> uncomp_state \<Rightarrow> (uncomp_exit + uncomp_state) option" where
  "copy_literal c optpkt offset s = (
     if uc_orig s + offset > MAX_PKT_SIZE c then Some (Inl (Format_error s))
     else do {
       packet \<leftarrow> memcpy (uc_packet s) (uc_orig s) optpkt (uc_pos s) offset;
       Some (Inr (s\<lparr> uc_packet := packet, uc_orig := u16_of (uc_orig s + offset),
         uc_pktlen := u16_of (uc_pktlen s + offset), uc_pos := uc_pos s + offset,
         uc_optlen := sub16 (uc_optlen s) offset \<rparr>)) })"

text \<open>After the end marker all remaining bytes are literal and \<open>optlen\<close> is set to zero; the pointer
  is not advanced.\<close>

definition copy_rest :: "config \<Rightarrow> bytes \<Rightarrow> uncomp_state \<Rightarrow> (uncomp_exit + uncomp_state) option" where
  "copy_rest c optpkt s = (
     if uc_orig s + uc_optlen s > MAX_PKT_SIZE c then Some (Inl (Format_error s))
     else do {
       packet \<leftarrow> memcpy (uc_packet s) (uc_orig s) optpkt (uc_pos s) (uc_optlen s);
       Some (Inr (s\<lparr> uc_packet := packet, uc_orig := u16_of (uc_orig s + uc_optlen s),
         uc_pktlen := u16_of (uc_pktlen s + uc_optlen s), uc_optlen := 0 \<rparr>)) })"

definition copy_stored :: "config \<Rightarrow> PktEntry \<Rightarrow> nat \<Rightarrow> nat \<Rightarrow> uncomp_state \<Rightarrow> (uncomp_exit + uncomp_state) option" where
  "copy_stored c stored left right s = (
     if left > right \<or> right \<ge> pe_len stored \<or> uc_orig s + right - left > MAX_PKT_SIZE c
     then Some (Inl (Format_error s))
     else do {
       packet \<leftarrow> memcpy (uc_packet s) (uc_orig s) (pe_pkt stored) left (right - left + 1);
       Some (Inr (s\<lparr> uc_packet := packet, uc_orig := u16_of (uc_orig s + (right - left + 1)),
         uc_pktlen := u16_of (uc_pktlen s + (right - left + 1)) \<rparr>)) })"

definition advance :: "nat \<Rightarrow> uncomp_state \<Rightarrow> uncomp_state" where
  "advance n s = s\<lparr> uc_pos := uc_pos s + n, uc_optlen := sub16 (uc_optlen s) n \<rparr>"

text \<open>One round of the loop, entered with at least 18 bytes left: the reference of a descriptor, then
  the offset to the next one.\<close>

definition uncomp_reference :: "config \<Rightarrow> FPStore \<Rightarrow> PktStore \<Rightarrow> bytes \<Rightarrow> uncomp_state \<Rightarrow> (uncomp_exit + uncomp_state) option" where
  "uncomp_reference c fps ps optpkt s = do {
     tentativeFP \<leftarrow> ntoh64 optpkt (uc_pos s);
     let s = advance 8 s;
     tentativePktHash \<leftarrow> ntoh32 optpkt (uc_pos s);
     let s = advance 4 s;
     fpp \<leftarrow> getFPhash c fps ps tentativeFP tentativePktHash;
     (case fpp of None \<Rightarrow> Some (Inl (Missing_fp tentativeFP tentativePktHash s))
      | Some e \<Rightarrow> do {
         left \<leftarrow> ntoh16 optpkt (uc_pos s);
         let s = advance 2 s;
         right \<leftarrow> ntoh16 optpkt (uc_pos s);
         let s = advance 2 s;
         stored \<leftarrow> getPkt c ps (fpb_pktId e);
         storedPkt \<leftarrow> stored;
         copy_stored c storedPkt (unat left) (unat right) s }) }"

definition uncomp_offset :: "config \<Rightarrow> bytes \<Rightarrow> uncomp_state \<Rightarrow> (uncomp_exit + uncomp_state) option" where
  "uncomp_offset c optpkt s = do {
     offset \<leftarrow> ntoh16 optpkt (uc_pos s);
     let s = advance 2 s;
     (if offset = 0xffff then copy_rest c optpkt s else copy_literal c optpkt (unat offset) s) }"

definition uncomp_step :: "config \<Rightarrow> FPStore \<Rightarrow> PktStore \<Rightarrow> bytes \<Rightarrow> uncomp_state \<Rightarrow> (uncomp_exit + uncomp_state) option" where
  "uncomp_step c fps ps optpkt s = do {
     r \<leftarrow> uncomp_reference c fps ps optpkt s;
     (case r of Inl x \<Rightarrow> Some (Inl x) | Inr s \<Rightarrow> uncomp_offset c optpkt s) }"

lemma advance_pos [simp]: "uc_pos (advance n s) = uc_pos s + n"
  by (simp add: advance_def)

lemma copy_stored_pos: "copy_stored c pe l r s = Some (Inr s') \<Longrightarrow> uc_pos s' = uc_pos s"
  by (auto simp: copy_stored_def bind_eq_Some_conv split: if_splits)

lemma uncomp_reference_pos:
  "uncomp_reference c fps ps optpkt s = Some (Inr s') \<Longrightarrow> uc_pos s' = uc_pos s + 16"
  by (auto simp: uncomp_reference_def Let_def bind_eq_Some_conv dest!: copy_stored_pos split: option.splits)

lemma uncomp_offset_pos:
  assumes "uncomp_offset c optpkt s = Some (Inr s')" shows "uc_pos s < uc_pos s'"
proof -
  obtain ofs where "ntoh16 optpkt (uc_pos s) = Some ofs"
    using assms by (cases "ntoh16 optpkt (uc_pos s)") (simp_all add: uncomp_offset_def)
  then have "(if ofs = 0xffff then copy_rest c optpkt (advance 2 s)
      else copy_literal c optpkt (unat ofs) (advance 2 s)) = Some (Inr s')"
    using assms by (simp only: uncomp_offset_def Let_def Option.bind.simps)
  then have "uc_pos (advance 2 s) \<le> uc_pos s'"
    by (auto simp: copy_rest_def copy_literal_def bind_eq_Some_conv split: if_splits)
  then show ?thesis by simp
qed

lemma uncomp_step_pos:
  assumes "uncomp_step c fps ps optpkt s = Some (Inr s')"
  shows "uc_pos s < uc_pos s'" and "uc_pos s < length optpkt"
proof -
  obtain r where r: "uncomp_reference c fps ps optpkt s = Some r"
    using assms by (cases "uncomp_reference c fps ps optpkt s") (simp_all add: uncomp_step_def)
  obtain s1 where s1: "uncomp_reference c fps ps optpkt s = Some (Inr s1)" "uncomp_offset c optpkt s1 = Some (Inr s')"
    using assms r by (cases r) (simp_all add: uncomp_step_def)
  then show "uc_pos s < uc_pos s'" using uncomp_reference_pos [OF s1(1)] uncomp_offset_pos [OF s1(2)] by simp
  have "\<exists>x. ntoh64 optpkt (uc_pos s) = Some x"
    using s1(1) by (auto simp: uncomp_reference_def bind_eq_Some_conv)
  then show "uc_pos s < length optpkt" using w64.get_defined [of optpkt "uc_pos s"] by simp
qed

function uncomp_loop :: "config \<Rightarrow> FPStore \<Rightarrow> PktStore \<Rightarrow> bytes \<Rightarrow> uncomp_state \<Rightarrow> uncomp_exit option" where
  "uncomp_loop c fps ps optpkt s = (
     if uc_optlen s \<ge> 18 then
       (case uncomp_step c fps ps optpkt s of
          None \<Rightarrow> None
        | Some (Inl x) \<Rightarrow> Some x
        | Some (Inr s') \<Rightarrow> uncomp_loop c fps ps optpkt s')
     else Some (Parsed s))"
  by pat_completeness auto
termination
proof (relation "measure (\<lambda>(c, fps, ps, optpkt, s). length optpkt - uc_pos s)")
  fix c fps ps optpkt s x s'
  assume "uncomp_step c fps ps optpkt s = Some x" and "x = Inr s'"
  then have "uc_pos s < uc_pos s'" "uc_pos s < length optpkt" using uncomp_step_pos by blast+
  then have "length optpkt - uc_pos s' < length optpkt - uc_pos s" by linarith
  then show "((c, fps, ps, optpkt, s'), (c, fps, ps, optpkt, s))
      \<in> measure (\<lambda>(c, fps, ps, optpkt, s). length optpkt - uc_pos s)" by simp
qed simp

declare uncomp_loop.simps [simp del]

section \<open>The cursor\<close>

text \<open>The bytes still to be parsed: \<open>R\<close> begins at the pointer and is \<open>optlen\<close> long.\<close>

definition at :: "bytes \<Rightarrow> uncomp_state \<Rightarrow> bytes \<Rightarrow> bool" where
  "at optpkt s R \<longleftrightarrow> length R = uc_optlen s \<and> uc_optlen s < 65536 \<and>
     (\<exists>pre. length pre = uc_pos s \<and> take (uc_pos s + uc_optlen s) optpkt = pre @ R)"

lemma at_advance: "at optpkt s (A @ B) \<Longrightarrow> length A = n \<Longrightarrow> at optpkt (advance n s) B"
proof -
  assume "at optpkt s (A @ B)" and n: "length A = n"
  then obtain pre where "length pre = uc_pos s" "take (uc_pos s + uc_optlen s) optpkt = pre @ A @ B"
    "n + length B = uc_optlen s" "uc_optlen s < 65536" by (auto simp: at_def)
  moreover have "uc_optlen (advance n s) = uc_optlen s - n"
    using calculation n by (simp add: advance_def)
  ultimately show ?thesis
    unfolding at_def using n by (intro conjI exI [of _ "pre @ A"]) (simp_all add: add.assoc)
qed

lemma at_cong:
  "uc_pos s' = uc_pos s \<Longrightarrow> uc_optlen s' = uc_optlen s \<Longrightarrow> at optpkt s' R = at optpkt s R"
  by (simp add: at_def)

lemma at_get64: "at optpkt s (be64 x @ B) \<Longrightarrow> ntoh64 optpkt (uc_pos s) = Some x"
  by (auto simp: at_def intro: w64.get_prefix)

lemma at_get32: "at optpkt s (be32 x @ B) \<Longrightarrow> ntoh32 optpkt (uc_pos s) = Some x"
  by (auto simp: at_def intro: w32.get_prefix)

lemma at_get16: "at optpkt s (be16 x @ B) \<Longrightarrow> ntoh16 optpkt (uc_pos s) = Some x"
  by (auto simp: at_def intro: w16.get_prefix)

lemma at_slice:
  assumes "at optpkt s (A @ B)"
  shows "take (length A) (drop (uc_pos s) optpkt) = A" and "uc_pos s + length A \<le> length optpkt"
proof -
  obtain pre where pre: "length pre = uc_pos s" "take (uc_pos s + uc_optlen s) optpkt = pre @ A @ B"
    "length A + length B = uc_optlen s" using assms by (auto simp: at_def)
  then have "optpkt = pre @ A @ B @ drop (uc_pos s + uc_optlen s) optpkt"
    by (metis append.assoc append_take_drop_id)
  then show "take (length A) (drop (uc_pos s) optpkt) = A" "uc_pos s + length A \<le> length optpkt"
    using pre(1) by (metis append_eq_conv_conj, metis add.assoc le_add1 length_append)
qed

section \<open>The output\<close>

definition out_is :: "config \<Rightarrow> uncomp_state \<Rightarrow> bytes \<Rightarrow> bool" where
  "out_is c s xs \<longleftrightarrow> uc_orig s = length xs \<and> uc_pktlen s = length xs \<and> length xs \<le> MAX_PKT_SIZE c \<and>
     take (length xs) (uc_packet s) = xs \<and> MAX_PKT_SIZE c \<le> length (uc_packet s)"

lemma out_is_advance [simp]: "out_is c (advance n s) xs = out_is c s xs"
  by (simp add: out_is_def advance_def)

lemma out_is_copy:
  assumes o: "out_is c s xs" and src: "k + length ys \<le> length src" "take (length ys) (drop k src) = ys"
    and max: "length (xs @ ys) \<le> MAX_PKT_SIZE c" "MAX_PKT_SIZE c < 65536"
  shows "\<exists>pk. memcpy (uc_packet s) (uc_orig s) src k (length ys) = Some pk \<and>
    (\<forall>s'. uc_packet s' = pk \<longrightarrow> uc_orig s' = u16_of (uc_orig s + length ys) \<longrightarrow>
       uc_pktlen s' = u16_of (uc_pktlen s + length ys) \<longrightarrow> out_is c s' (xs @ ys))"
proof -
  have "uc_orig s + length ys \<le> length (uc_packet s)" using o max(1) by (simp add: out_is_def)
  then obtain pk where pk: "memcpy (uc_packet s) (uc_orig s) src k (length ys) = Some pk"
    using memcpy_defined src(1) by blast
  have "take (length (xs @ ys)) pk = xs @ ys"
    using memcpy_prefix [OF pk] o src(2) by (simp add: out_is_def)
  then show ?thesis using pk memcpy_length [OF pk] o max by (auto simp: out_is_def)
qed

section \<open>Decoding tokens\<close>

text \<open>The receiving dictionary resolves fingerprint and hash to the stored packet \<open>q\<close>.\<close>

definition resolves :: "config \<Rightarrow> FPStore \<Rightarrow> PktStore \<Rightarrow> u64 \<Rightarrow> u32 \<Rightarrow> bytes \<Rightarrow> bool" where
  "resolves c fps ps fp h q \<longleftrightarrow> (\<exists>e pe. getFPhash c fps ps fp h = Some (Some e) \<and>
     getPkt c ps (fpb_pktId e) = Some (Some pe) \<and> entry_holds pe q)"

lemma unat_of_nat16: "n < 65536 \<Longrightarrow> unat (of_nat n :: u16) = n"
  by (simp add: unat_of_nat)

lemma uncomp_reference_ok:
  assumes at: "at optpkt s (enc_desc t @ R)" and o: "out_is c s xs"
    and tok: "tok_ok (resolves c fps ps) c t"
    and max: "length (xs @ tk_ref t) \<le> MAX_PKT_SIZE c" "MAX_PKT_SIZE c < 65536"
  shows "\<exists>s'. uncomp_reference c fps ps optpkt s = Some (Inr s') \<and> at optpkt s' R \<and> out_is c s' (xs @ tk_ref t)"
proof -
  obtain q e pe where q: "tk_left t \<le> tk_right t" "tk_right t < length q" "length q \<le> MAX_PKT_SIZE c"
      "tk_ref t = take (tk_right t - tk_left t + 1) (drop (tk_left t) q)"
    and e: "getFPhash c fps ps (tk_fp t) (tk_hash t) = Some (Some e)"
      "getPkt c ps (fpb_pktId e) = Some (Some pe)" "entry_holds pe q"
    using tok by (auto simp: tok_ok_def resolves_def)
  let ?s1 = "advance 8 s" and ?s2 = "advance 4 (advance 8 s)"
  let ?s3 = "advance 2 ?s2" let ?s4 = "advance 2 ?s3"
  have a0: "at optpkt s (be64 (tk_fp t) @ be32 (tk_hash t) @ be16 (of_nat (tk_left t)) @ be16 (of_nat (tk_right t)) @ R)"
    using at by (simp add: enc_desc_def)
  note g0 = at_get64 [OF a0] and a1 = at_advance [OF a0 length_be64]
  note g1 = at_get32 [OF a1] and a2 = at_advance [OF a1 length_be32]
  note g2 = at_get16 [OF a2] and a3 = at_advance [OF a2 length_be16]
  note g3 = at_get16 [OF a3] and a4 = at_advance [OF a3 length_be16]
  let ?n = "tk_right t - tk_left t + 1"
  have lr: "length (tk_ref t) = ?n" using q by simp
  have lim: "unat (of_nat (tk_left t) :: u16) = tk_left t" "unat (of_nat (tk_right t) :: u16) = tk_right t"
    using q max(2) by (simp_all add: unat_of_nat16)
  have w: "take ?n (drop (tk_left t) (pe_pkt pe)) = tk_ref t" "tk_left t + ?n \<le> length (pe_pkt pe)"
    using entry_window [OF e(3), of "tk_left t" ?n] q by auto
  obtain pk where pk: "memcpy (uc_packet ?s4) (uc_orig ?s4) (pe_pkt pe) (tk_left t) ?n = Some pk"
    and out: "\<And>s'. uc_packet s' = pk \<Longrightarrow> uc_orig s' = u16_of (uc_orig ?s4 + ?n) \<Longrightarrow>
       uc_pktlen s' = u16_of (uc_pktlen ?s4 + ?n) \<Longrightarrow> out_is c s' (xs @ tk_ref t)"
    using out_is_copy [of c ?s4 xs "tk_left t" "tk_ref t" "pe_pkt pe"] o w max unfolding lr by auto
  define s' where "s' = ?s4\<lparr> uc_packet := pk, uc_orig := u16_of (uc_orig ?s4 + ?n),
         uc_pktlen := u16_of (uc_pktlen ?s4 + ?n) \<rparr>"
  have ob: "uc_orig ?s4 + tk_right t - tk_left t \<le> MAX_PKT_SIZE c" "tk_right t < pe_len pe"
    using o max(1) lr q e(3) by (auto simp: out_is_def entry_holds_def advance_def)
  have "copy_stored c pe (tk_left t) (tk_right t) ?s4 = Some (Inr s')"
    using pk ob q(1) by (simp add: copy_stored_def s'_def)
  then have "uncomp_reference c fps ps optpkt s = Some (Inr s')"
    using g0 g1 g2 g3 e(1,2) lim by (simp add: uncomp_reference_def Let_def)
  moreover have "at optpkt s' R" using a4 by (subst at_cong [of s' ?s4]) (simp_all add: s'_def)
  moreover have "out_is c s' (xs @ tk_ref t)" by (rule out) (simp_all add: s'_def)
  ultimately show ?thesis by blast
qed

lemma copy_literal_ok:
  assumes at: "at optpkt s (l @ R)" and o: "out_is c s xs"
    and max: "length (xs @ l) \<le> MAX_PKT_SIZE c" "MAX_PKT_SIZE c < 65536"
  shows "\<exists>s'. copy_literal c optpkt (length l) s = Some (Inr s') \<and> at optpkt s' R \<and> out_is c s' (xs @ l)"
proof -
  obtain pk where pk: "memcpy (uc_packet s) (uc_orig s) optpkt (uc_pos s) (length l) = Some pk"
    and out: "\<And>s'. uc_packet s' = pk \<Longrightarrow> uc_orig s' = u16_of (uc_orig s + length l) \<Longrightarrow>
       uc_pktlen s' = u16_of (uc_pktlen s + length l) \<Longrightarrow> out_is c s' (xs @ l)"
    using out_is_copy [OF o, of "uc_pos s" l optpkt] at_slice [OF at] max by auto
  define s' where "s' = s\<lparr> uc_packet := pk, uc_orig := u16_of (uc_orig s + length l),
         uc_pktlen := u16_of (uc_pktlen s + length l), uc_pos := uc_pos s + length l,
         uc_optlen := sub16 (uc_optlen s) (length l) \<rparr>"
  have "copy_literal c optpkt (length l) s = Some (Inr s')"
    using pk o max(1) by (simp add: copy_literal_def s'_def out_is_def)
  moreover have "at optpkt s' R"
    using at_advance [OF at refl] by (subst at_cong [of s' "advance (length l) s"]) (simp_all add: s'_def advance_def)
  moreover have "out_is c s' (xs @ l)" by (rule out) (simp_all add: s'_def)
  ultimately show ?thesis by blast
qed

lemma copy_rest_ok:
  assumes at: "at optpkt s l" and o: "out_is c s xs"
    and max: "length (xs @ l) \<le> MAX_PKT_SIZE c" "MAX_PKT_SIZE c < 65536"
  shows "\<exists>s'. copy_rest c optpkt s = Some (Inr s') \<and> uc_optlen s' = 0 \<and> out_is c s' (xs @ l)"
proof -
  have at': "at optpkt s (l @ [])" and len: "uc_optlen s = length l" using at by (auto simp: at_def)
  obtain pk where pk: "memcpy (uc_packet s) (uc_orig s) optpkt (uc_pos s) (length l) = Some pk"
    and out: "\<And>s'. uc_packet s' = pk \<Longrightarrow> uc_orig s' = u16_of (uc_orig s + length l) \<Longrightarrow>
       uc_pktlen s' = u16_of (uc_pktlen s + length l) \<Longrightarrow> out_is c s' (xs @ l)"
    using out_is_copy [OF o, of "uc_pos s" l optpkt] at_slice [OF at'] max by auto
  define s' where "s' = s\<lparr> uc_packet := pk, uc_orig := u16_of (uc_orig s + length l),
         uc_pktlen := u16_of (uc_pktlen s + length l), uc_optlen := 0 \<rparr>"
  have "copy_rest c optpkt s = Some (Inr s')"
    using pk o max(1) len by (simp add: copy_rest_def s'_def out_is_def)
  moreover have "out_is c s' (xs @ l)" by (rule out) (simp_all add: s'_def)
  ultimately show ?thesis by (auto simp: s'_def)
qed

text \<open>The offset field after a reference leads to the next token or to the tail of the packet.\<close>

lemma uncomp_offset_next:
  assumes at: "at optpkt s (enc_tok t @ R)" and o: "out_is c s xs"
    and max: "length (xs @ tk_lit t) < MAX_PKT_SIZE c" "MAX_PKT_SIZE c < 65536"
  shows "\<exists>s'. uncomp_offset c optpkt s = Some (Inr s') \<and> at optpkt s' (enc_desc t @ R) \<and> out_is c s' (xs @ tk_lit t)"
proof -
  let ?k = "of_nat (length (tk_lit t)) :: u16"
  have a: "at optpkt s (be16 ?k @ tk_lit t @ enc_desc t @ R)" using at by (simp add: enc_tok_def)
  note g = at_get16 [OF a] and a' = at_advance [OF a length_be16]
  have k: "unat ?k = length (tk_lit t)" using max by (simp add: unat_of_nat16)
  then have ne: "?k \<noteq> 0xffff" using max by auto
  obtain s' where "copy_literal c optpkt (length (tk_lit t)) (advance 2 s) = Some (Inr s')"
    "at optpkt s' (enc_desc t @ R)" "out_is c s' (xs @ tk_lit t)"
    using copy_literal_ok [OF a', of c xs] o max by auto
  then show ?thesis using g ne k by (auto simp: uncomp_offset_def Let_def)
qed

lemma uncomp_offset_last:
  assumes at: "at optpkt s (be16 0xffff @ tail)" and o: "out_is c s xs"
    and max: "length (xs @ tail) \<le> MAX_PKT_SIZE c" "MAX_PKT_SIZE c < 65536"
  shows "\<exists>s'. uncomp_offset c optpkt s = Some (Inr s') \<and> uc_optlen s' = 0 \<and> out_is c s' (xs @ tail)"
  using copy_rest_ok [OF at_advance [OF at length_be16], of c xs] at_get16 [OF at] o max
  by (auto simp: uncomp_offset_def Let_def)

text \<open>The loop rebuilds what the tokens and the tail stand for.\<close>

lemma uncomp_loop_ok:
  assumes "at optpkt s (enc_desc t @ enc_toks ts @ be16 0xffff @ tail)" and "out_is c s xs"
    and "\<forall>u\<in>set (t # ts). tok_ok (resolves c fps ps) c u"
    and "length (xs @ tk_ref t @ dec_toks ts @ tail) \<le> MAX_PKT_SIZE c" and "MAX_PKT_SIZE c < 65536"
  shows "\<exists>s'. uncomp_loop c fps ps optpkt s = Some (Parsed s') \<and> out_is c s' (xs @ tk_ref t @ dec_toks ts @ tail)"
  using assms
proof (induction ts arbitrary: s t xs)
  case Nil
  obtain s1 where s1: "uncomp_reference c fps ps optpkt s = Some (Inr s1)"
      "at optpkt s1 (be16 0xffff @ tail)" "out_is c s1 (xs @ tk_ref t)"
    using uncomp_reference_ok [OF Nil.prems(1,2)] Nil.prems(3-5) by auto
  obtain s2 where s2: "uncomp_offset c optpkt s1 = Some (Inr s2)" "uc_optlen s2 = 0"
      "out_is c s2 ((xs @ tk_ref t) @ tail)"
    using uncomp_offset_last [OF s1(2,3)] Nil.prems(4,5) by auto
  have "uncomp_step c fps ps optpkt s = Some (Inr s2)" using s1(1) s2(1) by (simp add: uncomp_step_def)
  moreover have "uc_optlen s \<ge> 18" using Nil.prems(1) by (simp add: at_def)
  moreover have "uncomp_loop c fps ps optpkt s2 = Some (Parsed s2)"
    using s2(2) by (simp add: uncomp_loop.simps [of c fps ps optpkt s2])
  ultimately show ?case using s2(3) by (simp add: uncomp_loop.simps [of c fps ps optpkt s])
next
  case (Cons u us)
  obtain s1 where s1: "uncomp_reference c fps ps optpkt s = Some (Inr s1)"
      "at optpkt s1 (enc_tok u @ enc_toks us @ be16 0xffff @ tail)" "out_is c s1 (xs @ tk_ref t)"
    using uncomp_reference_ok [OF Cons.prems(1,2), of fps ps] Cons.prems(3-5) by auto
  have "tk_ref u \<noteq> []" using Cons.prems(3) tok_ok_ref by force
  then have "length ((xs @ tk_ref t) @ tk_lit u) < MAX_PKT_SIZE c"
    using Cons.prems(4) by (cases "tk_ref u") auto
  then obtain s2 where s2: "uncomp_offset c optpkt s1 = Some (Inr s2)"
      "at optpkt s2 (enc_desc u @ enc_toks us @ be16 0xffff @ tail)" "out_is c s2 ((xs @ tk_ref t) @ tk_lit u)"
    using uncomp_offset_next [OF s1(2,3)] Cons.prems(5) by blast
  have "uncomp_step c fps ps optpkt s = Some (Inr s2)" using s1(1) s2(1) by (simp add: uncomp_step_def)
  moreover have "uc_optlen s \<ge> 18" using Cons.prems(1) by (simp add: at_def)
  moreover have "\<exists>s'. uncomp_loop c fps ps optpkt s2 = Some (Parsed s') \<and>
      out_is c s' (((xs @ tk_ref t) @ tk_lit u) @ tk_ref u @ dec_toks us @ tail)"
    using Cons.IH [OF s2(2,3)] Cons.prems(3-5) by simp
  ultimately show ?case by (simp add: uncomp_loop.simps [of c fps ps optpkt s])
qed

end
