(* ===== verification/Shared_Dictionary.thy ===== *)
theory Shared_Dictionary
  imports Dedup_Decoder
begin

text \<open>
  The dictionary shared by all deduplicators (\<open>shared_dictionary_mode\<close>): the static stores
  \<open>psComp\<close>, \<open>fpStoreComp\<close>, \<open>compSt\<close> of the compressors and their \<open>Desc\<close> counterparts of the
  decompressors, with the dictionary API at the end of \<open>lib/dedup_common.c\<close>, and the compression
  and parsing loops that use it.
\<close>

section \<open>State\<close>

record Dictionary =
  d_ps :: PktStore
  d_fps :: FPStore
  d_st :: Statistics

record shared_dictionaries =
  sh_comp :: Dictionary
  sh_desc :: Dictionary

text \<open>The contents of memory returned by \<open>malloc\<close>: bytes and header fields of slot \<open>i\<close>, offset of
  entry \<open>j\<close> of bucket \<open>i\<close>.\<close>

record uninit =
  ui_byte :: "nat \<Rightarrow> nat \<Rightarrow> u8"
  ui_len :: "nat \<Rightarrow> nat"
  ui_hash :: "nat \<Rightarrow> u32"
  ui_ofs :: "nat \<Rightarrow> nat \<Rightarrow> nat"

definition new_pkts :: "config \<Rightarrow> uninit \<Rightarrow> PktEntry list" where
  "new_pkts c u = map (\<lambda>i. \<lparr> pe_pkt = map (ui_byte u i) [0..<MAX_PKT_SIZE c],
     pe_len = ui_len u i, pe_hash = ui_hash u i \<rparr>) [0..<PKT_STORE_SIZE c]"

definition new_fps :: "config \<Rightarrow> uninit \<Rightarrow> FPStore" where
  "new_fps c u = map (\<lambda>i. map (\<lambda>j. \<lparr> fpb_fp = UINT64_MAX, fpb_pktId = 0, fpb_offset = ui_ofs u i j \<rparr>)
     [0..<PKTS_PER_FP]) [0..<FP_STORE_SIZE c]"

definition new_dictionary :: "config \<Rightarrow> uninit \<Rightarrow> Dictionary" where
  "new_dictionary c u = \<lparr> d_ps = \<lparr> ps_pkts = new_pkts c u, ps_pktId = 1 \<rparr>, d_fps = new_fps c u, d_st = zero_stats \<rparr>"

definition initDictionary :: "config \<Rightarrow> uninit \<Rightarrow> uninit \<Rightarrow> shared_dictionaries" where
  "initDictionary c u v = \<lparr> sh_comp = new_dictionary c u, sh_desc = new_dictionary c v \<rparr>"

section \<open>Lookups\<close>

abbreviation (input) PKTSIZELIMIT :: nat where "PKTSIZELIMIT \<equiv> 1500"

text \<open>
  The array \<open>pkt\<close> of a result has \<open>PKTSIZELIMIT\<close> places, of which the first \<open>pktLen\<close> are written;
  the list holds the written ones.  The fields the code leaves unset in a result for a fingerprint
  that was not found are never read; they are zero here.
\<close>

record DictElement =
  de_pktLen :: nat
  de_pkt :: bytes
  de_pktHash :: u32
  de_offset :: nat

definition dict_element :: "config \<Rightarrow> Dictionary \<Rightarrow> bytes \<Rightarrow> rel_fp \<Rightarrow> DictElement option" where
  "dict_element c d pkt f = do {
     b \<leftarrow> bucket_of c (d_fps d) (fst f);
     r \<leftarrow> find_entry (content_test c (d_ps d) (fst f) pkt (snd f)) b;
     (case r of None \<Rightarrow> Some \<lparr> de_pktLen = 0, de_pkt = [], de_pktHash = 0, de_offset = 0 \<rparr>
      | Some e \<Rightarrow> do {
         p \<leftarrow> getPkt c (d_ps d) (fpb_pktId e);
         pktE \<leftarrow> p;
         c_assert (pe_len pktE \<le> PKTSIZELIMIT);
         bs \<leftarrow> load_bytes (pe_pkt pktE) 0 (pe_len pktE);
         Some \<lparr> de_pktLen = pe_len pktE, de_pkt = bs, de_pktHash = pe_hash pktE, de_offset = fpb_offset e \<rparr> }) }"

fun getPktsByFPsAndContent :: "config \<Rightarrow> Dictionary \<Rightarrow> bytes \<Rightarrow> rel_fp list \<Rightarrow> DictElement list option" where
  "getPktsByFPsAndContent c d pkt [] = Some []"
| "getPktsByFPsAndContent c d pkt (f # fpa) = do {
     r \<leftarrow> dict_element c d pkt f;
     rs \<leftarrow> getPktsByFPsAndContent c d pkt fpa;
     Some (r # rs) }"

record PktChunk =
  pc_fp :: u64
  pc_hash :: u32
  pc_left :: nat
  pc_right :: nat

text \<open>A reference that is not found, or whose right limit exceeds the stored length, ends the search.\<close>

definition chunk_frag :: "config \<Rightarrow> Dictionary \<Rightarrow> PktChunk \<Rightarrow> bytes option option" where
  "chunk_frag c d f = do {
     b \<leftarrow> bucket_of c (d_fps d) (pc_fp f);
     r \<leftarrow> find_entry (hash_test c (d_ps d) (pc_fp f) (pc_hash f)) b;
     (case r of None \<Rightarrow> Some None
      | Some e \<Rightarrow> do {
         p \<leftarrow> getPkt c (d_ps d) (fpb_pktId e);
         pkt \<leftarrow> p;
         if pc_right f > pe_len pkt then Some None
         else do {
           let n = u16_of (pc_right f - pc_left f + 1);
           c_assert (n \<le> PKTSIZELIMIT);
           bs \<leftarrow> load_bytes (pe_pkt pkt) (pc_left f) n;
           Some (Some bs) } }) }"

text \<open>The result is the index of the first failure, or the number of references, and the fragments.\<close>

fun getPktsByFPsAndHash :: "config \<Rightarrow> Dictionary \<Rightarrow> PktChunk list \<Rightarrow> (nat \<times> bytes list) option" where
  "getPktsByFPsAndHash c d [] = Some (0, [])"
| "getPktsByFPsAndHash c d (f # fpa) = do {
     r \<leftarrow> chunk_frag c d f;
     (case r of None \<Rightarrow> Some (0, [])
      | Some bs \<Rightarrow> do {
         (i, pf) \<leftarrow> getPktsByFPsAndHash c d fpa;
         Some (Suc i, bs # pf) }) }"

section \<open>Storing a packet and its fingerprints\<close>

text \<open>The scan of a bucket expires entries and stops at the first free one.\<close>

fun scan_bucket :: "int \<Rightarrow> nat \<Rightarrow> FPEntry \<Rightarrow> FPEntry \<times> nat option" where
  "scan_bucket limit i [] = ([], None)"
| "scan_bucket limit i (e # es) = (
     let e' = expire_entry limit e in
     if fpb_pktId e' = 0 then (e' # es, Some i)
     else let (es', r) = scan_bucket limit (Suc i) es in (e' # es', r))"

text \<open>One round of the loop over the fingerprints; \<open>emptyPos\<close> is kept from round to round.\<close>

definition shared_put_fp ::
  "config \<Rightarrow> PktStore \<Rightarrow> rel_fp \<Rightarrow> nat \<times> FPStore \<times> Statistics \<Rightarrow> (nat \<times> FPStore \<times> Statistics) option" where
  "shared_put_fp c ps f s = (case s of (emptyPos, fps, st) \<Rightarrow> do {
     b \<leftarrow> bucket_of c fps (fst f);
     let (b, r) = scan_bucket (ps_pktId ps - uint (PKTSTORESIZE c)) 0 b;
     let emptyPos = (case r of None \<Rightarrow> emptyPos | Some i \<Rightarrow> i);
     (b, st) \<leftarrow> update_bucket c ps \<lparr> fpb_fp = fst f, fpb_pktId = ps_pktId ps, fpb_offset = snd f \<rparr> emptyPos b st;
     Some (emptyPos, fps[unat (hashFPStore c (fst f)) := b], st) })"

text \<open>\<open>putPktAndFPsComp\<close> and \<open>putPktAndFPsDesc\<close> have the same body on the two static dictionaries.\<close>

definition putPktAndFPs :: "config \<Rightarrow> bytes \<Rightarrow> nat \<Rightarrow> u32 \<Rightarrow> rel_fp list \<Rightarrow> Dictionary \<Rightarrow> Dictionary option" where
  "putPktAndFPs c pkt pktlen computedPacketHash fpa d = (
     let ps = d_ps d; pktIdx = pkt_slot c (ps_pktId ps) in
     if pktIdx < length (ps_pkts ps) then do {
       buf \<leftarrow> memcpy (pe_pkt (ps_pkts ps ! pktIdx)) 0 pkt 0 pktlen;
       let ps = ps\<lparr> ps_pkts := (ps_pkts ps)[pktIdx := \<lparr> pe_pkt = buf, pe_len = pktlen, pe_hash = computedPacketHash \<rparr>] \<rparr>;
       (_, fps, st) \<leftarrow> foldM (shared_put_fp c ps) fpa (PKTS_PER_FP, d_fps d, d_st d);
       Some \<lparr> d_ps = ps\<lparr> ps_pktId := ps_pktId ps + 1 \<rparr>, d_fps = fps,
              d_st = st\<lparr> lastPktId := of_int (ps_pktId ps) \<rparr> \<rparr> }
     else None)"

definition putPktAndFPsComp :: "config \<Rightarrow> bytes \<Rightarrow> nat \<Rightarrow> u32 \<Rightarrow> rel_fp list \<Rightarrow> shared_dictionaries \<Rightarrow> shared_dictionaries option" where
  "putPktAndFPsComp c pkt pktlen h fpa sh = do {
     d \<leftarrow> putPktAndFPs c pkt pktlen h fpa (sh_comp sh);
     Some (sh\<lparr> sh_comp := d \<rparr>) }"

definition putPktAndFPsDesc :: "config \<Rightarrow> bytes \<Rightarrow> nat \<Rightarrow> u32 \<Rightarrow> rel_fp list \<Rightarrow> shared_dictionaries \<Rightarrow> shared_dictionaries option" where
  "putPktAndFPsDesc c pkt pktlen h fpa sh = do {
     d \<leftarrow> putPktAndFPs c pkt pktlen h fpa (sh_desc sh);
     Some (sh\<lparr> sh_desc := d \<rparr>) }"

definition getCompDictStatistics :: "shared_dictionaries \<Rightarrow> Statistics" where
  "getCompDictStatistics sh = d_st (sh_comp sh)"

definition getDescDictStatistics :: "shared_dictionaries \<Rightarrow> Statistics" where
  "getDescDictStatistics sh = d_st (sh_desc sh)"

section \<open>Compression against the shared dictionary\<close>

fun shared_compress_loop ::
  "config \<Rightarrow> bytes \<Rightarrow> nat \<Rightarrow> u32 \<Rightarrow> (rel_fp \<times> DictElement) list \<Rightarrow> emit \<Rightarrow> emit option" where
  "shared_compress_loop c packet pktlen h [] s = Some s"
| "shared_compress_loop c packet pktlen h ((f, fpt) # rest) s = (
     if de_pktLen fpt \<noteq> 0 \<and> \<not> em_orig s > snd f then do {
       s \<leftarrow> emit_match c packet pktlen h (snd f) (fst f) (de_pktHash fpt) (de_pkt fpt) (de_pktLen fpt) (de_offset fpt) s;
       if em_done s then Some s else shared_compress_loop c packet pktlen h rest s }
     else shared_compress_loop c packet pktlen h rest s)"

definition shared_compress ::
  "config \<Rightarrow> Dictionary \<Rightarrow> bytes \<Rightarrow> nat \<Rightarrow> u32 \<Rightarrow> rel_fp list \<Rightarrow> bytes \<Rightarrow> emit option" where
  "shared_compress c d packet pktlen h fptopkt optpkt = do {
     detectedRedundancy \<leftarrow> getPktsByFPsAndContent c d packet fptopkt;
     s \<leftarrow> shared_compress_loop c packet pktlen h (zip fptopkt detectedRedundancy) (emit_start optpkt pktlen);
     s \<leftarrow> emit_rest packet pktlen s;
     _ \<leftarrow> emit_check c pktlen s;
     Some s }"

section \<open>Parsing against the shared dictionary\<close>

text \<open>
  The loop of the shared branch of \<open>uncomp\<close> collects the references (\<open>fptopkt\<close>) with the places
  their bytes go to (\<open>tablePtrFrag\<close>: offset in \<open>packet\<close> and length) in arrays of
  \<open>MAX_FP_PER_PKT\<close> entries.
\<close>

type_synonym ptrFrag = "nat \<times> nat"

definition shared_reference ::
  "config \<Rightarrow> bytes \<Rightarrow> (PktChunk \<times> ptrFrag) list \<times> uncomp_state
    \<Rightarrow> (uncomp_exit + ((PktChunk \<times> ptrFrag) list \<times> uncomp_state)) option" where
  "shared_reference c optpkt x = (case x of (chunks, s) \<Rightarrow> do {
     c_assert (length chunks < MAX_FP_PER_PKT);
     fp \<leftarrow> ntoh64 optpkt (uc_pos s);
     let s = advance 8 s;
     hash \<leftarrow> ntoh32 optpkt (uc_pos s);
     let s = advance 4 s;
     l \<leftarrow> ntoh16 optpkt (uc_pos s);
     let s = advance 2 s;
     r \<leftarrow> ntoh16 optpkt (uc_pos s);
     let s = advance 2 s;
     let left = unat l;
     let right = unat r;
     if left > right \<or> uc_orig s + right - left > MAX_PKT_SIZE c then Some (Inl (Format_error s))
     else Some (Inr (chunks @ [(\<lparr> pc_fp = fp, pc_hash = hash, pc_left = left, pc_right = right \<rparr>,
              (uc_orig s, right - left + 1))],
            s\<lparr> uc_orig := u16_of (uc_orig s + (right - left + 1)),
               uc_pktlen := u16_of (uc_pktlen s + (right - left + 1)) \<rparr>)) })"

definition shared_step ::
  "config \<Rightarrow> bytes \<Rightarrow> (PktChunk \<times> ptrFrag) list \<times> uncomp_state
    \<Rightarrow> (uncomp_exit + ((PktChunk \<times> ptrFrag) list \<times> uncomp_state)) option" where
  "shared_step c optpkt x = do {
     r \<leftarrow> shared_reference c optpkt x;
     (case r of Inl e \<Rightarrow> Some (Inl e)
      | Inr (chunks, s) \<Rightarrow> do {
         y \<leftarrow> uncomp_offset c optpkt s;
         (case y of Inl e \<Rightarrow> Some (Inl e) | Inr s \<Rightarrow> Some (Inr (chunks, s))) }) }"

lemma shared_step_chunks:
  assumes "shared_step c optpkt x = Some (Inr x')"
  shows "length (fst x) < MAX_FP_PER_PKT \<and> length (fst x') = Suc (length (fst x))"
proof -
  obtain r where r: "shared_reference c optpkt x = Some r"
    using assms by (cases "shared_reference c optpkt x") (simp_all add: shared_step_def)
  obtain y where y: "r = Inr y" using assms r by (cases r) (simp_all add: shared_step_def)
  have "length (fst x) < MAX_FP_PER_PKT \<and> length (fst y) = Suc (length (fst x))"
    using r y by (auto simp: shared_reference_def Let_def bind_eq_Some_conv split: prod.splits if_splits)
  moreover have "fst x' = fst y"
  proof -
    obtain z where "uncomp_offset c optpkt (snd y) = Some z"
      using assms r y
      by (cases "uncomp_offset c optpkt (snd y)") (simp_all add: shared_step_def split: prod.splits)
    then show ?thesis
      using assms r y by (cases z) (auto simp: shared_step_def split: prod.splits)
  qed
  ultimately show ?thesis by simp
qed

function shared_uncomp_loop ::
  "config \<Rightarrow> bytes \<Rightarrow> (PktChunk \<times> ptrFrag) list \<times> uncomp_state
    \<Rightarrow> (uncomp_exit + ((PktChunk \<times> ptrFrag) list \<times> uncomp_state)) option" where
  "shared_uncomp_loop c optpkt x = (
     if uc_optlen (snd x) \<ge> 18 then
       (case shared_step c optpkt x of
          None \<Rightarrow> None
        | Some (Inl e) \<Rightarrow> Some (Inl e)
        | Some (Inr x') \<Rightarrow> shared_uncomp_loop c optpkt x')
     else Some (Inr x))"
  by pat_completeness auto
termination
proof (relation "measure (\<lambda>(c, optpkt, x). MAX_FP_PER_PKT - length (fst x))")
  fix c optpkt x r x'
  assume "shared_step c optpkt x = Some r" and "r = Inr x'"
  then have "length (fst x) < MAX_FP_PER_PKT \<and> length (fst x') = Suc (length (fst x))"
    using shared_step_chunks by blast
  then have "MAX_FP_PER_PKT - length (fst x') < MAX_FP_PER_PKT - length (fst x)" by linarith
  then show "((c, optpkt, x'), (c, optpkt, x)) \<in> measure (\<lambda>(c, optpkt, x). MAX_FP_PER_PKT - length (fst x))"
    by simp
qed simp

declare shared_uncomp_loop.simps [simp del]

text \<open>The copy of the fragments to their places; the index of an empty fragment is a failure.\<close>

fun place_fragments :: "nat \<Rightarrow> (ptrFrag \<times> bytes) list \<Rightarrow> bytes \<Rightarrow> (bytes \<times> nat option) option" where
  "place_fragments idx [] packet = Some (packet, None)"
| "place_fragments idx (((dst, len), frag) # rest) packet = (
     if frag = [] then Some (packet, Some idx)
     else do {
       packet \<leftarrow> memcpy packet dst frag 0 len;
       place_fragments (Suc idx) rest packet })"

end
