(* ===== verification/Deduplicator.thy ===== *)
theory Deduplicator
  imports Shared_Dictionary
begin

text \<open>
  The deduplicator object of \<open>lib/solowan_rolling.c\<close> and \<open>lib/uncomp.c\<close>: \<open>newDeduplicator\<close>,
  \<open>dedup\<close>, \<open>put_in_cache\<close>, \<open>update_caches\<close>, \<open>uncomp\<close> and the statistics calls, in both
  dictionary modes.  The operations take the configuration, the deduplicator and the shared
  dictionaries, and return the updated ones with the output parameters.
\<close>

section \<open>Objects\<close>

record Deduplicator =
  compStats :: Statistics
  dd_fps :: FPStore
  dd_ps :: PktStore

definition newDeduplicator :: "config \<Rightarrow> uninit \<Rightarrow> Deduplicator" where
  "newDeduplicator c u = (
     if shared_dictionary_mode c
     then \<lparr> compStats = zero_stats, dd_fps = [], dd_ps = \<lparr> ps_pkts = [], ps_pktId = 0 \<rparr> \<rparr>
     else \<lparr> compStats = zero_stats, dd_fps = new_fps c u, dd_ps = \<lparr> ps_pkts = new_pkts c u, ps_pktId = 1 \<rparr> \<rparr>)"

definition getStatistics :: "Deduplicator \<Rightarrow> Statistics" where
  "getStatistics pd = compStats pd"

definition resetStatistics :: "Deduplicator \<Rightarrow> Deduplicator" where
  "resetStatistics pd = pd\<lparr> compStats := zero_stats \<rparr>"

abbreviation upd_stats :: "(Statistics \<Rightarrow> Statistics) \<Rightarrow> Deduplicator \<Rightarrow> Deduplicator" where
  "upd_stats f pd \<equiv> pd\<lparr> compStats := f (compStats pd) \<rparr>"

definition add_inputBytes :: "nat \<Rightarrow> Statistics \<Rightarrow> Statistics" where
  "add_inputBytes n st = st\<lparr> inputBytes := inputBytes st + of_nat n \<rparr>"

definition add_outputBytes :: "nat \<Rightarrow> Statistics \<Rightarrow> Statistics" where
  "add_outputBytes n st = st\<lparr> outputBytes := outputBytes st + of_nat n \<rparr>"

definition inc_processed :: "Statistics \<Rightarrow> Statistics" where
  "inc_processed st = st\<lparr> processedPackets := processedPackets st + 1 \<rparr>"

section \<open>Compression\<close>

text \<open>The \<open>for\<close> loop over the fingerprints, private dictionary.\<close>

fun compress_loop ::
  "config \<Rightarrow> FPStore \<Rightarrow> PktStore \<Rightarrow> bytes \<Rightarrow> nat \<Rightarrow> u32 \<Rightarrow> rel_fp list \<Rightarrow> emit \<Rightarrow> emit option" where
  "compress_loop c fps ps packet pktlen h [] s = Some s"
| "compress_loop c fps ps packet pktlen h ((fp, ofs1) # rest) s = do {
     fpp \<leftarrow> getFPcontent c fps ps fp packet ofs1;
     (case fpp of None \<Rightarrow> compress_loop c fps ps packet pktlen h rest s
      | Some e \<Rightarrow>
         if em_orig s > ofs1 then compress_loop c fps ps packet pktlen h rest s
         else do {
           sp \<leftarrow> getPkt c ps (fpb_pktId e);
           storedPacket \<leftarrow> sp;
           s \<leftarrow> emit_match c packet pktlen h ofs1 (fpb_fp e) (pe_hash storedPacket) (pe_pkt storedPacket)
                 (pe_len storedPacket) (fpb_offset e) s;
           if em_done s then Some s else compress_loop c fps ps packet pktlen h rest s }) }"

definition compress_private ::
  "config \<Rightarrow> FPStore \<Rightarrow> PktStore \<Rightarrow> bytes \<Rightarrow> nat \<Rightarrow> u32 \<Rightarrow> rel_fp list \<Rightarrow> bytes \<Rightarrow> emit option" where
  "compress_private c fps ps packet pktlen h pktFps optpkt = do {
     s \<leftarrow> compress_loop c fps ps packet pktlen h pktFps (emit_start optpkt pktlen);
     s \<leftarrow> emit_rest packet pktlen s;
     _ \<leftarrow> emit_check c pktlen s;
     Some s }"

text \<open>Storing the fingerprints, last one first.\<close>

definition store_fps ::
  "config \<Rightarrow> PktStore \<Rightarrow> int \<Rightarrow> rel_fp list \<Rightarrow> FPStore \<times> Statistics \<Rightarrow> (FPStore \<times> Statistics) option" where
  "store_fps c ps pktId pktFps = foldM (\<lambda>(fp, ofs). putFP c ps fp pktId ofs) (rev pktFps)"

text \<open>The accounting after compression, with its assertions.\<close>

definition compress_stats :: "config \<Rightarrow> nat \<Rightarrow> emit \<Rightarrow> Statistics \<Rightarrow> Statistics option" where
  "compress_stats c pktlen s st = do {
     let st = add_outputBytes (em_optlen s) st;
     let st = (if em_optlen s < pktlen then st\<lparr> compressedPackets := compressedPackets st + 1 \<rparr> else st);
     c_assert (em_optlen s \<le> MAX_PKT_SIZE c);
     c_assert (em_orig s \<le> MAX_PKT_SIZE c);
     Some st }"

definition cache_private ::
  "config \<Rightarrow> Deduplicator \<Rightarrow> bytes \<Rightarrow> nat \<Rightarrow> u32 \<Rightarrow> rel_fp list \<Rightarrow> bytes option
     \<Rightarrow> (Deduplicator \<times> (bytes \<times> nat) option) option" where
  "cache_private c pd packet pktlen h pktFps compress = do {
     (ps, currPktId) \<leftarrow> putPkt c (dd_ps pd) packet pktlen h;
     out \<leftarrow> (case compress of
         None \<Rightarrow> Some None
       | Some optpkt \<Rightarrow> do { s \<leftarrow> compress_private c (dd_fps pd) ps packet pktlen h pktFps optpkt; Some (Some s) });
     (fps, st) \<leftarrow> store_fps c ps currPktId pktFps (dd_fps pd, compStats pd);
     let st = st\<lparr> lastPktId := of_int currPktId \<rparr>;
     st \<leftarrow> (case out of None \<Rightarrow> Some (add_outputBytes pktlen st) | Some s \<Rightarrow> compress_stats c pktlen s st);
     Some (pd\<lparr> compStats := st, dd_fps := fps, dd_ps := ps \<rparr>, map_option (\<lambda>s. (em_opt s, em_optlen s)) out) }"

definition cache_shared ::
  "config \<Rightarrow> Deduplicator \<Rightarrow> shared_dictionaries \<Rightarrow> bytes \<Rightarrow> nat \<Rightarrow> u32 \<Rightarrow> rel_fp list \<Rightarrow> bytes option
     \<Rightarrow> (Deduplicator \<times> shared_dictionaries \<times> (bytes \<times> nat) option) option" where
  "cache_shared c pd sh packet pktlen h fptopkt compress = do {
     out \<leftarrow> (case compress of
         None \<Rightarrow> Some None
       | Some optpkt \<Rightarrow> do { s \<leftarrow> shared_compress c (sh_comp sh) packet pktlen h fptopkt optpkt; Some (Some s) });
     sh \<leftarrow> putPktAndFPsComp c packet pktlen h fptopkt sh;
     st \<leftarrow> (case out of None \<Rightarrow> Some (add_outputBytes pktlen (compStats pd))
            | Some s \<Rightarrow> compress_stats c pktlen s (compStats pd));
     Some (pd\<lparr> compStats := st \<rparr>, sh, map_option (\<lambda>s. (em_opt s, em_optlen s)) out) }"

text \<open>
  \<open>compress\<close> is the output array when the flag is set (\<open>dedup\<close>) and absent otherwise
  (\<open>put_in_cache\<close>); the result carries the array and \<open>optlen\<close> back.
\<close>

definition cacheAndCompressIfNeeded ::
  "config \<Rightarrow> Deduplicator \<Rightarrow> shared_dictionaries \<Rightarrow> bytes \<Rightarrow> nat \<Rightarrow> bytes option
     \<Rightarrow> (Deduplicator \<times> shared_dictionaries \<times> (bytes \<times> nat) option) option" where
  "cacheAndCompressIfNeeded c pd sh packet pktlen compress = (
     let pd1 = upd_stats (add_inputBytes pktlen \<circ> inc_processed) pd in
     if pktlen < BETA then
       Some (upd_stats (\<lambda>st. add_outputBytes pktlen (st\<lparr> numberOfShortPkts := numberOfShortPkts st + 1 \<rparr>)) pd1, sh,
             map_option (\<lambda>optpkt. (optpkt, pktlen)) compress)
     else do {
       fps \<leftarrow> calculateRelevantFPs (FPPERPKT c) packet pktlen;
       h \<leftarrow> MurmurHash3_x86_32 packet pktlen SEED;
       if shared_dictionary_mode c then cache_shared c pd1 sh packet pktlen h fps compress
       else do {
         (pd2, out) \<leftarrow> cache_private c pd1 packet pktlen h fps compress;
         Some (pd2, sh, out) } })"

definition dedup ::
  "config \<Rightarrow> Deduplicator \<Rightarrow> shared_dictionaries \<Rightarrow> bytes \<Rightarrow> nat \<Rightarrow> bytes
     \<Rightarrow> (Deduplicator \<times> shared_dictionaries \<times> bytes \<times> nat) option" where
  "dedup c pd sh packet pktlen optpkt = do {
     (pd, sh, out) \<leftarrow> cacheAndCompressIfNeeded c pd sh packet pktlen (Some optpkt);
     (optpkt, optlen) \<leftarrow> out;
     Some (pd, sh, optpkt, optlen) }"

definition put_in_cache ::
  "config \<Rightarrow> Deduplicator \<Rightarrow> shared_dictionaries \<Rightarrow> bytes \<Rightarrow> nat \<Rightarrow> (Deduplicator \<times> shared_dictionaries) option" where
  "put_in_cache c pd sh packet pktlen = do {
     (pd, sh, _) \<leftarrow> cacheAndCompressIfNeeded c pd sh packet pktlen None;
     Some (pd, sh) }"

section \<open>Decompression\<close>

definition local_update_caches ::
  "config \<Rightarrow> Deduplicator \<Rightarrow> shared_dictionaries \<Rightarrow> bytes \<Rightarrow> nat \<Rightarrow> u32 \<Rightarrow> (Deduplicator \<times> shared_dictionaries) option" where
  "local_update_caches c pd sh packet pktlen h = (
     if pktlen < BETA then Some (pd, sh)
     else do {
       pktFps \<leftarrow> calculateRelevantFPs (FPPERPKT c) packet pktlen;
       if shared_dictionary_mode c then do {
         sh \<leftarrow> putPktAndFPsDesc c packet pktlen h pktFps sh;
         Some (pd, sh) }
       else do {
         (ps, currPktId) \<leftarrow> putPkt c (dd_ps pd) packet pktlen h;
         (fps, st) \<leftarrow> store_fps c ps currPktId pktFps (dd_fps pd, compStats pd);
         Some (pd\<lparr> compStats := st, dd_fps := fps, dd_ps := ps \<rparr>, sh) } })"

definition update_caches ::
  "config \<Rightarrow> Deduplicator \<Rightarrow> shared_dictionaries \<Rightarrow> bytes \<Rightarrow> nat \<Rightarrow> (Deduplicator \<times> shared_dictionaries) option" where
  "update_caches c pd sh packet pktlen = (
     if pktlen < BETA then Some (pd, sh)
     else do {
       h \<leftarrow> MurmurHash3_x86_32 packet pktlen SEED;
       (pd, sh) \<leftarrow> local_update_caches c pd sh packet pktlen h;
       Some (upd_stats (inc_processed \<circ> add_outputBytes pktlen \<circ> add_inputBytes pktlen) pd, sh) })"

text \<open>\<open>UncompReturnStatus\<close>; the caller's structure keeps the fields that are not set.\<close>

datatype uncomp_code = UNCOMP_OK | UNCOMP_FP_NOT_FOUND | UNCOMP_BAD_PACKET_FORMAT | UNCOMP_BAD_PACKET_HASH

record UncompReturnStatus =
  us_code :: uncomp_code
  us_fp :: u64
  us_hash :: u32

record uncomp_result =
  ur_pd :: Deduplicator
  ur_sh :: shared_dictionaries
  ur_packet :: bytes
  ur_pktlen :: nat
  ur_status :: UncompReturnStatus

definition uncomp_fail_format ::
  "Deduplicator \<Rightarrow> shared_dictionaries \<Rightarrow> bytes \<Rightarrow> UncompReturnStatus \<Rightarrow> uncomp_result" where
  "uncomp_fail_format pd sh packet st = \<lparr>
     ur_pd = upd_stats (\<lambda>s. s\<lparr> errorsPacketFormat := errorsPacketFormat s + 1 \<rparr>) pd,
     ur_sh = sh, ur_packet = packet, ur_pktlen = 0, ur_status = st\<lparr> us_code := UNCOMP_BAD_PACKET_FORMAT \<rparr> \<rparr>"

definition uncomp_fail_missing ::
  "Deduplicator \<Rightarrow> shared_dictionaries \<Rightarrow> bytes \<Rightarrow> u64 \<Rightarrow> u32 \<Rightarrow> uncomp_result" where
  "uncomp_fail_missing pd sh packet fp h = \<lparr>
     ur_pd = upd_stats (\<lambda>s. s\<lparr> errorsMissingFP := errorsMissingFP s + 1 \<rparr>) pd,
     ur_sh = sh, ur_packet = packet, ur_pktlen = 0,
     ur_status = \<lparr> us_code = UNCOMP_FP_NOT_FOUND, us_fp = fp, us_hash = h \<rparr> \<rparr>"

text \<open>The common end: count, compare the hash of the rebuilt packet with the one sent, update the caches.\<close>

definition uncomp_finish ::
  "config \<Rightarrow> Deduplicator \<Rightarrow> shared_dictionaries \<Rightarrow> bytes \<Rightarrow> nat \<Rightarrow> nat \<Rightarrow> u32 \<Rightarrow> UncompReturnStatus \<Rightarrow> uncomp_result option" where
  "uncomp_finish c pd sh packet pktlen orig_optlen sentPktHash st = do {
     let pd = (if pktlen > orig_optlen
               then upd_stats (\<lambda>s. s\<lparr> uncompressedPackets := uncompressedPackets s + 1 \<rparr>) pd else pd);
     computedPacketHash \<leftarrow> MurmurHash3_x86_32 packet pktlen SEED;
     if computedPacketHash = sentPktHash then do {
       (pd, sh) \<leftarrow> local_update_caches c (upd_stats (add_outputBytes pktlen) pd) sh packet pktlen computedPacketHash;
       Some \<lparr> ur_pd = pd, ur_sh = sh, ur_packet = packet, ur_pktlen = pktlen,
              ur_status = st\<lparr> us_code := UNCOMP_OK \<rparr> \<rparr> }
     else Some \<lparr> ur_pd = upd_stats (\<lambda>s. s\<lparr> errorsPacketHash := errorsPacketHash s + 1 \<rparr>) pd,
              ur_sh = sh, ur_packet = packet, ur_pktlen = 0,
              ur_status = st\<lparr> us_code := UNCOMP_BAD_PACKET_HASH \<rparr> \<rparr> }"

text \<open>The header of an optimised packet: hash, offset of the first descriptor, first literal run.\<close>

definition uncomp_header ::
  "config \<Rightarrow> bytes \<Rightarrow> nat \<Rightarrow> bytes \<Rightarrow> (u32 \<times> (uncomp_exit + uncomp_state)) option" where
  "uncomp_header c optpkt optlen packet = do {
     let s = \<lparr> uc_pos = 0, uc_optlen = optlen, uc_orig = 0, uc_pktlen = 0, uc_packet = packet \<rparr>;
     sentPktHash \<leftarrow> ntoh32 optpkt (uc_pos s);
     let s = advance 4 s;
     offset \<leftarrow> ntoh16 optpkt (uc_pos s);
     let s = advance 2 s;
     r \<leftarrow> (if unat offset > 0 then copy_literal c optpkt (unat offset) s else Some (Inr s));
     Some (sentPktHash, r) }"

definition uncomp_private ::
  "config \<Rightarrow> Deduplicator \<Rightarrow> shared_dictionaries \<Rightarrow> bytes \<Rightarrow> bytes \<Rightarrow> nat \<Rightarrow> UncompReturnStatus \<Rightarrow> uncomp_result option" where
  "uncomp_private c pd sh packet optpkt optlen st = do {
     let pd = upd_stats (inc_processed \<circ> add_inputBytes optlen) pd;
     (sentPktHash, hdr) \<leftarrow> uncomp_header c optpkt optlen packet;
     (case hdr of
        Inl _ \<Rightarrow> Some (uncomp_fail_format pd sh packet st)
      | Inr s \<Rightarrow> do {
          x \<leftarrow> uncomp_loop c (dd_fps pd) (dd_ps pd) optpkt s;
          (case x of
             Format_error s \<Rightarrow> Some (uncomp_fail_format pd sh (uc_packet s) st)
           | Missing_fp fp h s \<Rightarrow> Some (uncomp_fail_missing pd sh (uc_packet s) fp h)
           | Parsed s \<Rightarrow> do {
               c_assert (uc_pktlen s \<le> MAX_PKT_SIZE c);
               c_assert (uc_orig s \<le> MAX_PKT_SIZE c);
               uncomp_finish c pd sh (uc_packet s) (uc_pktlen s) optlen sentPktHash st }) }) }"

definition uncomp_shared ::
  "config \<Rightarrow> Deduplicator \<Rightarrow> shared_dictionaries \<Rightarrow> bytes \<Rightarrow> bytes \<Rightarrow> nat \<Rightarrow> UncompReturnStatus \<Rightarrow> uncomp_result option" where
  "uncomp_shared c pd sh packet optpkt optlen st = do {
     let pd = upd_stats (inc_processed \<circ> add_inputBytes optlen) pd;
     (sentPktHash, hdr) \<leftarrow> uncomp_header c optpkt optlen packet;
     (case hdr of
        Inl _ \<Rightarrow> Some (uncomp_fail_format pd sh packet st)
      | Inr s \<Rightarrow> do {
          x \<leftarrow> shared_uncomp_loop c optpkt ([], s);
          (case x of
             Inl (Format_error s) \<Rightarrow> Some (uncomp_fail_format pd sh (uc_packet s) st)
           | Inl _ \<Rightarrow> None
           | Inr (chunks, s) \<Rightarrow>
               if uc_pktlen s > MAX_PKT_SIZE c \<or> uc_orig s > MAX_PKT_SIZE c
               then Some (uncomp_fail_format pd sh (uc_packet s) st)
               else do {
                 (found, frags) \<leftarrow> getPktsByFPsAndHash c (sh_desc sh) (map fst chunks);
                 if found \<noteq> length chunks then
                   Some (uncomp_fail_missing pd sh (uc_packet s) (pc_fp (fst (chunks ! found))) (pc_hash (fst (chunks ! found))))
                 else do {
                   (packet, failed) \<leftarrow> place_fragments 0 (zip (map snd chunks) frags) (uc_packet s);
                   (case failed of
                      Some i \<Rightarrow> Some (uncomp_fail_missing pd sh packet (pc_fp (fst (chunks ! i))) (pc_hash (fst (chunks ! i))))
                    | None \<Rightarrow> uncomp_finish c pd sh packet (uc_pktlen s) optlen sentPktHash st) } }) }) }"

definition uncomp ::
  "config \<Rightarrow> Deduplicator \<Rightarrow> shared_dictionaries \<Rightarrow> bytes \<Rightarrow> bytes \<Rightarrow> nat \<Rightarrow> UncompReturnStatus \<Rightarrow> uncomp_result option" where
  "uncomp c pd sh packet optpkt optlen st =
     (if shared_dictionary_mode c then uncomp_shared c pd sh packet optpkt optlen st
      else uncomp_private c pd sh packet optpkt optlen st)"

end
