(* ===== verification/Dedup_Roundtrip.thy ===== *)
theory Dedup_Roundtrip
  imports Deduplicator
begin

text \<open>
  Correctness of the deduplicator with private dictionaries: every operation succeeds and keeps the
  representation invariant; compressor and decompressor refine the same abstract dictionary; and a
  stream of packets sent through \<open>dedup\<close> and \<open>uncomp\<close> arrives unchanged.
\<close>

section \<open>Representation invariant\<close>

definition pd_rep :: "config \<Rightarrow> bytes list \<Rightarrow> Deduplicator \<Rightarrow> bool" where
  "pd_rep c hist pd \<longleftrightarrow> ps_rep c hist (dd_ps pd) \<and> fps_rep c hist (dd_fps pd)"

lemma pd_rep_stats [simp]: "pd_rep c hist (pd\<lparr> compStats := st \<rparr>) = pd_rep c hist pd"
  by (simp add: pd_rep_def)

lemma live_Nil [simp]: "\<not> live c [] pid"
  by (auto simp: live_def)

lemma new_pkts_rep: "ps_rep c [] \<lparr> ps_pkts = new_pkts c u, ps_pktId = 1 \<rparr>"
  by (auto simp: ps_rep_def new_pkts_def hist_ok_def)

lemma new_fps_rep: "fps_rep c [] (new_fps c u)"
  by (auto simp: fps_rep_def new_fps_def bucket_ok_def entry_ok_def)

lemma newDeduplicator_rep: "\<not> shared_dictionary_mode c \<Longrightarrow> pd_rep c [] (newDeduplicator c u)"
  by (simp add: pd_rep_def newDeduplicator_def new_pkts_rep new_fps_rep)

text \<open>Fresh stores look alike whatever the memory held before.\<close>

lemma abs_new_fps: "abs_fps (new_fps c u) = abs_fps (new_fps c v)"
  by (simp add: abs_fps_def new_fps_def norm_entry_def)

section \<open>Only the packet's own bytes matter\<close>

lemma relevantFPs_loop_take:
  assumes "e < l" and "BETA < l"
  shows "relevantFPs_loop n (take l p) l first fpma t e prev m k = relevantFPs_loop n p l first fpma t e prev m k"
  using assms
proof (induction n p l first fpma t e prev m k rule: relevantFPs_loop.induct)
  case (1 n p l first fpma t e prev m k)
  show ?case
    using 1
    by (subst (1 2) relevantFPs_loop.simps)
      (auto simp: load8_take Let_def intro!: Option.bind_cong split: prod.splits)
qed

lemma calculateRelevantFPs_take:
  assumes "BETA \<le> l"
  shows "calculateRelevantFPs n (take l p) l = calculateRelevantFPs n p l"
proof -
  have "full_rfp (take l p) 0 = full_rfp p 0"
    using assms by (auto simp: full_rfp_def load_bytes_def min_def)
  then show ?thesis
    using assms by (cases "l = BETA") (simp_all add: calculateRelevantFPs_def relevantFPs_loop_take)
qed

section \<open>The abstract dictionary step\<close>

definition packet_fps :: "config \<Rightarrow> bytes \<Rightarrow> rel_fp list" where
  "packet_fps c p = the (calculateRelevantFPs (FPPERPKT c) p (length p))"

definition spec_store :: "config \<Rightarrow> bytes list \<Rightarrow> bytes \<Rightarrow> FPStore \<Rightarrow> FPStore" where
  "spec_store c hist p afps = fold (spec_putFP c (hist @ [p])) (rev (packet_fps c p)) afps"

lemma packet_fps_ok:
  assumes "config_ok c" and "BETA \<le> length p"
  shows "calculateRelevantFPs (FPPERPKT c) p (length p) = Some (packet_fps c p)"
    and "fps_ok (FPPERPKT c) p (length p) (packet_fps c p)"
proof -
  obtain fps where "calculateRelevantFPs (FPPERPKT c) p (length p) = Some fps"
    "fps_ok (FPPERPKT c) p (length p) fps"
    using calculateRelevantFPs_ok [of "length p" p "FPPERPKT c"] assms by (auto simp: config_ok_def)
  then show "calculateRelevantFPs (FPPERPKT c) p (length p) = Some (packet_fps c p)"
    "fps_ok (FPPERPKT c) p (length p) (packet_fps c p)" by (simp_all add: packet_fps_def)
qed

lemma calculate_packet_fps:
  assumes "config_ok c" and "BETA \<le> n" and "n \<le> length packet"
  shows "calculateRelevantFPs (FPPERPKT c) packet n = Some (packet_fps c (take n packet))"
proof -
  have "length (take n packet) = n" using assms(3) by simp
  then show ?thesis
    using packet_fps_ok(1) [of c "take n packet"] assms calculateRelevantFPs_take [OF assms(2), of "FPPERPKT c" packet]
    by metis
qed

lemma packet_fps_entry:
  assumes "config_ok c" and "BETA \<le> length p" and "(fp, ofs) \<in> set (packet_fps c p)"
  shows "ofs + BETA \<le> length p" and "fp = rfp_at p ofs"
  using packet_fps_ok [OF assms(1,2)] assms(3) by (force simp: fps_ok_def fp_entry_ok_def)+

lemma store_fps_list:
  assumes "config_ok c" and "ps_rep c hist ps" and "fps_rep c hist fps" and "hist \<noteq> []"
    and "\<forall>(fp, ofs) \<in> set fs. ofs + BETA \<le> length (last hist) \<and> fp = rfp_at (last hist) ofs"
  shows "\<exists>fps' st'. foldM (\<lambda>(fp, ofs). putFP c ps fp (int (length hist)) ofs) fs (fps, st) = Some (fps', st') \<and>
     fps_rep c hist fps' \<and> abs_fps fps' = fold (spec_putFP c hist) fs (abs_fps fps) \<and> fp_counters st st'"
  using assms(3,5)
proof (induction fs arbitrary: fps st)
  case (Cons f fs)
  obtain fp ofs where f: "f = (fp, ofs)" by fastforce
  obtain fps1 st1 where 1: "putFP c ps fp (int (length hist)) ofs (fps, st) = Some (fps1, st1)"
    "fps_rep c hist fps1" "abs_fps fps1 = spec_putFP c hist (fp, ofs) (abs_fps fps)" "fp_counters st st1"
    using putFP_refines [OF assms(1,2) Cons.prems(1) assms(4), of ofs fp st] Cons.prems(2) unfolding f by auto
  obtain fps2 st2 where 2: "foldM (\<lambda>(fp, ofs). putFP c ps fp (int (length hist)) ofs) fs (fps1, st1) = Some (fps2, st2)"
    "fps_rep c hist fps2" "abs_fps fps2 = fold (spec_putFP c hist) fs (abs_fps fps1)" "fp_counters st1 st2"
    using Cons.IH [OF 1(2), of st1] Cons.prems(2) by auto
  then show ?case using 1 fp_counters_trans [OF 1(4) 2(4)] by (simp add: f)
qed simp

lemma store_fps_refines:
  assumes ok: "config_ok c" and ps: "ps_rep c (hist @ [p]) ps" and fps: "fps_rep c hist fps" and p: "BETA \<le> length p"
  shows "\<exists>fps' st'. store_fps c ps (int (length hist) + 1) (packet_fps c p) (fps, st) = Some (fps', st') \<and>
     fps_rep c (hist @ [p]) fps' \<and> abs_fps fps' = spec_store c hist p (abs_fps fps) \<and> fp_counters st st'"
proof -
  have "\<forall>(fp, ofs) \<in> set (rev (packet_fps c p)). ofs + BETA \<le> length (last (hist @ [p])) \<and> fp = rfp_at (last (hist @ [p])) ofs"
    using packet_fps_entry [OF ok p] by auto
  then show ?thesis
    using store_fps_list [OF ok ps fps_rep_append [OF fps], of "rev (packet_fps c p)" st]
    by (simp add: store_fps_def spec_store_def add.commute)
qed

section \<open>The compressor\<close>

text \<open>What the tables of the sender resolve a fingerprint and a hash to.\<close>

definition refers_to :: "config \<Rightarrow> bytes list \<Rightarrow> FPStore \<Rightarrow> u64 \<Rightarrow> u32 \<Rightarrow> bytes \<Rightarrow> bool" where
  "refers_to c hist fps fp h q \<longleftrightarrow> (\<exists>e\<in>set (fps ! unat (hashFPStore c fp)).
     fpb_fp e = fp \<and> live c hist (fpb_pktId e) \<and> q = pkt_of hist (fpb_pktId e) \<and> h = packet_hash q)"

definition emit_state_ok ::
  "(u64 \<Rightarrow> u32 \<Rightarrow> bytes \<Rightarrow> bool) \<Rightarrow> config \<Rightarrow> bytes \<Rightarrow> nat \<Rightarrow> u32 \<Rightarrow> token list \<Rightarrow> emit \<Rightarrow> bool" where
  "emit_state_ok refers c packet pktlen h ts s \<longleftrightarrow>
     (if em_done s then em_orig s = pktlen \<and> (\<exists>tail. emit_final refers c packet pktlen h ts tail s)
      else emit_inv refers c packet pktlen h ts s)"

lemma compress_entry_ok:
  assumes ok: "config_ok c" "ps_rep c hist ps" "fps_rep c hist fps"
    and inv: "emit_inv (refers_to c hist fps) c packet pktlen h ts s"
    and ofs: "em_orig s \<le> ofs1" "ofs1 + BETA \<le> pktlen"
    and e: "e \<in> set (fps ! unat (hashFPStore c fp))" "content_match c hist fp packet ofs1 e"
      "fpb_offset e + BETA \<le> length (pkt_of hist (fpb_pktId e))"
  shows "\<exists>pe s' t. getPkt c ps (fpb_pktId e) = Some (Some pe) \<and>
    emit_match c packet pktlen h ofs1 (fpb_fp e) (pe_hash pe) (pe_pkt pe) (pe_len pe) (fpb_offset e) s = Some s' \<and>
    emit_state_ok (refers_to c hist fps) c packet pktlen h (ts @ [t]) s'"
proof -
  let ?q = "pkt_of hist (fpb_pktId e)"
  have lv: "live c hist (fpb_pktId e)" and fp: "fpb_fp e = fp"
    and win: "take BETA (drop ofs1 packet) = take BETA (drop (fpb_offset e) ?q)"
    using e(2) by (simp_all add: content_match_def)
  obtain pe where pe: "getPkt c ps (fpb_pktId e) = Some (Some pe)" "entry_holds pe ?q"
    "length (pe_pkt pe) = MAX_PKT_SIZE c" by (rule getPkt_live [OF ok(1,2) lv])
  have hok: "hist_ok c hist" using ok(2) by (simp add: ps_rep_def)
  have q: "take (length ?q) (pe_pkt pe) = ?q" "length ?q \<le> length (pe_pkt pe)" "length ?q \<le> MAX_PKT_SIZE c"
    "pe_len pe = length ?q" "pe_hash pe = packet_hash ?q"
    using pe(2,3) live_len [OF hok lv] by (simp_all add: entry_holds_def)
  have r: "refers_to c hist fps fp (packet_hash ?q) ?q"
    unfolding refers_to_def using e(1) fp lv by blast
  have m: "MAX_PKT_SIZE c < 65536" using ok(1) by (simp add: config_ok_def)
  show ?thesis
    using emit_match_ok [OF inv m ofs q(1-3) e(3) win r] pe(1) q(4,5) fp
    unfolding emit_state_ok_def by auto
qed

lemma compress_loop_ok:
  assumes ok: "config_ok c" "ps_rep c hist ps" "fps_rep c hist fps" and pk: "pktlen \<le> length packet"
    and fs: "\<forall>f\<in>set fs. snd f + BETA \<le> pktlen"
    and inv: "emit_inv (refers_to c hist fps) c packet pktlen h ts s"
  shows "\<exists>s' ts'. compress_loop c fps ps packet pktlen h fs s = Some s' \<and>
    emit_state_ok (refers_to c hist fps) c packet pktlen h ts' s'"
  using fs inv
proof (induction fs arbitrary: s ts)
  case Nil
  then have "emit_state_ok (refers_to c hist fps) c packet pktlen h ts s"
    by (simp add: emit_state_ok_def emit_inv_def)
  then show ?case by auto
next
  case (Cons f fs)
  obtain fp ofs1 where f: "f = (fp, ofs1)" by fastforce
  have o: "ofs1 + BETA \<le> pktlen" using Cons.prems(1) f by simp
  obtain r where r: "getFPcontent c fps ps fp packet ofs1 = Some r"
    "\<And>e. r = Some e \<Longrightarrow> e \<in> set (fps ! unat (hashFPStore c fp)) \<and> content_match c hist fp packet ofs1 e \<and>
     fpb_offset e + BETA \<le> length (pkt_of hist (fpb_pktId e))"
    using getFPcontent_ok [OF ok, of ofs1 packet fp] o pk by auto
  have skip: "\<exists>s' ts'. compress_loop c fps ps packet pktlen h fs s = Some s' \<and>
      emit_state_ok (refers_to c hist fps) c packet pktlen h ts' s'"
    using Cons.IH [of ts s] Cons.prems by simp
  show ?case
  proof (cases "\<exists>e. r = Some e \<and> em_orig s \<le> ofs1")
    case True
    then obtain e where e: "r = Some e" "em_orig s \<le> ofs1" by blast
    obtain pe s1 t where 1: "getPkt c ps (fpb_pktId e) = Some (Some pe)"
      "emit_match c packet pktlen h ofs1 (fpb_fp e) (pe_hash pe) (pe_pkt pe) (pe_len pe) (fpb_offset e) s = Some s1"
      "emit_state_ok (refers_to c hist fps) c packet pktlen h (ts @ [t]) s1"
      using compress_entry_ok [OF ok Cons.prems(2) e(2) o] r(2) [OF e(1)] by blast
    show ?thesis
    proof (cases "em_done s1")
      case True
      then show ?thesis using 1 r(1) e by (auto simp: f)
    next
      case False
      then have "emit_inv (refers_to c hist fps) c packet pktlen h (ts @ [t]) s1"
        using 1(3) by (simp add: emit_state_ok_def)
      then show ?thesis using Cons.IH [of "ts @ [t]" s1] Cons.prems(1) 1 r(1) e False by (simp add: f)
    qed
  next
    case False
    then show ?thesis using skip r(1) by (cases r) (auto simp: f)
  qed
qed

lemma compress_private_ok:
  assumes ok: "config_ok c" "ps_rep c hist ps" "fps_rep c hist fps"
    and pk: "BETA \<le> pktlen" "pktlen \<le> length packet" "pktlen \<le> MAX_PKT_SIZE c" "pktlen \<le> length optpkt"
    and fs: "\<forall>f\<in>set fs. snd f + BETA \<le> pktlen"
  shows "\<exists>s ts. compress_private c fps ps packet pktlen h fs optpkt = Some s \<and> em_orig s \<le> pktlen \<and>
    (if ts = [] then em_optlen s = pktlen
     else (\<exists>tail. emit_final (refers_to c hist fps) c packet pktlen h ts tail s))"
proof -
  have m: "MAX_PKT_SIZE c < 65536" using ok(1) by (simp add: config_ok_def)
  obtain s1 ts where 1: "compress_loop c fps ps packet pktlen h fs (emit_start optpkt pktlen) = Some s1"
    "emit_state_ok (refers_to c hist fps) c packet pktlen h ts s1"
    using compress_loop_ok [OF ok pk(2) fs emit_start_inv [OF pk]] by blast
  then obtain s where "emit_rest packet pktlen s1 = Some s" "emit_check c pktlen s = Some ()" "em_orig s \<le> pktlen"
    "if ts = [] then em_optlen s = pktlen
     else (\<exists>tail. emit_final (refers_to c hist fps) c packet pktlen h ts tail s)"
    using emit_finish [OF m pk(2,3)] unfolding emit_state_ok_def by metis
  then show ?thesis using 1(1) by (intro exI [of _ s] exI [of _ ts]) (simp add: compress_private_def)
qed

text \<open>What a call of \<open>dedup\<close> achieves: the dictionaries take the abstract step, and the output is
  either not used (\<open>optlen = pktlen\<close>) or a strictly shorter encoding of the packet.\<close>

definition encoded ::
  "config \<Rightarrow> bytes list \<Rightarrow> FPStore \<Rightarrow> bytes \<Rightarrow> bytes \<Rightarrow> nat \<Rightarrow> bool" where
  "encoded c hist fps p opt optlen \<longleftrightarrow> (\<exists>ts tail. ts \<noteq> [] \<and>
     take optlen opt = enc_packet (packet_hash p) ts tail \<and> p = dec_toks ts @ tail \<and>
     (\<forall>t\<in>set ts. tok_ok (refers_to c hist fps) c t) \<and> optlen + 40 \<le> length p \<and> optlen \<le> length opt)"

lemma encoded_gain: "encoded c hist fps p opt optlen \<Longrightarrow> optlen + 40 \<le> length p"
  unfolding encoded_def by blast

lemma cache_private_ok:
  assumes ok: "config_ok c" and rep: "pd_rep c hist pd"
    and pk: "BETA \<le> pktlen" "pktlen \<le> length packet" "pktlen \<le> MAX_PKT_SIZE c" "pktlen \<le> length optpkt"
  defines "p \<equiv> take pktlen packet"
  shows "\<exists>pd' opt optlen. cache_private c pd packet pktlen (packet_hash p) (packet_fps c p) (Some optpkt)
      = Some (pd', Some (opt, optlen)) \<and> pd_rep c (hist @ [p]) pd' \<and>
    abs_fps (dd_fps pd') = spec_store c hist p (abs_fps (dd_fps pd)) \<and>
    (optlen = pktlen \<or> encoded c (hist @ [p]) (dd_fps pd) p opt optlen)"
proof -
  have p: "length p = pktlen" "BETA \<le> length p" using pk by (simp_all add: p_def)
  have r: "ps_rep c hist (dd_ps pd)" "fps_rep c hist (dd_fps pd)" using rep by (simp_all add: pd_rep_def)
  obtain ps where ps: "putPkt c (dd_ps pd) packet pktlen (packet_hash p) = Some (ps, int (length hist) + 1)"
    "ps_rep c (hist @ [p]) ps"
    using ps_rep_put [OF ok r(1) pk(1,3,2)] unfolding p_def by blast
  have fs: "\<forall>f\<in>set (packet_fps c p). snd f + BETA \<le> pktlen"
    using packet_fps_entry(1) [OF ok p(2)] p(1) by auto
  obtain s ts where s: "compress_private c (dd_fps pd) ps packet pktlen (packet_hash p) (packet_fps c p) optpkt = Some s"
    "em_orig s \<le> pktlen"
    "if ts = [] then em_optlen s = pktlen
     else (\<exists>tail. emit_final (refers_to c (hist @ [p]) (dd_fps pd)) c packet pktlen (packet_hash p) ts tail s)"
    using compress_private_ok [OF ok ps(2) fps_rep_append [OF r(2)] pk fs] by blast
  obtain fps st where st: "store_fps c ps (int (length hist) + 1) (packet_fps c p) (dd_fps pd, compStats pd) = Some (fps, st)"
    "fps_rep c (hist @ [p]) fps" "abs_fps fps = spec_store c hist p (abs_fps (dd_fps pd))"
    using store_fps_refines [OF ok ps(2) r(2) p(2), of "compStats pd"] by blast
  have out: "em_optlen s = pktlen \<or> encoded c (hist @ [p]) (dd_fps pd) p (em_opt s) (em_optlen s)"
  proof (cases "ts = []")
    case True
    then show ?thesis using s(3) by simp
  next
    case False
    then obtain tail where "emit_final (refers_to c (hist @ [p]) (dd_fps pd)) c packet pktlen (packet_hash p) ts tail s"
      using s(3) by auto
    then have f: "ts \<noteq> []" "take (em_optlen s) (em_opt s) = enc_packet (packet_hash p) ts tail"
      "p = dec_toks ts @ tail" "\<forall>t\<in>set ts. tok_ok (refers_to c (hist @ [p]) (dd_fps pd)) c t"
      "em_optlen s + 40 \<le> pktlen" "pktlen \<le> length (em_opt s)"
      unfolding emit_final_def p_def [symmetric] by blast+
    moreover have "em_optlen s + 40 \<le> length p" "em_optlen s \<le> length (em_opt s)"
      using f(5,6) unfolding p(1) by linarith+
    ultimately show ?thesis unfolding encoded_def by blast
  qed
  have le: "em_optlen s \<le> MAX_PKT_SIZE c" "em_orig s \<le> MAX_PKT_SIZE c"
    using out s(2) pk(3) p(1) by (auto simp: encoded_def)
  show ?thesis
    using ps st s(1) le out by (simp add: cache_private_def compress_stats_def Let_def pd_rep_def)
qed

lemma dedup_ok:
  assumes ok: "config_ok c" "\<not> shared_dictionary_mode c" and rep: "pd_rep c hist pd"
    and pk: "BETA \<le> pktlen" "pktlen \<le> length packet" "pktlen \<le> MAX_PKT_SIZE c" "pktlen \<le> length optpkt"
  defines "p \<equiv> take pktlen packet"
  shows "\<exists>pd' opt optlen. dedup c pd sh packet pktlen optpkt = Some (pd', sh, opt, optlen) \<and>
    pd_rep c (hist @ [p]) pd' \<and> abs_fps (dd_fps pd') = spec_store c hist p (abs_fps (dd_fps pd)) \<and>
    (optlen = pktlen \<or> encoded c (hist @ [p]) (dd_fps pd) p opt optlen)"
proof -
  let ?pd1 = "upd_stats (add_inputBytes pktlen \<circ> inc_processed) pd"
  have "pd_rep c hist ?pd1" using rep by simp
  from cache_private_ok [OF ok(1) this pk]
  obtain pd' opt optlen where 1: "cache_private c ?pd1 packet pktlen (packet_hash p) (packet_fps c p) (Some optpkt)
      = Some (pd', Some (opt, optlen))" "pd_rep c (hist @ [p]) pd'"
    "abs_fps (dd_fps pd') = spec_store c hist p (abs_fps (dd_fps pd))"
    "optlen = pktlen \<or> encoded c (hist @ [p]) (dd_fps pd) p opt optlen"
    unfolding p_def by auto
  have "dedup c pd sh packet pktlen optpkt = Some (pd', sh, opt, optlen)"
    using 1(1) ok(2) pk calculate_packet_fps [OF ok(1) pk(1,2)] murmur_packet_hash [OF pk(2)]
    by (simp add: dedup_def cacheAndCompressIfNeeded_def p_def)
  then show ?thesis using 1(2-) by blast
qed

lemma dedup_short:
  assumes "pktlen < BETA"
  shows "\<exists>pd'. dedup c pd sh packet pktlen optpkt = Some (pd', sh, optpkt, pktlen) \<and>
    dd_fps pd' = dd_fps pd \<and> dd_ps pd' = dd_ps pd"
  using assms by (simp add: dedup_def cacheAndCompressIfNeeded_def)

section \<open>The decompressor\<close>

lemma local_update_caches_ok:
  assumes ok: "config_ok c" "\<not> shared_dictionary_mode c" and rep: "pd_rep c hist pd"
    and pk: "BETA \<le> pktlen" "pktlen \<le> length packet" "pktlen \<le> MAX_PKT_SIZE c"
  defines "p \<equiv> take pktlen packet"
  shows "\<exists>pd'. local_update_caches c pd sh packet pktlen (packet_hash p) = Some (pd', sh) \<and>
    pd_rep c (hist @ [p]) pd' \<and> abs_fps (dd_fps pd') = spec_store c hist p (abs_fps (dd_fps pd))"
proof -
  have p: "BETA \<le> length p" using pk by (simp add: p_def)
  have r: "ps_rep c hist (dd_ps pd)" "fps_rep c hist (dd_fps pd)" using rep by (simp_all add: pd_rep_def)
  obtain ps where ps: "putPkt c (dd_ps pd) packet pktlen (packet_hash p) = Some (ps, int (length hist) + 1)"
    "ps_rep c (hist @ [p]) ps"
    using ps_rep_put [OF ok(1) r(1) pk(1,3,2)] unfolding p_def by blast
  obtain fps st where st: "store_fps c ps (int (length hist) + 1) (packet_fps c p) (dd_fps pd, compStats pd) = Some (fps, st)"
    "fps_rep c (hist @ [p]) fps" "abs_fps fps = spec_store c hist p (abs_fps (dd_fps pd))"
    using store_fps_refines [OF ok(1) ps(2) r(2) p, of "compStats pd"] by blast
  show ?thesis
    using ok(2) pk ps st calculate_packet_fps [OF ok(1) pk(1,2)]
    by (simp add: local_update_caches_def p_def pd_rep_def)
qed

lemma update_caches_ok:
  assumes ok: "config_ok c" "\<not> shared_dictionary_mode c" and rep: "pd_rep c hist pd"
    and pk: "BETA \<le> pktlen" "pktlen \<le> length packet" "pktlen \<le> MAX_PKT_SIZE c"
  defines "p \<equiv> take pktlen packet"
  shows "\<exists>pd'. update_caches c pd sh packet pktlen = Some (pd', sh) \<and>
    pd_rep c (hist @ [p]) pd' \<and> abs_fps (dd_fps pd') = spec_store c hist p (abs_fps (dd_fps pd))"
  using local_update_caches_ok [OF ok rep pk, of sh] murmur_packet_hash [OF pk(2)] pk(1)
  by (auto simp: update_caches_def p_def)

text \<open>The sender's table resolves through the receiver's: same abstract table, no hash collision
  among the packets both have stored.\<close>

definition hash_distinct :: "bytes set \<Rightarrow> bool" where
  "hash_distinct S \<longleftrightarrow> (\<forall>x\<in>S. \<forall>y\<in>S. packet_hash x = packet_hash y \<longrightarrow> x = y)"

lemma abs_entry:
  assumes "abs_fps fps = abs_fps fps'" and "i < length fps" and "e \<in> set (fps ! i)" and "fpb_pktId e \<noteq> 0"
  shows "e \<in> set (fps' ! i)"
proof -
  have "length fps = length fps'" using arg_cong [OF assms(1), of length] by (simp add: abs_fps_def)
  then have "map norm_entry (fps ! i) = map norm_entry (fps' ! i)"
    using arg_cong [OF assms(1), of "\<lambda>l. l ! i"] assms(2) by (simp add: abs_fps_def)
  then have "norm_entry e \<in> norm_entry ` set (fps' ! i)" using assms(3) by (metis image_eqI list.set_map)
  then obtain e' where "e' \<in> set (fps' ! i)" "norm_entry e = norm_entry e'" by blast
  moreover have "e = e'" using calculation(2) assms(4) by (auto simp: norm_entry_def split: if_splits)
  ultimately show ?thesis by simp
qed

lemma refers_resolves:
  assumes ok: "config_ok c" and rep: "pd_rep c hist pd" and fps: "fps_rep c hist fps"
    and eq: "abs_fps fps = abs_fps (dd_fps pd)" and dis: "hash_distinct (set hist)"
    and r: "refers_to c (hist @ [p]) fps fp h q"
  shows "resolves c (dd_fps pd) (dd_ps pd) fp h q"
proof -
  have rp: "ps_rep c hist (dd_ps pd)" "fps_rep c hist (dd_fps pd)" using rep by (simp_all add: pd_rep_def)
  let ?i = "unat (hashFPStore c fp)"
  obtain e where e: "e \<in> set (fps ! ?i)" "fpb_fp e = fp" "live c (hist @ [p]) (fpb_pktId e)"
    "q = pkt_of (hist @ [p]) (fpb_pktId e)" "h = packet_hash q"
    using r by (auto simp: refers_to_def)
  have i: "?i < length fps" and "bucket_ok c hist (fps ! ?i)" using bucket_of_ok [OF ok fps] by blast+
  then have eok: "entry_ok c hist e" using e(1) by (simp add: bucket_ok_def)
  then have le: "fpb_pktId e \<le> int (length hist)" "1 \<le> fpb_pktId e"
    using e(3) by (simp_all add: entry_ok_def live_def)
  then have q: "q = pkt_of hist (fpb_pktId e)" and lv: "live c hist (fpb_pktId e)"
    using e(3,4) by (simp_all add: pkt_of_append live_def)
  have "fp \<noteq> UINT64_MAX"
    using eok le e(2) rfp_at_not_max by (auto simp: entry_ok_def fp_ok_def split: if_splits)
  moreover have "e \<in> set (dd_fps pd ! ?i)" using abs_entry [OF eq i e(1)] le by simp
  moreover have "hash_match c hist fp h e" using e(2,5) lv q by (simp add: hash_match_def)
  ultimately obtain e' where e': "getFPhash c (dd_fps pd) (dd_ps pd) fp h = Some (Some e')" "hash_match c hist fp h e'"
    using getFPhash_ok [OF ok rp] by blast
  then have lv': "live c hist (fpb_pktId e')" "packet_hash (pkt_of hist (fpb_pktId e')) = h"
    by (simp_all add: hash_match_def)
  have "pkt_of hist pid \<in> set hist" if "live c hist pid" for pid
    using live_nat [OF that] nth_mem by metis
  then have "pkt_of hist (fpb_pktId e') = q"
    using dis lv lv' q e(5) unfolding hash_distinct_def by metis
  moreover obtain pe where "getPkt c (dd_ps pd) (fpb_pktId e') = Some (Some pe)"
    "entry_holds pe (pkt_of hist (fpb_pktId e'))" by (rule getPkt_live [OF ok rp(1) lv'(1)])
  ultimately show ?thesis using e'(1) unfolding resolves_def by blast
qed

lemma tok_ok_mono: "tok_ok R c t \<Longrightarrow> (\<And>fp h q. R fp h q \<Longrightarrow> R' fp h q) \<Longrightarrow> tok_ok R' c t"
  unfolding tok_ok_def by blast

text \<open>The header of an encoded packet.\<close>

lemma uncomp_header_ok:
  assumes opt: "take optlen optpkt = enc_packet h (t # ts) tail" and l: "optlen \<le> length optpkt" "optlen < 65536"
    and max: "length (tk_lit t) < MAX_PKT_SIZE c" "MAX_PKT_SIZE c < 65536" "MAX_PKT_SIZE c \<le> length packet"
  shows "\<exists>s. uncomp_header c optpkt optlen packet = Some (h, Inr s) \<and>
    at optpkt s (enc_desc t @ enc_toks ts @ be16 0xffff @ tail) \<and> out_is c s (tk_lit t)"
proof -
  let ?k = "of_nat (length (tk_lit t)) :: u16"
  let ?R = "enc_desc t @ enc_toks ts @ be16 0xffff @ tail"
  define s0 where "s0 = \<lparr> uc_pos = 0, uc_optlen = optlen, uc_orig = 0, uc_pktlen = 0, uc_packet = packet \<rparr>"
  have "length (take optlen optpkt) = optlen" using l(1) by simp
  then have a0: "at optpkt s0 (be32 h @ be16 ?k @ tk_lit t @ ?R)"
    using opt l(2) by (simp add: at_def s0_def enc_packet_def enc_tok_def)
  note g0 = at_get32 [OF a0] and a1 = at_advance [OF a0 length_be32]
  note g1 = at_get16 [OF a1] and a2 = at_advance [OF a1 length_be16]
  have o: "out_is c (advance 2 (advance 4 s0)) []" using max by (simp add: out_is_def advance_def s0_def)
  have k: "unat ?k = length (tk_lit t)" using max by (simp add: unat_of_nat16)
  obtain s where s: "copy_literal c optpkt (length (tk_lit t)) (advance 2 (advance 4 s0)) = Some (Inr s)"
    "at optpkt s ?R" "out_is c s (tk_lit t)"
    using copy_literal_ok [OF a2 o] max by auto
  show ?thesis
  proof (cases "tk_lit t = []")
    case True
    then show ?thesis
      using g0 g1 a2 o k by (auto simp: uncomp_header_def Let_def s0_def [symmetric])
  next
    case False
    then show ?thesis
      using g0 g1 s k by (auto simp: uncomp_header_def Let_def s0_def [symmetric])
  qed
qed

lemma uncomp_finish_ok:
  assumes ok: "config_ok c" "\<not> shared_dictionary_mode c" and rep: "pd_rep c hist pd"
    and pk: "BETA \<le> n" "n \<le> length packet" "n \<le> MAX_PKT_SIZE c"
  defines "p \<equiv> take n packet"
  shows "\<exists>pd'. uncomp_finish c pd sh packet n ol (packet_hash p) st =
      Some \<lparr> ur_pd = pd', ur_sh = sh, ur_packet = packet, ur_pktlen = n, ur_status = st\<lparr> us_code := UNCOMP_OK \<rparr> \<rparr> \<and>
    pd_rep c (hist @ [p]) pd' \<and> abs_fps (dd_fps pd') = spec_store c hist p (abs_fps (dd_fps pd))"
proof -
  let ?pd1 = "if n > ol then upd_stats (\<lambda>s. s\<lparr> uncompressedPackets := uncompressedPackets s + 1 \<rparr>) pd else pd"
  let ?pd2 = "upd_stats (add_outputBytes n) ?pd1"
  have "pd_rep c hist ?pd2" using rep by simp
  then obtain pd' where "local_update_caches c ?pd2 sh packet n (packet_hash p) = Some (pd', sh)"
    "pd_rep c (hist @ [p]) pd'" "abs_fps (dd_fps pd') = spec_store c hist p (abs_fps (dd_fps ?pd2))"
    using local_update_caches_ok [OF ok _ pk] unfolding p_def by blast
  then show ?thesis
    using murmur_packet_hash [OF pk(2)] by (simp add: uncomp_finish_def Let_def p_def)
qed

lemma uncomp_ok:
  assumes ok: "config_ok c" "\<not> shared_dictionary_mode c" and rep: "pd_rep c hist pd" and fps: "fps_rep c hist fps"
    and eq: "abs_fps fps = abs_fps (dd_fps pd)" and dis: "hash_distinct (set hist)"
    and enc: "encoded c (hist @ [p]) fps p opt optlen"
    and p: "BETA \<le> length p" "length p \<le> MAX_PKT_SIZE c" and buf: "MAX_PKT_SIZE c \<le> length packet"
  shows "\<exists>r. uncomp c pd sh packet opt optlen st = Some r \<and> us_code (ur_status r) = UNCOMP_OK \<and>
    ur_pktlen r = length p \<and> take (length p) (ur_packet r) = p \<and> ur_sh r = sh \<and>
    pd_rep c (hist @ [p]) (ur_pd r) \<and> abs_fps (dd_fps (ur_pd r)) = spec_store c hist p (abs_fps (dd_fps pd))"
proof -
  have m: "MAX_PKT_SIZE c < 65536" using ok(1) by (simp add: config_ok_def)
  obtain t ts tail where t: "take optlen opt = enc_packet (packet_hash p) (t # ts) tail"
    "p = dec_toks (t # ts) @ tail" "\<forall>u\<in>set (t # ts). tok_ok (refers_to c (hist @ [p]) fps) c u"
    "optlen + 40 \<le> length p" "optlen \<le> length opt"
    using enc unfolding encoded_def by (metis list.exhaust)
  have toks: "\<forall>u\<in>set (t # ts). tok_ok (resolves c (dd_fps pd) (dd_ps pd)) c u"
  proof
    fix u assume "u \<in> set (t # ts)"
    then have "tok_ok (refers_to c (hist @ [p]) fps) c u" using t(3) by blast
    then show "tok_ok (resolves c (dd_fps pd) (dd_ps pd)) c u"
      by (rule tok_ok_mono) (rule refers_resolves [OF ok(1) rep fps eq dis])
  qed
  have "tk_ref t \<noteq> []" using toks tok_ok_ref by force
  then have lit: "length (tk_lit t) < MAX_PKT_SIZE c" using t(2) p(2) by (cases "tk_ref t") simp_all
  have "optlen < 65536" using t(4) p(2) m by linarith
  then obtain s where s: "uncomp_header c opt optlen packet = Some (packet_hash p, Inr s)"
    "at opt s (enc_desc t @ enc_toks ts @ be16 0xffff @ tail)" "out_is c s (tk_lit t)"
    using uncomp_header_ok [OF t(1,5) _ lit m buf] by blast
  have "length (tk_lit t @ tk_ref t @ dec_toks ts @ tail) \<le> MAX_PKT_SIZE c" using p(2) t(2) by simp
  then obtain s' where s': "uncomp_loop c (dd_fps pd) (dd_ps pd) opt s = Some (Parsed s')" "out_is c s' p"
    using uncomp_loop_ok [OF s(2,3) toks _ m] t(2) by auto
  let ?pd1 = "upd_stats (inc_processed \<circ> add_inputBytes optlen) pd"
  have o: "uc_pktlen s' = length p" "uc_orig s' = length p" "take (length p) (uc_packet s') = p"
    "length p \<le> length (uc_packet s')" using s'(2) p(2) by (simp_all add: out_is_def)
  have "pd_rep c hist ?pd1" using rep by simp
  then obtain pd' where fin: "uncomp_finish c ?pd1 sh (uc_packet s') (length p) optlen (packet_hash p) st =
      Some \<lparr> ur_pd = pd', ur_sh = sh, ur_packet = uc_packet s', ur_pktlen = length p,
             ur_status = st\<lparr> us_code := UNCOMP_OK \<rparr> \<rparr>"
    "pd_rep c (hist @ [p]) pd'" "abs_fps (dd_fps pd') = spec_store c hist p (abs_fps (dd_fps ?pd1))"
    using uncomp_finish_ok [OF ok _ p(1) o(4) p(2)] unfolding o(3) by blast
  have "uncomp c pd sh packet opt optlen st = Some \<lparr> ur_pd = pd', ur_sh = sh, ur_packet = uc_packet s',
      ur_pktlen = length p, ur_status = st\<lparr> us_code := UNCOMP_OK \<rparr> \<rparr>"
    using ok(2) s(1) s'(1) fin(1) o(1,2) p(2) by (simp add: uncomp_def uncomp_private_def Let_def)
  then show ?thesis using fin(2,3) o(3) by simp
qed

section \<open>A link between two hosts\<close>

text \<open>
  The protocol of \<open>solowan_rolling.h\<close>: a packet is sent optimised when \<open>optlen\<close> is smaller than
  \<open>pktlen\<close> and as it is otherwise; the receiver calls \<open>uncomp\<close> on the former and
  \<open>update_caches\<close> on the latter.
\<close>

datatype wire = Raw bytes | Optimised bytes

definition send ::
  "config \<Rightarrow> bytes \<Rightarrow> Deduplicator \<Rightarrow> shared_dictionaries \<Rightarrow> bytes
     \<Rightarrow> (Deduplicator \<times> shared_dictionaries \<times> wire) option" where
  "send c optbuf pd sh p = do {
     (pd, sh, opt, optlen) \<leftarrow> dedup c pd sh p (length p) optbuf;
     Some (pd, sh, if optlen < length p then Optimised (take optlen opt) else Raw p) }"

definition receive ::
  "config \<Rightarrow> bytes \<Rightarrow> UncompReturnStatus \<Rightarrow> Deduplicator \<Rightarrow> shared_dictionaries \<Rightarrow> wire
     \<Rightarrow> (Deduplicator \<times> shared_dictionaries \<times> bytes option) option" where
  "receive c buf st pd sh w = (case w of
     Raw p \<Rightarrow> do {
       (pd, sh) \<leftarrow> update_caches c pd sh p (length p);
       Some (pd, sh, Some p) }
   | Optimised q \<Rightarrow> do {
       r \<leftarrow> uncomp c pd sh buf q (length q) st;
       Some (ur_pd r, ur_sh r,
         if us_code (ur_status r) = UNCOMP_OK then Some (take (ur_pktlen r) (ur_packet r)) else None) })"

fun transmit ::
  "config \<Rightarrow> bytes \<Rightarrow> bytes \<Rightarrow> UncompReturnStatus \<Rightarrow> Deduplicator \<Rightarrow> shared_dictionaries
     \<Rightarrow> Deduplicator \<Rightarrow> shared_dictionaries \<Rightarrow> bytes list \<Rightarrow> bytes option list option" where
  "transmit c optbuf buf st pds shs pdr shr [] = Some []"
| "transmit c optbuf buf st pds shs pdr shr (p # ps) = do {
     (pds, shs, w) \<leftarrow> send c optbuf pds shs p;
     (pdr, shr, out) \<leftarrow> receive c buf st pdr shr w;
     outs \<leftarrow> transmit c optbuf buf st pds shs pdr shr ps;
     Some (out # outs) }"

text \<open>Both ends are in step: they represent the same history by the same abstract tables.\<close>

definition in_step :: "config \<Rightarrow> bytes list \<Rightarrow> Deduplicator \<Rightarrow> Deduplicator \<Rightarrow> bool" where
  "in_step c hist pds pdr \<longleftrightarrow> pd_rep c hist pds \<and> pd_rep c hist pdr \<and> abs_fps (dd_fps pds) = abs_fps (dd_fps pdr)"

lemma encoded_take: "encoded c hist fps p opt optlen \<Longrightarrow>
   encoded c hist fps p (take optlen opt) optlen \<and> length (take optlen opt) = optlen \<and> optlen < length p"
  unfolding encoded_def by (auto simp: min_def)

lemma send_receive_long:
  assumes ok: "config_ok c" "\<not> shared_dictionary_mode c" and st: "in_step c hist pds pdr"
    and dis: "hash_distinct (set hist)" and p: "BETA \<le> length p" "length p \<le> MAX_PKT_SIZE c"
    and buf: "MAX_PKT_SIZE c \<le> length optbuf" "MAX_PKT_SIZE c \<le> length buf"
  shows "\<exists>pds' pdr' w. send c optbuf pds shs p = Some (pds', shs, w) \<and>
    receive c buf us pdr shr w = Some (pdr', shr, Some p) \<and> in_step c (hist @ [p]) pds' pdr'"
proof -
  have rep: "pd_rep c hist pds" "pd_rep c hist pdr" "abs_fps (dd_fps pds) = abs_fps (dd_fps pdr)"
    using st by (simp_all add: in_step_def)
  have lp: "length p \<le> length optbuf" using p(2) buf(1) by linarith
  obtain pds' opt optlen where d: "dedup c pds shs p (length p) optbuf = Some (pds', shs, opt, optlen)"
    "pd_rep c (hist @ [p]) pds'" "abs_fps (dd_fps pds') = spec_store c hist p (abs_fps (dd_fps pds))"
    "optlen = length p \<or> encoded c (hist @ [p]) (dd_fps pds) p opt optlen"
    using dedup_ok [OF ok rep(1) p(1) le_refl p(2) lp, of shs] by auto
  show ?thesis
  proof (cases "optlen = length p")
    case True
    obtain pdr' where "update_caches c pdr shr p (length p) = Some (pdr', shr)"
      "pd_rep c (hist @ [p]) pdr'" "abs_fps (dd_fps pdr') = spec_store c hist p (abs_fps (dd_fps pdr))"
      using update_caches_ok [OF ok rep(2) p(1) le_refl p(2), of shr] by auto
    then show ?thesis using d True rep(3) by (simp add: send_def receive_def in_step_def)
  next
    case False
    then have e: "encoded c (hist @ [p]) (dd_fps pds) p (take optlen opt) optlen"
      "length (take optlen opt) = optlen" "optlen < length p" using d(4) encoded_take by blast+
    have "fps_rep c hist (dd_fps pds)" using rep(1) by (simp add: pd_rep_def)
    then obtain r where "uncomp c pdr shr buf (take optlen opt) optlen us = Some r" "us_code (ur_status r) = UNCOMP_OK"
      "ur_pktlen r = length p" "take (length p) (ur_packet r) = p" "ur_sh r = shr"
      "pd_rep c (hist @ [p]) (ur_pd r)" "abs_fps (dd_fps (ur_pd r)) = spec_store c hist p (abs_fps (dd_fps pdr))"
      using uncomp_ok [OF ok rep(2) _ rep(3) dis e(1) p buf(2)] by blast
    then show ?thesis using d(1-3) e(2,3) rep(3) by (simp add: send_def receive_def in_step_def)
  qed
qed

lemma send_receive_short:
  assumes st: "in_step c hist pds pdr" and p: "length p < BETA"
  shows "\<exists>pds'. send c optbuf pds shs p = Some (pds', shs, Raw p) \<and>
    receive c buf us pdr shr (Raw p) = Some (pdr, shr, Some p) \<and> in_step c hist pds' pdr"
  using dedup_short [OF p, of c pds shs p optbuf] st p
  by (auto simp: send_def receive_def update_caches_def in_step_def pd_rep_def)

lemma transmit_ok:
  assumes ok: "config_ok c" "\<not> shared_dictionary_mode c" and st: "in_step c hist pds pdr"
    and dis: "hash_distinct (set hist \<union> set ps)" and p: "\<forall>p\<in>set ps. length p \<le> MAX_PKT_SIZE c"
    and buf: "MAX_PKT_SIZE c \<le> length optbuf" "MAX_PKT_SIZE c \<le> length buf"
  shows "transmit c optbuf buf us pds shs pdr shr ps = Some (map Some ps)"
  using st dis p
proof (induction ps arbitrary: hist pds pdr)
  case (Cons p ps)
  show ?case
  proof (cases "length p < BETA")
    case True
    then obtain pds' where "send c optbuf pds shs p = Some (pds', shs, Raw p)"
      "receive c buf us pdr shr (Raw p) = Some (pdr, shr, Some p)" "in_step c hist pds' pdr"
      using send_receive_short [OF Cons.prems(1)] by blast
    moreover have "hash_distinct (set hist \<union> set ps)" using Cons.prems(2) by (simp add: hash_distinct_def)
    ultimately show ?thesis using Cons.IH [of hist pds' pdr] Cons.prems(3) by simp
  next
    case False
    have "hash_distinct (set hist)" using Cons.prems(2) by (simp add: hash_distinct_def)
    then obtain pds' pdr' w where "send c optbuf pds shs p = Some (pds', shs, w)"
      "receive c buf us pdr shr w = Some (pdr', shr, Some p)" "in_step c (hist @ [p]) pds' pdr'"
      using send_receive_long [OF ok Cons.prems(1) _ _ _ buf] False Cons.prems(3) by (metis leI list.set_intros(1))
    moreover have "hash_distinct (set (hist @ [p]) \<union> set ps)" using Cons.prems(2) by simp
    ultimately show ?thesis using Cons.IH [of "hist @ [p]" pds' pdr'] Cons.prems(3) by simp
  qed
qed simp

section \<open>Every reachable deduplicator\<close>

lemma put_in_cache_ok:
  assumes ok: "config_ok c" "\<not> shared_dictionary_mode c" and rep: "pd_rep c hist pd"
    and pk: "BETA \<le> n" "n \<le> length packet" "n \<le> MAX_PKT_SIZE c"
  defines "p \<equiv> take n packet"
  shows "\<exists>pd'. put_in_cache c pd sh packet n = Some (pd', sh) \<and> pd_rep c (hist @ [p]) pd' \<and>
    abs_fps (dd_fps pd') = spec_store c hist p (abs_fps (dd_fps pd))"
proof -
  let ?pd1 = "upd_stats (add_inputBytes n \<circ> inc_processed) pd"
  have p: "BETA \<le> length p" using pk by (simp add: p_def)
  have r: "ps_rep c hist (dd_ps pd)" "fps_rep c hist (dd_fps pd)" using rep by (simp_all add: pd_rep_def)
  obtain ps where ps: "putPkt c (dd_ps pd) packet n (packet_hash p) = Some (ps, int (length hist) + 1)"
    "ps_rep c (hist @ [p]) ps"
    using ps_rep_put [OF ok(1) r(1) pk(1,3,2)] unfolding p_def by blast
  obtain fps st where st: "store_fps c ps (int (length hist) + 1) (packet_fps c p) (dd_fps pd, compStats ?pd1) = Some (fps, st)"
    "fps_rep c (hist @ [p]) fps" "abs_fps fps = spec_store c hist p (abs_fps (dd_fps pd))"
    using store_fps_refines [OF ok(1) ps(2) r(2) p, of "compStats ?pd1"] by blast
  show ?thesis
    using ok(2) pk ps st calculate_packet_fps [OF ok(1) pk(1,2)] murmur_packet_hash [OF pk(2)]
    by (simp add: put_in_cache_def cacheAndCompressIfNeeded_def cache_private_def p_def pd_rep_def)
qed

lemma putPkt_bound: "putPkt c ps packet n h = Some x \<Longrightarrow> n \<le> length packet"
  by (auto simp: putPkt_def Let_def memcpy_def load_bytes_def bind_eq_Some_conv split: if_splits)

lemma local_update_caches_rep:
  assumes ok: "config_ok c" "\<not> shared_dictionary_mode c" and rep: "pd_rep c hist pd" and n: "n \<le> MAX_PKT_SIZE c"
    and h: "MurmurHash3_x86_32 packet n SEED = Some h"
    and up: "local_update_caches c pd sh packet n h = Some (pd', sh')"
  shows "\<exists>hist'. pd_rep c hist' pd'"
proof (cases "n < BETA")
  case True
  then show ?thesis using up rep by (auto simp: local_update_caches_def)
next
  case False
  then obtain ps pid where "putPkt c (dd_ps pd) packet n h = Some (ps, pid)"
    using up ok(2) by (auto simp: local_update_caches_def bind_eq_Some_conv)
  then have le: "n \<le> length packet" by (rule putPkt_bound)
  then have "h = packet_hash (take n packet)" using murmur_packet_hash [OF le] h by simp
  then show ?thesis
    using local_update_caches_ok [OF ok rep _ le n, of sh] up False by auto
qed

lemma uncomp_finish_rep:
  assumes ok: "config_ok c" "\<not> shared_dictionary_mode c" and rep: "pd_rep c hist pd" and n: "n \<le> MAX_PKT_SIZE c"
    and fin: "uncomp_finish c pd sh packet n ol sent st = Some r"
  shows "\<exists>hist'. pd_rep c hist' (ur_pd r)"
proof -
  let ?pd1 = "if n > ol then upd_stats (\<lambda>s. s\<lparr> uncompressedPackets := uncompressedPackets s + 1 \<rparr>) pd else pd"
  obtain h where h: "MurmurHash3_x86_32 packet n SEED = Some h"
    using fin by (cases "MurmurHash3_x86_32 packet n SEED") (simp_all add: uncomp_finish_def)
  show ?thesis
  proof (cases "h = sent")
    case True
    then obtain pd' sh' where up: "local_update_caches c (upd_stats (add_outputBytes n) ?pd1) sh packet n h = Some (pd', sh')"
      and "ur_pd r = pd'"
      using fin h by (auto simp: uncomp_finish_def Let_def bind_eq_Some_conv split: if_splits)
    moreover have "pd_rep c hist (upd_stats (add_outputBytes n) ?pd1)" using rep by simp
    ultimately show ?thesis using local_update_caches_rep [OF ok _ n h] by blast
  next
    case False
    then have "ur_pd r = upd_stats (\<lambda>s. s\<lparr> errorsPacketHash := errorsPacketHash s + 1 \<rparr>) ?pd1"
      using fin h by (auto simp: uncomp_finish_def Let_def)
    then show ?thesis using rep by (intro exI [of _ hist]) simp
  qed
qed

lemma uncomp_rep:
  assumes ok: "config_ok c" "\<not> shared_dictionary_mode c" and rep: "pd_rep c hist pd"
    and un: "uncomp c pd sh packet opt optlen st = Some r"
  shows "\<exists>hist'. pd_rep c hist' (ur_pd r)"
proof -
  let ?pd1 = "upd_stats (inc_processed \<circ> add_inputBytes optlen) pd"
  have rep1: "pd_rep c hist ?pd1" using rep by simp
  have un': "uncomp_private c pd sh packet opt optlen st = Some r" using un ok(2) by (simp add: uncomp_def)
  then obtain sent hdr where hdr: "uncomp_header c opt optlen packet = Some (sent, hdr)"
    by (cases "uncomp_header c opt optlen packet") (auto simp: uncomp_private_def Let_def)
  show ?thesis
  proof (cases hdr)
    case (Inl a)
    then have "r = uncomp_fail_format ?pd1 sh packet st"
      using un' hdr by (simp add: uncomp_private_def Let_def)
    then show ?thesis using rep1 by (auto simp: uncomp_fail_format_def)
  next
    case (Inr s)
    then obtain x where x: "uncomp_loop c (dd_fps pd) (dd_ps pd) opt s = Some x"
      using un' hdr by (cases "uncomp_loop c (dd_fps pd) (dd_ps pd) opt s") (simp_all add: uncomp_private_def Let_def)
    show ?thesis
    proof (cases x)
      case (Parsed s')
      then have "uc_pktlen s' \<le> MAX_PKT_SIZE c"
        and "uncomp_finish c ?pd1 sh (uc_packet s') (uc_pktlen s') optlen sent st = Some r"
        using un' hdr x Inr by (simp_all add: uncomp_private_def Let_def c_assert_bind)
      then show ?thesis using uncomp_finish_rep [OF ok rep1] by blast
    next
      case (Format_error s')
      then show ?thesis
        using un' hdr x Inr rep1 by (auto simp: uncomp_private_def Let_def uncomp_fail_format_def)
    next
      case (Missing_fp fp h s')
      then show ?thesis
        using un' hdr x Inr rep1 by (auto simp: uncomp_private_def Let_def uncomp_fail_missing_def)
    qed
  qed
qed

text \<open>
  The deduplicator objects a program can hold: created by \<open>newDeduplicator\<close> and passed through any
  sequence of calls, compression and decompression mixed, that return; packets are at most
  \<open>MAX_PKT_SIZE\<close> bytes and lie inside their arrays, compressed input is arbitrary.
\<close>

inductive dd_reachable :: "config \<Rightarrow> Deduplicator \<Rightarrow> bool" for c where
  new: "dd_reachable c (newDeduplicator c u)"
| dedup: "dd_reachable c pd \<Longrightarrow> n \<le> length packet \<Longrightarrow> n \<le> MAX_PKT_SIZE c \<Longrightarrow> n \<le> length opt \<Longrightarrow>
    dedup c pd sh packet n opt = Some (pd', sh', opt', optlen) \<Longrightarrow> dd_reachable c pd'"
| put: "dd_reachable c pd \<Longrightarrow> n \<le> length packet \<Longrightarrow> n \<le> MAX_PKT_SIZE c \<Longrightarrow>
    put_in_cache c pd sh packet n = Some (pd', sh') \<Longrightarrow> dd_reachable c pd'"
| update: "dd_reachable c pd \<Longrightarrow> n \<le> length packet \<Longrightarrow> n \<le> MAX_PKT_SIZE c \<Longrightarrow>
    update_caches c pd sh packet n = Some (pd', sh') \<Longrightarrow> dd_reachable c pd'"
| uncomp: "dd_reachable c pd \<Longrightarrow> uncomp c pd sh packet opt optlen st = Some r \<Longrightarrow> dd_reachable c (ur_pd r)"
| reset: "dd_reachable c pd \<Longrightarrow> dd_reachable c (resetStatistics pd)"

lemma reachable_rep:
  assumes ok: "config_ok c" "\<not> shared_dictionary_mode c" and "dd_reachable c pd"
  shows "\<exists>hist. pd_rep c hist pd"
  using assms(3)
proof induction
  case (new u)
  then show ?case using newDeduplicator_rep [OF ok(2)] by blast
next
  case (dedup pd n packet opt sh pd' sh' opt' optlen)
  then obtain hist where rep: "pd_rep c hist pd" by blast
  show ?case
  proof (cases "n < BETA")
    case True
    then show ?thesis using dedup_short [OF True, of c pd sh packet opt] dedup(5) rep by (auto simp: pd_rep_def)
  next
    case False
    then show ?thesis using dedup_ok [OF ok rep _ dedup(2,3,4), of sh] dedup(5) by auto
  qed
next
  case (put pd n packet sh pd' sh')
  then obtain hist where rep: "pd_rep c hist pd" by blast
  show ?case
  proof (cases "n < BETA")
    case True
    then show ?thesis using put(4) rep
      by (auto simp: put_in_cache_def cacheAndCompressIfNeeded_def Let_def pd_rep_def)
  next
    case False
    then show ?thesis using put_in_cache_ok [OF ok rep _ put(2,3), of sh] put(4) by auto
  qed
next
  case (update pd n packet sh pd' sh')
  then obtain hist where rep: "pd_rep c hist pd" by blast
  show ?case
  proof (cases "n < BETA")
    case True
    then show ?thesis using update(4) rep by (auto simp: update_caches_def)
  next
    case False
    then show ?thesis using update_caches_ok [OF ok rep _ update(2,3), of sh] update(4) by auto
  qed
next
  case (uncomp pd sh packet opt optlen st r)
  then show ?case using uncomp_rep [OF ok] by blast
next
  case (reset pd)
  then show ?case by (auto simp: resetStatistics_def)
qed

section \<open>Properties\<close>

text \<open>(C2) Lossless deduplication.  Two hosts create their deduplicators independently, over
  whatever memory \<open>malloc\<close> gives them.  For every sequence of packets of at most \<open>MAX_PKT_SIZE\<close>
  bytes without a hash collision among them, passing each packet through \<open>dedup\<close> on one host and
  through \<open>uncomp\<close> (when it was shortened) or \<open>update_caches\<close> (when it was not) on the other never
  faults, never reports an error, and delivers exactly the packets that were sent, in order.\<close>

theorem stream_roundtrip:
  assumes "config_ok c" and "\<not> shared_dictionary_mode c" and "hash_distinct (set ps)"
    and "\<forall>p\<in>set ps. length p \<le> MAX_PKT_SIZE c"
    and "MAX_PKT_SIZE c \<le> length optbuf" and "MAX_PKT_SIZE c \<le> length buf"
  shows "transmit c optbuf buf st (newDeduplicator c u) shs (newDeduplicator c v) shr ps = Some (map Some ps)"
proof -
  have "in_step c [] (newDeduplicator c u) (newDeduplicator c v)"
    using assms(2) newDeduplicator_rep [OF assms(2)] abs_new_fps
    by (simp add: in_step_def newDeduplicator_def [of c])
  then show ?thesis using transmit_ok [OF assms(1,2)] assms(3-6) by simp
qed

definition zero_memory :: uninit where
  "zero_memory = \<lparr> ui_byte = (\<lambda>_ _. 0), ui_len = (\<lambda>_. 0), ui_hash = (\<lambda>_. 0), ui_ofs = (\<lambda>_ _. 0) \<rparr>"

definition garbage_memory :: uninit where
  "garbage_memory = \<lparr> ui_byte = (\<lambda>i j. of_nat (i + j)), ui_len = (\<lambda>i. i), ui_hash = (\<lambda>i. of_nat i), ui_ofs = (\<lambda>i j. i) \<rparr>"

definition ok_status :: UncompReturnStatus where
  "ok_status = \<lparr> us_code = UNCOMP_OK, us_fp = 0, us_hash = 0 \<rparr>"

theorem stream_roundtrip_witness:
  "transmit demo_config (replicate 100 0) (replicate 100 0) ok_status
     (newDeduplicator demo_config zero_memory) (initDictionary demo_config zero_memory zero_memory)
     (newDeduplicator demo_config garbage_memory) (initDictionary demo_config garbage_memory zero_memory)
     [replicate 90 7, replicate 90 7, replicate 90 7] = Some [Some (replicate 90 7), Some (replicate 90 7), Some (replicate 90 7)]"
  using stream_roundtrip [of demo_config "[replicate 90 7, replicate 90 7, replicate 90 7]"
      "replicate 100 0" "replicate 100 0" ok_status zero_memory "initDictionary demo_config zero_memory zero_memory"
      garbage_memory "initDictionary demo_config garbage_memory zero_memory"] demo_config_ok
  by (simp add: hash_distinct_def)

text \<open>(C6) Compression is safe in every reachable state: whatever calls a deduplicator has been
  through, decompression of arbitrary input included, \<open>dedup\<close> of a packet that fits returns, so no
  array is overrun and no assertion fails; and the optimised packet is at least 40 bytes shorter
  than the packet, or \<open>optlen\<close> equals \<open>pktlen\<close>.\<close>

theorem dedup_safe:
  assumes "config_ok c" and "\<not> shared_dictionary_mode c" and "dd_reachable c pd"
    and "pktlen \<le> length packet" and "pktlen \<le> MAX_PKT_SIZE c" and "pktlen \<le> length optpkt"
  shows "\<exists>pd' opt optlen. dedup c pd sh packet pktlen optpkt = Some (pd', sh, opt, optlen) \<and>
    (optlen = pktlen \<or> optlen + 40 \<le> pktlen) \<and> dd_reachable c pd'"
proof -
  obtain hist where rep: "pd_rep c hist pd" using reachable_rep [OF assms(1-3)] by blast
  have "\<exists>pd' opt optlen. dedup c pd sh packet pktlen optpkt = Some (pd', sh, opt, optlen) \<and>
    (optlen = pktlen \<or> optlen + 40 \<le> pktlen)"
  proof (cases "pktlen < BETA")
    case True
    then show ?thesis using dedup_short [OF True] by blast
  next
    case False
    then obtain pd' opt optlen where "dedup c pd sh packet pktlen optpkt = Some (pd', sh, opt, optlen)"
      "optlen = pktlen \<or> encoded c (hist @ [take pktlen packet]) (dd_fps pd) (take pktlen packet) opt optlen"
      using dedup_ok [OF assms(1,2) rep _ assms(4-6), of sh] by auto
    then show ?thesis using encoded_gain assms(4) by (metis length_take min.absorb2)
  qed
  then show ?thesis using dd_reachable.dedup [OF assms(3-6)] by blast
qed

theorem dedup_safe_witness:
  "\<exists>pd' opt optlen. dedup demo_config (newDeduplicator demo_config garbage_memory)
      (initDictionary demo_config zero_memory zero_memory) (replicate 80 1) 80 (replicate 80 0)
      = Some (pd', initDictionary demo_config zero_memory zero_memory, opt, optlen) \<and>
    (optlen = 80 \<or> optlen + 40 \<le> 80) \<and> dd_reachable demo_config pd'"
  using dedup_safe [OF demo_config_ok, of "newDeduplicator demo_config garbage_memory" 80 "replicate 80 1" "replicate 80 0"]
  by (simp add: dd_reachable.new)

text \<open>(C7) Refinement to one abstract dictionary.  When the two ends of a link represent the same
  history by the same abstract fingerprint table, then after any packet both represent the history
  extended by that packet, by the same table, namely the one \<open>spec_store\<close> computes from the history
  and the packet alone; this holds although the sender stores the packet before it looks for
  matches and the receiver after it has rebuilt the packet.\<close>

theorem dictionaries_stay_in_step:
  assumes "config_ok c" and "\<not> shared_dictionary_mode c" and "in_step c hist pds pdr"
    and "BETA \<le> length p" and "length p \<le> MAX_PKT_SIZE c" and "MAX_PKT_SIZE c \<le> length optbuf"
  shows "\<exists>pds' opt optlen pdr'. dedup c pds shs p (length p) optbuf = Some (pds', shs, opt, optlen) \<and>
    update_caches c pdr shr p (length p) = Some (pdr', shr) \<and> in_step c (hist @ [p]) pds' pdr' \<and>
    abs_fps (dd_fps pds') = spec_store c hist p (abs_fps (dd_fps pds))"
proof -
  have rep: "pd_rep c hist pds" "pd_rep c hist pdr" "abs_fps (dd_fps pds) = abs_fps (dd_fps pdr)"
    using assms(3) by (simp_all add: in_step_def)
  have "length p \<le> length optbuf" using assms(5,6) by linarith
  then show ?thesis
    using dedup_ok [OF assms(1,2) rep(1) assms(4) le_refl assms(5), of optbuf shs]
      update_caches_ok [OF assms(1,2) rep(2) assms(4) le_refl assms(5), of shr] rep(3)
    by (auto simp: in_step_def)
qed

theorem dictionaries_stay_in_step_witness:
  "\<exists>pds' opt optlen pdr'.
    dedup demo_config (newDeduplicator demo_config zero_memory) (initDictionary demo_config zero_memory zero_memory)
      (replicate 70 3) 70 (replicate 100 0) = Some (pds', initDictionary demo_config zero_memory zero_memory, opt, optlen) \<and>
    update_caches demo_config (newDeduplicator demo_config garbage_memory) (initDictionary demo_config zero_memory zero_memory)
      (replicate 70 3) 70 = Some (pdr', initDictionary demo_config zero_memory zero_memory) \<and>
    in_step demo_config [replicate 70 3] pds' pdr'"
proof -
  have "in_step demo_config [] (newDeduplicator demo_config zero_memory) (newDeduplicator demo_config garbage_memory)"
    using newDeduplicator_rep [of demo_config] abs_new_fps by (simp add: in_step_def newDeduplicator_def [of demo_config])
  then show ?thesis
    using dictionaries_stay_in_step [OF demo_config_ok, of "[]" "newDeduplicator demo_config zero_memory"
        "newDeduplicator demo_config garbage_memory" "replicate 70 3" "replicate 100 0"
        "initDictionary demo_config zero_memory zero_memory" "initDictionary demo_config zero_memory zero_memory"]
    by auto
qed

end
