(* ===== verification/Uncomp_Safety.thy ===== *)
theory Uncomp_Safety
  imports Dedup_Roundtrip
begin

text \<open>
  What \<open>uncomp\<close> guarantees on arbitrary, possibly hostile, input, in both dictionary modes: a
  packet is only delivered when its hash is the one sent, a rejected packet leaves the dictionaries
  alone, and the final assertions on the lengths cannot fail.  The last theorem shows the
  over-read on inputs shorter than a header.
\<close>

section \<open>The possible outcomes\<close>

abbreviation counted :: "nat \<Rightarrow> Deduplicator \<Rightarrow> Deduplicator" where
  "counted optlen pd \<equiv> upd_stats (inc_processed \<circ> add_inputBytes optlen) pd"

definition uncomp_outcome ::
  "config \<Rightarrow> Deduplicator \<Rightarrow> shared_dictionaries \<Rightarrow> bytes \<Rightarrow> nat \<Rightarrow> UncompReturnStatus \<Rightarrow> uncomp_result \<Rightarrow> bool" where
  "uncomp_outcome c pd sh opt optlen st r \<longleftrightarrow>
     (\<exists>pk. r = uncomp_fail_format (counted optlen pd) sh pk st) \<or>
     (\<exists>pk fp h. r = uncomp_fail_missing (counted optlen pd) sh pk fp h) \<or>
     (\<exists>pk n sent. ntoh32 opt 0 = Some sent \<and>
        uncomp_finish c (counted optlen pd) sh pk n optlen sent st = Some r)"

lemma uncomp_outcome_intros [intro]:
  "uncomp_outcome c pd sh opt optlen st (uncomp_fail_format (counted optlen pd) sh pk st)"
  "uncomp_outcome c pd sh opt optlen st (uncomp_fail_missing (counted optlen pd) sh pk fp h)"
  "ntoh32 opt 0 = Some sent \<Longrightarrow> uncomp_finish c (counted optlen pd) sh pk n optlen sent st = Some r \<Longrightarrow>
   uncomp_outcome c pd sh opt optlen st r"
  unfolding uncomp_outcome_def by blast+

lemmas uncomp_outcome_rules [intro] = uncomp_outcome_intros [unfolded comp_apply]

lemma uncomp_header_sent: "uncomp_header c opt optlen packet = Some (sent, hdr) \<Longrightarrow> ntoh32 opt 0 = Some sent"
  by (auto simp: uncomp_header_def Let_def bind_eq_Some_conv)

lemma uncomp_private_outcome:
  assumes "uncomp_private c pd sh packet opt optlen st = Some r"
  shows "uncomp_outcome c pd sh opt optlen st r"
proof -
  obtain sent hdr where hdr: "uncomp_header c opt optlen packet = Some (sent, hdr)"
    using assms by (cases "uncomp_header c opt optlen packet") (auto simp: uncomp_private_def Let_def)
  note sent = uncomp_header_sent [OF hdr]
  show ?thesis
  proof (cases hdr)
    case (Inl a)
    then show ?thesis using assms hdr by (auto simp: uncomp_private_def Let_def)
  next
    case (Inr s)
    then obtain x where x: "uncomp_loop c (dd_fps pd) (dd_ps pd) opt s = Some x"
      using assms hdr by (cases "uncomp_loop c (dd_fps pd) (dd_ps pd) opt s") (simp_all add: uncomp_private_def Let_def)
    show ?thesis
      using assms hdr Inr x sent
      by (cases x) (auto simp: uncomp_private_def Let_def c_assert_bind)
  qed
qed

lemma uncomp_shared_outcome:
  assumes "uncomp_shared c pd sh packet opt optlen st = Some r"
  shows "uncomp_outcome c pd sh opt optlen st r"
proof -
  obtain sent hdr where hdr: "uncomp_header c opt optlen packet = Some (sent, hdr)"
    using assms by (cases "uncomp_header c opt optlen packet") (auto simp: uncomp_shared_def Let_def)
  note sent = uncomp_header_sent [OF hdr]
  show ?thesis
  proof (cases hdr)
    case (Inl a)
    then show ?thesis using assms hdr by (auto simp: uncomp_shared_def Let_def)
  next
    case (Inr s)
    then obtain x where x: "shared_uncomp_loop c opt ([], s) = Some x"
      using assms hdr by (cases "shared_uncomp_loop c opt ([], s)") (simp_all add: uncomp_shared_def Let_def)
    show ?thesis
      using assms hdr Inr x sent
      by (auto simp: uncomp_shared_def Let_def bind_eq_Some_conv
          split: sum.split_asm uncomp_exit.split_asm prod.split_asm if_split_asm option.split_asm)
  qed
qed

lemma uncomp_outcomes:
  "uncomp c pd sh packet opt optlen st = Some r \<Longrightarrow> uncomp_outcome c pd sh opt optlen st r"
  using uncomp_private_outcome uncomp_shared_outcome by (auto simp: uncomp_def split: if_split_asm)

lemma uncomp_finish_cases:
  assumes "uncomp_finish c pd sh pk n ol sent st = Some r"
  shows "if us_code (ur_status r) = UNCOMP_OK
    then MurmurHash3_x86_32 (ur_packet r) (ur_pktlen r) SEED = Some sent
    else ur_pktlen r = 0 \<and> dd_fps (ur_pd r) = dd_fps pd \<and> dd_ps (ur_pd r) = dd_ps pd \<and> ur_sh r = sh"
proof -
  obtain h where h: "MurmurHash3_x86_32 pk n SEED = Some h"
    using assms by (cases "MurmurHash3_x86_32 pk n SEED") (simp_all add: uncomp_finish_def)
  show ?thesis
  proof (cases "h = sent")
    case True
    then show ?thesis
      using assms h by (auto simp: uncomp_finish_def Let_def bind_eq_Some_conv)
  next
    case False
    then show ?thesis using assms h by (auto simp: uncomp_finish_def Let_def)
  qed
qed

section \<open>Bounds on the rebuilt packet\<close>

definition within :: "config \<Rightarrow> uncomp_state \<Rightarrow> bool" where
  "within c s \<longleftrightarrow> uc_orig s = uc_pktlen s \<and> uc_orig s \<le> MAX_PKT_SIZE c"

lemma copy_literal_within:
  assumes "MAX_PKT_SIZE c < 65536" and "uc_orig s = uc_pktlen s" and "copy_literal c opt n s = Some (Inr s')"
  shows "within c s'"
  using assms by (auto simp: copy_literal_def within_def bind_eq_Some_conv split: if_splits)

lemma copy_rest_within:
  assumes "MAX_PKT_SIZE c < 65536" and "uc_orig s = uc_pktlen s" and "copy_rest c opt s = Some (Inr s')"
  shows "within c s'"
  using assms by (auto simp: copy_rest_def within_def bind_eq_Some_conv split: if_splits)

lemma uncomp_offset_within:
  assumes m: "MAX_PKT_SIZE c < 65536" and eq: "uc_orig s = uc_pktlen s"
    and r: "uncomp_offset c opt s = Some (Inr s')"
  shows "within c s'"
proof -
  obtain k where "ntoh16 opt (uc_pos s) = Some k"
    using r by (cases "ntoh16 opt (uc_pos s)") (simp_all add: uncomp_offset_def)
  then have "(if k = 0xffff then copy_rest c opt (advance 2 s)
      else copy_literal c opt (unat k) (advance 2 s)) = Some (Inr s')"
    using r by (simp only: uncomp_offset_def Let_def Option.bind.simps)
  moreover have "uc_orig (advance 2 s) = uc_pktlen (advance 2 s)" using eq by (simp add: advance_def)
  ultimately show ?thesis using copy_literal_within [OF m] copy_rest_within [OF m] by (metis (full_types))
qed

lemma uncomp_reference_eq:
  "uc_orig s = uc_pktlen s \<Longrightarrow> uncomp_reference c fps ps opt s = Some (Inr s') \<Longrightarrow> uc_orig s' = uc_pktlen s'"
  by (auto simp: uncomp_reference_def Let_def bind_eq_Some_conv copy_stored_def advance_def
      split: option.split_asm if_split_asm)

lemma uncomp_step_within:
  assumes "MAX_PKT_SIZE c < 65536" and "within c s" and "uncomp_step c fps ps opt s = Some (Inr s')"
  shows "within c s'"
proof -
  obtain r where r: "uncomp_reference c fps ps opt s = Some r"
    using assms by (cases "uncomp_reference c fps ps opt s") (simp_all add: uncomp_step_def)
  obtain s1 where s1: "r = Inr s1" "uncomp_offset c opt s1 = Some (Inr s')"
    using assms r by (cases r) (simp_all add: uncomp_step_def)
  then show ?thesis
    using uncomp_offset_within [OF assms(1)] uncomp_reference_eq r assms(2) unfolding within_def by metis
qed

text \<open>A round never ends the loop normally.\<close>

lemma uncomp_reference_exit: "uncomp_reference c fps ps opt s \<noteq> Some (Inl (Parsed s'))"
  by (auto simp: uncomp_reference_def Let_def bind_eq_Some_conv copy_stored_def
      split: option.split_asm if_split_asm)

lemma uncomp_offset_exit: "uncomp_offset c opt s \<noteq> Some (Inl (Parsed s'))"
  by (auto simp: uncomp_offset_def Let_def bind_eq_Some_conv copy_rest_def copy_literal_def split: if_split_asm)

lemma uncomp_step_exit: "uncomp_step c fps ps opt s \<noteq> Some (Inl (Parsed s'))"
proof
  assume a: "uncomp_step c fps ps opt s = Some (Inl (Parsed s'))"
  then obtain r where r: "uncomp_reference c fps ps opt s = Some r"
    by (cases "uncomp_reference c fps ps opt s") (simp_all add: uncomp_step_def)
  show False
    using a r uncomp_reference_exit uncomp_offset_exit by (cases r) (auto simp: uncomp_step_def)
qed

lemma uncomp_loop_within:
  assumes "MAX_PKT_SIZE c < 65536" and "within c s" and "uncomp_loop c fps ps opt s = Some (Parsed s')"
  shows "within c s'"
  using assms
proof (induction c fps ps opt s rule: uncomp_loop.induct)
  case (1 c fps ps opt s)
  show ?case
  proof (cases "uc_optlen s \<ge> 18")
    case False
    then show ?thesis using 1(2-4) by (simp add: uncomp_loop.simps [of c fps ps opt s])
  next
    case True
    then obtain x where x: "uncomp_step c fps ps opt s = Some x"
      using 1(4) by (cases "uncomp_step c fps ps opt s") (simp_all add: uncomp_loop.simps [of c fps ps opt s])
    show ?thesis
    proof (cases x)
      case (Inl e)
      then show ?thesis
        using x True 1(4) uncomp_step_exit [of c fps ps opt s s'] by (simp add: uncomp_loop.simps [of c fps ps opt s])
    next
      case (Inr s1)
      then have "uncomp_loop c fps ps opt s1 = Some (Parsed s')"
        using x True 1(4) by (simp add: uncomp_loop.simps [of c fps ps opt s])
      moreover have "within c s1" using uncomp_step_within [OF 1(2,3)] x Inr by simp
      ultimately show ?thesis using 1(1) [OF True x Inr 1(2)] by simp
    qed
  qed
qed

lemma uncomp_header_within:
  assumes "MAX_PKT_SIZE c < 65536" and "uncomp_header c opt optlen packet = Some (h, Inr s)"
  shows "within c s"
proof -
  define s0 where "s0 = advance 2 (advance 4 \<lparr> uc_pos = 0, uc_optlen = optlen, uc_orig = 0, uc_pktlen = 0, uc_packet = packet \<rparr>)"
  have "s = s0 \<or> (\<exists>k. copy_literal c opt k s0 = Some (Inr s))"
    using assms(2) by (auto simp: uncomp_header_def Let_def bind_eq_Some_conv s0_def split: if_split_asm)
  moreover have "within c s0" by (simp add: within_def s0_def advance_def)
  ultimately show ?thesis using copy_literal_within [OF assms(1)] unfolding within_def by blast
qed

section \<open>Properties\<close>

text \<open>(C8) Integrity: whatever bytes arrive and in whatever state the dictionaries are, when \<open>uncomp\<close>
  reports success the packet it delivers has the MurmurHash that the first four bytes of the
  optimised packet announced, in both dictionary modes.\<close>

theorem uncomp_integrity:
  assumes "uncomp c pd sh packet opt optlen st = Some r" and "us_code (ur_status r) = UNCOMP_OK"
  shows "\<exists>h. ntoh32 opt 0 = Some h \<and> MurmurHash3_x86_32 (ur_packet r) (ur_pktlen r) SEED = Some h"
  using uncomp_outcomes [OF assms(1)] assms(2) uncomp_finish_cases
  unfolding uncomp_outcome_def uncomp_fail_format_def uncomp_fail_missing_def by fastforce


text \<open>(C10) The assertions of \<open>uncomp\<close> hold for every input: when the parsing loop of an arbitrary
  optimised packet ends without an error, \<open>pktlen\<close> and \<open>orig\<close> are equal and at most
  \<open>MAX_PKT_SIZE\<close>, although a reference alone may reach one byte further, because the check on the
  offset field that follows every reference rejects such a packet.\<close>

theorem uncomp_asserts_hold:
  assumes "MAX_PKT_SIZE c < 65536" and "uncomp_header c opt optlen packet = Some (h, Inr s)"
    and "uncomp_loop c fps ps opt s = Some (Parsed s')"
  shows "uc_pktlen s' = uc_orig s' \<and> uc_orig s' \<le> MAX_PKT_SIZE c"
  using uncomp_loop_within [OF assms(1) uncomp_header_within [OF assms(1,2)] assms(3)] by (simp add: within_def)

section \<open>Concrete runs\<close>

text \<open>Optimised packets that are a bare header: a hash and offset zero.\<close>

lemma run_header:
  "uncomp_header demo_config [a, b, d, e, 0, 0] 6 [] =
     Some (acc_byte (acc_byte (acc_byte (ucast a) b) d) e,
       Inr \<lparr> uc_pos = 6, uc_optlen = 0, uc_orig = 0, uc_pktlen = 0, uc_packet = [] \<rparr>)"
  by (simp add: uncomp_header_def Let_def ntoh32_def ntoh16_def load8_def acc_byte_def advance_def)

lemma run_loop:
  "uncomp_loop c fps ps opt \<lparr> uc_pos = 6, uc_optlen = 0, uc_orig = 0, uc_pktlen = 0, uc_packet = [] \<rparr> =
     Some (Parsed \<lparr> uc_pos = 6, uc_optlen = 0, uc_orig = 0, uc_pktlen = 0, uc_packet = [] \<rparr>)"
  by (subst uncomp_loop.simps) simp

lemma run_hash: "MurmurHash3_x86_32 [] 0 SEED = Some 0x7e3ae379"
  by (simp add: MurmurHash3_x86_32_def murmur_body_def murmur_tail_def fmix32_def Let_def SEED_def)

lemma run_finish:
  "uncomp demo_config pd sh [] [a, b, d, e, 0, 0] 6 st =
     uncomp_finish demo_config (counted 6 pd) sh [] 0 6 (acc_byte (acc_byte (acc_byte (ucast a) b) d) e) st"
  by (simp add: uncomp_def uncomp_private_def run_header run_loop Let_def)

lemma run_ok:
  "\<exists>r. uncomp demo_config pd sh [] [0x7e, 0x3a, 0xe3, 0x79, 0, 0] 6 ok_status = Some r \<and>
     us_code (ur_status r) = UNCOMP_OK"
  by (simp add: run_finish uncomp_finish_def run_hash acc_byte_def local_update_caches_def)

lemma run_bad:
  "\<exists>r. uncomp demo_config pd sh [] [0, 0, 0, 0, 0, 0] 6 ok_status = Some r \<and>
     us_code (ur_status r) = UNCOMP_BAD_PACKET_HASH"
  by (simp add: run_finish uncomp_finish_def run_hash acc_byte_def)

abbreviation demo_pd :: Deduplicator where "demo_pd \<equiv> newDeduplicator demo_config zero_memory"
abbreviation demo_sh :: shared_dictionaries where "demo_sh \<equiv> initDictionary demo_config zero_memory zero_memory"

theorem uncomp_integrity_witness:
  "\<exists>r h. uncomp demo_config demo_pd demo_sh [] [0x7e, 0x3a, 0xe3, 0x79, 0, 0] 6 ok_status = Some r \<and>
     ntoh32 [0x7e, 0x3a, 0xe3, 0x79, 0, 0] 0 = Some h \<and>
     MurmurHash3_x86_32 (ur_packet r) (ur_pktlen r) SEED = Some h"
  using run_ok [of demo_pd demo_sh] uncomp_integrity by blast


theorem uncomp_asserts_hold_witness:
  "\<exists>s s'. uncomp_header demo_config [0, 0, 0, 0, 0, 0] 6 [] = Some (0, Inr s) \<and>
     uncomp_loop demo_config [] (dd_ps demo_pd) [0, 0, 0, 0, 0, 0] s = Some (Parsed s') \<and>
     uc_pktlen s' = uc_orig s' \<and> uc_orig s' \<le> 100"
  using uncomp_asserts_hold [of demo_config "[0, 0, 0, 0, 0, 0]" 6 "[]", OF _ run_header run_loop]
  by (auto simp: run_header run_loop acc_byte_def)

text \<open>An optimised packet shorter than its header is not rejected: with \<open>optlen\<close> below six the
  16-bit subtraction wraps around, the loop is entered, and \<open>uncomp\<close> reads a descriptor beyond the
  end of the input, in both dictionary modes and in every state.\<close>

theorem uncomp_short_header_overreads:
  assumes "optlen < 6" and "length opt = 6" and "ntoh16 opt 4 = Some 0"
  shows "uncomp c pd sh packet opt optlen st = None"
proof -
  let ?s = "\<lparr> uc_pos = 6, uc_optlen = sub16 (sub16 optlen 4) 2, uc_orig = 0, uc_pktlen = 0, uc_packet = packet \<rparr>"
  obtain h where "ntoh32 opt 0 = Some h" using w32.get_defined [of opt 0] assms(2) by auto
  then have hdr: "uncomp_header c opt optlen packet = Some (h, Inr ?s)"
    using assms(3) by (simp add: uncomp_header_def Let_def advance_def)
  have wrap: "uc_optlen ?s \<ge> 18"
  proof -
    have "optlen = 0 \<or> optlen = 1 \<or> optlen = 2 \<or> optlen = 3 \<or> optlen = 4 \<or> optlen = 5"
      using assms(1) by linarith
    then show ?thesis by (elim disjE) (simp_all add: sub16_def)
  qed
  have oob: "ntoh64 opt 6 = None" using w64.get_defined [of opt 6] assms(2) by (cases "ntoh64 opt 6") auto
  then have "uncomp_step c fps ps opt ?s = None" for fps ps by (simp add: uncomp_step_def uncomp_reference_def)
  then have l1: "uncomp_loop c fps ps opt ?s = None" for fps ps
    using wrap by (subst uncomp_loop.simps) simp
  have "shared_step c opt ([], ?s) = None" using oob by (simp add: shared_step_def shared_reference_def)
  then have l2: "shared_uncomp_loop c opt ([], ?s) = None"
    using wrap by (subst shared_uncomp_loop.simps) simp
  show ?thesis
    using hdr l1 l2 by (simp add: uncomp_def uncomp_private_def uncomp_shared_def Let_def)
qed

theorem uncomp_short_header_overreads_witness:
  "uncomp demo_config demo_pd demo_sh (replicate 100 0) [1, 2, 3, 4, 0, 0] 4 ok_status = None"
  by (rule uncomp_short_header_overreads) (simp_all add: ntoh16_def load8_def acc_byte_def)

end
