(* ===== verification/Host_Order.thy ===== *)
theory Host_Order
  imports Solowan_Prelude
begin

text \<open>
  The conversions between host and network order on machine words, on a little-endian host: the
  functions \<open>ntohl\<close>, \<open>htonl\<close>, \<open>ntohs\<close> and \<open>htons\<close> of the C library, and the loads and stores of
  16 and 32 bit fields of a packet in host order.
\<close>

definition ntohs :: "u16 \<Rightarrow> u16" where
  "ntohs w = (push_bit 8 w OR drop_bit 8 w)"

definition htons :: "u16 \<Rightarrow> u16" where
  "htons w = ntohs w"

definition ntohl :: "u32 \<Rightarrow> u32" where
  "ntohl w = (push_bit 24 w OR push_bit 16 (take_bit 8 (drop_bit 8 w)) OR
     push_bit 8 (take_bit 8 (drop_bit 16 w)) OR drop_bit 24 w)"

definition htonl :: "u32 \<Rightarrow> u32" where
  "htonl w = ntohl w"

lemma ntohs_ntohs [simp]: "ntohs (ntohs w) = w"
  by (rule bit_word_eqI) (auto simp: ntohs_def bit_simps)

lemma ntohs_htons [simp]: "ntohs (htons w) = w"
  by (simp add: htons_def)

lemma htons_ntohs [simp]: "htons (ntohs w) = w"
  by (simp add: htons_def)

lemma ntohl_ntohl [simp]: "ntohl (ntohl w) = w"
proof (rule bit_word_eqI)
  fix n assume "n < LENGTH(32)"
  then consider "n < 8" | "8 \<le> n" "n < 16" | "16 \<le> n" "n < 24" | "24 \<le> n" "n < 32" by fastforce
  then show "bit (ntohl (ntohl w)) n = bit w n"
    by cases (auto simp: ntohl_def bit_simps)
qed

lemma ntohl_htonl [simp]: "ntohl (htonl w) = w"
  by (simp add: htonl_def)

lemma htonl_ntohl [simp]: "htonl (ntohl w) = w"
  by (simp add: htonl_def)

lemma htons_inj [simp]: "htons v = htons w \<longleftrightarrow> v = w"
  by (metis ntohs_htons)

section \<open>Fields of a packet\<close>

definition le16 :: "u16 \<Rightarrow> bytes" where
  "le16 w = [ucast w, ucast (drop_bit 8 w)]"

definition le32 :: "u32 \<Rightarrow> bytes" where
  "le32 w = [ucast w, ucast (drop_bit 8 w), ucast (drop_bit 16 w), ucast (drop_bit 24 w)]"

definition load16 :: "bytes \<Rightarrow> nat \<Rightarrow> u16 option" where
  "load16 buf off = do {
     b0 \<leftarrow> load8 buf off;
     b1 \<leftarrow> load8 buf (off + 1);
     Some (ucast b0 OR push_bit 8 (ucast b1)) }"

definition load32 :: "bytes \<Rightarrow> nat \<Rightarrow> u32 option" where
  "load32 buf off = do {
     b0 \<leftarrow> load8 buf off;
     b1 \<leftarrow> load8 buf (off + 1);
     b2 \<leftarrow> load8 buf (off + 2);
     b3 \<leftarrow> load8 buf (off + 3);
     Some (ucast b0 OR push_bit 8 (ucast b1) OR push_bit 16 (ucast b2) OR push_bit 24 (ucast b3)) }"

definition store8 :: "bytes \<Rightarrow> nat \<Rightarrow> u8 \<Rightarrow> bytes option" where
  "store8 buf off b = store_bytes buf off [b]"

definition store16 :: "bytes \<Rightarrow> nat \<Rightarrow> u16 \<Rightarrow> bytes option" where
  "store16 buf off w = store_bytes buf off (le16 w)"

definition store32 :: "bytes \<Rightarrow> nat \<Rightarrow> u32 \<Rightarrow> bytes option" where
  "store32 buf off w = store_bytes buf off (le32 w)"

lemma length_le [simp]: "length (le16 w) = 2" "length (le32 v) = 4"
  by (simp_all add: le16_def le32_def)

lemma load16_le16:
  assumes "take 2 (drop off buf) = le16 w"
  shows "load16 buf off = Some w"
proof -
  have l: "off + 2 \<le> length buf"
    using arg_cong [OF assms, of length] by (simp add: le16_def min_def split: if_splits)
  have "buf ! (off + k) = le16 w ! k" if "k < 2" for k
    using arg_cong [OF assms, of "\<lambda>x. x ! k"] l that by simp
  from this [of 0] this [of 1] have "buf ! off = ucast w" "buf ! (off + 1) = ucast (drop_bit 8 w)"
    by (simp_all add: le16_def)
  moreover have "(ucast (ucast w :: u8) OR push_bit 8 (ucast (ucast (drop_bit 8 w) :: u8))) = w"
    by (rule bit_word_eqI) (auto simp: bit_simps)
  ultimately show ?thesis using l by (simp add: load16_def load8_def)
qed

text \<open>A word is put together again from its bytes.\<close>

lemma le32_join:
  "ucast (ucast w :: u8) OR push_bit 8 (ucast (ucast (drop_bit 8 w) :: u8)) OR
   push_bit 16 (ucast (ucast (drop_bit 16 w) :: u8)) OR push_bit 24 (ucast (ucast (drop_bit 24 w) :: u8)) = (w :: u32)"
proof (rule bit_word_eqI)
  fix n assume "n < LENGTH(32)"
  then consider "n < 8" | "8 \<le> n" "n < 16" | "16 \<le> n" "n < 24" | "24 \<le> n" "n < 32" by fastforce
  then show "bit (ucast (ucast w :: u8) OR push_bit 8 (ucast (ucast (drop_bit 8 w) :: u8)) OR
    push_bit 16 (ucast (ucast (drop_bit 16 w) :: u8)) OR push_bit 24 (ucast (ucast (drop_bit 24 w) :: u8)) :: u32) n
    = bit w n"
    by cases (auto simp: bit_simps)
qed

lemma load32_le32:
  assumes "take 4 (drop off buf) = le32 w"
  shows "load32 buf off = Some w"
proof -
  have l: "off + 4 \<le> length buf"
    using arg_cong [OF assms, of length] by (simp add: le32_def min_def split: if_splits)
  have nth: "buf ! (off + k) = le32 w ! k" if "k < 4" for k
    using arg_cong [OF assms, of "\<lambda>x. x ! k"] l that by simp
  have "buf ! off = ucast w" "buf ! (off + 1) = ucast (drop_bit 8 w)"
    "buf ! (off + 2) = ucast (drop_bit 16 w)" "buf ! (off + 3) = ucast (drop_bit 24 w)"
    using nth [of 0] nth [of 1] nth [of 2] nth [of 3] by (simp_all add: le32_def)
  then show ?thesis using l le32_join [of w] by (simp add: load32_def load8_def)
qed

lemma slice_store:
  assumes "store_bytes buf off bs = Some buf'"
  shows "take (length bs) (drop off buf') = bs"
  using assms by (auto simp: store_bytes_def split: if_splits)

lemma nth_store:
  assumes "store_bytes buf off bs = Some buf'" and "i < length buf"
  shows "buf' ! i = (if off \<le> i \<and> i < off + length bs then bs ! (i - off) else buf ! i)"
proof -
  have "off + length bs \<le> length buf" "buf' = take off buf @ bs @ drop (off + length bs) buf"
    using assms(1) by (auto simp: store_bytes_def split: if_splits)
  then show ?thesis using assms(2) by (auto simp: nth_append)
qed

lemma load16_store16 [mem_simps]: "store16 buf off w = Some buf' \<Longrightarrow> load16 buf' off = Some w"
  using slice_store by (intro load16_le16) (fastforce simp: store16_def)

lemma load32_store32 [mem_simps]: "store32 buf off w = Some buf' \<Longrightarrow> load32 buf' off = Some w"
  using slice_store by (intro load32_le32) (fastforce simp: store32_def)

section \<open>Accesses in the middle of a list\<close>

lemma store_mid:
  "length xs = off \<Longrightarrow> length bs = length ys \<Longrightarrow> store_bytes (xs @ ys @ zs) off bs = Some (xs @ bs @ zs)"
  by (auto simp: store_bytes_def)

lemma load_mid: "length xs = off \<Longrightarrow> length ys = n \<Longrightarrow> load_bytes (xs @ ys @ zs) off n = Some ys"
  by (auto simp: load_bytes_def)

lemma store8_mid: "length xs = off \<Longrightarrow> store8 (xs @ y # zs) off b = Some (xs @ b # zs)"
  using store_mid [of xs off "[b]" "[y]" zs] by (simp add: store8_def)

end
