(* ===== verification/Checksum.thy ===== *)
theory Checksum
  imports Host_Order
begin

text \<open>
  Access to the IPv4 and TCP header fields of a packet held in a byte buffer, in the layout of
  \<open>struct iphdr\<close> and \<open>struct tcphdr\<close> on a little-endian host, and the Internet checksums
  (\<open>opennopd/csum.c\<close>).  The sums are \<open>long\<close> values that cannot overflow for a 16 bit length, so
  they are natural numbers.
\<close>

section \<open>Header fields\<close>

definition ip_ihl4 :: "bytes \<Rightarrow> nat option" where
  "ip_ihl4 p = do { b \<leftarrow> load8 p 0; Some (4 * unat (take_bit 4 b)) }"

definition ip_tot_len :: "bytes \<Rightarrow> nat option" where
  "ip_tot_len p = do { w \<leftarrow> load16 p 2; Some (unat (ntohs w)) }"

definition set_ip_tot_len :: "bytes \<Rightarrow> nat \<Rightarrow> bytes option" where
  "set_ip_tot_len p n = store16 p 2 (htons (of_nat n))"

definition ip_protocol :: "bytes \<Rightarrow> u8 option" where
  "ip_protocol p = load8 p 9"

text \<open>\<open>tcph\<close> is the byte offset of the TCP header.\<close>

definition tcp_doff :: "bytes \<Rightarrow> nat \<Rightarrow> nat option" where
  "tcp_doff p tcph = do { b \<leftarrow> load8 p (tcph + 12); Some (unat (drop_bit 4 b)) }"

definition set_tcp_doff :: "bytes \<Rightarrow> nat \<Rightarrow> nat \<Rightarrow> bytes option" where
  "set_tcp_doff p tcph d = do {
     b \<leftarrow> load8 p (tcph + 12);
     store8 p (tcph + 12) (push_bit 4 (of_nat d) OR take_bit 4 b) }"

definition IPPROTO_TCP :: u8 where
  "IPPROTO_TCP = 6"

section \<open>Checksums\<close>

text \<open>The sum of \<open>n\<close> words from offset \<open>off\<close>.\<close>

definition sum_words :: "bytes \<Rightarrow> nat \<Rightarrow> nat \<Rightarrow> nat \<Rightarrow> nat option" where
  "sum_words buf off n acc = foldM (\<lambda>i acc. do {
     w \<leftarrow> load16 buf (off + 2 * i);
     Some (acc + unat (ntohs w)) }) [0..<n] acc"

function fold_carries :: "nat \<Rightarrow> nat" where
  "fold_carries acc = (if drop_bit 16 acc = 0 then acc else fold_carries (take_bit 16 acc + drop_bit 16 acc))"
  by pat_completeness auto

termination fold_carries
proof (relation "measure (\<lambda>x. x)", simp)
  fix acc :: nat
  assume "drop_bit 16 acc \<noteq> 0"
  then have "0 < acc div 65536" by (simp add: drop_bit_eq_div)
  moreover have "acc = acc div 65536 * 65536 + acc mod 65536" by simp
  ultimately have "acc mod 65536 + acc div 65536 < acc" by linarith
  then show "(take_bit 16 acc + drop_bit 16 acc, acc) \<in> measure (\<lambda>x. x)"
    by (simp add: take_bit_eq_mod drop_bit_eq_div)
qed

declare fold_carries.simps [simp del]

text \<open>\<open>sum = ~sum; return htons ((unsigned short) sum)\<close>.\<close>

definition finish_sum :: "nat \<Rightarrow> u16" where
  "finish_sum acc = htons (NOT (of_nat (fold_carries acc)))"

text \<open>
  The two addresses, the length and the protocol are the pseudo header.  The last byte of a
  segment of odd length is read as the low half of a word.
\<close>

definition tcp_sum_calc :: "nat \<Rightarrow> bytes \<Rightarrow> nat \<Rightarrow> nat \<Rightarrow> nat \<Rightarrow> u16 option" where
  "tcp_sum_calc len_tcp p src_addr dest_addr buff = do {
     acc \<leftarrow> sum_words p src_addr 2 0;
     acc \<leftarrow> sum_words p dest_addr 2 acc;
     let acc = acc + len_tcp + 6;
     acc \<leftarrow> sum_words p buff (len_tcp div 2) acc;
     acc \<leftarrow> (if len_tcp mod 2 = 1 then do {
         w \<leftarrow> load16 p (buff + 2 * (len_tcp div 2));
         Some (acc + unat (ntohs (take_bit 8 w))) }
       else Some acc);
     Some (finish_sum acc) }"

definition ip_sum_calc :: "nat \<Rightarrow> bytes \<Rightarrow> nat \<Rightarrow> u16 option" where
  "ip_sum_calc len_ip_header p buff = do {
     acc \<leftarrow> sum_words p buff (len_ip_header div 2) 0;
     Some (finish_sum acc) }"

definition checksum :: "bytes \<Rightarrow> bytes option" where
  "checksum p = do {
     proto \<leftarrow> ip_protocol p;
     (if proto = IPPROTO_TCP then do {
        tcph \<leftarrow> ip_ihl4 p;
        tot \<leftarrow> ip_tot_len p;
        let tcplen = sub16 tot tcph;
        p \<leftarrow> store16 p (tcph + 16) 0;
        c \<leftarrow> tcp_sum_calc tcplen p 12 16 tcph;
        p \<leftarrow> store16 p (tcph + 16) c;
        p \<leftarrow> store16 p 10 0;
        ihl \<leftarrow> ip_ihl4 p;
        c \<leftarrow> ip_sum_calc ihl p 0;
        store16 p 10 c }
      else Some p) }"

section \<open>What the sums compute\<close>

definition word_at :: "bytes \<Rightarrow> nat \<Rightarrow> u16" where
  "word_at p off = (ucast (p ! off) OR push_bit 8 (ucast (p ! (off + 1))))"

definition psum :: "bytes \<Rightarrow> nat \<Rightarrow> nat \<Rightarrow> nat" where
  "psum p off n = (\<Sum>i<n. unat (ntohs (word_at p (off + 2 * i))))"

lemma load16_Some [mem_simps]: "off + 2 \<le> length p \<Longrightarrow> load16 p off = Some (word_at p off)"
  by (simp add: load16_def load8_def word_at_def)

lemma sum_words_Some [mem_simps]:
  "off + 2 * n \<le> length p \<Longrightarrow> sum_words p off n s = Some (s + psum p off n)"
proof (induction n)
  case 0
  then show ?case by (simp add: sum_words_def psum_def)
next
  case (Suc n)
  then have "sum_words p off n s = Some (s + psum p off n)" by simp
  then show ?case using Suc.prems
    by (simp add: sum_words_def foldM_append mem_simps psum_def)
qed

text \<open>Folding the carries is reduction modulo \<open>2^16 - 1\<close> into \<open>1 .. 2^16 - 1\<close> (zero stays zero).\<close>

lemma fold_carries_step: "65536 \<le> s \<Longrightarrow> fold_carries s = fold_carries (s mod 65536 + s div 65536)"
  by (subst fold_carries.simps) (auto simp: drop_bit_eq_div take_bit_eq_mod div_eq_0_iff)

lemma fold_carries_small: "s < 65536 \<Longrightarrow> fold_carries s = s"
  by (subst fold_carries.simps) (simp add: drop_bit_eq_div)

lemma fold_carries_spec: "fold_carries s < 65536 \<and> fold_carries s mod 65535 = s mod 65535 \<and> (fold_carries s = 0 \<longleftrightarrow> s = 0)"
proof (induction s rule: fold_carries.induct)
  case (1 s)
  show ?case
  proof (cases "s < 65536")
    case True
    then show ?thesis by (simp add: fold_carries_small)
  next
    case False
    define t where "t = s mod 65536 + s div 65536"
    have "s = s div 65536 * 65536 + s mod 65536" by simp
    then have s: "s = t + 65535 * (s div 65536)" unfolding t_def by linarith
    have "drop_bit 16 s \<noteq> 0" using False by (simp add: drop_bit_eq_div)
    from 1 [OF this] have "fold_carries t < 65536 \<and> fold_carries t mod 65535 = t mod 65535 \<and> (fold_carries t = 0 \<longleftrightarrow> t = 0)"
      by (simp add: t_def drop_bit_eq_div take_bit_eq_mod)
    moreover have "t mod 65535 = s mod 65535" using s by (metis mod_mult_self2)
    moreover have "0 < s div 65536" using False by simp
    then have "t \<noteq> 0" by (simp add: t_def)
    ultimately show ?thesis using fold_carries_step False by (simp add: t_def)
  qed
qed

lemma fold_carries_eq_max:
  assumes "0 < s" and "s mod 65535 = 0"
  shows "fold_carries s = 65535"
proof (rule ccontr)
  assume "fold_carries s \<noteq> 65535"
  then have "fold_carries s < 65535" using fold_carries_spec [of s] by linarith
  then show False using fold_carries_spec [of s] assms by auto
qed

text \<open>A sum that includes its own checksum verifies.\<close>

lemma finish_sum_verifies:
  assumes "s0 + unat (ntohs (finish_sum s0)) = s"
  shows "finish_sum s = 0"
proof -
  let ?f = "fold_carries s0"
  have f: "?f < 65536" "?f mod 65535 = s0 mod 65535" "?f = 0 \<longleftrightarrow> s0 = 0" using fold_carries_spec [of s0] by auto
  have "unat (NOT (of_nat ?f :: u16)) = 65535 - ?f"
  proof -
    define n where "n = 65535 - ?f"
    have n: "n < 65536" "65535 - n = ?f" using f(1) by (auto simp: n_def)
    have "NOT (of_nat ?f :: u16) = of_nat n"
      using f(1) by (simp add: n_def not_eq_complement of_nat_diff)
    moreover have "unat (of_nat n :: u16) = n" using n(1) by (simp add: unat_of_nat)
    ultimately show ?thesis unfolding n_def by (metis (no_types))
  qed
  then have s: "s = s0 + (65535 - ?f)" using assms by (simp add: finish_sum_def)
  have "s mod 65535 = (?f + (65535 - ?f)) mod 65535"
    unfolding s using f(2) by (metis mod_add_left_eq)
  then have "s mod 65535 = 0" using f(1) by simp
  moreover have "0 < s" using s f(3) by (cases "s0 = 0") auto
  ultimately have "fold_carries s = 65535" by (rule fold_carries_eq_max [rotated])
  then show ?thesis by (simp add: finish_sum_def htons_def ntohs_def)
qed

section \<open>A stored field and the sums\<close>

definition put16 :: "bytes \<Rightarrow> nat \<Rightarrow> u16 \<Rightarrow> bytes" where
  "put16 p off w = p[off := ucast w, off + 1 := ucast (drop_bit 8 w)]"

lemma store16_Some [mem_simps]:
  assumes "off + 2 \<le> length p"
  shows "store16 p off w = Some (put16 p off w)"
proof -
  have "p = take off p @ p ! off # p ! Suc off # drop (Suc (Suc off)) p"
    using assms by (simp add: Cons_nth_drop_Suc)
  then obtain xs a b ys where p: "p = xs @ a # b # ys" and xs: "length xs = off"
    using assms that [of "take off p"] by simp
  have "take off p @ le16 w @ drop (off + 2) p = put16 p off w"
    by (simp add: p put16_def le16_def list_update_append flip: xs)
  then show ?thesis using assms by (simp add: store16_def store_bytes_def le16_def)
qed

lemma put16_length [simp]: "length (put16 p off w) = length p"
  by (simp add: put16_def)

lemma put16_nth_other: "i \<noteq> off \<Longrightarrow> i \<noteq> off + 1 \<Longrightarrow> put16 p off w ! i = p ! i"
  by (simp add: put16_def)

lemma word_at_put16: "off + 2 \<le> length p \<Longrightarrow> word_at (put16 p off w) off = w"
proof -
  assume "off + 2 \<le> length p"
  then have "load16 (put16 p off w) off = Some w" using load16_store16 [OF store16_Some] by blast
  then show ?thesis using load16_Some [of off "put16 p off w"] \<open>off + 2 \<le> length p\<close> by simp
qed

lemma word_at_put16_other: "i + 1 < off \<or> off + 1 < i \<Longrightarrow> word_at (put16 p off w) i = word_at p i"
  by (auto simp: word_at_def put16_nth_other)

lemma psum_put16_other:
  assumes "off + 2 * n \<le> i \<or> i + 2 \<le> off"
  shows "psum (put16 p i w) off n = psum p off n"
  unfolding psum_def by (rule sum.cong) (use assms in \<open>auto simp: word_at_put16_other\<close>)

lemma psum_put16:
  assumes "k < n" and "off + 2 * n \<le> length p"
  shows "psum (put16 p (off + 2 * k) w) off n + unat (ntohs (word_at p (off + 2 * k))) =
    psum p off n + unat (ntohs w)"
proof -
  let ?i = "off + 2 * k"
  have split: "psum q off n = unat (ntohs (word_at q ?i)) + (\<Sum>i\<in>{..<n} - {k}. unat (ntohs (word_at q (off + 2 * i))))" for q
    unfolding psum_def using assms(1) by (subst sum.remove [of _ k]) auto
  have "(\<Sum>i\<in>{..<n} - {k}. unat (ntohs (word_at (put16 p ?i w) (off + 2 * i)))) =
      (\<Sum>i\<in>{..<n} - {k}. unat (ntohs (word_at p (off + 2 * i))))"
  proof (rule sum.cong)
    fix i assume "i \<in> {..<n} - {k}"
    then have "off + 2 * i + 1 < ?i \<or> ?i + 1 < off + 2 * i" by auto
    then show "unat (ntohs (word_at (put16 p ?i w) (off + 2 * i))) = unat (ntohs (word_at p (off + 2 * i)))"
      by (simp add: word_at_put16_other)
  qed simp
  moreover have "word_at (put16 p ?i w) ?i = w" using assms by (intro word_at_put16) linarith
  ultimately show ?thesis using split [of p] split [of "put16 p ?i w"] by simp
qed

text \<open>Storing the checksum into a field that was zero makes the sum verify.\<close>

lemma psum_with_checksum:
  assumes "k < n" and "off + 2 * n \<le> length p" and "word_at p (off + 2 * k) = 0"
  shows "psum (put16 p (off + 2 * k) c) off n = psum p off n + unat (ntohs c)"
  using psum_put16 [OF assms(1,2), of c] assms(3) by (simp add: ntohs_def)

definition tcp_total :: "bytes \<Rightarrow> nat \<Rightarrow> nat \<Rightarrow> nat" where
  "tcp_total p tcph len = psum p 12 2 + psum p 16 2 + len + 6 + psum p tcph (len div 2) +
     (if len mod 2 = 1 then unat (ntohs (take_bit 8 (word_at p (tcph + 2 * (len div 2))))) else 0)"

lemma tcp_sum_calc_Some:
  assumes "20 \<le> tcph" and "tcph + len + len mod 2 \<le> length p"
  shows "tcp_sum_calc len p 12 16 tcph = Some (finish_sum (tcp_total p tcph len))"
proof -
  have "tcph + 2 * (len div 2) + 2 * (len mod 2) \<le> length p" using assms(2) by presburger
  then show ?thesis using assms(1) by (simp add: tcp_sum_calc_def mem_simps tcp_total_def ac_simps)
qed

lemma checksum_ok:
  assumes "load8 p 9 = Some IPPROTO_TCP" and "ip_ihl4 p = Some ihl" and "ip_tot_len p = Some tot"
    and "20 \<le> ihl" and "ihl + 20 \<le> tot" and "tot < length p"
  shows "\<exists>p'. checksum p = Some p' \<and> tcp_sum_calc (tot - ihl) p' 12 16 ihl = Some 0 \<and>
    ip_sum_calc ihl p' 0 = Some 0 \<and> length p' = length p \<and>
    (\<forall>i. i \<notin> {10, 11, ihl + 16, ihl + 17} \<longrightarrow> p' ! i = p ! i)"
proof -
  let ?len = "tot - ihl"
  define p1 where "p1 = put16 p (ihl + 16) 0"
  define c where "c = finish_sum (tcp_total p1 ihl ?len)"
  define p2 where "p2 = put16 p1 (ihl + 16) c"
  define p3 where "p3 = put16 p2 10 0"
  define d where "d = finish_sum (psum p3 0 (ihl div 2))"
  define p4 where "p4 = put16 p3 10 d"
  have len: "length p1 = length p" "length p2 = length p" "length p3 = length p" "length p4 = length p"
    by (simp_all add: p1_def p2_def p3_def p4_def)
  have b: "?len < 65536" "tot < 65536"
  proof -
    have "\<exists>w. tot = unat (w :: u16)" using assms(3) by (auto simp: ip_tot_len_def bind_eq_Some_conv)
    then obtain w where "tot = unat (w :: u16)" by blast
    moreover have "unat w < 2 ^ LENGTH(16)" by (rule unsigned_less)
    ultimately show "tot < 65536" by simp
    then show "?len < 65536" by simp
  qed
  have odd: "ihl + ?len + ?len mod 2 \<le> length p" using assms(5,6) by (cases "?len mod 2 = 1") auto
  have p3_0: "p3 ! 0 = p ! 0" using assms(4) by (simp add: p3_def p2_def p1_def put16_nth_other)
  then have ihl3: "ip_ihl4 p3 = Some ihl" using assms(2) len by (auto simp: ip_ihl4_def load8_def split: if_splits)
  have t1: "tcp_sum_calc ?len p1 12 16 ihl = Some c"
    using tcp_sum_calc_Some [of ihl ?len p1] assms(4) odd len by (simp add: c_def)
  have i3: "ip_sum_calc ihl p3 0 = Some d" using assms(4-6) len by (simp add: ip_sum_calc_def mem_simps d_def)
  have s16: "sub16 tot ihl = ?len" using assms(5) b by simp
  have run: "checksum p = Some p4"
    using assms t1 i3 ihl3 len s16
    by (simp add: checksum_def ip_protocol_def mem_simps p1_def [symmetric] p2_def [symmetric] p3_def [symmetric] p4_def)
  have n: "8 < ?len div 2" "5 < ihl div 2" using assms(4,5) by auto
  have w1: "word_at p1 (ihl + 2 * 8) = 0" using word_at_put16 [of "ihl + 16" p 0] assms(5,6) by (simp add: p1_def)
  have w3: "word_at p3 (0 + 2 * 5) = 0" using word_at_put16 [of 10 p2 0] assms(4-6) len by (simp add: p3_def)
  have l1: "ihl + 2 * (?len div 2) \<le> length p1" using odd len by linarith
  have tail: "word_at p4 (ihl + 2 * (?len div 2)) = word_at p1 (ihl + 2 * (?len div 2))"
    using assms(4) n(1) by (simp add: p4_def p3_def p2_def word_at_put16_other)
  have "tcp_total p4 ihl ?len = tcp_total p1 ihl ?len + unat (ntohs c)"
    using psum_with_checksum [OF n(1) l1 w1, of c] assms(4) tail
    by (simp add: tcp_total_def p4_def p3_def p2_def psum_put16_other)
  then have tv: "tcp_sum_calc ?len p4 12 16 ihl = Some 0"
    using tcp_sum_calc_Some [of ihl ?len p4] assms(4) odd len finish_sum_verifies c_def by simp
  have "psum p4 0 (ihl div 2) = psum p3 0 (ihl div 2) + unat (ntohs d)"
    using psum_with_checksum [OF n(2) _ w3, of d] assms(4-6) len by (simp add: p4_def)
  then have iv: "ip_sum_calc ihl p4 0 = Some 0"
    using finish_sum_verifies [of "psum p3 0 (ihl div 2)"] assms(5,6) len
    by (simp add: ip_sum_calc_def mem_simps d_def)
  have "\<forall>i. i \<notin> {10, 11, ihl + 16, ihl + 17} \<longrightarrow> p4 ! i = p ! i"
    by (auto simp: p4_def p3_def p2_def p1_def put16_nth_other)
  then show ?thesis using run tv iv len by blast
qed

text \<open>
  (C19) Checksums: \<open>checksum\<close> on a well-formed TCP packet succeeds and stores checksums that
  verify: the receiver's computation over the segment with its pseudo header, and over the IP
  header, both including the stored field, gives zero.  Only the two checksum fields change.
\<close>

theorem checksum_verifies:
  assumes "load8 p 9 = Some IPPROTO_TCP" and "ip_ihl4 p = Some ihl" and "ip_tot_len p = Some tot"
    and "20 \<le> ihl" and "ihl + 20 \<le> tot" and "tot < length p"
  shows "\<exists>p'. checksum p = Some p' \<and> tcp_sum_calc (tot - ihl) p' 12 16 ihl = Some 0 \<and>
    ip_sum_calc ihl p' 0 = Some 0 \<and> length p' = length p \<and>
    (\<forall>i. i \<notin> {10, 11, ihl + 16, ihl + 17} \<longrightarrow> p' ! i = p ! i)"
  using assms by (rule checksum_ok)

text \<open>A segment of 20 header bytes and three bytes of data between two addresses.\<close>

definition demo_packet :: bytes where
  "demo_packet = [0x45, 0, 0, 43, 0, 1, 0, 0, 64, 6, 0, 0, 10, 0, 0, 1, 10, 0, 0, 2] @
     [0x0f, 0xa0, 0, 80, 0, 0, 0, 7, 0, 0, 0, 9, 0x50, 0x18, 1, 0, 0, 0, 0, 0] @ [104, 105, 33] @ replicate 21 0"

theorem checksum_verifies_witness:
  "\<exists>p'. checksum demo_packet = Some p' \<and> tcp_sum_calc (43 - 20) p' 12 16 20 = Some 0 \<and>
    ip_sum_calc 20 p' 0 = Some 0 \<and> length p' = length demo_packet \<and>
    (\<forall>i. i \<notin> {10, 11, 20 + 16, 20 + 17} \<longrightarrow> p' ! i = demo_packet ! i)"
  by (rule checksum_verifies)
    (simp_all add: demo_packet_def load8_def IPPROTO_TCP_def ip_ihl4_def ip_tot_len_def load16_def ntohs_def)

end
