(* ===== verification/Tcp_Options.thy ===== *)
theory Tcp_Options
  imports Checksum
begin

text \<open>
  TCP options of a packet (\<open>opennopd/tcpoptions.c\<close>): searching an option, setting one, and the length
  of the headers.  The packet is a byte buffer, \<open>opt\<close> the offset of the option field.  Index
  variables are 8 bit words and wrap as in the source; \<^const>\<open>None\<close> is an access outside the buffer,
  a shift the language leaves undefined, or a loop that does not end.
\<close>

definition TCPOPT_EOL :: u8 where "TCPOPT_EOL = 0"

definition TCPOPT_NOP :: u8 where "TCPOPT_NOP = 1"

text \<open>\<open>memmove\<close> inside one buffer.\<close>

definition memmove :: "bytes \<Rightarrow> nat \<Rightarrow> nat \<Rightarrow> nat \<Rightarrow> bytes option" where
  "memmove p dst src n = load_bytes p src n \<bind> store_bytes p dst"

text \<open>\<open>tcph->doff*4 - sizeof(struct tcphdr)\<close>, an unsigned 64 bit value.\<close>

definition opt_limit :: "nat \<Rightarrow> nat" where
  "opt_limit doff = (4 * doff + 2 ^ 64 - 20) mod 2 ^ 64"

definition optlen :: "bytes \<Rightarrow> nat \<Rightarrow> u8 \<Rightarrow> u8 option" where
  "optlen p opt offset = do {
     k \<leftarrow> load8 p (opt + unat offset);
     (if k \<le> TCPOPT_NOP then Some 1 else do {
        l \<leftarrow> load8 p (opt + unat offset + 1);
        Some (if l = 0 then 1 else l) }) }"

text \<open>\<open>b << n\<close> on an \<open>int\<close>: undefined when the width or the value range is exceeded.\<close>

definition int_shl :: "u8 \<Rightarrow> nat \<Rightarrow> u64 option" where
  "int_shl b n = (if n < 32 \<and> unat b * 2 ^ n < 2 ^ 31 then Some (of_nat (unat b * 2 ^ n)) else None)"

section \<open>Reading an option\<close>

fun opt_data :: "bytes \<Rightarrow> nat \<Rightarrow> nat \<Rightarrow> u8 \<Rightarrow> u64 \<Rightarrow> u64 option" where
  "opt_data p base 0 bytefield acc = Some acc"
| "opt_data p base (Suc count) bytefield acc = do {
     b \<leftarrow> load8 p (base + unat bytefield);
     v \<leftarrow> int_shl b (8 * count);
     opt_data p base count (bytefield + 1) (acc + v) }"

text \<open>One round of the search loop: the next index, or the value returned.\<close>

definition get_opt_body :: "bytes \<Rightarrow> nat \<Rightarrow> nat \<Rightarrow> u8 \<Rightarrow> u8 \<Rightarrow> (u8 + u64) option" where
  "get_opt_body p opt doff tcpoptnum i =
     (if unat i < opt_limit doff then do {
        k \<leftarrow> load8 p (opt + unat i);
        r \<leftarrow> (if k = tcpoptnum then do {
            tcpoptlen \<leftarrow> load8 p (opt + unat i + 1);
            (if unat i + unat tcpoptlen \<le> 4 * doff then
               (if tcpoptlen = 2 then Some (Some 1)
                else do {
                  v \<leftarrow> opt_data p (opt + unat i) (unat (tcpoptlen - 2)) 2 0;
                  Some (Some v) })
             else Some None) }
          else Some None);
        (case r of
           Some v \<Rightarrow> Some (Inr v)
         | None \<Rightarrow> do {
             l \<leftarrow> optlen p opt i;
             Some (Inl (i + l)) }) }
      else Some (Inr 0))"

partial_function (option) get_opt_loop :: "bytes \<Rightarrow> nat \<Rightarrow> nat \<Rightarrow> u8 \<Rightarrow> u8 \<Rightarrow> u64 option" where
  [code]: "get_opt_loop p opt doff tcpoptnum i = do {
     r \<leftarrow> get_opt_body p opt doff tcpoptnum i;
     (case r of Inl j \<Rightarrow> get_opt_loop p opt doff tcpoptnum j | Inr v \<Rightarrow> Some v) }"

definition get_tcp_option :: "bytes \<Rightarrow> u8 \<Rightarrow> u64 option" where
  "get_tcp_option p tcpoptnum = do {
     tcph \<leftarrow> ip_ihl4 p;
     doff \<leftarrow> tcp_doff p tcph;
     get_opt_loop p (tcph + 20) doff tcpoptnum 0 }"

section \<open>Setting an option\<close>

text \<open>The bytes of the option value, most significant first.\<close>

fun write_opt_data :: "bytes \<Rightarrow> nat \<Rightarrow> u64 \<Rightarrow> nat \<Rightarrow> u8 \<Rightarrow> bytes option" where
  "write_opt_data p base tcpoptdata 0 bytefield = Some p"
| "write_opt_data p base tcpoptdata (Suc count) bytefield = do {
     c_assert (8 * count < 64);
     p \<leftarrow> store8 p (base + unat bytefield) (ucast (drop_bit (8 * count) tcpoptdata));
     write_opt_data p base tcpoptdata count (bytefield + 1) }"

text \<open>The first loop: an option with the same number and length is overwritten in place.\<close>

partial_function (option) set_found_loop ::
    "bytes \<Rightarrow> nat \<Rightarrow> nat \<Rightarrow> nat \<Rightarrow> nat \<Rightarrow> u64 \<Rightarrow> u8 \<Rightarrow> bytes option option" where
  [code]: "set_found_loop p opt doff tcpoptnum tcpoptlen tcpoptdata i =
     (if unat i < opt_limit doff then do {
        k \<leftarrow> load8 p (opt + unat i);
        hit \<leftarrow> (if unat k = tcpoptnum \<and> unat i + tcpoptlen \<le> 4 * doff then do {
            l \<leftarrow> load8 p (opt + unat i + 1);
            Some (unat l = tcpoptlen) }
          else Some False);
        (if hit then do {
           p \<leftarrow> write_opt_data p (opt + unat i) tcpoptdata (unat (of_nat tcpoptlen - 2 :: u8)) 2;
           Some (Some p) }
         else do {
           l \<leftarrow> optlen p opt i;
           set_found_loop p opt doff tcpoptnum tcpoptlen tcpoptdata (i + l) }) }
      else Some None)"

text \<open>While there is a NOP at \<open>i\<close>, the rest of the option field moves one byte forward.\<close>

partial_function (option) drop_nops :: "bytes \<Rightarrow> nat \<Rightarrow> nat \<Rightarrow> u8 \<Rightarrow> bytes option" where
  [code]: "drop_nops p opt doff i = do {
     k \<leftarrow> load8 p (opt + unat i);
     (if k = TCPOPT_NOP then do {
        p \<leftarrow> memmove p (opt + unat i) (opt + unat i + 1) (opt_limit doff - unat i - 1);
        p \<leftarrow> store8 p (opt + opt_limit doff - 1) 0;
        drop_nops p opt doff i }
      else Some p) }"

partial_function (option) compact_loop :: "bytes \<Rightarrow> nat \<Rightarrow> nat \<Rightarrow> u8 \<Rightarrow> u8 \<Rightarrow> (bytes \<times> u8) option" where
  [code]: "compact_loop p opt doff optspace i =
     (if unat i < opt_limit doff then do {
        p \<leftarrow> drop_nops p opt doff i;
        k \<leftarrow> load8 p (opt + unat i);
        (if k = TCPOPT_EOL then Some (p, of_nat (opt_limit doff - unat i))
         else do {
           l \<leftarrow> optlen p opt i;
           compact_loop p opt doff 0 (i + l) }) }
      else Some (p, optspace))"

text \<open>Room for the option, in 32 bit words.\<close>

definition opt_addoff :: "u8 \<Rightarrow> nat \<Rightarrow> u8" where
  "opt_addoff optspace tcpoptlen =
     (if unat optspace < tcpoptlen then
        (let spaceneeded = of_nat (tcpoptlen - unat optspace) :: u8;
             addoff = spaceneeded div 4 in
         if spaceneeded mod 4 \<noteq> 0 then addoff + 1 else addoff)
      else 0)"

text \<open>
  The data moves behind the enlarged header; a negative length is converted to a huge one, so the
  move faults.
\<close>

definition open_gap :: "bytes \<Rightarrow> nat \<Rightarrow> nat \<Rightarrow> u8 \<Rightarrow> bytes option" where
  "open_gap p opt doff addoff = do {
     ihl \<leftarrow> ip_ihl4 p;
     tot \<leftarrow> ip_tot_len p;
     c_assert (ihl + 4 * doff \<le> tot);
     p \<leftarrow> memmove p (opt + 4 * doff - 20 + 4 * unat addoff) (opt + 4 * doff - 20) (tot - ihl - 4 * doff);
     foldM (\<lambda>i p. store8 p (opt + opt_limit doff + i) 0) [0..<4 * unat addoff] p }"

definition insert_option ::
    "bytes \<Rightarrow> nat \<Rightarrow> nat \<Rightarrow> u8 \<Rightarrow> u8 \<Rightarrow> nat \<Rightarrow> nat \<Rightarrow> u64 \<Rightarrow> bytes option" where
  "insert_option p opt doff optspace addoff tcpoptnum tcpoptlen tcpoptdata = do {
     p \<leftarrow> (if addoff \<noteq> 0 then open_gap p opt doff addoff else Some p);
     p \<leftarrow> memmove p (opt + tcpoptlen) opt (opt_limit doff - unat optspace);
     p \<leftarrow> store8 p opt (of_nat tcpoptnum);
     p \<leftarrow> store8 p (opt + 1) (of_nat tcpoptlen);
     p \<leftarrow> write_opt_data p opt tcpoptdata (unat (of_nat tcpoptlen - 2 :: u8)) 2;
     p \<leftarrow> (if addoff \<noteq> 0 then set_tcp_doff p (opt - 20) (doff + unat addoff) else Some p);
     tot \<leftarrow> ip_tot_len p;
     set_ip_tot_len p (tot + 4 * unat addoff) }"

definition set_tcp_option :: "bytes \<Rightarrow> nat \<Rightarrow> nat \<Rightarrow> u64 \<Rightarrow> (int \<times> bytes) option" where
  "set_tcp_option p tcpoptnum tcpoptlen tcpoptdata = do {
     tcph \<leftarrow> ip_ihl4 p;
     doff \<leftarrow> tcp_doff p tcph;
     let opt = tcph + 20;
     found \<leftarrow> (if 5 < doff then set_found_loop p opt doff tcpoptnum tcpoptlen tcpoptdata 0 else Some None);
     (case found of
        Some p \<Rightarrow> Some (0, p)
      | None \<Rightarrow> do {
          (p, optspace) \<leftarrow> (if 5 < doff then compact_loop p opt doff 0 0 else Some (p, 0));
          let addoff = opt_addoff optspace tcpoptlen;
          (if doff + unat addoff \<le> 15 then do {
             p \<leftarrow> insert_option p opt doff optspace addoff tcpoptnum tcpoptlen tcpoptdata;
             Some (0, p) }
           else Some (-1, p)) }) }"

definition getIPPlusTCPHeaderLength :: "bytes \<Rightarrow> nat option" where
  "getIPPlusTCPHeaderLength p = do {
     tcph \<leftarrow> ip_ihl4 p;
     doff \<leftarrow> tcp_doff p tcph;
     Some (tcph + 4 * doff) }"

section \<open>Well-formed option fields\<close>

datatype tcp_opt = Pad u8 | Opt u8 bytes

fun opt_bytes :: "tcp_opt \<Rightarrow> bytes" where
  "opt_bytes (Pad k) = [k]"
| "opt_bytes (Opt k d) = k # of_nat (length d + 2) # d"

fun opt_wf :: "tcp_opt \<Rightarrow> bool" where
  "opt_wf (Pad k) \<longleftrightarrow> k \<le> 1"
| "opt_wf (Opt k d) \<longleftrightarrow> 1 < k \<and> length d \<le> 38"

definition opts_bytes :: "tcp_opt list \<Rightarrow> bytes" where
  "opts_bytes os = concat (map opt_bytes os)"

text \<open>What the search returns: one for an option without data, else its data as a number.\<close>

fun be_value :: "bytes \<Rightarrow> nat" where
  "be_value [] = 0"
| "be_value (b # d) = unat b * 256 ^ length d + be_value d"

fun find_opt :: "u8 \<Rightarrow> tcp_opt list \<Rightarrow> u64" where
  "find_opt num [] = 0"
| "find_opt num (Pad k # os) = find_opt num os"
| "find_opt num (Opt k d # os) =
     (if k = num then (if d = [] then 1 else of_nat (be_value d)) else find_opt num os)"

text \<open>The \<open>TCP\<close> header with option field \<open>os\<close> stands at \<open>tcph\<close>.\<close>

definition has_options :: "bytes \<Rightarrow> nat \<Rightarrow> tcp_opt list \<Rightarrow> bool" where
  "has_options p tcph os \<longleftrightarrow> (\<exists>doff. ip_ihl4 p = Some tcph \<and> tcp_doff p tcph = Some doff \<and> 5 \<le> doff \<and>
     tcph + 4 * doff \<le> length p \<and> take (4 * doff - 20) (drop (tcph + 20) p) = opts_bytes os \<and>
     (\<forall>x\<in>set os. opt_wf x))"

lemma opt_limit_ge:
  assumes "5 \<le> doff" and "doff \<le> 15"
  shows "opt_limit doff = 4 * doff - 20"
proof -
  obtain d where d: "doff = 5 + d" using assms(1) le_Suc_ex by blast
  have "4 * doff + 2 ^ 64 - 20 = 4 * d + 2 ^ 64" unfolding d by simp
  then have "opt_limit doff = (4 * d + 2 ^ 64) mod 2 ^ 64" by (simp only: opt_limit_def)
  also have "\<dots> = 4 * d" using assms(2) by (simp only: mod_add_self2) (simp add: d)
  finally show ?thesis by (simp add: d)
qed

lemma tcp_doff_le: "tcp_doff p tcph = Some doff \<Longrightarrow> doff \<le> 15"
proof -
  assume "tcp_doff p tcph = Some doff"
  then obtain b :: u8 where "doff = unat (drop_bit 4 b)" by (auto simp: tcp_doff_def bind_eq_Some_conv)
  then have "doff = drop_bit 4 (unat b)" by (simp only: unat_drop_bit_eq)
  moreover have "unat b < 2 ^ LENGTH(8)" by (rule unsigned_less)
  ultimately show ?thesis by (simp add: drop_bit_eq_div)
qed

lemma int_shl_small: "c \<le> 2 \<Longrightarrow> int_shl b (8 * c) = Some (of_nat (unat b * 256 ^ c))"
proof -
  assume "c \<le> 2"
  then consider "c = 0" | "c = 1" | "c = 2" by linarith
  moreover have "unat b < 2 ^ LENGTH(8)" by (rule unsigned_less)
  ultimately show ?thesis by cases (simp_all add: int_shl_def)
qed

lemma opt_data_ok:
  assumes "\<forall>k < length d. p ! (base + unat bf + k) = d ! k" and "base + unat bf + length d \<le> length p"
    and "unat bf + length d < 256" and "length d \<le> 3"
  shows "opt_data p base (length d) bf acc = Some (acc + of_nat (be_value d))"
  using assms
proof (induction d arbitrary: bf acc)
  case Nil
  then show ?case by simp
next
  case (Cons b d)
  have bf: "unat (bf + 1) = Suc (unat bf)"
    using Cons.prems(3) by (simp add: unat_word_ariths)
  have b: "load8 p (base + unat bf) = Some b"
    using Cons.prems(1,2) by (force simp: load8_def)
  have d: "\<forall>k < length d. p ! (base + unat (bf + 1) + k) = d ! k"
  proof (intro allI impI)
    fix k assume "k < length d"
    then show "p ! (base + unat (bf + 1) + k) = d ! k" using Cons.prems(1) [rule_format, of "Suc k"] bf by simp
  qed
  have "opt_data p base (length d) (bf + 1) (acc + of_nat (unat b * 256 ^ length d)) =
      Some (acc + of_nat (unat b * 256 ^ length d) + of_nat (be_value d))"
    by (rule Cons.IH [OF d]) (use Cons.prems bf in auto)
  then show ?case using b Cons.prems(4) by (simp add: int_shl_small add.assoc)
qed

lemma opts_bytes_simps [simp]:
  "opts_bytes [] = []" "opts_bytes (x # os) = opt_bytes x @ opts_bytes os"
  "opts_bytes (os @ os') = opts_bytes os @ opts_bytes os'"
  by (simp_all add: opts_bytes_def)

text \<open>Options with at most three data bytes: the shift of a longer value is undefined.\<close>

fun opt_short :: "u8 \<Rightarrow> tcp_opt \<Rightarrow> bool" where
  "opt_short num (Pad k) \<longleftrightarrow> True"
| "opt_short num (Opt k d) \<longleftrightarrow> k = num \<longrightarrow> length d \<le> 3"

lemma field_nth:
  assumes "take L (drop off p) = xs @ ys @ zs" and "k < length ys" and "off + L \<le> length p"
  shows "p ! (off + length xs + k) = ys ! k"
proof -
  have "length (take L (drop off p)) = L" using assms(3) by simp
  then have "length (xs @ ys @ zs) = L" by (simp only: assms(1))
  then have "length xs + k < L" using assms(2) by simp
  then have "p ! (off + length xs + k) = take L (drop off p) ! (length xs + k)" using assms(3) by (simp add: add.assoc)
  also have "\<dots> = ys ! k" using assms(2) by (simp add: assms(1) nth_append)
  finally show ?thesis .
qed

text \<open>The search walks a well-formed option field option by option.\<close>

lemma get_opt_loop_ok:
  assumes field: "take L (drop opt p) = opts_bytes (pre @ os)" and L: "L = 4 * doff - 20" "5 \<le> doff" "doff \<le> 15"
    and len: "opt + L \<le> length p" and wf: "\<forall>x\<in>set os. opt_wf x \<and> opt_short num x" and num: "1 < num"
  shows "get_opt_loop p opt doff num (of_nat (length (opts_bytes pre))) = Some (find_opt num os)"
  using field wf
proof (induction os arbitrary: pre)
  case Nil
  have "length (opts_bytes pre) = L" using Nil.prems(1) len by (metis append_Nil2 diff_le_mono le_add_diff_inverse add_leD1 length_drop length_take min.absorb2 add_le_imp_le_diff add.commute)
  then have "unat (of_nat (length (opts_bytes pre)) :: u8) = L" using L by (simp only: unat_of_nat) simp
  then show ?case using L by (subst get_opt_loop.simps) (simp add: get_opt_body_def opt_limit_ge)
next
  case (Cons x os)
  let ?i = "of_nat (length (opts_bytes pre)) :: u8" and ?n = "length (opts_bytes pre)"
  have tl: "length (opts_bytes (pre @ x # os)) = L" using Cons.prems(1) len by (metis add_le_imp_le_diff add.commute length_drop length_take min.absorb2)
  then have n: "?n + length (opt_bytes x) \<le> L" by simp
  have ui: "unat ?i = ?n" using n L by (simp add: unat_of_nat)
  have nth: "p ! (opt + ?n + k) = opt_bytes x ! k" if "k < length (opt_bytes x)" for k
    using field_nth [of L opt p "opts_bytes pre" "opt_bytes x" "opts_bytes os" k] Cons.prems(1) len that by simp
  have ld: "load8 p (opt + ?n + k) = Some (opt_bytes x ! k)" if "k < length (opt_bytes x)" for k
    using nth [OF that] that n len by (simp add: load8_def)
  have IH: "get_opt_loop p opt doff num (of_nat (length (opts_bytes (pre @ [x])))) = Some (find_opt num os)"
    by (rule Cons.IH) (use Cons.prems in auto)
  have lim: "?n < opt_limit doff" using n L by (cases x) (auto simp: opt_limit_ge)
  show ?case
  proof (cases x)
    case (Pad k)
    then have "k \<le> 1" "load8 p (opt + ?n) = Some k" using Cons.prems(2) ld [of 0] by auto
    then have "get_opt_body p opt doff num ?i = Some (Inl (?i + 1))"
      using lim num by (auto simp: get_opt_body_def optlen_def ui TCPOPT_NOP_def)
    then show ?thesis using IH Pad by (subst get_opt_loop.simps) (simp add: add.commute)
  next
    case (Opt k d)
    then have k: "1 < k" "length d \<le> 38" using Cons.prems(2) by auto
    have l0: "load8 p (opt + ?n) = Some k" using ld [of 0] Opt by simp
    have l1: "load8 p (opt + ?n + 1) = Some (of_nat (length d + 2))" using ld [of 1] Opt by simp
    have ul: "unat (of_nat (length d + 2) :: u8) = length d + 2" using k(2) by (simp only: unat_of_nat) simp
    have sub: "(of_nat (length d + 2) :: u8) - 2 = of_nat (length d)" by simp
    have ud: "unat (of_nat (length d) :: u8) = length d" using k(2) by (simp add: unat_of_nat)
    show ?thesis
    proof (cases "k = num")
      case True
      then have short: "length d \<le> 3" using Cons.prems(2) Opt by simp
      have "opt_data p (opt + ?n) (length d) 2 0 = Some (0 + of_nat (be_value d))"
        by (rule opt_data_ok) (use nth [of "Suc (Suc _)"] Opt n len short L in \<open>auto simp: add.assoc\<close>)
      then have "get_opt_body p opt doff num ?i = Some (Inr (if d = [] then 1 else of_nat (be_value d)))"
        using lim l0 l1 ul sub ud True n L Opt by (auto simp: get_opt_body_def ui)
      then show ?thesis using Opt True by (subst get_opt_loop.simps) simp
    next
      case False
      have "(of_nat (length d + 2) :: u8) \<noteq> 0" using ul by (metis add_is_0 unat_0 zero_neq_numeral)
      then have "get_opt_body p opt doff num ?i = Some (Inl (?i + of_nat (length d + 2)))"
        using lim l0 l1 False k(1) by (auto simp: get_opt_body_def ui optlen_def TCPOPT_NOP_def)
      then show ?thesis using IH Opt False by (subst get_opt_loop.simps) (simp add: ac_simps)
    qed
  qed
qed

section \<open>Inserting an option into a header without options\<close>

fun data_bytes :: "u64 \<Rightarrow> nat \<Rightarrow> bytes" where
  "data_bytes v 0 = []"
| "data_bytes v (Suc c) = ucast (drop_bit (8 * c) v) # data_bytes v c"

lemma length_data_bytes [simp]: "length (data_bytes v c) = c"
  by (induction c) auto

lemma be_value_data_bytes: "be_value (data_bytes v c) = unat v mod 256 ^ c"
proof (induction c)
  case (Suc c)
  have "unat (drop_bit (8 * c) v) = unat v div 256 ^ c"
    unfolding unat_drop_bit_eq by (simp add: drop_bit_eq_div power_mult)
  then have "unat (ucast (drop_bit (8 * c) v) :: u8) = unat v div 256 ^ c mod 256"
    unfolding unsigned_ucast_eq unsigned_take_bit_eq by (simp add: take_bit_eq_mod)
  then show ?case using Suc mod_mult2_eq [of "unat v" "256 ^ c" 256] by (simp add: mult.commute)
qed simp

lemma write_opt_data_ok:
  assumes "length B = base + unat bf" and "length C = c" and "unat bf + c < 256" and "c \<le> 8"
  shows "write_opt_data (B @ C @ D) base v c bf = Some (B @ data_bytes v c @ D)"
  using assms
proof (induction c arbitrary: B C bf)
  case (Suc c)
  then obtain y C' where C: "C = y # C'" by (cases C) auto
  have bf: "unat (bf + 1) = Suc (unat bf)" using Suc.prems(3) by (simp add: unat_word_ariths)
  let ?b = "ucast (drop_bit (8 * c) v) :: u8"
  have "store8 (B @ C @ D) (base + unat bf) ?b = Some (B @ ?b # C' @ D)"
    using store8_mid [of B "base + unat bf" y "C' @ D" ?b] Suc.prems(1) C by simp
  moreover have "write_opt_data ((B @ [?b]) @ C' @ D) base v c (bf + 1) = Some ((B @ [?b]) @ data_bytes v c @ D)"
    by (rule Suc.IH) (use Suc.prems bf C in auto)
  ultimately show ?case using Suc.prems(4) by simp
qed simp

lemma zero_gap:
  assumes "length X = k" and "length Y = n"
  shows "foldM (\<lambda>i p. store8 p (k + i) 0) [0..<n] (X @ Y @ Z) = Some (X @ replicate n 0 @ Z)"
proof -
  have "j \<le> n \<Longrightarrow> foldM (\<lambda>i p. store8 p (k + i) 0) [0..<j] (X @ Y @ Z) = Some (X @ replicate j 0 @ drop j Y @ Z)" for j
  proof (induction j)
    case (Suc j)
    then obtain y where "drop j Y = y # drop (Suc j) Y" using assms(2) by (metis Cons_nth_drop_Suc Suc_le_lessD)
    then have "store8 (X @ replicate j 0 @ drop j Y @ Z) (k + j) 0 = Some (X @ replicate (Suc j) 0 @ drop (Suc j) Y @ Z)"
      using store8_mid [of "X @ replicate j 0" "k + j" y "drop (Suc j) Y @ Z" 0] assms(1)
      by (simp add: replicate_append_same [symmetric] del: replicate_append_same)
    then show ?case using Suc by (simp add: foldM_append)
  qed simp
  from this [of n] show ?thesis using assms(2) by simp
qed

definition opt_room :: "nat \<Rightarrow> nat" where
  "opt_room n = 4 * ((n + 3) div 4)"

lemma opt_addoff_room: "n \<le> 40 \<Longrightarrow> unat (opt_addoff 0 n) = (n + 3) div 4"
proof -
  assume n: "n \<le> 40"
  have un: "unat (of_nat n :: u8) = n" using n by (simp add: unat_of_nat)
  have "unat ((of_nat n :: u8) div 4) = n div 4" "unat ((of_nat n :: u8) mod 4) = n mod 4"
    using un by (simp_all add: unat_div unat_mod)
  moreover have "(of_nat n :: u8) mod 4 \<noteq> 0 \<longleftrightarrow> n mod 4 \<noteq> 0"
    using calculation(2) by (metis unat_eq_zero)
  moreover have "unat ((of_nat n :: u8) div 4 + 1) = n div 4 + 1"
    using calculation(1) n by (simp add: unat_word_ariths)
  moreover have "n mod 4 \<noteq> 0 \<Longrightarrow> (n + 3) div 4 = n div 4 + 1" "n mod 4 = 0 \<Longrightarrow> (n + 3) div 4 = n div 4"
    by presburger+
  ultimately show ?thesis by (auto simp: opt_addoff_def Let_def)
qed

lemma open_gap_ok:
  assumes A: "ip_ihl4 (A @ pl @ R) = Some tcph" "ip_tot_len (A @ pl @ R) = Some tot"
    and len: "length A = tcph + 20" "tot = tcph + 20 + length pl" "4 * unat addoff \<le> length R"
  shows "open_gap (A @ pl @ R) (tcph + 20) 5 addoff =
    Some (A @ replicate (4 * unat addoff) 0 @ pl @ drop (4 * unat addoff) R)"
proof -
  let ?m = "4 * unat addoff"
  define G where "G = take ?m (pl @ R)"
  have G: "length G = ?m" using len(3) by (simp add: G_def)
  have "drop (length pl) (drop ?m (pl @ R)) = drop ?m R"
    unfolding drop_drop by simp
  then have split: "pl @ R = G @ take (length pl) (drop ?m (pl @ R)) @ drop ?m R"
    unfolding G_def by (metis append_take_drop_id)
  have "load_bytes (A @ pl @ R) (tcph + 20) (length pl) = Some pl"
    by (rule load_mid) (use len in auto)
  moreover have "store_bytes (A @ pl @ R) (tcph + 20 + ?m) pl = Some (A @ G @ pl @ drop ?m R)"
  proof -
    have "store_bytes ((A @ G) @ take (length pl) (drop ?m (pl @ R)) @ drop ?m R) (tcph + 20 + ?m) pl =
        Some ((A @ G) @ pl @ drop ?m R)"
      by (rule store_mid) (use len G in auto)
    then show ?thesis using split by (metis append.assoc)
  qed
  ultimately have "memmove (A @ pl @ R) (tcph + 20 + ?m) (tcph + 20) (length pl) = Some (A @ G @ pl @ drop ?m R)"
    by (simp add: memmove_def)
  then show ?thesis
    using zero_gap [OF len(1) G, of "pl @ drop ?m R"] A len by (simp add: open_gap_def opt_limit_ge add.commute [of 20 tcph])
qed

definition with_header :: "bytes \<Rightarrow> nat \<Rightarrow> nat \<Rightarrow> nat \<Rightarrow> bytes" where
  "with_header A tcph doff tot =
     put16 (A[tcph + 12 := push_bit 4 (of_nat doff) OR take_bit 4 (A ! (tcph + 12))]) 2 (htons (of_nat tot))"

lemma set_tcp_option_bare:
  assumes ihl: "ip_ihl4 (A @ pl @ R) = Some tcph" and doff: "tcp_doff (A @ pl @ R) tcph = Some 5"
    and tot: "ip_tot_len (A @ pl @ R) = Some (tcph + 20 + length pl)"
    and len: "length A = tcph + 20" "opt_room n \<le> length R" and n: "2 \<le> n" "n \<le> 10" and tcph: "4 \<le> tcph"
  shows "set_tcp_option (A @ pl @ R) num n v = Some (0,
    with_header A tcph (5 + opt_room n div 4) (tcph + 20 + length pl + opt_room n) @
      [of_nat num, of_nat n] @ data_bytes v (n - 2) @ replicate (opt_room n - n) 0 @ pl @ drop (opt_room n) R)"
proof -
  let ?m = "opt_room n" and ?add = "opt_addoff 0 n"
  have m: "?m = 4 * unat ?add" "n \<le> ?m" "?m \<le> 12" "unat ?add \<le> 3" "?add \<noteq> 0"
  proof -
    show *: "?m = 4 * unat ?add" using opt_addoff_room [of n] n by (simp add: opt_room_def)
    show "n \<le> ?m" "?m \<le> 12" using n by (simp_all add: opt_room_def)
    then show "unat ?add \<le> 3" "?add \<noteq> 0" using * n by auto
  qed
  let ?Z = "pl @ drop ?m R"
  have Z: "replicate ?m 0 = 0 # 0 # replicate (n - 2) 0 @ replicate (?m - n) (0::u8)"
    using n m(2) by (simp flip: replicate_add replicate_Suc)
  have gap: "open_gap (A @ pl @ R) (tcph + 20) 5 ?add = Some (A @ replicate ?m 0 @ ?Z)"
    using open_gap_ok [OF ihl tot len(1) _, of ?add] len(2) m(1) by simp
  have mv: "memmove (A @ replicate ?m 0 @ ?Z) (tcph + 20 + n) (tcph + 20) 0 = Some (A @ replicate ?m 0 @ ?Z)"
    using m(2) len(1) replicate_add [of n "?m - n" "0::u8"] by (simp add: memmove_def load_bytes_def store_bytes_def)
  have s0: "store8 (A @ replicate ?m 0 @ ?Z) (tcph + 20) b = Some (A @ b # 0 # replicate (n - 2) 0 @ replicate (?m - n) 0 @ ?Z)" for b
    unfolding Z using store8_mid [of A "tcph + 20" 0 _ b] len(1) by simp
  have s1: "store8 (A @ b # 0 # X) (21 + tcph) c = Some (A @ b # c # X)" for b c X
    using store8_mid [of "A @ [b]" "21 + tcph" 0 X c] len(1) by simp
  have un: "unat (of_nat n - 2 :: u8) = n - 2"
  proof -
    have "(of_nat n - 2 :: u8) = of_nat (n - 2)" using n(1) by (simp add: of_nat_diff)
    then show ?thesis using n(2) by (simp only: unat_of_nat) simp
  qed
  have wr: "write_opt_data (A @ b # c # replicate (n - 2) 0 @ X) (tcph + 20) v (n - 2) 2 = Some (A @ b # c # data_bytes v (n - 2) @ X)" for b c X
    using write_opt_data_ok [of "A @ [b, c]" "tcph + 20" 2 "replicate (n - 2) 0" "n - 2" X v] len(1) n(2) by simp
  define A1 where "A1 = A[tcph + 12 := push_bit 4 (of_nat (5 + unat ?add)) OR take_bit 4 (A ! (tcph + 12))]"
  have d: "set_tcp_doff (A @ X) tcph (5 + unat ?add) = Some (A1 @ X)" for X
    using len(1) by (simp add: set_tcp_doff_def load8_def nth_append store8_def store_bytes_def A1_def
        upd_conv_take_nth_drop)
  have l1: "length A1 = tcph + 20" using len(1) by (simp add: A1_def)
  have "ip_tot_len (A1 @ X) = ip_tot_len (A @ pl @ R)" for X
    using len(1) tcph by (simp add: ip_tot_len_def load16_def load8_def nth_append A1_def)
  then have t: "ip_tot_len (A1 @ X) = Some (tcph + 20 + length pl)" for X using tot by simp
  have st: "set_ip_tot_len (A1 @ X) k = Some (put16 A1 2 (htons (of_nat k)) @ X)" for X k
    using l1 tcph by (simp add: set_ip_tot_len_def mem_simps put16_def list_update_append)
  have "insert_option (A @ pl @ R) (tcph + 20) 5 0 ?add num n v =
    Some (put16 A1 2 (htons (of_nat (tcph + 20 + length pl + ?m))) @
      of_nat num # of_nat n # data_bytes v (n - 2) @ replicate (?m - n) 0 @ ?Z)"
    using m(5) by (simp add: insert_option_def gap opt_limit_ge mv s0 s1 un wr d t st m(1) [symmetric] del: of_nat_add)
  then show ?thesis
    using ihl doff m by (simp add: set_tcp_option_def with_header_def A1_def)
qed

lemma high_nibble: "k \<le> 15 \<Longrightarrow> drop_bit 4 (push_bit 4 (of_nat k) OR take_bit 4 b) = (of_nat k :: u8)"
proof -
  assume "k \<le> 15"
  then have "take_bit 4 k = k" by (simp add: take_bit_nat_eq_self)
  then have "(of_nat k :: u8) = take_bit 4 (of_nat k)" by (metis take_bit_of_nat)
  moreover have "drop_bit 4 (push_bit 4 (take_bit 4 x) OR take_bit 4 b) = take_bit 4 x" for x :: u8
    by (rule bit_word_eqI) (auto simp: bit_simps)
  ultimately show ?thesis by metis
qed

lemma with_header_fields:
  assumes "length A = tcph + 20" and "20 \<le> tcph" and "doff \<le> 15" and "tot < 65536"
  shows "tcp_doff (with_header A tcph doff tot @ X) tcph = Some doff"
    and "ip_tot_len (with_header A tcph doff tot @ X) = Some tot"
    and "ip_ihl4 (with_header A tcph doff tot @ X) = ip_ihl4 (A @ Y)"
proof -
  let ?A = "with_header A tcph doff tot"
  have l: "length ?A = tcph + 20" using assms(1) by (simp add: with_header_def)
  have "?A ! (tcph + 12) = push_bit 4 (of_nat doff) OR take_bit 4 (A ! (tcph + 12))"
    using assms(1,2) by (simp add: with_header_def put16_nth_other)
  then show "tcp_doff (?A @ X) tcph = Some doff"
    using l assms(3) high_nibble [of doff "A ! (tcph + 12)"] by (simp add: tcp_doff_def load8_def nth_append unat_of_nat)
  have "word_at ?A 2 = htons (of_nat tot)"
    using assms(1,2) by (simp add: with_header_def word_at_put16)
  then have "word_at (?A @ X) 2 = htons (of_nat tot)" using l assms(2) by (simp add: word_at_def nth_append)
  then show "ip_tot_len (?A @ X) = Some tot"
    using l assms(2,4) by (simp add: ip_tot_len_def load16_Some unat_of_nat)
  have "?A ! 0 = A ! 0" using assms(1,2) by (simp add: with_header_def put16_nth_other)
  moreover have "load8 (?A @ X) 0 = Some (?A ! 0)" "load8 (A @ Y) 0 = Some (A ! 0)"
    using l assms(1) by (simp_all add: load8_def nth_append)
  ultimately show "ip_ihl4 (?A @ X) = ip_ihl4 (A @ Y)" by (simp add: ip_ihl4_def)
qed

section \<open>Properties\<close>

lemma get_opt_field:
  assumes "has_options p tcph os" and "1 < num" and "\<forall>x\<in>set os. opt_short num x"
  shows "get_tcp_option p num = Some (find_opt num os)"
proof -
  obtain doff where d: "ip_ihl4 p = Some tcph" "tcp_doff p tcph = Some doff" "5 \<le> doff" "tcph + 4 * doff \<le> length p"
    "take (4 * doff - 20) (drop (tcph + 20) p) = opts_bytes ([] @ os)" "\<forall>x\<in>set os. opt_wf x"
    using assms(1) by (auto simp: has_options_def)
  have "get_opt_loop p (tcph + 20) doff num (of_nat (length (opts_bytes []))) = Some (find_opt num os)"
    by (rule get_opt_loop_ok [OF d(5) refl d(3) tcp_doff_le [OF d(2)]]) (use assms d in auto)
  then show ?thesis using d(1,2) by (simp add: get_tcp_option_def)
qed



text \<open>The state of the search after at most \<open>n\<close> rounds.\<close>

fun get_opt_rounds :: "nat \<Rightarrow> bytes \<Rightarrow> nat \<Rightarrow> nat \<Rightarrow> u8 \<Rightarrow> u8 \<Rightarrow> (u8 + u64) option" where
  "get_opt_rounds 0 p opt doff num i = Some (Inl i)"
| "get_opt_rounds (Suc n) p opt doff num i = do {
     r \<leftarrow> get_opt_body p opt doff num i;
     (case r of Inl j \<Rightarrow> get_opt_rounds n p opt doff num j | Inr v \<Rightarrow> Some (Inr v)) }"

text \<open>The search need not end.  The index is eight bits wide: an option field that starts with a
  NOP and an option whose length byte is 255 sends the index back to the start, so after any
  number of rounds the search is still running and has found nothing.
\<close>

theorem get_tcp_option_may_not_end:
  assumes "opt + 3 \<le> length p" and "6 \<le> doff" and "doff \<le> 15"
    and "p ! opt = TCPOPT_NOP" and "1 < p ! (opt + 1)" and "p ! (opt + 2) = 255"
    and "num \<noteq> TCPOPT_NOP" and "num \<noteq> p ! (opt + 1)"
  shows "\<exists>i. get_opt_rounds n p opt doff num 0 = Some (Inl i)"
proof -
  have lim: "1 < opt_limit doff" using assms(2,3) by (simp add: opt_limit_ge)
  have b0: "get_opt_body p opt doff num 0 = Some (Inl 1)"
    using assms lim by (simp add: get_opt_body_def optlen_def load8_def TCPOPT_NOP_def)
  have b1: "get_opt_body p opt doff num 1 = Some (Inl 0)"
    using assms lim by (auto simp: get_opt_body_def optlen_def load8_def TCPOPT_NOP_def)
  have "(\<exists>i. get_opt_rounds n p opt doff num 0 = Some (Inl i)) \<and> (\<exists>i. get_opt_rounds n p opt doff num 1 = Some (Inl i))"
    by (induction n) (simp_all add: b0 b1)
  then show ?thesis ..
qed

section \<open>Witnesses\<close>

definition option_packet :: bytes where
  "option_packet = [0x45, 0, 0, 48, 0, 1, 0, 0, 64, 6, 0, 0, 10, 0, 0, 1, 10, 0, 0, 2] @
     [0x0f, 0xa0, 0, 80, 0, 0, 0, 7, 0, 0, 0, 9, 0x70, 2, 1, 0, 0, 0, 0, 0] @ [1, 2, 4, 5, 180, 32, 3, 2] @ replicate 16 0"

lemma option_packet_options: "has_options option_packet 20 [Pad 1, Opt 2 [5, 180], Opt 32 [2]]"
  unfolding has_options_def
  by (intro exI [of _ 7])
    (simp add: option_packet_def ip_ihl4_def tcp_doff_def load8_def opts_bytes_def)


definition bare_head :: bytes where
  "bare_head = [0x45, 0, 0, 43, 0, 1, 0, 0, 64, 6, 0, 0, 10, 0, 0, 1, 10, 0, 0, 2] @
     [0x0f, 0xa0, 0, 80, 0, 0, 0, 7, 0, 0, 0, 9, 0x50, 0x18, 1, 0, 0, 0, 0, 0]"


definition wrap_packet :: bytes where
  "wrap_packet = bare_head[32 := 0x60] @ [1, 5, 255, 0]"

theorem get_tcp_option_may_not_end_witness:
  "\<exists>i. get_opt_rounds 1000 wrap_packet 40 6 30 0 = Some (Inl i)"
  by (rule get_tcp_option_may_not_end) (simp_all add: wrap_packet_def bare_head_def TCPOPT_NOP_def)

end
