(* ===== verification/Tcp_Segment.thy ===== *)
theory Tcp_Segment
  imports Tcp_Options
begin

text \<open>
  A TCP segment in a packet buffer as header, data and the unused rest, and how the operations of
  the optimiser act on these parts.  The data of a segment starts behind the TCP header and its
  length is the total length less the two header lengths, computed in 16 bits as in the source.
\<close>

section \<open>Fields the workers use\<close>

definition tcp_seq :: "bytes \<Rightarrow> nat \<Rightarrow> u32 option" where
  "tcp_seq p tcph = map_option ntohl (load32 p (tcph + 4))"

text \<open>\<open>tcph->seq = htonl(ntohl(tcph->seq) + d)\<close>.\<close>

definition tcp_add_seq :: "bytes \<Rightarrow> nat \<Rightarrow> u32 \<Rightarrow> bytes option" where
  "tcp_add_seq p tcph d = do {
     s \<leftarrow> load32 p (tcph + 4);
     store32 p (tcph + 4) (htonl (ntohl s + d)) }"

definition tcp_flags :: "bytes \<Rightarrow> nat \<Rightarrow> u8 option" where
  "tcp_flags p tcph = load8 p (tcph + 13)"

definition TH_FIN :: nat where "TH_FIN = 0"

definition TH_SYN :: nat where "TH_SYN = 1"

definition TH_RST :: nat where "TH_RST = 2"

definition TH_ACK :: nat where "TH_ACK = 4"


text \<open>\<open>(__u16)(ntohs(iph->tot_len) - iph->ihl * 4) - tcph->doff * 4\<close>, stored in 16 bits.\<close>

definition data_size :: "bytes \<Rightarrow> nat \<Rightarrow> nat \<Rightarrow> nat option" where
  "data_size p tcph doff = do {
     tot \<leftarrow> ip_tot_len p;
     Some (sub16 (sub16 tot tcph) (4 * doff)) }"

section \<open>Segments\<close>

text \<open>\<open>hdr_ok h t d n\<close>: the bytes \<open>h\<close> are the IP and TCP headers, with the TCP header at \<open>t\<close> and data offset \<open>d\<close>, of a segment with \<open>n\<close> bytes of data.\<close>

definition hdr_ok :: "bytes \<Rightarrow> nat \<Rightarrow> nat \<Rightarrow> nat \<Rightarrow> bool" where
  "hdr_ok h t d n \<longleftrightarrow> 20 \<le> t \<and> 5 \<le> d \<and> d \<le> 15 \<and> length h = t + 4 * d \<and> length h + n < 65536 \<and>
     ip_ihl4 h = Some t \<and> tcp_doff h t = Some d \<and> ip_tot_len h = Some (length h + n) \<and> ip_protocol h = Some IPPROTO_TCP"

lemma load8_append: "i < length h \<Longrightarrow> load8 (h @ x) i = load8 h i"
  by (simp add: load8_def nth_append)

lemma load16_append: "i + 1 < length h \<Longrightarrow> load16 (h @ x) i = load16 h i"
  by (simp add: load16_def load8_append)

lemma load32_append: "i + 3 < length h \<Longrightarrow> load32 (h @ x) i = load32 h i"
  by (simp add: load32_def load8_append)

lemma store_bytes_append:
  "off + length bs \<le> length h \<Longrightarrow> store_bytes (h @ x) off bs = map_option (\<lambda>h. h @ x) (store_bytes h off bs)"
  by (simp add: store_bytes_def)

lemma hdr_ok_fields:
  assumes "hdr_ok h t d n"
  shows "ip_ihl4 (h @ x) = Some t" "tcp_doff (h @ x) t = Some d" "ip_tot_len (h @ x) = Some (length h + n)"
    "ip_protocol (h @ x) = Some IPPROTO_TCP" "data_size (h @ x) t d = Some n"
    "tcp_seq (h @ x) t = tcp_seq h t" "tcp_flags (h @ x) t = tcp_flags h t"
proof -
  have l: "length h = t + 4 * d" "40 \<le> length h" "t + 20 \<le> length h" using assms by (auto simp: hdr_ok_def)
  show "ip_ihl4 (h @ x) = Some t" "tcp_doff (h @ x) t = Some d" and tot: "ip_tot_len (h @ x) = Some (length h + n)"
    and "ip_protocol (h @ x) = Some IPPROTO_TCP" "tcp_seq (h @ x) t = tcp_seq h t" "tcp_flags (h @ x) t = tcp_flags h t"
    using assms l by (simp_all add: hdr_ok_def ip_ihl4_def tcp_doff_def ip_tot_len_def ip_protocol_def
        tcp_seq_def tcp_flags_def load8_append load16_append load32_append)
  have "sub16 (sub16 (t + 4 * d + n) t) (4 * d) = n" using assms by (simp add: hdr_ok_def)
  then show "data_size (h @ x) t d = Some n" using tot l by (simp add: data_size_def)
qed

text \<open>The header of the same segment with \<open>n\<close> bytes of data.\<close>

definition resize :: "bytes \<Rightarrow> nat \<Rightarrow> bytes" where
  "resize h n = put16 h 2 (htons (of_nat (length h + n)))"

lemma length_resize [simp]: "length (resize h n) = length h"
  by (simp add: resize_def)

lemma resize_nth: "i \<noteq> 2 \<Longrightarrow> i \<noteq> 3 \<Longrightarrow> resize h n ! i = h ! i"
  by (simp add: resize_def put16_nth_other)

lemma hdr_ok_resize:
  assumes "hdr_ok h t d n" and "length h + m < 65536"
  shows "hdr_ok (resize h m) t d m" "tcp_seq (resize h m) t = tcp_seq h t" "tcp_flags (resize h m) t = tcp_flags h t"
proof -
  have l: "length h = t + 4 * d" "40 \<le> length h" "20 \<le> t" using assms by (auto simp: hdr_ok_def)
  have l8: "load8 (resize h m) i = load8 h i" if "i \<noteq> 2" "i \<noteq> 3" for i
    using that by (simp add: load8_def resize_nth)
  have "ip_tot_len (resize h m) = Some (length h + m)"
    using l(2) assms(2) by (simp add: ip_tot_len_def mem_simps resize_def word_at_put16 unat_of_nat del: of_nat_add)
  then show "hdr_ok (resize h m) t d m"
    using assms l by (simp add: hdr_ok_def ip_ihl4_def tcp_doff_def ip_protocol_def l8)
  show "tcp_seq (resize h m) t = tcp_seq h t" "tcp_flags (resize h m) t = tcp_flags h t"
    using l by (simp_all add: tcp_seq_def tcp_flags_def load32_def l8)
qed

lemma set_ip_tot_len_append:
  assumes "4 \<le> length h"
  shows "set_ip_tot_len (h @ x) (length h + m) = Some (resize h m @ x)"
  using assms by (simp add: set_ip_tot_len_def mem_simps resize_def put16_def list_update_append)

text \<open>Replacing the data of a segment.\<close>

lemma replace_data:
  assumes "length new \<le> length pl + length r"
  obtains r' where "store_bytes (h @ pl @ r) (length h) new = Some (h @ new @ r')"
    "length pl + length r = length new + length r'"
proof -
  let ?r' = "drop (length new) (pl @ r)"
  have "store_bytes (h @ take (length new) (pl @ r) @ ?r') (length h) new = Some (h @ new @ ?r')"
    by (rule store_mid) (use assms in auto)
  moreover have "take (length new) (pl @ r) @ ?r' = pl @ r" by (rule append_take_drop_id)
  ultimately show thesis using that [of ?r'] assms by simp
qed

text \<open>Changing the sequence number.\<close>

definition shift_seq :: "bytes \<Rightarrow> nat \<Rightarrow> u32 \<Rightarrow> bytes" where
  "shift_seq h t d = (case tcp_add_seq h t d of Some h' \<Rightarrow> h' | None \<Rightarrow> h)"

lemma tcp_add_seq_append:
  assumes "hdr_ok h t d n"
  shows "tcp_add_seq (h @ x) t k = Some (shift_seq h t k @ x)" and "hdr_ok (shift_seq h t k) t d n"
    and "tcp_seq (shift_seq h t k) t = map_option (\<lambda>s. s + k) (tcp_seq h t)"
    and "tcp_flags (shift_seq h t k) t = tcp_flags h t" and "length (shift_seq h t k) = length h"
    and "i < t + 4 \<or> t + 8 \<le> i \<Longrightarrow> i < length h \<Longrightarrow> shift_seq h t k ! i = h ! i"
proof -
  have l: "length h = t + 4 * d" "t + 20 \<le> length h" "20 \<le> t" using assms by (auto simp: hdr_ok_def)
  obtain s where s: "load32 h (t + 4) = Some s" using l by (simp add: load32_def load8_def)
  have "\<exists>h'. store32 h (t + 4) (htonl (ntohl s + k)) = Some h'"
    using l(2) by (simp add: store32_def store_bytes_def)
  then obtain h' where h': "store32 h (t + 4) (htonl (ntohl s + k)) = Some h'" by blast
  then have sh: "shift_seq h t k = h'" by (simp add: shift_seq_def tcp_add_seq_def s)
  have len: "length h' = length h" using h' by (simp add: store32_def store_bytes_length)
  have nth: "h' ! i = h ! i" if "i < length h" "i < t + 4 \<or> t + 8 \<le> i" for i
    using nth_store [of h "t + 4" _ h' i] h' that by (auto simp: store32_def)
  have l8: "load8 h' i = load8 h i" if "i < t + 4 \<or> t + 8 \<le> i" for i
    using nth [of i] that len by (simp add: load8_def)
  show "tcp_add_seq (h @ x) t k = Some (shift_seq h t k @ x)"
    using h' l s sh by (simp add: tcp_add_seq_def load32_append store32_def store_bytes_append)
  show "hdr_ok (shift_seq h t k) t d n"
    using assms l len by (simp add: sh hdr_ok_def ip_ihl4_def tcp_doff_def ip_protocol_def ip_tot_len_def load16_def l8)
  show "tcp_seq (shift_seq h t k) t = map_option (\<lambda>s. s + k) (tcp_seq h t)"
    using load32_store32 [OF h'] s by (simp add: tcp_seq_def sh)
  show "tcp_flags (shift_seq h t k) t = tcp_flags h t" by (simp add: tcp_flags_def sh l8)
  show "length (shift_seq h t k) = length h" using len sh by simp
  show "i < t + 4 \<or> t + 8 \<le> i \<Longrightarrow> i < length h \<Longrightarrow> shift_seq h t k ! i = h ! i" using nth sh by simp
qed

text \<open>Moving the data of a segment back and forth to open and close a gap in front of it.\<close>

lemma memmove_open:
  assumes "length h = off" and "m \<le> length r"
  obtains g where "memmove (h @ pl @ r) (off + m) off (length pl) = Some (h @ g @ pl @ drop m r)" "length g = m"
proof -
  let ?g = "take m (pl @ r)"
  have g: "length ?g = m" using assms(2) by simp
  have "drop (length pl) (drop m (pl @ r)) = drop m r" unfolding drop_drop by simp
  then have split: "pl @ r = ?g @ take (length pl) (drop m (pl @ r)) @ drop m r"
    by (metis append_take_drop_id)
  have "store_bytes ((h @ ?g) @ take (length pl) (drop m (pl @ r)) @ drop m r) (off + m) pl = Some ((h @ ?g) @ pl @ drop m r)"
    by (rule store_mid) (use assms g in auto)
  then have "store_bytes (h @ pl @ r) (off + m) pl = Some (h @ ?g @ pl @ drop m r)" using split by (metis append.assoc)
  moreover have "load_bytes (h @ pl @ r) off (length pl) = Some pl" by (rule load_mid) (use assms in auto)
  ultimately show thesis using that [of ?g] g by (simp add: memmove_def)
qed

lemma memmove_close:
  assumes "length h = off" and "length g = m"
  obtains r' where "memmove (h @ g @ pl @ r) off (off + m) (length pl) = Some (h @ pl @ r')" "length r' = length r + m"
proof -
  have "load_bytes ((h @ g) @ pl @ r) (off + m) (length pl) = Some pl" by (rule load_mid) (use assms in auto)
  moreover obtain r' where "store_bytes (h @ [] @ (g @ pl @ r)) (length h) pl = Some (h @ pl @ r')"
    "length ([] :: bytes) + length (g @ pl @ r) = length pl + length r'"
    by (rule replace_data [of pl "[]" "g @ pl @ r" h]) (use assms in auto)
  ultimately show thesis using that [of r'] assms by (simp add: memmove_def)
qed

lemma split_at:
  assumes "length p' = length (h @ x)" and "\<And>i. length h \<le> i \<Longrightarrow> i < length p' \<Longrightarrow> p' ! i = (h @ x) ! i"
  shows "p' = take (length h) p' @ x"
proof -
  have "drop (length h) p' = drop (length h) (h @ x)"
    by (rule nth_equalityI) (use assms in \<open>auto\<close>)
  then show ?thesis by (metis append_eq_conv_conj append_take_drop_id)
qed

text \<open>Only the two checksum fields of the headers change.\<close>

lemma checksum_segment:
  assumes h: "hdr_ok h t d (length pl)" and r: "r \<noteq> []"
  obtains h' where "checksum (h @ pl @ r) = Some (h' @ pl @ r)" "hdr_ok h' t d (length pl)" "length h' = length h"
    "tcp_seq h' t = tcp_seq h t" "tcp_flags h' t = tcp_flags h t"
    "\<forall>i. i < length h \<and> i \<notin> {10, 11, t + 16, t + 17} \<longrightarrow> h' ! i = h ! i"
    "tcp_sum_calc (length h + length pl - t) (h' @ pl @ r) 12 16 t = Some 0" "ip_sum_calc t (h' @ pl @ r) 0 = Some 0"
proof -
  have l: "length h = t + 4 * d" "t + 20 \<le> length h" "20 \<le> t" using h by (auto simp: hdr_ok_def)
  note f = hdr_ok_fields [OF h, of "pl @ r"]
  have "\<exists>p'. checksum (h @ pl @ r) = Some p' \<and> tcp_sum_calc (length h + length pl - t) p' 12 16 t = Some 0 \<and>
    ip_sum_calc t p' 0 = Some 0 \<and> length p' = length (h @ pl @ r) \<and>
    (\<forall>i. i \<notin> {10, 11, t + 16, t + 17} \<longrightarrow> p' ! i = (h @ pl @ r) ! i)"
    by (rule checksum_ok [OF f(4) [unfolded ip_protocol_def] f(1,3)]) (use l r in auto)
  then obtain p' where p': "checksum (h @ pl @ r) = Some p'" "tcp_sum_calc (length h + length pl - t) p' 12 16 t = Some 0"
    "ip_sum_calc t p' 0 = Some 0" "length p' = length (h @ pl @ r)"
    "\<forall>i. i \<notin> {10, 11, t + 16, t + 17} \<longrightarrow> p' ! i = (h @ pl @ r) ! i" by blast
  define h' where "h' = take (length h) p'"
  have "p' = h' @ pl @ r" unfolding h'_def by (rule split_at) (use p'(4,5) l in auto)
  moreover have len: "length h' = length h" using p'(4) by (simp add: h'_def)
  moreover have nth: "\<forall>i. i < length h \<and> i \<notin> {10, 11, t + 16, t + 17} \<longrightarrow> h' ! i = h ! i"
    using p'(5) by (auto simp: h'_def nth_append)
  have l8: "load8 h' i = load8 h i" if "i \<notin> {10, 11, t + 16, t + 17}" for i
    using nth that len by (simp add: load8_def)
  have "hdr_ok h' t d (length pl)" "tcp_seq h' t = tcp_seq h t" "tcp_flags h' t = tcp_flags h t"
    using h l len by (simp_all add: hdr_ok_def ip_ihl4_def tcp_doff_def ip_protocol_def ip_tot_len_def tcp_seq_def tcp_flags_def
        load16_def load32_def l8)
  ultimately show thesis using that [of h'] p'(1-3) nth by simp
qed

end
