(* ===== verification/Segment_Tag.thy ===== *)
theory Segment_Tag
  imports Tcp_Segment
begin

text \<open>
  Segments that carry option 32, the mark of the accelerators, as their only option: setting and
  clearing it, and which bytes of the headers the operations on a segment change.
\<close>

section \<open>Headers that differ in some bytes only\<close>

definition kept :: "nat set \<Rightarrow> bytes \<Rightarrow> bytes \<Rightarrow> bool" where
  "kept S h h' \<longleftrightarrow> length h' = length h \<and> (\<forall>i<length h. i \<notin> S \<longrightarrow> h' ! i = h ! i)"

text \<open>The total length, the checksums and the sequence number.\<close>

definition volatile :: "nat \<Rightarrow> nat set" where
  "volatile t = {2, 3, 10, 11, t + 16, t + 17} \<union> {t + 4..<t + 8}"

lemma kept_refl [simp]: "kept S h h"
  by (simp add: kept_def)

lemma kept_trans: "kept S h h' \<Longrightarrow> kept S h' h'' \<Longrightarrow> kept S h h''"
  by (simp add: kept_def)

lemma kept_mono: "kept S h h' \<Longrightarrow> S \<subseteq> T \<Longrightarrow> kept T h h'"
  by (auto simp: kept_def)

lemma kept_length: "kept S h h' \<Longrightarrow> length h' = length h"
  by (simp add: kept_def)

lemma kept_nth: "kept S h h' \<Longrightarrow> i \<notin> S \<Longrightarrow> i < length h \<Longrightarrow> h' ! i = h ! i"
  by (simp add: kept_def)

lemma kept_totI: "length h' = length h \<Longrightarrow> \<forall>i. i \<noteq> 2 \<and> i \<noteq> 3 \<longrightarrow> h' ! i = h ! i \<Longrightarrow> kept (volatile t) h h'"
  by (auto simp: kept_def volatile_def)

lemma kept_seqI: "hdr_ok h t d n \<Longrightarrow> kept (volatile t) h (shift_seq h t k)"
  using tcp_add_seq_append(5,6) by (auto simp: kept_def volatile_def)

lemma kept_sumI: "length h' = length h \<Longrightarrow> \<forall>i. i < length h \<and> i \<notin> {10, 11, t + 16, t + 17} \<longrightarrow> h' ! i = h ! i \<Longrightarrow>
    kept (volatile t) h h'"
  by (auto simp: kept_def volatile_def)

lemma kept_resize: "kept (volatile t) h (resize h n)"
  by (rule kept_totI) (simp_all add: resize_nth)

text \<open>The option field of a segment whose only option is option 32 with value \<open>v\<close>.\<close>

definition tagged :: "u8 \<Rightarrow> bytes \<Rightarrow> nat \<Rightarrow> bool" where
  "tagged v h t \<longleftrightarrow> length h = t + 24 \<and> h ! (t + 20) = 32 \<and> h ! (t + 21) = 3 \<and> h ! (t + 22) = v \<and> h ! (t + 23) = 0"

lemma tagged_kept: "kept (volatile t) h h' \<Longrightarrow> tagged v h t \<Longrightarrow> 20 \<le> t \<Longrightarrow> tagged v h' t"
  by (simp add: tagged_def kept_def volatile_def)

section \<open>The option\<close>

lemma set_option_tags:
  assumes h: "hdr_ok h t 5 (length pl)" and r: "4 \<le> length r" and len: "length h + length pl + 4 < 65536"
  obtains h1 where "set_tcp_option (h @ pl @ r) 32 3 (ucast v) = Some (0, h1 @ pl @ drop 4 r)" "hdr_ok h1 t 6 (length pl)"
    "tagged v h1 t" "tcp_seq h1 t = tcp_seq h t" "tcp_flags h1 t = tcp_flags h t"
    "\<forall>i<t + 20. i \<notin> {2, 3, t + 12} \<longrightarrow> h1 ! i = h ! i"
proof -
  have l: "length h = t + 20" "20 \<le> t" using h by (auto simp: hdr_ok_def)
  note f = hdr_ok_fields [OF h, of "pl @ r"]
  let ?tot = "t + 20 + length pl + 4"
  define A where "A = with_header h t 6 ?tot"
  have data1: "(ucast (ucast v :: u64) :: u8) = v" by (rule bit_word_eqI) (simp add: bit_simps)
  have room: "opt_room 3 = 4" by (simp add: opt_room_def)
  have set: "set_tcp_option (h @ pl @ r) 32 3 (ucast v) = Some (0, (A @ [32, 3, v, 0]) @ pl @ drop 4 r)"
    using set_tcp_option_bare [OF f(1,2) _ l(1) _ _ _, of 3 32 "ucast v"] f(3) l r room by (simp add: A_def data1)
  have tot: "?tot < 65536" using len l by simp
  have lA: "length A = t + 20" using l by (simp add: A_def with_header_def)
  note hd = with_header_fields [OF l, of 6 ?tot "[32, 3, v, 0]", OF _ tot, folded A_def]
  have nth: "\<forall>i<t + 20. i \<notin> {2, 3, t + 12} \<longrightarrow> (A @ [32, 3, v, 0]) ! i = h ! i"
    using lA by (simp add: nth_append A_def with_header_def put16_nth_other)
  have l8: "load8 (A @ [32, 3, v, 0]) i = load8 h i" if "i < t + 20" "i \<notin> {2, 3, t + 12}" for i
    using nth that lA l by (simp add: load8_def)
  have ok: "hdr_ok (A @ [32, 3, v, 0]) t 6 (length pl)"
    using hd(1,2) hd(3) [of "[]"] h tot l lA by (simp add: hdr_ok_def ip_protocol_def l8)
  show thesis
    by (rule that [OF set ok]) (use nth lA l in \<open>simp_all add: tagged_def nth_append tcp_seq_def tcp_flags_def load32_def l8\<close>)
qed

lemma tagged_options:
  assumes h: "hdr_ok h t 6 n" and "tagged v h t"
  shows "has_options (h @ x) t [Opt 32 [v], Pad 0]"
proof -
  have l: "length h = t + 24" using assms by (simp add: tagged_def)
  have "take 4 (drop (t + 20) (h @ x)) = [32, 3, v, 0]"
    by (rule nth_equalityI) (use assms l in \<open>auto simp: tagged_def nth_append less_Suc_eq numeral_eq_Suc\<close>)
  then show ?thesis
    unfolding has_options_def using hdr_ok_fields(1,2) [OF h] l by (intro exI [of _ 6]) (simp add: opts_bytes_def)
qed

lemma tagged_get: "hdr_ok h t 6 n \<Longrightarrow> tagged v h t \<Longrightarrow> get_tcp_option (h @ x) 32 = Some (ucast v)"
proof -
  assume a: "hdr_ok h t 6 n" "tagged v h t"
  have "get_tcp_option (h @ x) 32 = Some (find_opt 32 [Opt 32 [v], Pad 0])"
    by (rule get_opt_field [OF tagged_options [OF a]]) auto
  then show ?thesis by (simp add: unsigned_ucast_eq)
qed

lemma set_option_clears:
  assumes h: "hdr_ok h t 6 n" and t: "tagged 1 h t"
  obtains h1 where "set_tcp_option (h @ x) 32 3 0 = Some (0, h1 @ x)" "hdr_ok h1 t 6 n" "tagged 0 h1 t"
    "tcp_seq h1 t = tcp_seq h t" "tcp_flags h1 t = tcp_flags h t" "\<forall>i<t + 20. h1 ! i = h ! i"
proof -
  let ?h = "h[t + 22 := 0]"
  have l: "length h = t + 24" "20 \<le> t" using h t by (auto simp: hdr_ok_def tagged_def)
  note f = hdr_ok_fields [OF h, of x]
  have "store8 (h @ x) (t + 20 + 2) 0 = Some (?h @ x)"
    using l by (simp add: store8_def store_bytes_def upd_conv_take_nth_drop add.commute [of 22 t] add.commute [of 23 t])
  then have w: "write_opt_data (h @ x) (t + 20) 0 1 2 = Some (?h @ x)" by simp
  have "set_found_loop (h @ x) (t + 20) 6 32 3 0 0 = Some (Some (?h @ x))"
    using t l w by (subst set_found_loop.simps) (simp add: opt_limit_ge load8_def nth_append tagged_def add.commute [of 21 t])
  then have set: "set_tcp_option (h @ x) 32 3 0 = Some (0, ?h @ x)" using f(1,2) by (simp add: set_tcp_option_def)
  have l8: "load8 ?h i = load8 h i" if "i \<noteq> t + 22" for i using that by (simp add: load8_def)
  have ok: "hdr_ok ?h t 6 n" using h l
    by (simp add: hdr_ok_def ip_ihl4_def tcp_doff_def ip_protocol_def ip_tot_len_def load16_def l8)
  show thesis
    by (rule that [OF set ok]) (use t l in \<open>simp_all add: tagged_def tcp_seq_def tcp_flags_def load32_def l8\<close>)
qed

end
