(* ===== verification/Opennop_Header.thy ===== *)
theory Opennop_Header
  imports Segment_Tag
begin

text \<open>
  The header an accelerator puts in front of the data of a segment that carries TCP option 32
  (\<open>include/tcpoptions.h\<close>).  Its 16 bytes are written and read by structure assignment, so the
  multi-byte fields are in host order.
\<close>

record OpennopHeader =
  oh_seqNo :: u32
  oh_opennopID :: u32
  oh_compression :: u8
  oh_deduplication :: u8
  oh_reason :: u8
  oh_queuenum :: u8
  oh_pattern :: u32

definition OPENNOP_PATTERN :: u32 where "OPENNOP_PATTERN = 0x55555555"

definition NOT_RELEVANT :: u8 where "NOT_RELEVANT = 0"

definition NO_OPT_GAIN :: u8 where "NO_OPT_GAIN = 1"

definition IS_A_RTX :: u8 where "IS_A_RTX = 2"

definition SESSION_CHECK :: u8 where "SESSION_CHECK = 3"

definition OHSIZE :: nat where "OHSIZE = 16"

definition write_header :: "bytes \<Rightarrow> nat \<Rightarrow> OpennopHeader \<Rightarrow> bytes option" where
  "write_header p off oh = do {
     p \<leftarrow> store32 p (off + 4) (oh_opennopID oh);
     p \<leftarrow> store32 p off (oh_seqNo oh);
     p \<leftarrow> store8 p (off + 8) (oh_compression oh);
     p \<leftarrow> store8 p (off + 9) (oh_deduplication oh);
     p \<leftarrow> store8 p (off + 11) (oh_queuenum oh);
     p \<leftarrow> store8 p (off + 10) (oh_reason oh);
     store32 p (off + 12) (oh_pattern oh) }"

definition read_header :: "bytes \<Rightarrow> nat \<Rightarrow> OpennopHeader option" where
  "read_header p off = do {
     s \<leftarrow> load32 p off;
     i \<leftarrow> load32 p (off + 4);
     c \<leftarrow> load8 p (off + 8);
     d \<leftarrow> load8 p (off + 9);
     r \<leftarrow> load8 p (off + 10);
     q \<leftarrow> load8 p (off + 11);
     pt \<leftarrow> load32 p (off + 12);
     Some \<lparr>oh_seqNo = s, oh_opennopID = i, oh_compression = c, oh_deduplication = d, oh_reason = r,
       oh_queuenum = q, oh_pattern = pt\<rparr> }"

section \<open>The bytes of a header\<close>

definition header_bytes :: "OpennopHeader \<Rightarrow> bytes" where
  "header_bytes oh = le32 (oh_seqNo oh) @ le32 (oh_opennopID oh) @
     [oh_compression oh, oh_deduplication oh, oh_reason oh, oh_queuenum oh] @ le32 (oh_pattern oh)"

lemma length_header_bytes [simp]: "length (header_bytes oh) = 16"
  by (simp add: header_bytes_def)

lemma split16:
  assumes "length g = 16"
  obtains a b c d e f k where "g = a @ b @ [c, d, e, f] @ k" "length a = 4" "length b = 4" "length k = 4"
proof -
  let ?a = "take 4 g" and ?r = "drop 4 g"
  let ?b = "take 4 ?r"
  define s where "s = drop 4 ?r"
  have s: "length s = 8" using assms by (simp add: s_def)
  obtain c s1 where 1: "s = c # s1" "length s1 = 7" using s by (cases s) auto
  obtain d s2 where 2: "s1 = d # s2" "length s2 = 6" using 1 by (cases s1) auto
  obtain e s3 where 3: "s2 = e # s3" "length s3 = 5" using 2 by (cases s2) auto
  obtain f k where "s3 = f # k" "length k = 4" using 3 by (cases s3) auto
  with 1 2 3 have k: "s = [c, d, e, f] @ k" "length k = 4" by simp_all
  have "g = ?a @ ?b @ s" unfolding s_def by (metis append_take_drop_id)
  then show thesis using that [of ?a ?b c d e f k] k assms by simp
qed

lemma write_header_mid:
  assumes "length A = off" and "length g = 16"
  shows "write_header (A @ g @ R) off oh = Some (A @ header_bytes oh @ R)"
proof -
  obtain a b c d e f k where g: "g = a @ b @ [c, d, e, f] @ k" "length a = 4" "length b = 4" "length k = 4"
    by (rule split16 [OF assms(2)])
  let ?i = "le32 (oh_opennopID oh)" and ?n = "le32 (oh_seqNo oh)" and ?p = "le32 (oh_pattern oh)"
  have 1: "store_bytes (A @ a @ b @ c # d # e # f # k @ R) (off + 4) ?i = Some (A @ a @ ?i @ c # d # e # f # k @ R)"
    using store_mid [of "A @ a" "off + 4" ?i b "c # d # e # f # k @ R"] assms(1) g by simp
  have 2: "store_bytes (A @ a @ ?i @ c # d # e # f # k @ R) off ?n = Some (A @ ?n @ ?i @ c # d # e # f # k @ R)"
    using store_mid [of A off ?n a "?i @ c # d # e # f # k @ R"] assms(1) g by simp
  have 3: "store8 (A @ ?n @ ?i @ c # d # e # f # k @ R) (off + 8) x = Some (A @ ?n @ ?i @ x # d # e # f # k @ R)" for x
    using store8_mid [of "A @ ?n @ ?i" "off + 8" c "d # e # f # k @ R" x] assms(1) by simp
  have 4: "store8 (A @ ?n @ ?i @ x # d # e # f # k @ R) (off + 9) y = Some (A @ ?n @ ?i @ x # y # e # f # k @ R)" for x y
    using store8_mid [of "A @ ?n @ ?i @ [x]" "off + 9" d "e # f # k @ R" y] assms(1) by simp
  have 5: "store8 (A @ ?n @ ?i @ x # y # e # f # k @ R) (off + 11) z = Some (A @ ?n @ ?i @ x # y # e # z # k @ R)" for x y z
    using store8_mid [of "A @ ?n @ ?i @ [x, y, e]" "off + 11" f "k @ R" z] assms(1) by simp
  have 6: "store8 (A @ ?n @ ?i @ x # y # e # z # k @ R) (off + 10) w = Some (A @ ?n @ ?i @ x # y # w # z # k @ R)" for x y z w
    using store8_mid [of "A @ ?n @ ?i @ [x, y]" "off + 10" e "z # k @ R" w] assms(1) by simp
  have 7: "store_bytes (A @ ?n @ ?i @ x # y # w # z # k @ R) (off + 12) ?p = Some (A @ ?n @ ?i @ x # y # w # z # ?p @ R)" for x y z w
    using store_mid [of "A @ ?n @ ?i @ [x, y, w, z]" "off + 12" ?p k R] assms(1) g by simp
  show ?thesis by (simp add: write_header_def header_bytes_def g(1) store32_def 1 2 3 4 5 6 7)
qed

lemma read_header_mid:
  assumes "length A = off"
  shows "read_header (A @ header_bytes oh @ R) off = Some oh"
proof -
  let ?i = "le32 (oh_opennopID oh)" and ?n = "le32 (oh_seqNo oh)" and ?p = "le32 (oh_pattern oh)"
  let ?f = "[oh_compression oh, oh_deduplication oh, oh_reason oh, oh_queuenum oh]"
  let ?q = "A @ ?n @ ?i @ ?f @ ?p @ R"
  have "load32 ?q off = Some (oh_seqNo oh)" "load32 ?q (off + 4) = Some (oh_opennopID oh)"
    "load32 ?q (off + 12) = Some (oh_pattern oh)"
    using load32_le32 [of off ?q] load32_le32 [of "off + 4" ?q] load32_le32 [of "off + 12" ?q]
      load_mid [of A off ?n 4 "?i @ ?f @ ?p @ R"] load_mid [of "A @ ?n" "off + 4" ?i 4 "?f @ ?p @ R"]
      load_mid [of "A @ ?n @ ?i @ ?f" "off + 12" ?p 4 R] assms by simp_all
  moreover have "load8 ?q (off + 8) = Some (oh_compression oh)" "load8 ?q (off + 9) = Some (oh_deduplication oh)"
    "load8 ?q (off + 10) = Some (oh_reason oh)" "load8 ?q (off + 11) = Some (oh_queuenum oh)"
    using assms by (simp_all add: load8_def nth_append)
  ultimately show ?thesis by (simp add: read_header_def header_bytes_def)
qed

end
