(* ===== verification/Tcp_Compression.thy ===== *)
theory Tcp_Compression
  imports Tcp_Segment
begin

text \<open>
  Compression of the data of a TCP segment (\<open>opennopd/compression.c\<close>).  The compressor is the QuickLZ
  library: \<open>qlz\<close> gives the bytes \<open>qlz_compress\<close> writes for some data, \<open>dlz\<close> what \<open>qlz_decompress\<close>
  writes when it reads from a buffer, \<^const>\<open>None\<close> when it reads or writes out of bounds.  Its state
  is cleared before each call, so both are functions.
\<close>

text \<open>
  The result is the number of bytes removed.  \<open>lzbuffer\<close> may be null; then the size used is twice
  the old one, in 16 bits.
\<close>

definition tcp_compress ::
    "(bytes \<Rightarrow> bytes) \<Rightarrow> bytes \<Rightarrow> bytes option \<Rightarrow> (nat \<times> bytes \<times> bytes option) option" where
  "tcp_compress qlz p lzbuffer = do {
     proto \<leftarrow> ip_protocol p;
     (if proto = IPPROTO_TCP then do {
        tcph \<leftarrow> ip_ihl4 p;
        doff \<leftarrow> tcp_doff p tcph;
        oldsize \<leftarrow> data_size p tcph doff;
        let tcpdata = tcph + 4 * doff;
        (if 0 < oldsize then do {
           (newsize, lzbuffer) \<leftarrow> (case lzbuffer of
               Some lz \<Rightarrow> do {
                 src \<leftarrow> load_bytes p tcpdata oldsize;
                 lz \<leftarrow> store_bytes lz 0 (qlz src);
                 Some (u16_of (length (qlz src)), Some lz) }
             | None \<Rightarrow> Some (u16_of (oldsize * 2), None));
           (if newsize < oldsize then do {
              lz \<leftarrow> lzbuffer;
              p \<leftarrow> memcpy p tcpdata lz 0 newsize;
              tot \<leftarrow> ip_tot_len p;
              p \<leftarrow> set_ip_tot_len p (sub16 tot (oldsize - newsize));
              Some (oldsize - newsize, p, lzbuffer) }
            else Some (0, p, lzbuffer)) }
         else Some (0, p, lzbuffer)) }
      else Some (0, p, lzbuffer)) }"

text \<open>The result is the number of bytes added, or -1.\<close>

definition tcp_decompress ::
    "(bytes \<Rightarrow> bytes option) \<Rightarrow> bytes \<Rightarrow> bytes option \<Rightarrow> (int \<times> bytes \<times> bytes option) option" where
  "tcp_decompress dlz p lzbuffer = do {
     proto \<leftarrow> ip_protocol p;
     (if proto = IPPROTO_TCP then do {
        tcph \<leftarrow> ip_ihl4 p;
        doff \<leftarrow> tcp_doff p tcph;
        tot \<leftarrow> ip_tot_len p;
        let oldsize = int tot - int tcph - int (4 * doff);
        let tcpdata = tcph + 4 * doff;
        (case lzbuffer of
           Some lz \<Rightarrow>
             if 0 < oldsize then do {
               out \<leftarrow> dlz (drop tcpdata p);
               lz \<leftarrow> store_bytes lz 0 out;
               p \<leftarrow> memcpy p tcpdata lz 0 (length out);
               p \<leftarrow> set_ip_tot_len p (nat ((int tot + (int (length out) - oldsize)) mod 65536));
               Some (int (length out) - oldsize, p, Some lz) }
             else Some (-1, p, lzbuffer)
         | None \<Rightarrow> Some (-1, p, lzbuffer)) }
      else Some (-1, p, lzbuffer)) }"

section \<open>Behaviour on a segment\<close>

text \<open>What the documentation of QuickLZ promises.\<close>

definition qlz_ok :: "(bytes \<Rightarrow> bytes) \<Rightarrow> (bytes \<Rightarrow> bytes option) \<Rightarrow> bool" where
  "qlz_ok qlz dlz \<longleftrightarrow> (\<forall>src rest. src \<noteq> [] \<longrightarrow> length src < 65136 \<longrightarrow>
     length (qlz src) \<le> length src + 400 \<and> dlz (qlz src @ rest) = Some src)"

lemma memcpy_mid:
  assumes "length h = off" and "length new \<le> length pl + length r" and "take (length new) lz = new" and "n = length new"
  obtains r' where "memcpy (h @ pl @ r) off lz 0 n = Some (h @ new @ r')" "length pl + length r = length new + length r'"
proof -
  have "length (take (length new) lz) = length new" by (simp only: assms(3))
  then have "length new \<le> length lz" by simp
  then have "memcpy (h @ pl @ r) off lz 0 n = store_bytes (h @ pl @ r) (length h) new"
    using assms by (simp add: memcpy_def load_bytes_def)
  then show thesis using replace_data [OF assms(2), of h] that by metis
qed

lemma tcp_compress_ok:
  assumes q: "qlz_ok qlz dlz" and h: "hdr_ok h t d (length pl)" and lz: "length pl + 400 \<le> length lz" "length pl < 65136"
  shows "\<exists>n lz' h' pl' r'. tcp_compress qlz (h @ pl @ r) (Some lz) = Some (n, h' @ pl' @ r', Some lz') \<and>
    length lz' = length lz \<and> hdr_ok h' t d (length pl') \<and> length h' = length h \<and>
    length (h' @ pl' @ r') = length (h @ pl @ r) \<and> length pl' + n = length pl \<and>
    tcp_seq h' t = tcp_seq h t \<and> tcp_flags h' t = tcp_flags h t \<and> (\<forall>i. i \<noteq> 2 \<and> i \<noteq> 3 \<longrightarrow> h' ! i = h ! i) \<and>
    (if n = 0 then h' = h \<and> pl' = pl \<and> r' = r else pl \<noteq> [] \<and> pl' = qlz pl)"
proof (cases "pl = []")
  case True
  have "tcp_compress qlz (h @ pl @ r) (Some lz) = Some (0, h @ pl @ r, Some lz)"
    using hdr_ok_fields [OF h, of "pl @ r"] True by (simp add: tcp_compress_def)
  then show ?thesis using h by (intro exI [of _ 0] exI [of _ lz] exI [of _ h] exI [of _ pl] exI [of _ r]) simp
next
  case False
  have qlen: "length (qlz pl) \<le> length pl + 400" using q False lz(2) by (simp add: qlz_ok_def)
  have l: "length h = t + 4 * d" "40 \<le> length h" "length h + length pl < 65536" using h by (auto simp: hdr_ok_def)
  note f = hdr_ok_fields [OF h, of "pl @ r"]
  have ld: "load_bytes (h @ pl @ r) (t + 4 * d) (length pl) = Some pl" by (rule load_mid) (use l in auto)
  obtain lz' where lz': "store_bytes lz 0 (qlz pl) = Some lz'" "take (length (qlz pl)) lz' = qlz pl" "length lz' = length lz"
    using qlen lz by (simp add: store_bytes_def)
  have u: "u16_of (length (qlz pl)) = length (qlz pl)" using qlen lz(2) by simp
  show ?thesis
  proof (cases "length (qlz pl) < length pl")
    case True
    obtain r' where mc: "memcpy (h @ pl @ r) (t + 4 * d) lz' 0 (length (qlz pl)) = Some (h @ qlz pl @ r')"
      "length pl + length r = length (qlz pl) + length r'"
      using memcpy_mid [of h "t + 4 * d" "qlz pl" pl r lz' "length (qlz pl)"] l(1) True lz'(2) by auto
    let ?h = "resize h (length (qlz pl))"
    have tot: "sub16 (length h + length pl) (length pl - length (qlz pl)) = length h + length (qlz pl)"
      using l True by simp
    have "set_ip_tot_len (h @ qlz pl @ r') (length h + length (qlz pl)) = Some (?h @ qlz pl @ r')"
      using l by (intro set_ip_tot_len_append) simp
    then have "tcp_compress qlz (h @ pl @ r) (Some lz) = Some (length pl - length (qlz pl), ?h @ qlz pl @ r', Some lz')"
      using f ld lz'(1) u True mc(1) False tot hdr_ok_fields(3) [OF h] by (simp add: tcp_compress_def)
    moreover have "hdr_ok ?h t d (length (qlz pl))" "tcp_seq ?h t = tcp_seq h t" "tcp_flags ?h t = tcp_flags h t"
      using hdr_ok_resize [OF h] l True by auto
    ultimately show ?thesis using True False mc(2) lz'(3)
      by (intro exI [of _ "length pl - length (qlz pl)"] exI [of _ lz'] exI [of _ ?h] exI [of _ "qlz pl"] exI [of _ r'])
        (simp add: resize_nth)
  next
    case nogain: False
    have "tcp_compress qlz (h @ pl @ r) (Some lz) = Some (0, h @ pl @ r, Some lz')"
      using f ld lz'(1) u nogain False by (simp add: tcp_compress_def)
    then show ?thesis using h lz'(3) by (intro exI [of _ 0] exI [of _ lz'] exI [of _ h] exI [of _ pl] exI [of _ r]) simp
  qed
qed

lemma tcp_decompress_ok:
  assumes q: "qlz_ok qlz dlz" and h: "hdr_ok h t d (length (qlz pl))" and pl: "pl \<noteq> []" "length h + length pl < 65136" "qlz pl \<noteq> []"
    and lz: "length pl \<le> length lz" and room: "length pl \<le> length (qlz pl) + length r"
  shows "\<exists>lz' h' r'. tcp_decompress dlz (h @ qlz pl @ r) (Some lz) =
      Some (int (length pl) - int (length (qlz pl)), h' @ pl @ r', Some lz') \<and>
    length lz' = length lz \<and> hdr_ok h' t d (length pl) \<and> length h' = length h \<and>
    length (h' @ pl @ r') = length (h @ qlz pl @ r) \<and> tcp_seq h' t = tcp_seq h t \<and> tcp_flags h' t = tcp_flags h t \<and>
    (\<forall>i. i \<noteq> 2 \<and> i \<noteq> 3 \<longrightarrow> h' ! i = h ! i)"
proof -
  have l: "length h = t + 4 * d" "40 \<le> length h" using h by (auto simp: hdr_ok_def)
  note f = hdr_ok_fields [OF h, of "qlz pl @ r"]
  have dz: "dlz (drop (t + 4 * d) (h @ qlz pl @ r)) = Some pl" using q pl l(1) by (simp add: qlz_ok_def)
  obtain lz' where lz': "store_bytes lz 0 pl = Some lz'" "take (length pl) lz' = pl" "length lz' = length lz"
    using lz by (simp add: store_bytes_def)
  obtain r' where mc: "memcpy (h @ qlz pl @ r) (t + 4 * d) lz' 0 (length pl) = Some (h @ pl @ r')"
    "length (qlz pl) + length r = length pl + length r'"
    using memcpy_mid [of h "t + 4 * d" pl "qlz pl" r lz' "length pl"] l(1) room lz'(2) by auto
  let ?h = "resize h (length pl)"
  have tot: "nat ((int (length h + length (qlz pl)) + (int (length pl) - (int (length h + length (qlz pl)) - int t - int (4 * d)))) mod 65536)
      = length h + length pl"
    using pl(2) l(1) by simp
  have tot2: "nat (int t + (4 * int d + int (length pl))) = t + 4 * d + length pl" by simp
  have "set_ip_tot_len (h @ pl @ r') (length h + length pl) = Some (?h @ pl @ r')"
    using l by (intro set_ip_tot_len_append) simp
  moreover have "0 < int (length h + length (qlz pl)) - int t - int (4 * d)" using pl(3) l(1) by simp
  ultimately have "tcp_decompress dlz (h @ qlz pl @ r) (Some lz) =
      Some (int (length pl) - int (length (qlz pl)), ?h @ pl @ r', Some lz')"
    using f dz lz'(1) mc(1) tot tot2 l(1) by (simp add: tcp_decompress_def)
  moreover have "hdr_ok ?h t d (length pl)" "tcp_seq ?h t = tcp_seq h t" "tcp_flags ?h t = tcp_flags h t"
    using hdr_ok_resize [OF h] pl(2) by auto
  ultimately show ?thesis using mc(2) lz'(3)
    by (intro exI [of _ lz'] exI [of _ ?h] exI [of _ r']) (simp add: resize_nth)
qed


text \<open>A compressor that satisfies the assumptions: run lengths for constant data, a marker byte and a length otherwise.\<close>

definition demo_qlz :: "bytes \<Rightarrow> bytes" where
  "demo_qlz x = (if x \<noteq> [] \<and> x = replicate (length x) (hd x)
     then [1, hd x, of_nat (length x), of_nat (length x div 256)]
     else 0 # of_nat (length x) # of_nat (length x div 256) # x)"

definition demo_dlz :: "bytes \<Rightarrow> bytes option" where
  "demo_dlz s = (case s of
     m # a # b # c # rest \<Rightarrow>
       if m = 1 then Some (replicate (unat b + 256 * unat c) a)
       else Some (take (unat a + 256 * unat b) (c # rest))
   | _ \<Rightarrow> None)"

lemma demo_len: "n < 65536 \<Longrightarrow> unat (of_nat n :: u8) + 256 * unat (of_nat (n div 256) :: u8) = n"
proof -
  assume "n < 65536"
  then have "unat (of_nat n :: u8) = n mod 256" "unat (of_nat (n div 256) :: u8) = n div 256"
    by (simp_all add: unat_of_nat)
  then show ?thesis by simp
qed

lemma demo_qlz_ok: "qlz_ok demo_qlz demo_dlz"
  unfolding qlz_ok_def
proof (intro allI impI)
  fix src rest :: bytes
  assume s: "src \<noteq> []" "length src < 65136"
  then have n: "unat (of_nat (length src) :: u8) + 256 * unat (of_nat (length src div 256) :: u8) = length src"
    by (intro demo_len) simp
  obtain y ys where src: "src = y # ys" using s(1) by (cases src) auto
  show "length (demo_qlz src) \<le> length src + 400 \<and> demo_dlz (demo_qlz src @ rest) = Some src"
  proof (cases "src = replicate (length src) (hd src)")
    case True
    then show ?thesis using s n by (simp add: demo_qlz_def demo_dlz_def)
  next
    case False
    have "demo_dlz (demo_qlz src @ rest) = Some (take (length src) (src @ rest))"
      using False n src by (simp add: demo_qlz_def demo_dlz_def)
    then show ?thesis using False by (simp add: demo_qlz_def)
  qed
qed

lemma demo_qlz_nonempty: "\<forall>x. x \<noteq> [] \<longrightarrow> demo_qlz x \<noteq> []"
  by (simp add: demo_qlz_def)

definition demo_head :: "nat \<Rightarrow> bytes" where
  "demo_head n = resize bare_head n"

lemma demo_head_ok: "n < 65000 \<Longrightarrow> hdr_ok (demo_head n) 20 5 n"
proof -
  assume n: "n < 65000"
  have "hdr_ok bare_head 20 5 3"
    by (simp add: hdr_ok_def bare_head_def ip_ihl4_def tcp_doff_def ip_tot_len_def ip_protocol_def load8_def load16_def
        ntohs_def IPPROTO_TCP_def)
  then show ?thesis unfolding demo_head_def by (rule hdr_ok_resize) (use n in \<open>simp add: bare_head_def\<close>)
qed


end
