(* ===== verification/Tcp_Dedup.thy ===== *)
theory Tcp_Dedup
  imports Dedup_Roundtrip Tcp_Compression
begin

text \<open>
  Deduplication of the data of a TCP segment (\<open>opennopd/deduplication.c\<close>): the bridge between the
  workers and the deduplicator.  The data pointer handed to the library is the packet from the
  data offset on.
\<close>

definition OK :: int where "OK = 1"

definition ERROR :: int where "ERROR = -1"

definition HASH_NOT_FOUND :: int where "HASH_NOT_FOUND = -2"

text \<open>The result is the number of bytes removed.\<close>

definition tcp_optimize ::
    "bool \<Rightarrow> config \<Rightarrow> Deduplicator \<Rightarrow> shared_dictionaries \<Rightarrow> bytes \<Rightarrow> bytes \<Rightarrow>
     (nat \<times> Deduplicator \<times> shared_dictionaries \<times> bytes \<times> bytes) option" where
  "tcp_optimize dedup_on c pd sh p buffered_packet =
     (if dedup_on then do {
        proto \<leftarrow> ip_protocol p;
        (if proto = IPPROTO_TCP then do {
           tcph \<leftarrow> ip_ihl4 p;
           doff \<leftarrow> tcp_doff p tcph;
           oldsize \<leftarrow> data_size p tcph doff;
           let tcpdata = tcph + 4 * doff;
           (if 0 < oldsize then do {
              (pd, sh, buffered_packet, newsize) \<leftarrow> dedup c pd sh (drop tcpdata p) oldsize buffered_packet;
              (if newsize < oldsize then do {
                 p \<leftarrow> memcpy p tcpdata buffered_packet 0 newsize;
                 tot \<leftarrow> ip_tot_len p;
                 p \<leftarrow> set_ip_tot_len p (sub16 tot (oldsize - newsize));
                 Some (oldsize - newsize, pd, sh, p, buffered_packet) }
               else Some (0, pd, sh, p, buffered_packet)) }
            else Some (0, pd, sh, p, buffered_packet)) }
         else Some (0, pd, sh, p, buffered_packet)) }
      else Some (0, pd, sh, p, buffered_packet))"

text \<open>The result is the number of bytes added, \<open>HASH_NOT_FOUND\<close> or \<open>ERROR\<close>; \<open>st\<close> is the uninitialised status.\<close>

definition tcp_deoptimize ::
    "config \<Rightarrow> Deduplicator \<Rightarrow> shared_dictionaries \<Rightarrow> bytes \<Rightarrow> bytes option \<Rightarrow> UncompReturnStatus \<Rightarrow>
     (int \<times> Deduplicator \<times> shared_dictionaries \<times> bytes \<times> bytes option) option" where
  "tcp_deoptimize c pd sh p regenerated st = do {
     proto \<leftarrow> ip_protocol p;
     (if proto = IPPROTO_TCP then do {
        tcph \<leftarrow> ip_ihl4 p;
        doff \<leftarrow> tcp_doff p tcph;
        oldsize \<leftarrow> data_size p tcph doff;
        let tcpdata = tcph + 4 * doff;
        (case regenerated of
           Some buf \<Rightarrow>
             if 0 < oldsize then do {
               r \<leftarrow> uncomp c pd sh buf (drop tcpdata p) oldsize st;
               (if us_code (ur_status r) = UNCOMP_FP_NOT_FOUND
                then Some (HASH_NOT_FOUND, ur_pd r, ur_sh r, p, Some (ur_packet r))
                else do {
                  let newsize = ur_pktlen r;
                  p \<leftarrow> memcpy p tcpdata (ur_packet r) 0 newsize;
                  tot \<leftarrow> ip_tot_len p;
                  p \<leftarrow> set_ip_tot_len p (nat ((int tot + (int newsize - int oldsize)) mod 65536));
                  Some (if oldsize \<le> newsize then int newsize - int oldsize else ERROR,
                    ur_pd r, ur_sh r, p, Some (ur_packet r)) }) }
             else Some (ERROR, pd, sh, p, regenerated)
         | None \<Rightarrow> Some (ERROR, pd, sh, p, regenerated)) }
      else Some (ERROR, pd, sh, p, regenerated)) }"

definition tcp_cache_deoptim ::
    "config \<Rightarrow> Deduplicator \<Rightarrow> shared_dictionaries \<Rightarrow> bytes \<Rightarrow> (int \<times> Deduplicator \<times> shared_dictionaries) option" where
  "tcp_cache_deoptim c pd sh p = do {
     proto \<leftarrow> ip_protocol p;
     (if proto = IPPROTO_TCP then do {
        tcph \<leftarrow> ip_ihl4 p;
        doff \<leftarrow> tcp_doff p tcph;
        datasize \<leftarrow> data_size p tcph doff;
        (if 0 < datasize then do {
           (pd, sh) \<leftarrow> update_caches c pd sh (drop (tcph + 4 * doff) p) datasize;
           Some (OK, pd, sh) }
         else Some (ERROR, pd, sh)) }
      else Some (ERROR, pd, sh)) }"

definition tcp_cache_optim ::
    "config \<Rightarrow> Deduplicator \<Rightarrow> shared_dictionaries \<Rightarrow> bytes \<Rightarrow> (int \<times> Deduplicator \<times> shared_dictionaries) option" where
  "tcp_cache_optim c pd sh p = do {
     proto \<leftarrow> ip_protocol p;
     (if proto = IPPROTO_TCP then do {
        tcph \<leftarrow> ip_ihl4 p;
        doff \<leftarrow> tcp_doff p tcph;
        datasize \<leftarrow> data_size p tcph doff;
        (if 0 < datasize then do {
           (pd, sh) \<leftarrow> put_in_cache c pd sh (drop (tcph + 4 * doff) p) datasize;
           Some (OK, pd, sh) }
         else Some (ERROR, pd, sh)) }
      else Some (ERROR, pd, sh)) }"

section \<open>Both ends of a link\<close>

text \<open>A packet long enough to be stored extends the history of both dictionaries.\<close>

definition hist_add :: "bytes list \<Rightarrow> bytes \<Rightarrow> bytes list" where
  "hist_add hist pl = (if length pl < BETA then hist else hist @ [pl])"

text \<open>What the sender's half of a step leaves for the receiver: its dictionary has stored the data, and the receiver's will be in step once it stores it too.\<close>

definition sent :: "config \<Rightarrow> bytes list \<Rightarrow> bytes \<Rightarrow> Deduplicator \<Rightarrow> Deduplicator \<Rightarrow> bool" where
  "sent c hist pl pd pd' \<longleftrightarrow> pd_rep c (hist_add hist pl) pd' \<and>
     abs_fps (dd_fps pd') = (if length pl < BETA then abs_fps (dd_fps pd) else spec_store c hist pl (abs_fps (dd_fps pd)))"

lemma sent_in_step:
  assumes "in_step c hist pds pdr" and "sent c hist pl pds pds'" and "sent c hist pl pdr pdr'"
  shows "in_step c (hist_add hist pl) pds' pdr'"
  using assms by (auto simp: in_step_def sent_def)

lemma encoded_cong:
  assumes "encoded c hist fps p opt n" and "take n opt' = take n opt" and "n \<le> length opt'"
  shows "encoded c hist fps p opt' n"
  using assms unfolding encoded_def by auto

lemma encoded_nonempty: "encoded c hist fps p opt n \<Longrightarrow> take n opt \<noteq> []"
proof -
  assume "encoded c hist fps p opt n"
  then obtain x y where "take n opt = be32 x @ y" unfolding encoded_def enc_packet_def by blast
  then show ?thesis by (metis Nil_is_append_conv length_be32 list.size(3) zero_neq_numeral)
qed

lemma tcp_optimize_same:
  assumes h: "hdr_ok h t d (length pl)"
    and d: "if pl = [] then pd' = pd \<and> opt = buf else dedup c pd sh (pl @ r) (length pl) buf = Some (pd', sh, opt, length pl)"
  shows "tcp_optimize True c pd sh (h @ pl @ r) buf = Some (0, pd', sh, h @ pl @ r, opt)"
proof -
  have "drop (t + 4 * d) (h @ pl @ r) = pl @ r" using h by (simp add: hdr_ok_def)
  then show ?thesis using hdr_ok_fields [OF h, of "pl @ r"] d by (simp add: tcp_optimize_def split: if_splits)
qed

lemma tcp_optimize_shorter:
  assumes h: "hdr_ok h t d (length pl)" and d: "dedup c pd sh (pl @ r) (length pl) buf = Some (pd', sh, opt, n)"
    and n: "n < length pl" "n \<le> length opt"
  obtains r' where "tcp_optimize True c pd sh (h @ pl @ r) buf = Some (length pl - n, pd', sh, resize h n @ take n opt @ r', opt)"
    and "length pl + length r = n + length r'"
proof -
  have l: "length h = t + 4 * d" "40 \<le> length h" "length h + length pl < 65536" using h by (auto simp: hdr_ok_def)
  have dr: "drop (t + 4 * d) (h @ pl @ r) = pl @ r" using l(1) by simp
  let ?new = "take n opt"
  have e: "length ?new = n" "length ?new \<le> length pl + length r" using n by auto
  have new: "take (length ?new) opt = ?new" using e(1) by simp
  obtain r' where mc: "memcpy (h @ pl @ r) (t + 4 * d) opt 0 n = Some (h @ ?new @ r')" "length pl + length r = length ?new + length r'"
    by (rule memcpy_mid [OF l(1) e(2) new e(1) [symmetric]])
  have tot: "sub16 (length h + length pl) (length pl - n) = length h + n" using l n(1) by simp
  have "set_ip_tot_len (h @ ?new @ r') (length h + n) = Some (resize h n @ ?new @ r')"
    using l by (intro set_ip_tot_len_append) simp
  moreover have "pl \<noteq> []" using n(1) by auto
  ultimately have "tcp_optimize True c pd sh (h @ pl @ r) buf = Some (length pl - n, pd', sh, resize h n @ ?new @ r', opt)"
    using hdr_ok_fields [OF h, of "pl @ r"] dr d n(1) mc(1) tot hdr_ok_fields(3) [OF h] by (simp add: tcp_optimize_def)
  then show thesis using that mc(2) e(1) by simp
qed

lemma tcp_optimize_ok:
  assumes ok: "config_ok c" "\<not> shared_dictionary_mode c" and rep: "pd_rep c hist pd"
    and h: "hdr_ok h t d (length pl)" and len: "length pl \<le> MAX_PKT_SIZE c" "length pl \<le> length buf"
  shows "\<exists>n pd' h' pl' r' buf'. tcp_optimize True c pd sh (h @ pl @ r) buf = Some (n, pd', sh, h' @ pl' @ r', buf') \<and>
    sent c hist pl pd pd' \<and> hdr_ok h' t d (length pl') \<and> length h' = length h \<and> (pl \<noteq> [] \<longrightarrow> pl' \<noteq> []) \<and>
    length (h' @ pl' @ r') = length (h @ pl @ r) \<and> length pl' + n = length pl \<and>
    tcp_seq h' t = tcp_seq h t \<and> tcp_flags h' t = tcp_flags h t \<and> (\<forall>i. i \<noteq> 2 \<and> i \<noteq> 3 \<longrightarrow> h' ! i = h ! i) \<and>
    (if n = 0 then h' = h \<and> pl' = pl \<and> r' = r
     else BETA \<le> length pl \<and> encoded c (hist @ [pl]) (dd_fps pd) pl pl' (length pl'))"
proof (cases "length pl < BETA")
  case True
  obtain pd' where d: "if pl = [] then pd' = pd \<and> buf = buf else dedup c pd sh (pl @ r) (length pl) buf = Some (pd', sh, buf, length pl)"
    "dd_fps pd' = dd_fps pd" "dd_ps pd' = dd_ps pd"
    using dedup_short [OF True, of c pd sh "pl @ r" buf] by (cases "pl = []") auto
  have "sent c hist pl pd pd'" using True d(2,3) rep by (simp add: sent_def hist_add_def pd_rep_def)
  then show ?thesis using h tcp_optimize_same [OF h d(1)]
    by (intro exI [of _ 0] exI [of _ pd'] exI [of _ h] exI [of _ pl] exI [of _ r] exI [of _ buf]) simp
next
  case False
  then have beta: "BETA \<le> length pl" and ne: "pl \<noteq> []" by auto
  from dedup_ok [OF ok rep beta _ len, of "pl @ r" sh] obtain pd' opt n where
    d: "dedup c pd sh (pl @ r) (length pl) buf = Some (pd', sh, opt, n)" "pd_rep c (hist @ [pl]) pd'"
    "abs_fps (dd_fps pd') = spec_store c hist pl (abs_fps (dd_fps pd))"
    "n = length pl \<or> encoded c (hist @ [pl]) (dd_fps pd) pl opt n" by auto
  have sent: "sent c hist pl pd pd'" using False d(2,3) by (simp add: sent_def hist_add_def)
  show ?thesis
  proof (cases "n = length pl")
    case True
    then show ?thesis using h ne sent d(1) tcp_optimize_same [OF h, of pd' pd opt buf c sh r]
      by (intro exI [of _ 0] exI [of _ pd'] exI [of _ h] exI [of _ pl] exI [of _ r] exI [of _ opt]) simp
  next
    case diff: False
    then have enc: "encoded c (hist @ [pl]) (dd_fps pd) pl opt n" using d(4) by simp
    let ?new = "take n opt"
    have e: "encoded c (hist @ [pl]) (dd_fps pd) pl ?new n" "length ?new = n" "n < length pl"
      using encoded_take [OF enc] by auto
    have "n \<le> length opt" using e(2) by simp
    then obtain r' where o: "tcp_optimize True c pd sh (h @ pl @ r) buf = Some (length pl - n, pd', sh, resize h n @ ?new @ r', opt)"
      "length pl + length r = n + length r'" by (rule tcp_optimize_shorter [OF h d(1) e(3)])
    have "hdr_ok (resize h n) t d n" "tcp_seq (resize h n) t = tcp_seq h t" "tcp_flags (resize h n) t = tcp_flags h t"
      using hdr_ok_resize [OF h] h e(3) by (auto simp: hdr_ok_def)
    moreover have "40 \<le> length h" using h by (auto simp: hdr_ok_def)
    moreover have "?new \<noteq> []" using encoded_nonempty [OF enc] .
    ultimately show ?thesis using sent o e beta
      by (intro exI [of _ "length pl - n"] exI [of _ pd'] exI [of _ "resize h n"] exI [of _ ?new] exI [of _ r'] exI [of _ opt])
        (simp add: resize_nth)
  qed
qed

lemma tcp_deoptimize_ok:
  assumes ok: "config_ok c" "\<not> shared_dictionary_mode c" and st: "in_step c hist pds pdr" and dis: "hash_distinct (set hist)"
    and h: "hdr_ok h t d (length opt)" and enc: "encoded c (hist @ [pl]) (dd_fps pds) pl opt (length opt)"
    and len: "BETA \<le> length pl" "length pl \<le> MAX_PKT_SIZE c" "length h + length pl < 65536"
    and buf: "MAX_PKT_SIZE c \<le> length buf" and room: "length pl \<le> length opt + length r"
  shows "\<exists>pdr' h' r' buf'. tcp_deoptimize c pdr sh (h @ opt @ r) (Some buf) us =
      Some (int (length pl) - int (length opt), pdr', sh, h' @ pl @ r', Some buf') \<and>
    sent c hist pl pdr pdr' \<and> hdr_ok h' t d (length pl) \<and> length h' = length h \<and>
    length (h' @ pl @ r') = length (h @ opt @ r) \<and> tcp_seq h' t = tcp_seq h t \<and> tcp_flags h' t = tcp_flags h t \<and>
    (\<forall>i. i \<noteq> 2 \<and> i \<noteq> 3 \<longrightarrow> h' ! i = h ! i)"
proof -
  have l: "length h = t + 4 * d" "40 \<le> length h" using h by (auto simp: hdr_ok_def)
  note f = hdr_ok_fields [OF h, of "opt @ r"]
  have dr: "drop (t + 4 * d) (h @ opt @ r) = opt @ r" using l(1) by simp
  have gain: "length opt + 40 \<le> length pl" "opt \<noteq> []"
    using encoded_gain [OF enc] encoded_nonempty [OF enc] by auto
  have e: "encoded c (hist @ [pl]) (dd_fps pds) pl (opt @ r) (length opt)" by (rule encoded_cong [OF enc]) simp_all
  have rep: "pd_rep c hist pdr" "fps_rep c hist (dd_fps pds)" "abs_fps (dd_fps pds) = abs_fps (dd_fps pdr)"
    using st by (simp_all add: in_step_def pd_rep_def)
  obtain u where u: "uncomp c pdr sh buf (opt @ r) (length opt) us = Some u" "us_code (ur_status u) = UNCOMP_OK"
    "ur_pktlen u = length pl" "take (length pl) (ur_packet u) = pl" "ur_sh u = sh" "pd_rep c (hist @ [pl]) (ur_pd u)"
    "abs_fps (dd_fps (ur_pd u)) = spec_store c hist pl (abs_fps (dd_fps pdr))"
    using uncomp_ok [OF ok rep dis e len(1,2) buf] by blast
  obtain r' where mc: "memcpy (h @ opt @ r) (t + 4 * d) (ur_packet u) 0 (length pl) = Some (h @ pl @ r')"
    "length opt + length r = length pl + length r'"
    using memcpy_mid [of h "t + 4 * d" pl opt r "ur_packet u" "length pl"] l(1) room u(4) by auto
  let ?h = "resize h (length pl)"
  have tot: "nat ((int (length h + length opt) + (int (length pl) - int (length opt))) mod 65536) = length h + length pl"
    using len(3) by simp
  have tot2: "nat (int (length h) + int (length pl)) = length h + length pl" by simp
  have "set_ip_tot_len (h @ pl @ r') (length h + length pl) = Some (?h @ pl @ r')"
    using l by (intro set_ip_tot_len_append) simp
  then have "tcp_deoptimize c pdr sh (h @ opt @ r) (Some buf) us =
      Some (int (length pl) - int (length opt), ur_pd u, sh, ?h @ pl @ r', Some (ur_packet u))"
    using f dr u(1-3,5) mc(1) tot tot2 gain hdr_ok_fields(3) [OF h, of "pl @ r'"]
    by (simp add: tcp_deoptimize_def Let_def)
  moreover have "hdr_ok ?h t d (length pl)" "tcp_seq ?h t = tcp_seq h t" "tcp_flags ?h t = tcp_flags h t"
    using hdr_ok_resize [OF h len(3)] by auto
  moreover have "sent c hist pl pdr (ur_pd u)" using u(6,7) len(1) by (simp add: sent_def hist_add_def)
  ultimately show ?thesis using mc(2)
    by (intro exI [of _ "ur_pd u"] exI [of _ ?h] exI [of _ r'] exI [of _ "ur_packet u"]) (simp add: resize_nth)
qed

lemma tcp_cache_deoptim_ok:
  assumes ok: "config_ok c" "\<not> shared_dictionary_mode c" and rep: "pd_rep c hist pd"
    and h: "hdr_ok h t d (length pl)" and len: "length pl \<le> MAX_PKT_SIZE c"
  shows "\<exists>n pd'. tcp_cache_deoptim c pd sh (h @ pl @ r) = Some (n, pd', sh) \<and> sent c hist pl pd pd'"
proof -
  have l: "length h = t + 4 * d" using h by (auto simp: hdr_ok_def)
  note f = hdr_ok_fields [OF h, of "pl @ r"]
  have dr: "drop (t + 4 * d) (h @ pl @ r) = pl @ r" using l by simp
  show ?thesis
  proof (cases "length pl < BETA")
    case True
    then show ?thesis using f dr rep by (auto simp: tcp_cache_deoptim_def update_caches_def sent_def hist_add_def)
  next
    case False
    then obtain pd' where "update_caches c pd sh (pl @ r) (length pl) = Some (pd', sh)" "pd_rep c (hist @ [pl]) pd'"
      "abs_fps (dd_fps pd') = spec_store c hist pl (abs_fps (dd_fps pd))"
      using update_caches_ok [OF ok rep _ _ len, of "pl @ r" sh] by auto
    then show ?thesis using f dr False by (auto simp: tcp_cache_deoptim_def sent_def hist_add_def)
  qed
qed

lemma tcp_cache_optim_ok:
  assumes ok: "config_ok c" "\<not> shared_dictionary_mode c" and rep: "pd_rep c hist pd"
    and h: "hdr_ok h t d (length pl)" and len: "length pl \<le> MAX_PKT_SIZE c"
  shows "\<exists>n pd'. tcp_cache_optim c pd sh (h @ pl @ r) = Some (n, pd', sh) \<and> sent c hist pl pd pd'"
proof -
  have l: "length h = t + 4 * d" using h by (auto simp: hdr_ok_def)
  note f = hdr_ok_fields [OF h, of "pl @ r"]
  have dr: "drop (t + 4 * d) (h @ pl @ r) = pl @ r" using l by simp
  show ?thesis
  proof (cases "length pl < BETA")
    case True
    then show ?thesis using f dr rep
      by (auto simp: tcp_cache_optim_def put_in_cache_def cacheAndCompressIfNeeded_def sent_def hist_add_def pd_rep_def)
  next
    case False
    then obtain pd' where "put_in_cache c pd sh (pl @ r) (length pl) = Some (pd', sh)" "pd_rep c (hist @ [pl]) pd'"
      "abs_fps (dd_fps pd') = spec_store c hist pl (abs_fps (dd_fps pd))"
      using put_in_cache_ok [OF ok rep _ _ len, of "pl @ r" sh] by auto
    then show ?thesis using f dr False by (auto simp: tcp_cache_optim_def sent_def hist_add_def)
  qed
qed

end
