(* ===== verification/Linked_List.thy ===== *)
theory Linked_List
  imports Solowan_Prelude
begin

text \<open>
  Lists linked through \<open>next\<close> and \<open>prev\<close> pointers in a heap, with a head that holds the first and
  the last element and the number of elements: the shape of the packet queues and of the session
  buckets.  A pointer is an optional address, a null pointer is \<^const>\<open>None\<close>, and the heap maps
  the allocated addresses to their nodes.  The lemmas say how one pointer assignment changes a
  chain; they are stated for every node type, with the field selector as an argument.
\<close>

type_synonym addr = nat
type_synonym 'n heap = "addr \<Rightarrow> 'n option"

text \<open>\<open>struct packet_head\<close> and \<open>struct session_head\<close>, without their lock and signal.\<close>

record list_head =
  hd_next :: "addr option"
  hd_prev :: "addr option"
  hd_qlen :: u32

section \<open>Chains of next pointers\<close>

text \<open>\<open>nseg nx h p as q\<close>: following \<open>nx\<close> from \<open>p\<close> visits exactly \<open>as\<close> and then arrives at \<open>q\<close>.\<close>

fun nseg :: "('n \<Rightarrow> addr option) \<Rightarrow> 'n heap \<Rightarrow> addr option \<Rightarrow> addr list \<Rightarrow> addr option \<Rightarrow> bool" where
  "nseg nx h p [] q \<longleftrightarrow> p = q"
| "nseg nx h p (a # as) q \<longleftrightarrow>
     p = Some a \<and> (case h a of None \<Rightarrow> False | Some n \<Rightarrow> nseg nx h (nx n) as q)"

abbreviation nchain :: "('n \<Rightarrow> addr option) \<Rightarrow> 'n heap \<Rightarrow> addr option \<Rightarrow> addr list \<Rightarrow> bool" where
  "nchain nx h p as \<equiv> nseg nx h p as None"

lemma nseg_append: "nseg nx h p (as @ bs) q \<longleftrightarrow> (\<exists>m. nseg nx h p as m \<and> nseg nx h m bs q)"
  by (induction as arbitrary: p) (auto split: option.splits)

lemma nseg_alloc: "nseg nx h p as q \<Longrightarrow> a \<in> set as \<Longrightarrow> \<exists>n. h a = Some n"
  by (induction as arbitrary: p) (auto split: option.splits)

lemma nchain_hd: "nchain nx h p as \<Longrightarrow> p = (case as of [] \<Rightarrow> None | a # _ \<Rightarrow> Some a)"
  by (cases as) auto

lemma nchain_None [simp]: "nchain nx h None as \<longleftrightarrow> as = []"
  by (cases as) auto

lemma nseg_other [simp]: "a \<notin> set as \<Longrightarrow> nseg nx (h(a := x)) p as q = nseg nx h p as q"
  by (induction as arbitrary: p) (auto split: option.splits)

lemma nseg_same_next:
  assumes "h a = Some n" and "nx n' = nx n"
  shows "nseg nx (h(a \<mapsto> n')) p as q = nseg nx h p as q"
  using assms by (induction as arbitrary: p) (auto split: option.splits)

lemma nseg_last:
  "nseg nx h p as q \<Longrightarrow> as \<noteq> [] \<Longrightarrow> \<exists>n. h (last as) = Some n \<and> nx n = q"
proof (induction as arbitrary: p)
  case (Cons a as)
  then show ?case by (cases as) (auto split: option.splits)
qed simp

text \<open>Redirecting the last node of a segment.\<close>

lemma nseg_redirect:
  "nseg nx h p as q \<Longrightarrow> as \<noteq> [] \<Longrightarrow> distinct as \<Longrightarrow> nx l' = r \<Longrightarrow>
   nseg nx (h(last as \<mapsto> l')) p as r"
proof (induction as arbitrary: p)
  case (Cons a as)
  show ?case
  proof (cases "as = []")
    case False
    then have "last as \<noteq> a" using Cons.prems(3) by (metis distinct.simps(2) last_in_set)
    then show ?thesis using Cons False by (auto split: option.splits)
  qed (use Cons in simp)
qed simp

text \<open>The two pointer assignments of the lists: append at the end, unlink an inner node.\<close>

lemma nchain_snoc:
  assumes "nchain nx h p as" and "as \<noteq> []" and "distinct as" and "b \<notin> set as"
    and "nx l' = Some b" and "h b = Some n" and "nx n = None"
  shows "nchain nx (h(last as \<mapsto> l')) p (as @ [b])"
proof -
  have "last as \<noteq> b" using assms(2,4) by (metis last_in_set)
  then show ?thesis
    using nseg_redirect [OF assms(1,2,3,5)] assms(6,7) by (auto simp: nseg_append)
qed

lemma nchain_unlink:
  assumes "nchain nx h p (as @ c # bs)" and "as \<noteq> []" and "distinct (as @ c # bs)"
    and "h c = Some n" and "nx l' = nx n"
  shows "nchain nx (h(last as \<mapsto> l')) p (as @ bs)"
proof -
  have "nseg nx h p as (Some c)" and bs: "nchain nx h (nx n) bs"
    using assms(1,4) by (auto simp: nseg_append)
  moreover have "distinct as" using assms(3) by simp
  ultimately have "nseg nx (h(last as \<mapsto> l')) p as (nx n)"
    using nseg_redirect assms(2,5) by metis
  moreover have "last as \<notin> set bs" using assms(2,3) last_in_set [of as] by (auto simp: disjoint_iff)
  ultimately show ?thesis using bs by (auto simp: nseg_append)
qed

section \<open>Chains of prev pointers\<close>

fun pchain :: "('n \<Rightarrow> addr option) \<Rightarrow> 'n heap \<Rightarrow> addr option \<Rightarrow> addr list \<Rightarrow> bool" where
  "pchain pv h q [] \<longleftrightarrow> True"
| "pchain pv h q (a # as) \<longleftrightarrow>
     (case h a of None \<Rightarrow> False | Some n \<Rightarrow> pv n = q) \<and> pchain pv h (Some a) as"

lemma pchain_append:
  "pchain pv h q (as @ bs) \<longleftrightarrow>
     pchain pv h q as \<and> pchain pv h (if as = [] then q else Some (last as)) bs"
  by (induction as arbitrary: q) auto

lemma pchain_other [simp]: "a \<notin> set as \<Longrightarrow> pchain pv (h(a := x)) q as = pchain pv h q as"
  by (induction as arbitrary: q) (auto split: option.splits)

lemma pchain_same_prev:
  assumes "h a = Some n" and "pv n' = pv n"
  shows "pchain pv (h(a \<mapsto> n')) q as = pchain pv h q as"
  using assms by (induction as arbitrary: q) (auto split: option.splits)

lemma pchain_unlink:
  assumes "pchain pv h q (as @ c # b # bs)" and "distinct (as @ c # b # bs)"
    and "h c = Some n" and "pv m' = pv n"
  shows "pchain pv (h(b \<mapsto> m')) q (as @ b # bs)"
  using assms by (auto simp: pchain_append)

section \<open>Heads\<close>

definition head_ok :: "list_head \<Rightarrow> addr list \<Rightarrow> bool" where
  "head_ok q as \<longleftrightarrow> (as \<noteq> [] \<longrightarrow> hd_prev q = Some (last as)) \<and>
     hd_qlen q = of_nat (length as) \<and> length as < 2 ^ 32"

lemma head_ok_qlen: "head_ok q as \<Longrightarrow> unat (hd_qlen q) = length as"
  by (simp add: head_ok_def unat_of_nat)

lemma qlen_zero: "head_ok q as \<Longrightarrow> hd_qlen q = 0 \<longleftrightarrow> as = []"
  using head_ok_qlen [of q as] by (metis length_0_conv unat_eq_zero)

end
