(* ===== verification/Session_Table.thy ===== *)
theory Session_Table
  imports Linked_List Host_Order
begin

text \<open>
  The table of TCP sessions (\<open>opennopd/sessionmanager.c\<close>, \<open>include/session.h\<close>) and the session
  counters of the workers it keeps in step (\<open>opennopd/subsystems/worker.c\<close>).  A bucket is a doubly
  linked list; \<open>SESSIONBUCKETS\<close> is the number of values of the 16 bit hash, so the table is a
  function of the hash.  \<^const>\<open>None\<close> is a bad pointer, an index outside the worker array, or a
  loop that does not end.

  The contract the fetcher and the cleanup thread rely on is the locale \<open>keyed_store\<close>: a partial
  map from connections to sessions.
\<close>

section \<open>State\<close>

text \<open>\<open>client\<close> and \<open>server\<close> point to one of the two address fields of their own session.\<close>

datatype ip_ref = LargerIP | SmallerIP

record session =
  s_head :: u16
  s_next :: "addr option"
  s_prev :: "addr option"
  client :: "ip_ref option"
  server :: "ip_ref option"
  largerIP :: u32
  largerIPPort :: u16
  largerIPStartSEQ :: u32
  largerIPseq :: u32
  largerIPAccelerator :: u32
  smallerIP :: u32
  smallerIPPort :: u16
  smallerIPStartSEQ :: u32
  smallerIPseq :: u32
  smallerIPAccelerator :: u32
  lastactive :: u64
  deadcounter :: u8
  s_state :: u8
  s_queue :: u8

type_synonym session_key = "u32 \<times> u16 \<times> u32 \<times> u16"

record session_state =
  sessiontable :: "u16 \<Rightarrow> list_head"
  st_heap :: "session heap"
  worker_sessions :: "u32 list"
  numworkers :: u8

definition zero_session :: session where
  "zero_session = \<lparr>s_head = 0, s_next = None, s_prev = None, client = None, server = None,
     largerIP = 0, largerIPPort = 0, largerIPStartSEQ = 0, largerIPseq = 0, largerIPAccelerator = 0,
     smallerIP = 0, smallerIPPort = 0, smallerIPStartSEQ = 0, smallerIPseq = 0, smallerIPAccelerator = 0,
     lastactive = 0, deadcounter = 0, s_state = 0, s_queue = 0\<rparr>"

definition session_key :: "session \<Rightarrow> session_key" where
  "session_key s = (largerIP s, largerIPPort s, smallerIP s, smallerIPPort s)"

section \<open>Worker counters\<close>

definition get_worker_sessions :: "session_state \<Rightarrow> nat \<Rightarrow> u32 option" where
  "get_worker_sessions st i = (if i < length (worker_sessions st) then Some (worker_sessions st ! i) else None)"

definition increment_worker_sessions :: "nat \<Rightarrow> session_state \<Rightarrow> session_state option" where
  "increment_worker_sessions i st = do {
     n \<leftarrow> get_worker_sessions st i;
     Some (st\<lparr>worker_sessions := (worker_sessions st)[i := n + 1]\<rparr>) }"

definition decrement_worker_sessions :: "nat \<Rightarrow> session_state \<Rightarrow> session_state option" where
  "decrement_worker_sessions i st = do {
     n \<leftarrow> get_worker_sessions st i;
     Some (st\<lparr>worker_sessions := (worker_sessions st)[i := n - 1]\<rparr>) }"

section \<open>Operations\<close>

definition sessionhash :: "u32 \<Rightarrow> u16 \<Rightarrow> u32 \<Rightarrow> u16 \<Rightarrow> u16" where
  "sessionhash lip lport sip sport = (
     let hash1 = ucast (drop_bit 16 (lip XOR sip)) :: u16;
         hash2 = ucast (lip XOR sip) :: u16;
         hash3 = hash1 XOR hash2;
         hash4 = lport XOR sport in
     hash3 XOR hash4)"

text \<open>
  The callers pass the two addresses first and the two ports last, so the smaller address is
  truncated to 16 bits and the larger port takes the place of an address.
\<close>

fun session_bucket :: "session_key \<Rightarrow> u16" where
  "session_bucket (lip, lport, sip, sport) = sessionhash lip (ucast sip) (ucast lport) sport"

text \<open>The worker with the fewest sessions, the first of these.\<close>

definition choose_queue :: "session_state \<Rightarrow> u8 option" where
  "choose_queue st = foldM (\<lambda>i q. do {
     a \<leftarrow> get_worker_sessions st (unat q);
     b \<leftarrow> get_worker_sessions st i;
     Some (if b < a then of_nat i else q) }) [0..<unat (numworkers st)] 0"

definition bucket_append :: "u16 \<Rightarrow> addr \<Rightarrow> session_state \<Rightarrow> session_state option" where
  "bucket_append hash a st = (
     let q = sessiontable st hash in
     if hd_qlen q = 0 then
       Some (st\<lparr>sessiontable := (sessiontable st)(hash :=
         q\<lparr>hd_next := Some a, hd_prev := Some a, hd_qlen := hd_qlen q + 1\<rparr>)\<rparr>)
     else do {
       n \<leftarrow> st_heap st a;
       let h = (st_heap st)(a \<mapsto> n\<lparr>s_prev := hd_prev q\<rparr>);
       l \<leftarrow> hd_prev q;
       ls \<leftarrow> h l;
       let h = h(l \<mapsto> ls\<lparr>s_next := Some a\<rparr>);
       Some (st\<lparr>st_heap := h, sessiontable := (sessiontable st)(hash :=
         q\<lparr>hd_prev := Some a, hd_qlen := hd_qlen q + 1\<rparr>)\<rparr>) })"

definition insertsession ::
    "(session heap \<Rightarrow> addr option) \<Rightarrow> session_key \<Rightarrow> int \<Rightarrow> session_state \<Rightarrow> (addr option \<times> session_state) option" where
  "insertsession alloc k qnum st = (
     let hash = session_bucket k; (lip, lport, sip, sport) = k in do {
     queuenum \<leftarrow> (if qnum = -1 then choose_queue st else Some (word_of_int qnum));
     (case alloc (st_heap st) of
        None \<Rightarrow> Some (None, st)
      | Some a \<Rightarrow> do {
          let n = zero_session\<lparr>s_head := hash, s_next := None, s_prev := None, client := None, server := None,
            s_queue := queuenum, largerIP := lip, largerIPPort := lport, largerIPAccelerator := 0,
            largerIPseq := 0, smallerIP := sip, smallerIPPort := sport, smallerIPseq := 0,
            smallerIPAccelerator := 0, deadcounter := 0, s_state := 0\<rparr>;
          st \<leftarrow> increment_worker_sessions (unat queuenum) (st\<lparr>st_heap := (st_heap st)(a \<mapsto> n)\<rparr>);
          st \<leftarrow> bucket_append hash a st;
          Some (Some a, st) }) })"

partial_function (option) find_from :: "session heap \<Rightarrow> session_key \<Rightarrow> addr option \<Rightarrow> addr option option" where
  [code]: "find_from h k cur = (case cur of
     None \<Rightarrow> Some None
   | Some a \<Rightarrow> do {
       s \<leftarrow> h a;
       (if session_key s = k then Some (Some a)
        else if s_next s \<noteq> None then find_from h k (s_next s)
        else Some None) })"

definition getsession :: "session_state \<Rightarrow> session_key \<Rightarrow> addr option option" where
  "getsession st k = (case hd_next (sessiontable st (session_bucket k)) of
     None \<Rightarrow> Some None
   | Some a \<Rightarrow> find_from (st_heap st) k (Some a))"

definition bucket_unlink :: "addr \<Rightarrow> session \<Rightarrow> session_state \<Rightarrow> session_state option" where
  "bucket_unlink a s st = (
     let lst = sessiontable st (s_head s); h = st_heap st in do {
     (lst, h) \<leftarrow> (case (s_next s, s_prev s) of
        (None, None) \<Rightarrow> Some (lst\<lparr>hd_next := None, hd_prev := None\<rparr>, h)
      | (Some n, None) \<Rightarrow> do {
          ns \<leftarrow> h n;
          Some (lst\<lparr>hd_next := Some n\<rparr>, h(n \<mapsto> ns\<lparr>s_prev := None\<rparr>)) }
      | (None, Some p) \<Rightarrow> do {
          ps \<leftarrow> h p;
          Some (lst\<lparr>hd_prev := Some p\<rparr>, h(p \<mapsto> ps\<lparr>s_next := None\<rparr>)) }
      | (Some n, Some p) \<Rightarrow> do {
          ps \<leftarrow> h p;
          let h = h(p \<mapsto> ps\<lparr>s_next := Some n\<rparr>);
          ns \<leftarrow> h n;
          Some (lst, h(n \<mapsto> ns\<lparr>s_prev := Some p\<rparr>)) });
     Some (st\<lparr>st_heap := h, sessiontable := (sessiontable st)(s_head s := lst\<lparr>hd_qlen := hd_qlen lst - 1\<rparr>)\<rparr>) })"

definition clearsession :: "addr option \<Rightarrow> session_state \<Rightarrow> session_state option" where
  "clearsession currentsession st = (case currentsession of
     None \<Rightarrow> Some st
   | Some a \<Rightarrow> do {
       s \<leftarrow> st_heap st a;
       st \<leftarrow> bucket_unlink a s st;
       st \<leftarrow> decrement_worker_sessions (unat (s_queue s)) st;
       Some (st\<lparr>st_heap := (st_heap st)(a := None)\<rparr>) })"

text \<open>Puts sockets in order: (larger address, its port, smaller address, its port).\<close>

definition sort_sockets :: "u32 \<Rightarrow> u16 \<Rightarrow> u32 \<Rightarrow> u16 \<Rightarrow> session_key" where
  "sort_sockets saddr source daddr dest =
     (if daddr < saddr then (saddr, source, daddr, dest) else (daddr, dest, saddr, source))"

definition initialize_sessiontable :: "session_state \<Rightarrow> session_state" where
  "initialize_sessiontable st = st\<lparr>sessiontable := (\<lambda>i. (sessiontable st i)\<lparr>hd_next := None, hd_prev := None\<rparr>)\<rparr>"

text \<open>\<open>free\<close> of a block that is not allocated is a fault.\<close>

definition free_session :: "addr \<Rightarrow> session heap \<Rightarrow> session heap option" where
  "free_session a h = (if h a = None then None else Some (h(a := None)))"

partial_function (option) freemem_loop :: "addr \<Rightarrow> list_head \<Rightarrow> session heap \<Rightarrow> (list_head \<times> session heap) option" where
  [code]: "freemem_loop cur lst h = (
     if hd_next lst = None then Some (lst, h) else do {
       s \<leftarrow> h cur;
       h \<leftarrow> (case s_prev s of
          None \<Rightarrow> Some h
        | Some p \<Rightarrow> do {
            h \<leftarrow> free_session p h;
            Some (h(cur \<mapsto> s\<lparr>s_prev := None\<rparr>)) });
       (case s_next s of
          Some n \<Rightarrow> freemem_loop n lst h
        | None \<Rightarrow> do {
            h \<leftarrow> free_session cur h;
            Some (lst\<lparr>hd_next := None, hd_prev := None\<rparr>, h) }) })"

definition freemem :: "list_head \<Rightarrow> session heap \<Rightarrow> (list_head \<times> session heap) option" where
  "freemem lst h = (case hd_next lst of None \<Rightarrow> Some (lst, h) | Some a \<Rightarrow> freemem_loop a lst h)"

definition clear_sessiontable :: "session_state \<Rightarrow> session_state option" where
  "clear_sessiontable = foldM (\<lambda>i st.
     if hd_next (sessiontable st (of_nat i)) \<noteq> None then do {
       (lst, h) \<leftarrow> freemem (sessiontable st (of_nat i)) (st_heap st);
       Some (st\<lparr>sessiontable := (sessiontable st)(of_nat i := lst), st_heap := h\<rparr>) }
     else Some st) [0..<65536]"

definition getsessionhead :: "session_state \<Rightarrow> u16 \<Rightarrow> list_head" where
  "getsessionhead st i = sessiontable st i"

section \<open>Updates of one session\<close>

text \<open>The fields of the IP and TCP headers these functions read, in network order.\<close>

record iphdr =
  ip_saddr :: u32
  ip_daddr :: u32

record tcphdr =
  th_seq :: u32

definition updateseq :: "u32 \<Rightarrow> iphdr option \<Rightarrow> tcphdr option \<Rightarrow> session option \<Rightarrow> int \<times> session option" where
  "updateseq lip iph tcph ts = (case (iph, tcph, ts) of
     (Some ip, Some th, Some s) \<Rightarrow>
       if lip \<noteq> 0 then
         (0, Some (if ip_saddr ip = lip then
            (if ntohl (th_seq th) \<noteq> largerIPseq s - 1 then s\<lparr>largerIPStartSEQ := ntohl (th_seq th)\<rparr> else s)
          else
            (if ntohl (th_seq th) \<noteq> smallerIPseq s - 1 then s\<lparr>smallerIPStartSEQ := ntohl (th_seq th)\<rparr> else s)))
       else (-1, ts)
   | _ \<Rightarrow> (-1, ts))"

text \<open>The session is read for a debugging message before it is tested for null.\<close>

definition sourceisclient :: "u32 \<Rightarrow> iphdr option \<Rightarrow> session option \<Rightarrow> bool \<Rightarrow> (int \<times> session option) option" where
  "sourceisclient lip iph ts issyn = do {
     s \<leftarrow> ts;
     Some (case iph of
        Some ip \<Rightarrow>
          if lip \<noteq> 0 then
            (0, Some (if (ip_saddr ip = lip \<and> issyn) \<or> (ip_daddr ip = lip \<and> \<not> issyn)
               then s\<lparr>client := Some LargerIP, server := Some SmallerIP\<rparr>
               else s\<lparr>client := Some SmallerIP, server := Some LargerIP\<rparr>))
          else (-1, ts)
      | None \<Rightarrow> (-1, ts)) }"

definition saveacceleratorid :: "u32 \<Rightarrow> u32 \<Rightarrow> iphdr option \<Rightarrow> session option \<Rightarrow> int \<times> session option" where
  "saveacceleratorid lip acceleratorID iph ts = (case (iph, ts) of
     (Some ip, Some s) \<Rightarrow>
       if lip \<noteq> 0 then
         (0, Some (if ip_saddr ip = lip then s\<lparr>largerIPAccelerator := acceleratorID\<rparr>
                   else s\<lparr>smallerIPAccelerator := acceleratorID\<rparr>))
       else (-1, ts)
   | _ \<Rightarrow> (-1, ts))"

definition updateseqnumber :: "u32 \<Rightarrow> iphdr option \<Rightarrow> tcphdr option \<Rightarrow> session option \<Rightarrow> int \<times> session option" where
  "updateseqnumber lip iph tcph ts = (case (iph, tcph, ts) of
     (Some ip, Some th, Some s) \<Rightarrow>
       if lip \<noteq> 0 then
         (0, Some (if ip_saddr ip = lip then s\<lparr>largerIPseq := ntohl (th_seq th)\<rparr>
                   else s\<lparr>smallerIPseq := ntohl (th_seq th)\<rparr>))
       else (-1, ts)
   | _ \<Rightarrow> (-1, ts))"

definition checkseqnumber :: "u32 \<Rightarrow> iphdr option \<Rightarrow> tcphdr option \<Rightarrow> session option \<Rightarrow> int" where
  "checkseqnumber lip iph tcph ts = (case (iph, tcph, ts) of
     (Some ip, Some th, Some s) \<Rightarrow>
       if lip \<noteq> 0 then
         (if ip_saddr ip = lip then (if ntohl (th_seq th) < largerIPseq s then 0 else 1)
          else (if ntohl (th_seq th) < smallerIPseq s then 0 else 1))
       else 0
   | _ \<Rightarrow> 0)"

end
