(* ===== verification/Session_Map.thy ===== *)
theory Session_Map
  imports Session_Table
begin

text \<open>
  What the session table holds, the contract of its operations as a locale, its interpretation on
  the operations of \<open>Session_Table\<close>, and the properties of the table.
\<close>

declare session_bucket.simps [simp del]

section \<open>The table invariant\<close>

definition bucket_ok :: "session heap \<Rightarrow> list_head \<Rightarrow> u16 \<Rightarrow> addr list \<Rightarrow> bool" where
  "bucket_ok h q i as \<longleftrightarrow> nchain s_next h (hd_next q) as \<and> pchain s_prev h None as \<and> distinct as \<and>
     head_ok q as \<and> (\<forall>a\<in>set as. \<exists>s. h a = Some s \<and> s_head s = i \<and> session_bucket (session_key s) = i)"

text \<open>A worker counts the sessions assigned to it.\<close>

definition assigned :: "session heap \<Rightarrow> nat \<Rightarrow> addr set" where
  "assigned h w = {a. \<exists>s. h a = Some s \<and> unat (s_queue s) = w}"

definition counters_ok :: "session heap \<Rightarrow> u32 list \<Rightarrow> bool" where
  "counters_ok h ws \<longleftrightarrow> (\<forall>w < length ws. ws ! w = of_nat (card (assigned h w))) \<and>
     (\<forall>a s. h a = Some s \<longrightarrow> unat (s_queue s) < length ws)"

definition table_ok :: "session_state \<Rightarrow> (u16 \<Rightarrow> addr list) \<Rightarrow> bool" where
  "table_ok st L \<longleftrightarrow> (\<forall>i. bucket_ok (st_heap st) (sessiontable st i) i (L i)) \<and>
     (\<forall>a s. st_heap st a = Some s \<longrightarrow> a \<in> set (L (s_head s))) \<and> finite (dom (st_heap st)) \<and>
     counters_ok (st_heap st) (worker_sessions st)"

definition unique_keys :: "session heap \<Rightarrow> bool" where
  "unique_keys h \<longleftrightarrow> (\<forall>a b s t. h a = Some s \<longrightarrow> h b = Some t \<longrightarrow> session_key s = session_key t \<longrightarrow> a = b)"

section \<open>Heaps that differ in links only\<close>

definition core :: "session \<Rightarrow> session" where
  "core s = s\<lparr>s_next := None, s_prev := None\<rparr>"

definition same_core :: "session heap \<Rightarrow> session heap \<Rightarrow> bool" where
  "same_core h h' \<longleftrightarrow> (\<forall>a. map_option core (h' a) = map_option core (h a))"

lemma core_links [simp]: "core (s\<lparr>s_next := x\<rparr>) = core s" "core (s\<lparr>s_prev := x\<rparr>) = core s"
  by (simp_all add: core_def)

lemma core_eq:
  assumes "core t = core s"
  shows "session_key t = session_key s" and "s_head t = s_head s" and "s_queue t = s_queue s"
  using assms by (cases s; cases t; simp add: core_def session_key_def)+

lemma same_core_refl [simp]: "same_core h h"
  by (simp add: same_core_def)

lemma same_coreD: "same_core h h' \<Longrightarrow> h' a = Some t \<Longrightarrow> \<exists>s. h a = Some s \<and> core t = core s"
  unfolding same_core_def by (metis map_option_eq_Some)

lemma same_core_sym: "same_core h h' \<Longrightarrow> same_core h' h"
  by (simp add: same_core_def)

lemma same_core_dom: "same_core h h' \<Longrightarrow> dom h' = dom h"
  using same_coreD same_core_sym by (auto simp: dom_def) blast+

lemma same_core_queue:
  "same_core h h' \<Longrightarrow> h' a = Some t \<Longrightarrow> \<exists>s. h a = Some s \<and> s_queue s = s_queue t"
  using same_coreD [of h h' a t] core_eq(3) by metis

lemma same_core_assigned: "same_core h h' \<Longrightarrow> assigned h' w = assigned h w"
proof -
  assume sc: "same_core h h'"
  have "assigned g' w \<subseteq> assigned g w" if gg: "same_core g g'" for g g'
  proof
    fix x assume "x \<in> assigned g' w"
    then obtain t where "g' x = Some t" "unat (s_queue t) = w" by (auto simp: assigned_def)
    then obtain s where "g x = Some s" "unat (s_queue s) = w" using same_core_queue [OF gg] by metis
    then show "x \<in> assigned g w" by (simp add: assigned_def)
  qed
  then show ?thesis using sc same_core_sym by blast
qed

lemma same_core_counters:
  assumes "same_core h h'" and "counters_ok h ws"
  shows "counters_ok h' ws"
proof -
  have "unat (s_queue t) < length ws" if "h' a = Some t" for a t
    using same_core_queue [OF assms(1) that] assms(2) by (metis counters_ok_def)
  then show ?thesis using assms same_core_assigned [OF assms(1)] by (simp add: counters_ok_def)
qed

lemma same_core_unique: "same_core h h' \<Longrightarrow> unique_keys h \<Longrightarrow> unique_keys h'"
  using same_coreD [of h h'] core_eq(1) unfolding unique_keys_def by metis

lemma bucket_ok_cong:
  assumes "\<forall>a\<in>set as. h' a = h a"
  shows "bucket_ok h' q i as = bucket_ok h q i as"
proof -
  have "nseg s_next h' p as r = nseg s_next h p as r" for p r
    using assms by (induction as arbitrary: p) (auto split: option.splits)
  moreover have "pchain s_prev h' p as = pchain s_prev h p as" for p
    using assms by (induction as arbitrary: p) (auto split: option.splits)
  ultimately show ?thesis using assms by (simp add: bucket_ok_def)
qed

lemma bucket_members_core:
  assumes "same_core h h'" and "\<forall>a\<in>set as. \<exists>s. h a = Some s \<and> s_head s = i \<and> session_bucket (session_key s) = i"
  shows "\<forall>a\<in>set as. \<exists>s. h' a = Some s \<and> s_head s = i \<and> session_bucket (session_key s) = i"
proof
  fix a assume "a \<in> set as"
  then obtain s where "h a = Some s" "s_head s = i" "session_bucket (session_key s) = i" using assms(2) by blast
  moreover then obtain t where "h' a = Some t" "core s = core t"
    using same_coreD [OF same_core_sym [OF assms(1)]] by blast
  ultimately show "\<exists>s. h' a = Some s \<and> s_head s = i \<and> session_bucket (session_key s) = i"
    using core_eq [of s t] by auto
qed

section \<open>Linking and unlinking\<close>

lemma bucket_append_ok:
  assumes b: "bucket_ok (st_heap st) (sessiontable st i) i as" and a: "a \<notin> set as" "st_heap st a = Some n"
    "s_next n = None" "s_prev n = None" "s_head n = i" "session_bucket (session_key n) = i"
    and len: "length as + 1 < 2 ^ 32"
  shows "\<exists>h q. bucket_append i a st = Some (st\<lparr>st_heap := h, sessiontable := (sessiontable st)(i := q)\<rparr>) \<and>
    bucket_ok h q i (as @ [a]) \<and> same_core (st_heap st) h \<and> (\<forall>b. b \<notin> insert a (set as) \<longrightarrow> h b = st_heap st b)"
proof (cases "as = []")
  case True
  define q where "q = (sessiontable st i)\<lparr>hd_next := Some a, hd_prev := Some a, hd_qlen := 1\<rparr>"
  have "bucket_append i a st = Some (st\<lparr>st_heap := st_heap st, sessiontable := (sessiontable st)(i := q)\<rparr>)"
    using b True by (simp add: bucket_append_def bucket_ok_def head_ok_def q_def)
  moreover have "bucket_ok (st_heap st) q i (as @ [a])"
    using True a by (simp add: bucket_ok_def head_ok_def q_def)
  ultimately show ?thesis by force
next
  case False
  let ?h = "st_heap st" and ?q = "sessiontable st i"
  have ch: "nchain s_next ?h (hd_next ?q) as" and pc: "pchain s_prev ?h None as" and d: "distinct as"
    and hk: "head_ok ?q as" using b by (auto simp: bucket_ok_def)
  then have prev: "hd_prev ?q = Some (last as)" and "hd_qlen ?q \<noteq> 0"
    using False qlen_zero by (auto simp: head_ok_def)
  obtain l where l: "?h (last as) = Some l" using nseg_last [OF ch False] by blast
  have ne: "last as \<noteq> a" using a(1) False by (metis last_in_set)
  define n' where "n' = n\<lparr>s_prev := Some (last as)\<rparr>"
  define h1 where "h1 = ?h(a \<mapsto> n')"
  define h2 where "h2 = h1(last as \<mapsto> l\<lparr>s_next := Some a\<rparr>)"
  define q where "q = ?q\<lparr>hd_prev := Some a, hd_qlen := hd_qlen ?q + 1\<rparr>"
  have run: "bucket_append i a st = Some (st\<lparr>st_heap := h2, sessiontable := (sessiontable st)(i := q)\<rparr>)"
    using \<open>hd_qlen ?q \<noteq> 0\<close> a(2) l ne prev by (simp add: bucket_append_def Let_def h1_def h2_def n'_def q_def)
  have "nchain s_next h1 (hd_next ?q) as" using ch a(1) by (simp add: h1_def)
  from nchain_snoc [OF this False d a(1), of "l\<lparr>s_next := Some a\<rparr>" n'] a(3)
  have nch: "nchain s_next h2 (hd_next q) (as @ [a])" by (simp add: h2_def h1_def n'_def q_def)
  have "pchain s_prev h1 None (as @ [a])"
    using pc a(1) False by (simp add: pchain_append h1_def n'_def)
  then have pch: "pchain s_prev h2 None (as @ [a])"
    using l ne by (simp add: h2_def h1_def pchain_same_prev)
  have sc: "same_core ?h h2" using a(2) l ne by (simp add: same_core_def h2_def h1_def n'_def)
  have mem: "\<forall>x\<in>set (as @ [a]). \<exists>s. ?h x = Some s \<and> s_head s = i \<and> session_bucket (session_key s) = i"
    using b a by (auto simp: bucket_ok_def)
  have "bucket_ok h2 q i (as @ [a])"
    unfolding bucket_ok_def using nch pch d a(1) hk len bucket_members_core [OF sc mem]
    by (simp add: head_ok_def q_def)
  moreover have "h2 b = ?h b" if "b \<notin> insert a (set as)" for b
  proof -
    have "b \<noteq> last as" using that False by auto
    with that show ?thesis by (simp add: h2_def h1_def)
  qed
  ultimately show ?thesis using run sc by blast
qed

lemma bucket_links:
  assumes "bucket_ok h q i (as @ a # bs)" and "h a = Some s"
  shows "s_next s = (case bs of [] \<Rightarrow> None | b # _ \<Rightarrow> Some b)"
    and "s_prev s = (if as = [] then None else Some (last as))"
proof -
  have "nchain s_next h (s_next s) bs" using assms by (auto simp: bucket_ok_def nseg_append)
  then show "s_next s = (case bs of [] \<Rightarrow> None | b # _ \<Rightarrow> Some b)" using nchain_hd by blast
  show "s_prev s = (if as = [] then None else Some (last as))"
    using assms by (simp add: bucket_ok_def pchain_append split: if_splits)
qed

text \<open>What the four cases of \<open>clearsession\<close> do to the links, in one form.\<close>

definition unlink_prev :: "session \<Rightarrow> addr list \<Rightarrow> session heap \<Rightarrow> session heap" where
  "unlink_prev s as h = (if as = [] then h else h(last as := map_option (\<lambda>l. l\<lparr>s_next := s_next s\<rparr>) (h (last as))))"

definition unlink_next :: "session \<Rightarrow> addr list \<Rightarrow> session heap \<Rightarrow> session heap" where
  "unlink_next s bs h = (case bs of [] \<Rightarrow> h | b # _ \<Rightarrow> h(b := map_option (\<lambda>m. m\<lparr>s_prev := s_prev s\<rparr>) (h b)))"

definition unlink_head :: "session \<Rightarrow> addr list \<Rightarrow> addr list \<Rightarrow> list_head \<Rightarrow> list_head" where
  "unlink_head s as bs q = q\<lparr>hd_next := (if as = [] then s_next s else hd_next q),
     hd_prev := (if bs = [] then s_prev s else hd_prev q), hd_qlen := hd_qlen q - 1\<rparr>"

lemma bucket_unlink_eval:
  assumes b: "bucket_ok (st_heap st) (sessiontable st i) i (as @ a # bs)" and a: "st_heap st a = Some s"
  shows "bucket_unlink a s st = Some (st\<lparr>st_heap := unlink_next s bs (unlink_prev s as (st_heap st)),
    sessiontable := (sessiontable st)(i := unlink_head s as bs (sessiontable st i))\<rparr>)"
proof -
  have i: "s_head s = i" using b a by (auto simp: bucket_ok_def)
  have d: "distinct (as @ a # bs)" using b by (simp add: bucket_ok_def)
  have al: "\<exists>n. st_heap st x = Some n" if "x \<in> set (as @ a # bs)" for x
    using b that by (auto simp: bucket_ok_def)
  note lk = bucket_links [OF b a]
  show ?thesis
  proof (cases bs)
    case Nil
    then show ?thesis using lk i al [of "last as"]
      by (cases "as = []") (auto simp: bucket_unlink_def Let_def unlink_next_def unlink_prev_def unlink_head_def)
  next
    case (Cons b bs')
    then obtain m where m: "st_heap st b = Some m" using al [of b] by auto
    show ?thesis
    proof (cases "as = []")
      case True
      then show ?thesis using lk i m Cons
        by (simp add: bucket_unlink_def Let_def unlink_next_def unlink_prev_def unlink_head_def)
    next
      case False
      then obtain l where l: "st_heap st (last as) = Some l" using al [of "last as"] by auto
      have "last as \<noteq> b" using d False last_in_set [of as] Cons by auto
      then show ?thesis using lk i m l False Cons
        by (simp add: bucket_unlink_def Let_def unlink_next_def unlink_prev_def unlink_head_def)
    qed
  qed
qed

lemma bucket_unlink_ok:
  assumes b: "bucket_ok h q i (as @ a # bs)" and a: "h a = Some s"
    and h': "h' = unlink_next s bs (unlink_prev s as h)"
  shows "bucket_ok h' (unlink_head s as bs q) i (as @ bs)" and "same_core h h'"
    and "\<forall>x. x \<notin> set (as @ bs) \<longrightarrow> h' x = h x"
proof -
  have d: "distinct (as @ a # bs)" and ch: "nchain s_next h (hd_next q) (as @ a # bs)"
    and pc: "pchain s_prev h None (as @ a # bs)" and hk: "head_ok q (as @ a # bs)"
    and mem: "\<forall>x\<in>set (as @ bs). \<exists>s. h x = Some s \<and> s_head s = i \<and> session_bucket (session_key s) = i"
    using b by (auto simp: bucket_ok_def)
  note lk = bucket_links [OF b a]
  define h1 where "h1 = unlink_prev s as h"
  define p where "p = (if as = [] then s_next s else hd_next q)"
  have n1: "nchain s_next h1 p (as @ bs)"
  proof (cases "as = []")
    case True
    then show ?thesis using ch a by (simp add: h1_def p_def unlink_prev_def)
  next
    case False
    then obtain l where l: "h (last as) = Some l" using nseg_alloc [OF ch, of "last as"] by auto
    then show ?thesis using nchain_unlink [OF ch False d a, of "l\<lparr>s_next := s_next s\<rparr>"] False
      by (simp add: h1_def p_def unlink_prev_def)
  qed
  have p1: "pchain s_prev h1 None (as @ a # bs)"
    using pc nseg_alloc [OF ch, of "last as"] by (auto simp: h1_def unlink_prev_def pchain_same_prev)
  have a1: "h1 a = Some s" using a d by (auto simp: h1_def unlink_prev_def)
  have sc1: "same_core h h1" by (simp add: same_core_def h1_def unlink_prev_def option.map_comp comp_def)
  have sc: "same_core h1 h'" by (cases bs) (auto simp: same_core_def h' h1_def unlink_next_def option.map_comp comp_def)
  show scc: "same_core h h'" using sc1 sc by (simp add: same_core_def)
  have nch: "nchain s_next h' p (as @ bs) \<and> pchain s_prev h' None (as @ bs)"
  proof (cases bs)
    case Nil
    then show ?thesis using n1 p1 by (simp add: h' h1_def [symmetric] unlink_next_def pchain_append)
  next
    case (Cons b bs')
    then obtain m where m: "h1 b = Some m" using nseg_alloc [OF n1, of b] by auto
    have "h' = h1(b \<mapsto> m\<lparr>s_prev := s_prev s\<rparr>)" using Cons m by (simp add: h' h1_def [symmetric] unlink_next_def)
    then show ?thesis
      using n1 p1 d a1 m Cons pchain_unlink [of s_prev h1 None as a b bs' s "m\<lparr>s_prev := s_prev s\<rparr>"]
      by (simp add: nseg_same_next)
  qed
  have "head_ok (unlink_head s as bs q) (as @ bs)"
    using hk lk by (cases "bs = []") (auto simp: head_ok_def unlink_head_def)
  then show "bucket_ok h' (unlink_head s as bs q) i (as @ bs)"
    unfolding bucket_ok_def using nch d bucket_members_core [OF scc mem]
    by (simp add: unlink_head_def p_def)
  show "\<forall>x. x \<notin> set (as @ bs) \<longrightarrow> h' x = h x"
    by (cases bs) (auto simp: h' unlink_next_def unlink_prev_def)
qed

section \<open>Lookup\<close>

definition holds :: "session heap \<Rightarrow> session_key \<Rightarrow> addr \<Rightarrow> bool" where
  "holds h k a \<longleftrightarrow> (case h a of Some s \<Rightarrow> session_key s = k | None \<Rightarrow> False)"

lemma holds_Some: "h a = Some s \<Longrightarrow> holds h k a \<longleftrightarrow> session_key s = k"
  by (simp add: holds_def)

lemma find_from_ok: "nchain s_next h p as \<Longrightarrow> find_from h k p = Some (find (holds h k) as)"
proof (induction as arbitrary: p)
  case Nil
  then show ?case by (simp add: find_from.simps)
next
  case (Cons a as)
  then obtain s where s: "p = Some a" "h a = Some s" "nchain s_next h (s_next s) as"
    by (auto split: option.splits)
  show ?case
  proof (cases "s_next s")
    case None
    then show ?thesis using s by (subst find_from.simps) (auto simp: holds_Some)
  next
    case (Some b)
    then show ?thesis using s Cons.IH [OF s(3)] by (subst find_from.simps) (auto simp: holds_Some)
  qed
qed

lemma getsession_eval:
  assumes "table_ok st L"
  shows "getsession st k = Some (find (holds (st_heap st) k) (L (session_bucket k)))"
proof -
  have "nchain s_next (st_heap st) (hd_next (sessiontable st (session_bucket k))) (L (session_bucket k))"
    using assms by (simp add: table_ok_def bucket_ok_def)
  from find_from_ok [OF this, of k] nchain_hd [OF this] show ?thesis
    by (auto simp: getsession_def split: option.splits list.splits)
qed

lemma bucket_member:
  assumes "table_ok st L" and "a \<in> set (L i)"
  shows "\<exists>s. st_heap st a = Some s \<and> s_head s = i \<and> session_bucket (session_key s) = i"
  using assms unfolding table_ok_def bucket_ok_def by blast

lemma live_in_bucket: "table_ok st L \<Longrightarrow> st_heap st a = Some s \<Longrightarrow> s_head s = i \<Longrightarrow> a \<in> set (L i)"
  by (auto simp: table_ok_def)

lemma holds_bucket:
  assumes "table_ok st L" and "holds (st_heap st) k a"
  shows "a \<in> set (L (session_bucket k))"
proof -
  obtain s where s: "st_heap st a = Some s" "session_key s = k"
    using assms(2) by (auto simp: holds_def split: option.splits)
  then have "a \<in> set (L (s_head s))" using assms(1) by (auto simp: table_ok_def)
  moreover then have "session_bucket (session_key s) = s_head s"
    using assms(1) s(1) by (fastforce simp: table_ok_def bucket_ok_def)
  ultimately show ?thesis using s(2) by simp
qed

lemma getsession_iff:
  assumes "table_ok st L" and "unique_keys (st_heap st)"
  shows "\<exists>r. getsession st k = Some r \<and> (\<forall>a. r = Some a \<longleftrightarrow> holds (st_heap st) k a)"
proof -
  let ?r = "find (holds (st_heap st) k) (L (session_bucket k))"
  have uniq: "holds (st_heap st) k a \<Longrightarrow> holds (st_heap st) k b \<Longrightarrow> a = b" for a b
    using assms(2) by (auto simp: holds_def unique_keys_def split: option.splits)
  have "?r = Some a \<longleftrightarrow> holds (st_heap st) k a" for a
  proof
    assume "?r = Some a"
    then show "holds (st_heap st) k a" by (auto simp: find_Some_iff)
  next
    assume a: "holds (st_heap st) k a"
    then have "?r \<noteq> None" using holds_bucket [OF assms(1), of k a] by (auto simp: find_None_iff)
    then obtain b where "?r = Some b" by auto
    moreover then have "holds (st_heap st) k b" by (auto simp: find_Some_iff)
    ultimately show "?r = Some a" using uniq a by simp
  qed
  then show ?thesis using getsession_eval [OF assms(1)] by blast
qed

section \<open>Insertion\<close>

lemma choose_queue_ok:
  assumes "unat (numworkers st) \<le> length (worker_sessions st)" and "worker_sessions st \<noteq> []"
  shows "\<exists>q. choose_queue st = Some q \<and> unat q < length (worker_sessions st) \<and>
    (\<forall>i < unat (numworkers st). worker_sessions st ! unat q \<le> worker_sessions st ! i)"
proof -
  let ?ws = "worker_sessions st"
  let ?f = "\<lambda>i q. do { a \<leftarrow> get_worker_sessions st (unat q); b \<leftarrow> get_worker_sessions st i;
     Some (if b < a then of_nat i else q :: u8) }"
  have "n \<le> unat (numworkers st) \<Longrightarrow> \<exists>q. foldM ?f [0..<n] 0 = Some q \<and> unat q < length ?ws \<and>
    (\<forall>i < n. ?ws ! unat q \<le> ?ws ! i)" for n
  proof (induction n)
    case 0
    then show ?case using assms(2) by simp
  next
    case (Suc n)
    then obtain q where q: "foldM ?f [0..<n] 0 = Some q" "unat q < length ?ws" "\<forall>i < n. ?ws ! unat q \<le> ?ws ! i"
      by auto
    have "unat (numworkers st) < 2 ^ LENGTH(8)" by (rule unsigned_less)
    then have n: "n < length ?ws" "n < 256" using Suc.prems assms(1) by auto
    then have un: "unat (of_nat n :: u8) = n" by (simp add: unat_of_nat)
    define q' where "q' = (if ?ws ! n < ?ws ! unat q then of_nat n else q)"
    have "foldM ?f [0..<Suc n] 0 = Some q'"
      using q n by (simp add: foldM_append get_worker_sessions_def q'_def)
    moreover have "\<forall>i < Suc n. ?ws ! unat q' \<le> ?ws ! i"
      using q(3) un by (auto simp: q'_def less_Suc_eq)
    moreover have "unat q' < length ?ws" using q(2) n un by (simp add: q'_def)
    ultimately show ?case by blast
  qed
  from this [of "unat (numworkers st)"] show ?thesis by (simp add: choose_queue_def)
qed

definition new_session :: "session_key \<Rightarrow> u8 \<Rightarrow> session" where
  "new_session k q = zero_session\<lparr>s_head := session_bucket k, s_queue := q, largerIP := fst k,
     largerIPPort := fst (snd k), smallerIP := fst (snd (snd k)), smallerIPPort := snd (snd (snd k))\<rparr>"

lemma new_session_simps [simp]:
  "session_key (new_session k q) = k" "s_head (new_session k q) = session_bucket k" "s_queue (new_session k q) = q"
  "s_next (new_session k q) = None" "s_prev (new_session k q) = None"
  by (simp_all add: new_session_def session_key_def zero_session_def)

lemma counters_insert:
  assumes "counters_ok h ws" and "h a = None" and "finite (dom h)" and "unat (s_queue n) < length ws"
  shows "counters_ok (h(a \<mapsto> n)) (ws[unat (s_queue n) := ws ! unat (s_queue n) + 1])"
proof -
  have as: "assigned (h(a \<mapsto> n)) w = (if w = unat (s_queue n) then insert a (assigned h w) else assigned h w)" for w
    using assms(2) by (auto simp: assigned_def)
  have fin: "finite (assigned h w)" for w
    using assms(3) by (rule rev_finite_subset) (auto simp: assigned_def)
  have "a \<notin> assigned h w" for w using assms(2) by (simp add: assigned_def)
  then show ?thesis using assms(1,4) fin by (auto simp: counters_ok_def as nth_list_update)
qed

lemma counters_delete:
  assumes "counters_ok h ws" and "h a = Some s" and "finite (dom h)"
  shows "counters_ok (h(a := None)) (ws[unat (s_queue s) := ws ! unat (s_queue s) - 1])"
proof -
  have as: "assigned (h(a := None)) w = assigned h w - {a}" for w
    by (auto simp: assigned_def)
  have fin: "finite (assigned h w)" for w
    using assms(3) by (rule rev_finite_subset) (auto simp: assigned_def)
  have mem: "a \<in> assigned h w \<longleftrightarrow> w = unat (s_queue s)" for w using assms(2) by (auto simp: assigned_def)
  have "(of_nat (card (assigned h w - {a})) :: u32) =
      (if w = unat (s_queue s) then of_nat (card (assigned h w)) - 1 else of_nat (card (assigned h w)))" for w
    using fin [of w] mem [of w] card_gt_0_iff [of "assigned h w"]
    by (auto simp: card_Diff_singleton of_nat_diff)
  then show ?thesis using assms(1,2) by (auto simp: counters_ok_def as nth_list_update)
qed

lemma bucket_small:
  assumes "table_ok st L"
  shows "length (L i) \<le> card (dom (st_heap st))"
proof -
  have "set (L i) \<subseteq> dom (st_heap st)" using bucket_member [OF assms] by blast
  moreover have "distinct (L i)" "finite (dom (st_heap st))" using assms by (auto simp: table_ok_def bucket_ok_def)
  ultimately show ?thesis by (metis card_mono distinct_card)
qed

lemma bucket_disjoint:
  assumes "table_ok st L" and "i \<noteq> j" and "a \<in> set (L i)"
  shows "a \<notin> set (L j)"
  using bucket_member [OF assms(1)] assms(2,3) by (metis option.inject)

text \<open>
  Changing one bucket: the new bucket is well-formed, the heap agrees with the old one up to links
  and outside the bucket, and one session was added or removed.
\<close>

lemma table_ok_step:
  assumes ok: "table_ok st L" and b: "bucket_ok h q i bs"
    and out: "\<forall>j x. j \<noteq> i \<longrightarrow> x \<in> set (L j) \<longrightarrow> h x = st_heap st x"
    and mem: "\<forall>x s. h x = Some s \<longrightarrow> x \<in> set (if s_head s = i then bs else L (s_head s))"
    and fin: "finite (dom h)" and cnt: "counters_ok h ws"
    and st': "st' = st\<lparr>st_heap := h, sessiontable := (sessiontable st)(i := q), worker_sessions := ws\<rparr>"
  shows "table_ok st' (L(i := bs))"
proof -
  have "bucket_ok h (sessiontable st j) j (L j)" if "j \<noteq> i" for j
    using bucket_ok_cong [of "L j" h "st_heap st"] out that ok by (auto simp: table_ok_def)
  then show ?thesis using b mem fin cnt by (auto simp: table_ok_def st')
qed

definition valid_queue :: "session_state \<Rightarrow> int \<Rightarrow> bool" where
  "valid_queue st qnum \<longleftrightarrow> worker_sessions st \<noteq> [] \<and> unat (numworkers st) \<le> length (worker_sessions st) \<and>
     (qnum = -1 \<or> unat (word_of_int qnum :: u8) < length (worker_sessions st))"

lemma insertsession_ok:
  assumes ok: "table_ok st L" and q: "valid_queue st qnum" and a: "alloc (st_heap st) = Some a" "st_heap st a = None"
    and room: "card (dom (st_heap st)) + 1 < 2 ^ 32"
  shows "\<exists>st' L' n. insertsession alloc k qnum st = Some (Some a, st') \<and> table_ok st' L' \<and>
    session_key n = k \<and> same_core ((st_heap st)(a \<mapsto> n)) (st_heap st') \<and>
    length (worker_sessions st') = length (worker_sessions st) \<and> numworkers st' = numworkers st"
proof -
  let ?i = "session_bucket k" and ?ws = "worker_sessions st"
  obtain qn where qn: "(if qnum = -1 then choose_queue st else Some (word_of_int qnum)) = Some qn" "unat qn < length ?ws"
    using q choose_queue_ok [of st] by (cases "qnum = -1") (auto simp: valid_queue_def)
  define n where "n = new_session k qn"
  define ws where "ws = ?ws[unat qn := ?ws ! unat qn + 1]"
  define st1 where "st1 = st\<lparr>st_heap := (st_heap st)(a \<mapsto> n), worker_sessions := ws\<rparr>"
  have notin: "a \<notin> set (L j)" for j using bucket_member [OF ok, of a j] a(2) by auto
  have b1: "bucket_ok (st_heap st1) (sessiontable st1 ?i) ?i (L ?i)"
    using ok notin bucket_ok_cong [of "L ?i" "st_heap st1" "st_heap st"] by (auto simp: table_ok_def st1_def)
  have "length (L ?i) + 1 < 2 ^ 32" using bucket_small [OF ok, of ?i] room by simp
  from bucket_append_ok [OF b1 notin _ _ _ _ _ this, of n] obtain h hd' where
    app: "bucket_append ?i a st1 = Some (st1\<lparr>st_heap := h, sessiontable := (sessiontable st1)(?i := hd')\<rparr>)"
    "bucket_ok h hd' ?i (L ?i @ [a])" "same_core (st_heap st1) h"
    "\<forall>b. b \<notin> insert a (set (L ?i)) \<longrightarrow> h b = st_heap st1 b"
    by (auto simp: st1_def n_def)
  define st' where "st' = st1\<lparr>st_heap := h, sessiontable := (sessiontable st1)(?i := hd')\<rparr>"
  have run: "insertsession alloc k qnum st = Some (Some a, st')"
    using qn a(1) app(1)
    by (cases k) (simp add: insertsession_def increment_worker_sessions_def get_worker_sessions_def
        Let_def n_def new_session_def st1_def ws_def st'_def zero_session_def)
  have "finite (dom (st_heap st))" "counters_ok (st_heap st) ?ws" using ok by (auto simp: table_ok_def)
  then have cnt: "counters_ok h ws" and fin: "finite (dom h)"
    using same_core_counters [OF app(3)] counters_insert [of "st_heap st" ?ws a n] a(2) qn(2)
      same_core_dom [OF app(3)] by (simp_all add: st1_def ws_def n_def)
  have mem: "x \<in> set (if s_head s = ?i then L ?i @ [a] else L (s_head s))" if hx: "h x = Some s" for x s
  proof -
    obtain t where "st_heap st1 x = Some t" "s_head t = s_head s"
      using same_coreD [OF app(3) hx] core_eq(2) by metis
    then show ?thesis using live_in_bucket [OF ok, of x t "s_head s"] by (auto simp: st1_def n_def split: if_splits)
  qed
  have out: "\<forall>j x. j \<noteq> ?i \<longrightarrow> x \<in> set (L j) \<longrightarrow> h x = st_heap st x"
    using app(4) notin bucket_disjoint [OF ok] by (fastforce simp: st1_def)
  have "table_ok st' (L(?i := L ?i @ [a]))"
    by (rule table_ok_step [OF ok app(2) out _ fin cnt]) (use mem in \<open>auto simp: st'_def st1_def\<close>)
  moreover have "same_core ((st_heap st)(a \<mapsto> n)) (st_heap st')" using app(3) by (simp add: st'_def st1_def)
  moreover have "length (worker_sessions st') = length ?ws" "numworkers st' = numworkers st" "session_key n = k"
    by (simp_all add: n_def st'_def st1_def ws_def)
  ultimately show ?thesis using run by blast
qed

lemma clearsession_unlinks:
  assumes ok: "table_ok st L" and s: "st_heap st a = Some s" and L: "L (s_head s) = as @ a # bs"
  shows "\<exists>st'. clearsession (Some a) st = Some st' \<and> table_ok st' (L(s_head s := as @ bs)) \<and>
    same_core ((st_heap st)(a := None)) (st_heap st') \<and>
    length (worker_sessions st') = length (worker_sessions st) \<and> numworkers st' = numworkers st"
proof -
  let ?i = "s_head s" and ?ws = "worker_sessions st"
  have b: "bucket_ok (st_heap st) (sessiontable st ?i) ?i (as @ a # bs)" using ok L by (metis table_ok_def)
  define h where "h = unlink_next s bs (unlink_prev s as (st_heap st))"
  define q where "q = unlink_head s as bs (sessiontable st ?i)"
  note un = bucket_unlink_ok [OF b s h_def, folded q_def]
  have d: "a \<notin> set (as @ bs)" using b by (simp add: bucket_ok_def)
  define h' where "h' = h(a := None)"
  define ws where "ws = ?ws[unat (s_queue s) := ?ws ! unat (s_queue s) - 1]"
  define st' where "st' = st\<lparr>st_heap := h', sessiontable := (sessiontable st)(?i := q), worker_sessions := ws\<rparr>"
  have cnt0: "counters_ok (st_heap st) ?ws" "finite (dom (st_heap st))" using ok by (auto simp: table_ok_def)
  then have "unat (s_queue s) < length ?ws" using s by (auto simp: counters_ok_def)
  then have run: "clearsession (Some a) st = Some st'"
    using s bucket_unlink_eval [OF b s]
    by (simp add: clearsession_def decrement_worker_sessions_def get_worker_sessions_def h_def [symmetric]
        q_def [symmetric] h'_def ws_def st'_def)
  have sc: "same_core ((st_heap st)(a := None)) h'" using un(2) by (simp add: same_core_def h'_def)
  have cnt: "counters_ok h' ws" and fin: "finite (dom h')"
    using same_core_counters [OF sc] counters_delete [OF cnt0(1) s cnt0(2)] same_core_dom [OF sc] cnt0(2)
    by (simp_all add: ws_def)
  have b': "bucket_ok h' q ?i (as @ bs)"
    using un(1) d bucket_ok_cong [of "as @ bs" h' h] by (auto simp: h'_def)
  have mem: "x \<in> set (if s_head t = ?i then as @ bs else L (s_head t))" if hx: "h' x = Some t" for x t
  proof -
    obtain u where "((st_heap st)(a := None)) x = Some u" "s_head u = s_head t"
      using same_coreD [OF sc hx] core_eq(2) by metis
    then show ?thesis using live_in_bucket [OF ok, of x u "s_head t"] L by (auto split: if_splits)
  qed
  have out: "\<forall>j x. j \<noteq> ?i \<longrightarrow> x \<in> set (L j) \<longrightarrow> h' x = st_heap st x"
    using un(3) bucket_disjoint [OF ok] L by (fastforce simp: h'_def)
  have "table_ok st' (L(?i := as @ bs))"
    by (rule table_ok_step [OF ok b' out _ fin cnt]) (use mem in \<open>auto simp: st'_def\<close>)
  moreover have "length (worker_sessions st') = length ?ws" "numworkers st' = numworkers st" "st_heap st' = h'"
    by (simp_all add: st'_def ws_def)
  ultimately show ?thesis using run sc by blast
qed

lemma clearsession_ok:
  assumes ok: "table_ok st L" and s: "st_heap st a = Some s"
  shows "\<exists>st' L'. clearsession (Some a) st = Some st' \<and> table_ok st' L' \<and>
    same_core ((st_heap st)(a := None)) (st_heap st') \<and>
    length (worker_sessions st') = length (worker_sessions st) \<and> numworkers st' = numworkers st"
proof -
  have "a \<in> set (L (s_head s))" using ok s by (auto simp: table_ok_def)
  then obtain as bs where "L (s_head s) = as @ a # bs" by (metis split_list)
  from clearsession_unlinks [OF ok s this] show ?thesis by blast
qed

text \<open>Changing fields of a session that the table does not use keeps the table.\<close>

definition same_place :: "session \<Rightarrow> session \<Rightarrow> bool" where
  "same_place s s' \<longleftrightarrow> s_next s' = s_next s \<and> s_prev s' = s_prev s \<and> s_head s' = s_head s \<and>
     session_key s' = session_key s \<and> s_queue s' = s_queue s"

definition put_heap :: "addr \<Rightarrow> session \<Rightarrow> session_state \<Rightarrow> session_state" where
  "put_heap a s' st = st\<lparr>st_heap := (st_heap st)(a \<mapsto> s')\<rparr>"

lemma table_ok_put:
  assumes ok: "table_ok st L" and a: "st_heap st a = Some s" and p: "same_place s s'"
  shows "table_ok (put_heap a s' st) L"
proof -
  let ?h = "(st_heap st)(a \<mapsto> s')"
  have "bucket_ok ?h q i as" if "bucket_ok (st_heap st) q i as" for q i as
    using that a p nseg_same_next [of "st_heap st" a s s_next s'] pchain_same_prev [of "st_heap st" a s s_prev s']
    by (auto simp: bucket_ok_def same_place_def)
  moreover have "assigned ?h w = assigned (st_heap st) w" for w
    using a p by (auto simp: assigned_def same_place_def)
  then have "counters_ok ?h ws" if "counters_ok (st_heap st) ws" for ws
    using that a p by (auto simp: counters_ok_def same_place_def)
  moreover have "dom ?h = dom (st_heap st)" using a by auto
  ultimately show ?thesis using ok a p by (auto simp: table_ok_def put_heap_def same_place_def)
qed

section \<open>The contract of the table\<close>

text \<open>
  A store of values under keys.  The clients use it in two ways: the fetcher finds the entry of a
  key and makes one when there is none, and removes the entry of a connection that was reset or
  timed out.  The client argument \<open>q\<close> of an insertion does not matter to the contract.
\<close>

definition track :: "('s \<Rightarrow> 'k \<Rightarrow> 'v option option) \<Rightarrow> ('q \<Rightarrow> 'k \<Rightarrow> 's \<Rightarrow> ('v option \<times> 's) option) \<Rightarrow>
    'q \<Rightarrow> 'k \<Rightarrow> 's \<Rightarrow> ('v option \<times> 's) option" where
  "track get ins q k s = do {
     r \<leftarrow> get s k;
     (case r of Some v \<Rightarrow> Some (Some v, s) | None \<Rightarrow> ins q k s) }"

definition forget :: "('s \<Rightarrow> 'k \<Rightarrow> 'v option option) \<Rightarrow> ('v option \<Rightarrow> 's \<Rightarrow> 's option) \<Rightarrow> 'k \<Rightarrow> 's \<Rightarrow> 's option" where
  "forget get del k s = do {
     r \<leftarrow> get s k;
     del r s }"

datatype ('k, 'q) key_op = Track 'q 'k | Forget 'k

fun live_keys :: "('k, 'q) key_op list \<Rightarrow> 'k set \<Rightarrow> 'k set" where
  "live_keys [] K = K"
| "live_keys (Track q k # ops) K = live_keys ops (insert k K)"
| "live_keys (Forget k # ops) K = live_keys ops (K - {k})"

fun key_run :: "('s \<Rightarrow> 'k \<Rightarrow> 'v option option) \<Rightarrow> ('q \<Rightarrow> 'k \<Rightarrow> 's \<Rightarrow> ('v option \<times> 's) option) \<Rightarrow>
    ('v option \<Rightarrow> 's \<Rightarrow> 's option) \<Rightarrow> ('k, 'q) key_op list \<Rightarrow> 's \<Rightarrow> 's option" where
  "key_run get ins del [] s = Some s"
| "key_run get ins del (Track q k # ops) s = track get ins q k s \<bind> (\<lambda>(v, s). key_run get ins del ops s)"
| "key_run get ins del (Forget k # ops) s = forget get del k s \<bind> key_run get ins del ops"

locale keyed_store =
  fixes inv :: "'s \<Rightarrow> bool"
    and spare :: "'s \<Rightarrow> nat"
    and okq :: "'q \<Rightarrow> bool"
    and get :: "'s \<Rightarrow> 'k \<Rightarrow> 'v option option"
    and ins :: "'q \<Rightarrow> 'k \<Rightarrow> 's \<Rightarrow> ('v option \<times> 's) option"
    and del :: "'v option \<Rightarrow> 's \<Rightarrow> 's option"
  assumes get_total: "inv s \<Longrightarrow> \<exists>r. get s k = Some r"
    and ins_law: "inv s \<Longrightarrow> okq q \<Longrightarrow> 0 < spare s \<Longrightarrow> get s k = Some None \<Longrightarrow>
      \<exists>v s'. ins q k s = Some (Some v, s') \<and> inv s' \<and> spare s \<le> Suc (spare s') \<and>
        (\<forall>k'. get s' k' = (if k' = k then Some (Some v) else get s k'))"
    and del_law: "inv s \<Longrightarrow> get s k = Some (Some v) \<Longrightarrow>
      \<exists>s'. del (Some v) s = Some s' \<and> inv s' \<and> spare s \<le> spare s' \<and>
        (\<forall>k'. get s' k' = (if k' = k then Some None else get s k'))"
    and del_null: "del None s = Some s"
begin

lemma track_ok:
  assumes "inv s" and "okq q" and "0 < spare s"
  shows "\<exists>v s'. track get ins q k s = Some (Some v, s') \<and> inv s' \<and> spare s \<le> Suc (spare s') \<and>
    get s' k = Some (Some v) \<and> (\<forall>k'. k' \<noteq> k \<or> get s k \<noteq> Some None \<longrightarrow> get s' k' = get s k')"
proof -
  obtain r where r: "get s k = Some r" using get_total assms(1) by blast
  show ?thesis
  proof (cases r)
    case None
    with ins_law [OF assms, of k] r show ?thesis by (auto simp: track_def)
  next
    case (Some v)
    then show ?thesis using r assms(1) by (auto simp: track_def)
  qed
qed

lemma forget_ok:
  assumes "inv s"
  shows "\<exists>s'. forget get del k s = Some s' \<and> inv s' \<and> spare s \<le> spare s' \<and>
    get s' k = Some None \<and> (\<forall>k'. k' \<noteq> k \<longrightarrow> get s' k' = get s k')"
proof -
  obtain r where r: "get s k = Some r" using get_total assms by blast
  show ?thesis
  proof (cases r)
    case None
    then show ?thesis using r assms del_null by (auto simp: forget_def)
  next
    case (Some v)
    with del_law [OF assms, of k v] r show ?thesis by (auto simp: forget_def)
  qed
qed

definition present :: "'s \<Rightarrow> 'k set" where
  "present s = {k. get s k \<noteq> Some None}"

lemma key_run_ok:
  assumes "inv s" and "\<forall>q k. Track q k \<in> set ops \<longrightarrow> okq q" and "length ops \<le> spare s"
  shows "\<exists>s'. key_run get ins del ops s = Some s' \<and> inv s' \<and> present s' = live_keys ops (present s) \<and>
    (\<forall>k. k \<in> present s \<and> Forget k \<notin> set ops \<longrightarrow> get s' k = get s k)"
  using assms
proof (induction ops arbitrary: s)
  case (Cons op ops)
  show ?case
  proof (cases op)
    case (Track q k)
    then have "okq q" "0 < spare s" using Cons.prems by auto
    from track_ok [OF Cons.prems(1) this, of k] obtain v s1 where
      t: "track get ins q k s = Some (Some v, s1)" "inv s1" "spare s \<le> Suc (spare s1)" "get s1 k = Some (Some v)"
      "\<forall>k'. k' \<noteq> k \<or> get s k \<noteq> Some None \<longrightarrow> get s1 k' = get s k'" by blast
    have p1: "present s1 = insert k (present s)" using t(4,5) by (auto simp: present_def)
    obtain s' where s': "key_run get ins del ops s1 = Some s'" "inv s'" "present s' = live_keys ops (present s1)"
      "\<forall>k. k \<in> present s1 \<and> Forget k \<notin> set ops \<longrightarrow> get s' k = get s1 k"
      using Cons.IH [OF t(2)] Cons.prems t(3) by auto
    have "get s' k' = get s k'" if "k' \<in> present s" "Forget k' \<notin> set ops" for k'
      using s'(4) p1 t(5) that by (auto simp: present_def)
    then show ?thesis using s' p1 t(1) Track by auto
  next
    case (Forget k)
    obtain s1 where f: "forget get del k s = Some s1" "inv s1" "spare s \<le> spare s1" "get s1 k = Some None"
      "\<forall>k'. k' \<noteq> k \<longrightarrow> get s1 k' = get s k'" using forget_ok [OF Cons.prems(1), of k] by blast
    have p1: "present s1 = present s - {k}" using f(4,5) by (auto simp: present_def)
    obtain s' where s': "key_run get ins del ops s1 = Some s'" "inv s'" "present s' = live_keys ops (present s1)"
      "\<forall>k. k \<in> present s1 \<and> Forget k \<notin> set ops \<longrightarrow> get s' k = get s1 k"
      using Cons.IH [OF f(2)] Cons.prems f(3) by auto
    have "get s' k' = get s k'" if "k' \<in> present s" "Forget k' \<notin> set ops" "k' \<noteq> k" for k'
      using s'(4) p1 f(5) that by auto
    then show ?thesis using s' p1 f(1) Forget by auto
  qed
qed simp

end

section \<open>The session table keeps the contract\<close>

definition MAXWORKERS :: nat where
  "MAXWORKERS = 255"

text \<open>\<open>calloc\<close> gives a fresh block while fewer than \<open>N\<close> sessions are allocated.\<close>

definition session_alloc_ok :: "nat \<Rightarrow> (session heap \<Rightarrow> addr option) \<Rightarrow> bool" where
  "session_alloc_ok N alloc \<longleftrightarrow>
     (\<forall>h. finite (dom h) \<and> card (dom h) < N \<longrightarrow> (\<exists>a. alloc h = Some a \<and> h a = None))"

text \<open>
  The table with the allocator it uses and the number of sessions that fit.  The invariant: the
  buckets are well-formed lists, a session is in the bucket of its key, every key occurs once, and
  every worker counts its sessions.
\<close>

type_synonym table_env = "session_state \<times> (session heap \<Rightarrow> addr option) \<times> nat"

definition sessions_ok :: "session_state \<Rightarrow> bool" where
  "sessions_ok st \<longleftrightarrow> (\<exists>L. table_ok st L) \<and> unique_keys (st_heap st) \<and> length (worker_sessions st) = MAXWORKERS"

fun env_inv :: "table_env \<Rightarrow> bool" where
  "env_inv (st, alloc, N) \<longleftrightarrow> sessions_ok st \<and> session_alloc_ok N alloc \<and> N < 2 ^ 32"

fun env_spare :: "table_env \<Rightarrow> nat" where
  "env_spare (st, alloc, N) = N - card (dom (st_heap st))"

fun env_get :: "table_env \<Rightarrow> session_key \<Rightarrow> addr option option" where
  "env_get (st, alloc, N) k = getsession st k"

fun env_ins :: "int \<Rightarrow> session_key \<Rightarrow> table_env \<Rightarrow> (addr option \<times> table_env) option" where
  "env_ins qnum k (st, alloc, N) = map_option (\<lambda>(a, st). (a, st, alloc, N)) (insertsession alloc k qnum st)"

fun env_del :: "addr option \<Rightarrow> table_env \<Rightarrow> table_env option" where
  "env_del a (st, alloc, N) = map_option (\<lambda>st. (st, alloc, N)) (clearsession a st)"

definition ok_queue :: "int \<Rightarrow> bool" where
  "ok_queue qnum \<longleftrightarrow> qnum = -1 \<or> unat (word_of_int qnum :: u8) < MAXWORKERS"

lemma getsession_sessions_ok:
  assumes "sessions_ok st"
  shows "\<exists>r. getsession st k = Some r \<and> (\<forall>a. r = Some a \<longleftrightarrow> holds (st_heap st) k a)"
  using assms getsession_iff unfolding sessions_ok_def by blast

lemma getsession_eqI:
  assumes "sessions_ok st" and "sessions_ok st'" and "\<And>a. holds (st_heap st') k a = holds (st_heap st) k a"
  shows "getsession st' k = getsession st k"
proof -
  obtain r r' where "getsession st k = Some r" "\<forall>a. r = Some a \<longleftrightarrow> holds (st_heap st) k a"
    "getsession st' k = Some r'" "\<forall>a. r' = Some a \<longleftrightarrow> holds (st_heap st') k a"
    using getsession_sessions_ok assms(1,2) by metis
  then show ?thesis using assms(3) by (metis not_None_eq)
qed

lemma sessions_ok_put:
  assumes ok: "sessions_ok st" and a: "st_heap st a = Some s" and p: "same_place s s'"
  shows "sessions_ok (put_heap a s' st)" and "getsession (put_heap a s' st) k = getsession st k"
    and "dom (st_heap (put_heap a s' st)) = dom (st_heap st)"
proof -
  have "unique_keys (st_heap (put_heap a s' st))"
    using ok a p unfolding sessions_ok_def unique_keys_def put_heap_def same_place_def
    by (simp split: if_splits) metis
  then show ok': "sessions_ok (put_heap a s' st)"
    using ok table_ok_put [OF _ a p] by (auto simp: sessions_ok_def put_heap_def)
  show "getsession (put_heap a s' st) k = getsession st k"
    by (rule getsession_eqI [OF ok ok']) (use a p in \<open>auto simp: holds_def put_heap_def same_place_def\<close>)
  show "dom (st_heap (put_heap a s' st)) = dom (st_heap st)" using a by (auto simp: put_heap_def)
qed

lemma getsession_SomeI: "sessions_ok st \<Longrightarrow> holds (st_heap st) k a \<Longrightarrow> getsession st k = Some (Some a)"
  using getsession_sessions_ok by metis

lemma getsession_NoneI: "sessions_ok st \<Longrightarrow> (\<And>a. \<not> holds (st_heap st) k a) \<Longrightarrow> getsession st k = Some None"
  using getsession_sessions_ok by (metis not_None_eq)

lemma getsession_SomeD: "sessions_ok st \<Longrightarrow> getsession st k = Some (Some a) \<Longrightarrow> holds (st_heap st) k a"
  using getsession_sessions_ok by (metis option.inject)

lemma getsession_NoneD: "sessions_ok st \<Longrightarrow> getsession st k = Some None \<Longrightarrow> \<not> holds (st_heap st) k a"
  using getsession_sessions_ok by (metis option.distinct(1) option.inject)

lemma same_core_holds: "same_core h h' \<Longrightarrow> holds h' k a = holds h k a"
proof -
  have "holds g k a" if sc: "same_core g g'" and h: "holds g' k a" for g g'
  proof -
    obtain t where t: "g' a = Some t" "session_key t = k" using h by (auto simp: holds_def split: option.splits)
    then obtain s where "g a = Some s" "session_key s = k" using same_coreD [OF sc t(1)] core_eq(1) by metis
    then show ?thesis by (simp add: holds_Some)
  qed
  then show "same_core h h' \<Longrightarrow> holds h' k a = holds h k a" using same_core_sym by blast
qed

lemma insertsession_fresh:
  assumes ok: "sessions_ok st" and a: "alloc (st_heap st) = Some a" "st_heap st a = None"
    and room: "card (dom (st_heap st)) + 1 < 2 ^ 32" and q: "ok_queue qnum" and new: "getsession st k = Some None"
  shows "\<exists>st'. insertsession alloc k qnum st = Some (Some a, st') \<and> sessions_ok st' \<and>
    card (dom (st_heap st')) = Suc (card (dom (st_heap st))) \<and>
    (\<forall>k'. getsession st' k' = (if k' = k then Some (Some a) else getsession st k'))"
proof -
  obtain L where L: "table_ok st L" and uk: "unique_keys (st_heap st)" and len: "length (worker_sessions st) = MAXWORKERS"
    using ok by (auto simp: sessions_ok_def)
  have fin: "finite (dom (st_heap st))" using L by (simp add: table_ok_def)
  have "unat (numworkers st) < 2 ^ LENGTH(8)" by (rule unsigned_less)
  then have vq: "valid_queue st qnum" using q len by (auto simp: valid_queue_def ok_queue_def MAXWORKERS_def)
  obtain st' L' n where ins: "insertsession alloc k qnum st = Some (Some a, st')" "table_ok st' L'"
    "session_key n = k" "same_core ((st_heap st)(a \<mapsto> n)) (st_heap st')"
    "length (worker_sessions st') = length (worker_sessions st)"
    using insertsession_ok [where alloc = alloc, OF L vq a room, of k] by auto
  have none: "\<not> holds (st_heap st) k b" for b using getsession_NoneD [OF ok new] .
  have none': "session_key t \<noteq> k" if "st_heap st b = Some t" for b t using none [of b] that by (simp add: holds_def)
  have "unique_keys ((st_heap st)(a \<mapsto> n))"
    using uk none' ins(3) by (auto simp: unique_keys_def) blast
  then have ok': "sessions_ok st'"
    using ins same_core_unique len by (auto simp: sessions_ok_def)
  have h: "holds (st_heap st') k' b = (if b = a then k' = k else holds (st_heap st) k' b)" for k' b
    using same_core_holds [OF ins(4), of k' b] ins(3) by (auto simp: holds_def)
  have "getsession st' k' = (if k' = k then Some (Some a) else getsession st k')" for k'
  proof (cases "k' = k")
    case False
    then have "holds (st_heap st') k' b = holds (st_heap st) k' b" for b using h a(2) by (simp add: holds_def)
    then show ?thesis using getsession_eqI [OF ok ok'] False by simp
  qed (use getsession_SomeI [OF ok'] h in simp)
  moreover have "card (dom (st_heap st')) = Suc (card (dom (st_heap st)))"
    using same_core_dom [OF ins(4)] fin a(2) by (simp add: domIff)
  ultimately show ?thesis using ins(1) ok' by blast
qed

lemma insertsession_contract:
  assumes ok: "sessions_ok st" and al: "session_alloc_ok N alloc" "card (dom (st_heap st)) < N" "N < 2 ^ 32"
    and q: "ok_queue qnum" and new: "getsession st k = Some None"
  shows "\<exists>a st'. insertsession alloc k qnum st = Some (Some a, st') \<and> sessions_ok st' \<and>
    card (dom (st_heap st')) = Suc (card (dom (st_heap st))) \<and>
    (\<forall>k'. getsession st' k' = (if k' = k then Some (Some a) else getsession st k'))"
proof -
  have "finite (dom (st_heap st))" using ok by (auto simp: sessions_ok_def table_ok_def)
  then obtain a where "alloc (st_heap st) = Some a" "st_heap st a = None" using al by (auto simp: session_alloc_ok_def)
  then show ?thesis using insertsession_fresh [OF ok _ _ _ q new] al by fastforce
qed

text \<open>A queue number outside the array of workers is a fault once the session is allocated.\<close>

lemma insertsession_bad_queue:
  assumes "alloc (st_heap st) = Some a" and "\<not> ok_queue qnum" and "length (worker_sessions st) = MAXWORKERS"
  shows "insertsession alloc k qnum st = None"
  using assms by (cases k) (simp add: insertsession_def ok_queue_def increment_worker_sessions_def get_worker_sessions_def Let_def)

lemma clearsession_contract:
  assumes ok: "sessions_ok st" and found: "getsession st k = Some (Some a)"
  shows "\<exists>st'. clearsession (Some a) st = Some st' \<and> sessions_ok st' \<and>
    card (dom (st_heap st')) < card (dom (st_heap st)) \<and>
    (\<forall>k'. getsession st' k' = (if k' = k then Some None else getsession st k'))"
proof -
  obtain L where L: "table_ok st L" and uk: "unique_keys (st_heap st)" and len: "length (worker_sessions st) = MAXWORKERS"
    using ok by (auto simp: sessions_ok_def)
  obtain s where s: "st_heap st a = Some s" "session_key s = k"
    using getsession_SomeD [OF ok found] by (auto simp: holds_def split: option.splits)
  obtain st' L' where cl: "clearsession (Some a) st = Some st'" "table_ok st' L'"
    "same_core ((st_heap st)(a := None)) (st_heap st')" "length (worker_sessions st') = length (worker_sessions st)"
    using clearsession_ok [OF L s(1)] by auto
  have "unique_keys ((st_heap st)(a := None))" using uk unfolding unique_keys_def by auto
  then have ok': "sessions_ok st'" using cl same_core_unique len by (auto simp: sessions_ok_def)
  have h: "holds (st_heap st') k' b = (b \<noteq> a \<and> holds (st_heap st) k' b)" for k' b
    using same_core_holds [OF cl(3), of k' b] by (auto simp: holds_def)
  have "holds (st_heap st) k b \<Longrightarrow> b = a" for b
    using uk s by (auto simp: holds_def unique_keys_def split: option.splits)
  then have "getsession st' k = Some None" using getsession_NoneI [OF ok'] h by blast
  moreover have "getsession st' k' = getsession st k'" if "k' \<noteq> k" for k'
  proof -
    have "\<not> holds (st_heap st) k' a" using s that by (simp add: holds_def)
    then have "holds (st_heap st') k' b = holds (st_heap st) k' b" for b using h by blast
    then show ?thesis using getsession_eqI [OF ok ok'] by blast
  qed
  moreover have "card (dom (st_heap st')) < card (dom (st_heap st))"
    using same_core_dom [OF cl(3)] s(1) L
    by (metis card_Diff1_less domI dom_fun_upd table_ok_def)
  ultimately show ?thesis using cl(1) ok' by auto
qed

interpretation sessions: keyed_store env_inv env_spare ok_queue env_get env_ins env_del
proof
  fix s k
  show "env_inv s \<Longrightarrow> \<exists>r. env_get s k = Some r"
    using getsession_sessions_ok [of "fst s" k] by (cases s) auto
next
  fix s q k
  assume "env_inv s" "ok_queue q" "0 < env_spare s" "env_get s k = Some None"
  then show "\<exists>v s'. env_ins q k s = Some (Some v, s') \<and> env_inv s' \<and> env_spare s \<le> Suc (env_spare s') \<and>
      (\<forall>k'. env_get s' k' = (if k' = k then Some (Some v) else env_get s k'))"
    using insertsession_contract [of "fst s" "snd (snd s)" "fst (snd s)" q k] by (cases s) fastforce
next
  fix s k v
  assume "env_inv s" "env_get s k = Some (Some v)"
  then show "\<exists>s'. env_del (Some v) s = Some s' \<and> env_inv s' \<and> env_spare s \<le> env_spare s' \<and>
      (\<forall>k'. env_get s' k' = (if k' = k then Some None else env_get s k'))"
    using clearsession_contract [of "fst s" k v] by (cases s) fastforce
next
  fix s
  show "env_del None s = Some s" by (cases s) (simp add: clearsession_def)
qed

section \<open>Freeing a bucket\<close>

text \<open>
  \<open>freemem\<close> frees each session when the walk has reached its successor, through the \<open>prev\<close> link.
\<close>

lemma freemem_loop_ok:
  assumes "nchain s_next h (Some a) (a # as)" and "pchain s_prev h (Some a) as" and "distinct (a # as)"
    and "h a = Some s" and "case s_prev s of None \<Rightarrow> F = {} | Some p \<Rightarrow> F = {p} \<and> p \<notin> set (a # as) \<and> h p \<noteq> None"
    and "hd_next q \<noteq> None"
  shows "\<exists>h'. freemem_loop a q h = Some (q\<lparr>hd_next := None, hd_prev := None\<rparr>, h') \<and>
    (\<forall>x. h' x = (if x \<in> F \<union> set (a # as) then None else h x))"
  using assms
proof (induction as arbitrary: a s h F)
  case Nil
  then have nx: "s_next s = None" by simp
  show ?case
  proof (cases "s_prev s")
    case None
    then show ?thesis using Nil nx by (subst freemem_loop.simps) (auto simp: free_session_def)
  next
    case (Some p)
    then show ?thesis using Nil nx by (subst freemem_loop.simps) (auto simp: free_session_def)
  qed
next
  case (Cons b as)
  then have nx: "s_next s = Some b" and ch: "nchain s_next h (Some b) (b # as)" by auto
  then obtain t where t: "h b = Some t" "s_prev t = Some a" using Cons.prems(2) by (auto split: option.splits)
  define h1 where "h1 = (case s_prev s of None \<Rightarrow> h | Some p \<Rightarrow> (h(p := None))(a \<mapsto> s\<lparr>s_prev := None\<rparr>))"
  have nb: "a \<notin> set (b # as)" using Cons.prems(3) by simp
  have same: "h1 x = h x" if "x \<in> set (b # as)" for x
    using that nb Cons.prems(5) by (auto simp: h1_def split: option.splits)
  have seg: "nseg s_next h1 p cs r = nseg s_next h p cs r" "pchain s_prev h1 p cs = pchain s_prev h p cs"
    if "set cs \<subseteq> set (b # as)" for p cs r
    using that same by (induction cs arbitrary: p) (auto split: option.splits)
  have run: "freemem_loop a q h = freemem_loop b q h1"
    using Cons.prems(4-6) nx by (subst freemem_loop.simps) (auto simp: h1_def free_session_def split: option.splits)
  have "\<exists>h'. freemem_loop b q h1 = Some (q\<lparr>hd_next := None, hd_prev := None\<rparr>, h') \<and>
      (\<forall>x. h' x = (if x \<in> {a} \<union> set (b # as) then None else h1 x))"
  proof (rule Cons.IH)
    show "nchain s_next h1 (Some b) (b # as)" using ch seg(1) [of "b # as" "Some b" None] by blast
    show "pchain s_prev h1 (Some b) as" using Cons.prems(2) seg(2) [of as] by auto
    show "h1 b = Some t" using same t(1) by simp
    show "case s_prev t of None \<Rightarrow> {a} = {} | Some p \<Rightarrow> {a} = {p} \<and> p \<notin> set (b # as) \<and> h1 p \<noteq> None"
      using t(2) nb Cons.prems(4) by (auto simp: h1_def split: option.splits)
  qed (use Cons.prems in auto)
  moreover have "(if x \<in> {a} \<union> set (b # as) then None else h1 x) = (if x \<in> F \<union> set (a # b # as) then None else h x)" for x
    using Cons.prems(5) by (auto simp: h1_def split: option.splits)
  ultimately show ?case using run by auto
qed

section \<open>Properties\<close>

lemma key_run_env: "key_run env_get env_ins env_del ops (st, alloc, N) = Some s' \<Longrightarrow> snd s' = (alloc, N)"
proof (induction ops arbitrary: st)
  case (Cons op ops)
  then show ?case
    by (cases op) (fastforce simp: track_def forget_def bind_eq_Some_conv split: option.splits)+
qed auto

text \<open>
  (C14) The session table is a map.  For every sequence of the two ways the program uses it (find
  the session of a connection and create it if there is none; remove the session of a
  connection), from a well-formed table, with an allocator that has room: no step follows a bad
  pointer or walks a bucket for ever; afterwards the table is well-formed, every worker counts
  exactly the sessions assigned to it, precisely the connections still tracked are found, and a
  session not removed keeps its address.
\<close>

theorem session_table_is_a_map:
  assumes "sessions_ok st" and "session_alloc_ok N alloc" and "N < 2 ^ 32"
    and "\<forall>q k. Track q k \<in> set ops \<longrightarrow> ok_queue q"
    and "card (dom (st_heap st)) + length ops \<le> N"
  shows "\<exists>st'. key_run env_get env_ins env_del ops (st, alloc, N) = Some (st', alloc, N) \<and> sessions_ok st' \<and>
    (\<forall>k. getsession st' k \<noteq> Some None \<longleftrightarrow> k \<in> live_keys ops {k. getsession st k \<noteq> Some None}) \<and>
    (\<forall>k. getsession st k \<noteq> Some None \<and> Forget k \<notin> set ops \<longrightarrow> getsession st' k = getsession st k)"
proof -
  have "env_inv (st, alloc, N)" "length ops \<le> env_spare (st, alloc, N)" using assms by auto
  from sessions.key_run_ok [OF this(1) assms(4) this(2)] obtain s' where
    s': "key_run env_get env_ins env_del ops (st, alloc, N) = Some s'" "env_inv s'"
    "sessions.present s' = live_keys ops (sessions.present (st, alloc, N))"
    "\<forall>k. k \<in> sessions.present (st, alloc, N) \<and> Forget k \<notin> set ops \<longrightarrow> env_get s' k = env_get (st, alloc, N) k"
    by blast
  obtain st' where st': "s' = (st', alloc, N)" using key_run_env [OF s'(1)] by (cases s') auto
  have p: "sessions.present (x, y, z) = {k. getsession x k \<noteq> Some None}" for x y z
    by (simp add: sessions.present_def)
  show ?thesis using s' unfolding st' p by (intro exI [of _ st']) auto
qed

text \<open>Both directions of a connection reach the same session: \<open>sort_sockets\<close> gives the same key
  for a packet and for the packets that answer it, so what one direction stored the other finds.
  (Between two ports of one address the two keys differ.)
\<close>

theorem both_directions_same_session:
  assumes "saddr \<noteq> daddr"
  shows "sort_sockets saddr source daddr dest = sort_sockets daddr dest saddr source \<and>
    getsession st (sort_sockets saddr source daddr dest) = getsession st (sort_sockets daddr dest saddr source)"
proof -
  have "sort_sockets saddr source daddr dest = sort_sockets daddr dest saddr source"
    using assms by (auto simp: sort_sockets_def)
  then show ?thesis by simp
qed

text \<open>A new session without a fixed queue goes to a worker that has the fewest sessions.
\<close>

theorem choose_queue_least_loaded:
  assumes "length (worker_sessions st) = MAXWORKERS"
  shows "\<exists>q. choose_queue st = Some q \<and> unat q < MAXWORKERS \<and>
    (\<forall>i < unat (numworkers st). worker_sessions st ! unat q \<le> worker_sessions st ! i)"
proof -
  have "unat (numworkers st) < 2 ^ LENGTH(8)" by (rule unsigned_less)
  then have "unat (numworkers st) \<le> length (worker_sessions st)" "worker_sessions st \<noteq> []"
    using assms by (auto simp: MAXWORKERS_def)
  from choose_queue_ok [OF this] show ?thesis by (simp add: assms)
qed

text \<open>
  (C15) \<open>freemem\<close> releases a bucket completely and safely: every session of the bucket is freed
  exactly once, none is used after it was freed, every other session is untouched, and the head
  is empty afterwards.
\<close>

theorem freemem_frees_bucket:
  assumes "bucket_ok h q i as"
  shows "\<exists>q' h'. freemem q h = Some (q', h') \<and> hd_next q' = None \<and>
    (\<forall>x. h' x = (if x \<in> set as then None else h x))"
proof (cases as)
  case Nil
  then show ?thesis using assms by (simp add: bucket_ok_def freemem_def)
next
  case (Cons a as')
  have ch: "nchain s_next h (hd_next q) (a # as')" and pc: "pchain s_prev h None (a # as')" and d: "distinct (a # as')"
    using assms Cons by (simp_all add: bucket_ok_def)
  then obtain s where s: "h a = Some s" "s_prev s = None" and nx: "hd_next q = Some a"
    by (auto split: option.splits)
  from freemem_loop_ok [of h a as' s "{}" q] ch pc d s nx show ?thesis
    using Cons by (auto simp: freemem_def)
qed

section \<open>Witnesses\<close>

definition empty_sessions :: session_state where
  "empty_sessions = \<lparr>sessiontable = (\<lambda>i. \<lparr>hd_next = None, hd_prev = None, hd_qlen = 0\<rparr>), st_heap = Map.empty,
     worker_sessions = replicate MAXWORKERS 0, numworkers = 2\<rparr>"

definition first_free_session :: "session heap \<Rightarrow> addr option" where
  "first_free_session h = find (\<lambda>a. h a = None) [0..<100]"

lemma empty_sessions_ok: "sessions_ok empty_sessions"
proof -
  have "table_ok empty_sessions (\<lambda>i. [])"
    by (simp add: table_ok_def empty_sessions_def bucket_ok_def head_ok_def counters_ok_def assigned_def)
  moreover have "unique_keys (st_heap empty_sessions)" by (simp add: unique_keys_def empty_sessions_def)
  ultimately show ?thesis by (auto simp: sessions_ok_def empty_sessions_def)
qed

lemma first_free_session_ok: "session_alloc_ok 100 first_free_session"
  unfolding session_alloc_ok_def
proof (intro allI impI)
  fix h :: "session heap"
  assume fin: "finite (dom h) \<and> card (dom h) < 100"
  have "\<not> {0..<100} \<subseteq> dom h" using fin card_mono [of "dom h" "{0..<100}"] by auto
  then have "find (\<lambda>a. h a = None) [0..<100] \<noteq> None" by (auto simp: find_None_iff)
  then show "\<exists>a. first_free_session h = Some a \<and> h a = None"
    by (auto simp: first_free_session_def find_Some_iff)
qed

theorem session_table_is_a_map_witness:
  "\<exists>st'. key_run env_get env_ins env_del [Track (-1) (2, 80, 1, 4000), Track 3 (9, 22, 1, 5000), Forget (2, 80, 1, 4000)]
      (empty_sessions, first_free_session, 100) = Some (st', first_free_session, 100) \<and>
    getsession st' (2, 80, 1, 4000) = Some None \<and> getsession st' (9, 22, 1, 5000) \<noteq> Some None"
proof -
  let ?ops = "[Track (-1) (2, 80, 1, 4000), Track 3 (9, 22, 1, 5000), Forget (2, 80, 1, 4000)]"
  have "\<forall>q k. Track q k \<in> set ?ops \<longrightarrow> ok_queue q" by (auto simp: ok_queue_def MAXWORKERS_def)
  from session_table_is_a_map [OF empty_sessions_ok first_free_session_ok _ this] obtain st' where
    "key_run env_get env_ins env_del ?ops (empty_sessions, first_free_session, 100) = Some (st', first_free_session, 100)"
    "\<forall>k. getsession st' k \<noteq> Some None \<longleftrightarrow> k \<in> live_keys ?ops {k. getsession empty_sessions k \<noteq> Some None}"
    by (auto simp: empty_sessions_def)
  moreover from this(2) have "getsession st' (2, 80, 1, 4000) = Some None" "getsession st' (9, 22, 1, 5000) \<noteq> Some None"
    by auto
  ultimately show ?thesis by blast
qed

theorem choose_queue_least_loaded_witness:
  "\<exists>q. choose_queue empty_sessions = Some q \<and> unat q < MAXWORKERS \<and>
    (\<forall>i < unat (numworkers empty_sessions). worker_sessions empty_sessions ! unat q \<le> worker_sessions empty_sessions ! i)"
  by (rule choose_queue_least_loaded) (simp add: empty_sessions_def)

definition two_sessions :: "session heap" where
  "two_sessions = [1 \<mapsto> zero_session\<lparr>s_next := Some 2\<rparr>, 2 \<mapsto> zero_session\<lparr>s_prev := Some 1\<rparr>]"

theorem freemem_frees_bucket_witness:
  "\<exists>q' h'. freemem \<lparr>hd_next = Some 1, hd_prev = Some 2, hd_qlen = 2\<rparr> two_sessions = Some (q', h') \<and>
    hd_next q' = None \<and> (\<forall>x. h' x = (if x \<in> set [1, 2] then None else two_sessions x))"
  by (rule freemem_frees_bucket [where i = 0])
    (simp add: bucket_ok_def two_sessions_def head_ok_def zero_session_def session_key_def session_bucket.simps sessionhash_def)

theorem both_directions_same_session_witness:
  "sort_sockets 1 80 2 4000 = sort_sockets 2 4000 1 80 \<and>
    getsession empty_sessions (sort_sockets 1 80 2 4000) = getsession empty_sessions (sort_sockets 2 4000 1 80)"
  by (rule both_directions_same_session) simp

end
