(* ===== verification/Packet_Queue.thy ===== *)
theory Packet_Queue
  imports Linked_List
begin

text \<open>
  The packet buffers (\<open>opennopd/packet.c\<close>) and the queues that carry them between the fetcher,
  the workers and the memory manager (\<open>opennopd/queuemanager.c\<close>).  A queue is a \<open>list_head\<close> whose
  packets live in a heap; each operation runs under the lock of its queue, so it is one atomic
  step on the queue and the heap.  \<^const>\<open>None\<close> is a null or dangling dereference.

  The contract of a queue is the locale \<open>fifo\<close>: a sequence of elements and the set of elements the
  caller owns.  A queue links a packet through the packet's own \<open>next\<close> field, which
  \<open>queue_packet\<close> does not reset, so an owned packet is one whose \<open>next\<close> is null.
\<close>

section \<open>Packet buffers\<close>

definition BUFSIZE :: nat where
  "BUFSIZE = 2048"

record packet =
  pkt_head :: "addr option"
  pkt_next :: "addr option"
  pkt_prev :: "addr option"
  pkt_hq :: "addr option"
  pkt_id :: u32
  pkt_data :: bytes

type_synonym packet_heap = "packet heap"

definition zero_packet :: packet where
  "zero_packet = \<lparr>pkt_head = None, pkt_next = None, pkt_prev = None, pkt_hq = None, pkt_id = 0,
     pkt_data = replicate BUFSIZE 0\<rparr>"

text \<open>
  \<open>calloc\<close> is the argument \<open>alloc\<close>: the address it returns for the current heap, or \<^const>\<open>None\<close>
  when it fails; \<open>newpacket\<close> writes through the result without a check.
\<close>

definition newpacket :: "(packet_heap \<Rightarrow> addr option) \<Rightarrow> packet_heap \<Rightarrow> (addr option \<times> packet_heap) option" where
  "newpacket alloc h = do {
     a \<leftarrow> alloc h;
     let p = zero_packet\<lparr>pkt_head := None, pkt_next := None, pkt_prev := None\<rparr>;
     Some (Some a, h(a \<mapsto> p)) }"

definition save_packet :: "addr \<Rightarrow> addr option \<Rightarrow> u32 \<Rightarrow> nat \<Rightarrow> bytes \<Rightarrow> packet_heap \<Rightarrow> (int \<times> packet_heap) option" where
  "save_packet thispacket hq qid ret originalpacket h = do {
     p \<leftarrow> h thispacket;
     d \<leftarrow> memcpy (pkt_data p) 0 originalpacket 0 ret;
     Some (0, h(thispacket \<mapsto> p\<lparr>pkt_hq := hq, pkt_id := qid, pkt_data := d\<rparr>)) }"

section \<open>Queues\<close>

definition queue_packet :: "list_head \<Rightarrow> addr option \<Rightarrow> packet_heap \<Rightarrow> (int \<times> list_head \<times> packet_heap) option" where
  "queue_packet queue thispacket h = (case thispacket of
     None \<Rightarrow> Some (-1, queue, h)
   | Some a \<Rightarrow>
       if hd_qlen queue = 0 then
         Some (0, queue\<lparr>hd_next := Some a, hd_prev := Some a, hd_qlen := hd_qlen queue + 1\<rparr>, h)
       else do {
         p \<leftarrow> h a;
         let h = h(a \<mapsto> p\<lparr>pkt_prev := hd_prev queue\<rparr>);
         l \<leftarrow> hd_prev queue;
         lp \<leftarrow> h l;
         let h = h(l \<mapsto> lp\<lparr>pkt_next := Some a\<rparr>);
         Some (0, queue\<lparr>hd_prev := Some a, hd_qlen := hd_qlen queue + 1\<rparr>, h) })"

text \<open>
  \<open>pthread_cond_wait\<close> gives up the lock: other threads change the queue and the heap meanwhile,
  by the argument \<open>wait\<close>, and the wait may also end with nothing queued.
\<close>

definition dequeue_packet ::
    "(list_head \<times> packet_heap \<Rightarrow> list_head \<times> packet_heap) \<Rightarrow> bool \<Rightarrow> list_head \<Rightarrow> packet_heap \<Rightarrow>
     (addr option \<times> list_head \<times> packet_heap) option" where
  "dequeue_packet wait signal queue h = (
     let (queue, h) = (if hd_qlen queue = 0 \<and> signal then wait (queue, h) else (queue, h)) in
     case hd_next queue of
       Some a \<Rightarrow> do {
         p \<leftarrow> h a;
         let queue = queue\<lparr>hd_next := pkt_next p, hd_qlen := hd_qlen queue - 1\<rparr>;
         Some (Some a, queue, h(a \<mapsto> p\<lparr>pkt_next := None, pkt_prev := None\<rparr>)) }
     | None \<Rightarrow> Some (None, queue, h))"

definition move_queued_packets ::
    "list_head \<Rightarrow> list_head \<Rightarrow> packet_heap \<Rightarrow> (u32 \<times> list_head \<times> list_head \<times> packet_heap) option" where
  "move_queued_packets fromqueue toqueue h = (
     let start = hd_next fromqueue; endp = hd_prev fromqueue; qlen = hd_qlen fromqueue;
         fromqueue = fromqueue\<lparr>hd_next := None, hd_prev := None, hd_qlen := 0\<rparr> in
     if hd_next toqueue = None then
       Some (qlen, fromqueue, toqueue\<lparr>hd_next := start, hd_prev := endp, hd_qlen := qlen\<rparr>, h)
     else do {
       s \<leftarrow> start;
       sp \<leftarrow> h s;
       let h = h(s \<mapsto> sp\<lparr>pkt_prev := hd_prev toqueue\<rparr>);
       l \<leftarrow> hd_prev toqueue;
       lp \<leftarrow> h l;
       let h = h(l \<mapsto> lp\<lparr>pkt_next := start\<rparr>);
       Some (qlen, fromqueue, toqueue\<lparr>hd_prev := endp, hd_qlen := hd_qlen toqueue + qlen\<rparr>, h) })"

section \<open>What a queue holds\<close>

definition queue_rep :: "packet_heap \<Rightarrow> list_head \<Rightarrow> addr list \<Rightarrow> bool" where
  "queue_rep h q as \<longleftrightarrow> nchain pkt_next h (hd_next q) as \<and> distinct as \<and> head_ok q as"

definition owned :: "packet_heap \<Rightarrow> addr list \<Rightarrow> addr \<Rightarrow> bool" where
  "owned h as a \<longleftrightarrow> a \<notin> set as \<and> (\<exists>p. h a = Some p \<and> pkt_next p = None)"

text \<open>What the fields outside the links hold: the payload the queues carry.\<close>

definition payload :: "packet \<Rightarrow> addr option \<times> u32 \<times> bytes" where
  "payload p = (pkt_hq p, pkt_id p, pkt_data p)"

definition same_payload :: "packet_heap \<Rightarrow> packet_heap \<Rightarrow> bool" where
  "same_payload h h' \<longleftrightarrow> (\<forall>a. map_option payload (h' a) = map_option payload (h a))"

text \<open>The packets outside \<open>as\<close> are untouched.\<close>

definition frame :: "packet_heap \<Rightarrow> packet_heap \<Rightarrow> addr set \<Rightarrow> bool" where
  "frame h h' A \<longleftrightarrow> (\<forall>a. a \<notin> A \<longrightarrow> h' a = h a)"

lemma queue_rep_frame: "queue_rep h q as \<Longrightarrow> frame h h' A \<Longrightarrow> A \<inter> set as = {} \<Longrightarrow> queue_rep h' q as"
proof -
  assume "frame h h' A" "A \<inter> set as = {}"
  then have "\<forall>a\<in>set as. h' a = h a" by (auto simp: frame_def)
  then have "nseg pkt_next h' p as r = nseg pkt_next h p as r" for p r
    by (induction as arbitrary: p) (auto split: option.splits)
  then show "queue_rep h q as \<Longrightarrow> queue_rep h' q as" by (simp add: queue_rep_def)
qed

lemma queue_rep_qlen: "queue_rep h q as \<Longrightarrow> hd_qlen q = 0 \<longleftrightarrow> as = []"
  by (simp add: queue_rep_def qlen_zero)

lemma queue_rep_length: "queue_rep h q as \<Longrightarrow> unat (hd_qlen q) = length as"
  by (simp add: queue_rep_def head_ok_qlen)

lemma of_nat_Suc_u32: "hd_qlen q = of_nat (length as) \<Longrightarrow> hd_qlen q + 1 = of_nat (length (as @ [a]))"
  by simp

lemma queue_packet_ok:
  assumes rep: "queue_rep h q as" and own: "owned h as a" and len: "length as + 1 < 2 ^ 32"
  shows "\<exists>q' h'. queue_packet q (Some a) h = Some (0, q', h') \<and> queue_rep h' q' (as @ [a]) \<and>
    same_payload h h' \<and> frame h h' (insert a (set as)) \<and>
    (\<forall>b. b \<noteq> a \<longrightarrow> owned h as b \<longrightarrow> owned h' (as @ [a]) b)"
proof (cases "as = []")
  case True
  with rep own len show ?thesis
    by (auto simp: queue_packet_def queue_rep_def owned_def head_ok_def same_payload_def frame_def)
next
  case False
  have ch: "nchain pkt_next h (hd_next q) as" and d: "distinct as"
    and prev: "hd_prev q = Some (last as)" and ql: "hd_qlen q = of_nat (length as)"
    using rep False by (auto simp: queue_rep_def head_ok_def)
  obtain p where p: "h a = Some p" "pkt_next p = None" and a: "a \<notin> set as"
    using own by (auto simp: owned_def)
  obtain l where l: "h (last as) = Some l" using nseg_last [OF ch False] by blast
  have ne: "last as \<noteq> a" using a False by (metis last_in_set)
  define h1 where "h1 = h(a \<mapsto> p\<lparr>pkt_prev := Some (last as)\<rparr>)"
  define h2 where "h2 = h1(last as \<mapsto> l\<lparr>pkt_next := Some a\<rparr>)"
  define q' where "q' = q\<lparr>hd_prev := Some a, hd_qlen := hd_qlen q + 1\<rparr>"
  have "hd_qlen q \<noteq> 0" using queue_rep_qlen [OF rep] False by simp
  then have run: "queue_packet q (Some a) h = Some (0, q', h2)"
    using p l ne prev by (simp add: queue_packet_def h1_def h2_def q'_def Let_def)
  have ch1: "nchain pkt_next h1 (hd_next q) as" using ch a by (simp add: h1_def)
  have "nchain pkt_next h2 (hd_next q) (as @ [a])"
    unfolding h2_def by (rule nchain_snoc [OF ch1 False d a, where n = "p\<lparr>pkt_prev := Some (last as)\<rparr>"]) (use p in \<open>simp_all add: h1_def\<close>)
  then have "queue_rep h2 q' (as @ [a])"
    using d a ql len by (simp add: queue_rep_def head_ok_def q'_def)
  moreover have "same_payload h h2" using p l ne by (simp add: same_payload_def h2_def h1_def payload_def)
  moreover have "frame h h2 (insert a (set as))"
    using False by (auto simp: frame_def h2_def h1_def)
  moreover have "owned h2 (as @ [a]) b" if "b \<noteq> a" "owned h as b" for b
  proof -
    have "b \<noteq> last as" using that False by (metis last_in_set owned_def)
    with that show ?thesis by (auto simp: owned_def h2_def h1_def)
  qed
  ultimately show ?thesis using run by blast
qed

lemma dequeue_packet_ok:
  assumes rep: "queue_rep h q (a # as)"
  shows "\<exists>q' h'. dequeue_packet w s q h = Some (Some a, q', h') \<and> queue_rep h' q' as \<and> owned h' as a \<and>
    same_payload h h' \<and> frame h h' {a} \<and> (\<forall>b. owned h (a # as) b \<longrightarrow> owned h' as b)"
proof -
  obtain p where nx: "hd_next q = Some a" and p: "h a = Some p"
    and ch: "nchain pkt_next h (pkt_next p) as" and d: "distinct (a # as)" and hk: "head_ok q (a # as)"
    using rep by (auto simp: queue_rep_def split: option.splits)
  define h' where "h' = h(a \<mapsto> p\<lparr>pkt_next := None, pkt_prev := None\<rparr>)"
  define q' where "q' = q\<lparr>hd_next := pkt_next p, hd_qlen := hd_qlen q - 1\<rparr>"
  have "hd_qlen q \<noteq> 0" using qlen_zero [OF hk] by simp
  then have "dequeue_packet w s q h = Some (Some a, q', h')"
    using nx p by (simp add: dequeue_packet_def h'_def q'_def)
  moreover have "queue_rep h' q' as"
    using ch d hk by (auto simp: queue_rep_def h'_def q'_def head_ok_def)
  moreover have "owned h' as a" "same_payload h h'" "frame h h' {a}"
      "\<forall>b. owned h (a # as) b \<longrightarrow> owned h' as b"
    using d p by (auto simp: owned_def h'_def same_payload_def payload_def frame_def)
  ultimately show ?thesis by blast
qed

lemma dequeue_packet_empty:
  assumes "queue_rep h q []"
  shows "dequeue_packet w False q h = Some (None, q, h)"
  using assms by (simp add: dequeue_packet_def queue_rep_def)

lemma move_queued_packets_ok:
  assumes src: "queue_rep h q as" and dst: "queue_rep h r bs" and disj: "set as \<inter> set bs = {}"
    and ne: "as \<noteq> [] \<or> bs = []" and len: "length bs + length as < 2 ^ 32"
  shows "\<exists>q' r' h'. move_queued_packets q r h = Some (of_nat (length as), q', r', h') \<and>
    queue_rep h' q' [] \<and> queue_rep h' r' (bs @ as) \<and> same_payload h h' \<and> frame h h' (set as \<union> set bs)"
proof (cases "bs = []")
  case True
  with src dst len show ?thesis
    by (auto simp: move_queued_packets_def Let_def queue_rep_def head_ok_def same_payload_def frame_def)
next
  case False
  with ne obtain a as' where as: "as = a # as'" by (cases as) auto
  have cha: "nchain pkt_next h (Some a) as" and na: "hd_next q = Some a" and da: "distinct as"
    and pa: "hd_prev q = Some (last as)" and qa: "hd_qlen q = of_nat (length as)"
    using src by (auto simp: queue_rep_def head_ok_def as)
  have chb: "nchain pkt_next h (hd_next r) bs" and db: "distinct bs"
    and pb: "hd_prev r = Some (last bs)" and qb: "hd_qlen r = of_nat (length bs)"
    using dst False by (auto simp: queue_rep_def head_ok_def)
  obtain p where p: "h a = Some p" using nseg_alloc [OF cha, of a] as by auto
  obtain l where l: "h (last bs) = Some l" using nseg_last [OF chb False] by blast
  have lb: "last bs \<notin> set as" "a \<notin> set bs" using disj False as by (auto simp: disjoint_iff)
  then have ne': "last bs \<noteq> a" using as by auto
  define h1 where "h1 = h(a \<mapsto> p\<lparr>pkt_prev := Some (last bs)\<rparr>)"
  define h2 where "h2 = h1(last bs \<mapsto> l\<lparr>pkt_next := Some a\<rparr>)"
  define r' where "r' = r\<lparr>hd_prev := Some (last as), hd_qlen := hd_qlen r + of_nat (length as)\<rparr>"
  define q' where "q' = q\<lparr>hd_next := None, hd_prev := None, hd_qlen := 0\<rparr>"
  have nr: "hd_next r \<noteq> None" using chb False by (cases bs) auto
  have run: "move_queued_packets q r h = Some (of_nat (length as), q', r', h2)"
    using na pa qa nr p l ne' pb by (auto simp: move_queued_packets_def Let_def h1_def h2_def r'_def q'_def)
  have "nchain pkt_next h1 (Some a) as"
    using cha p by (simp add: h1_def nseg_same_next)
  then have sega: "nchain pkt_next h2 (Some a) as" using lb by (simp add: h2_def)
  have "nseg pkt_next h1 (hd_next r) bs None" using chb lb by (simp add: h1_def)
  then have "nseg pkt_next h2 (hd_next r) bs (Some a)"
    unfolding h2_def by (rule nseg_redirect) (use False db in simp_all)
  then have "nchain pkt_next h2 (hd_next r') (bs @ as)"
    using sega by (auto simp: nseg_append r'_def)
  then have "queue_rep h2 r' (bs @ as)"
    using da db disj qb len as by (auto simp: queue_rep_def head_ok_def r'_def)
  moreover have "queue_rep h2 q' []" by (simp add: queue_rep_def head_ok_def q'_def)
  moreover have "same_payload h h2" using p l ne' by (simp add: same_payload_def h2_def h1_def payload_def)
  moreover have "frame h h2 (set as \<union> set bs)" using False as by (auto simp: frame_def h2_def h1_def)
  ultimately show ?thesis using run by blast
qed

text \<open>A move out of an empty queue into a queue that holds packets dereferences a null pointer.\<close>

lemma move_queued_packets_null:
  assumes "queue_rep h q []" and "queue_rep h r bs" and "bs \<noteq> []"
  shows "move_queued_packets q r h = None"
  using assms by (cases bs) (auto simp: move_queued_packets_def queue_rep_def)

section \<open>The contract of a queue\<close>

datatype 'a queue_op = Enq 'a | Deq

text \<open>
  The abstract queue: a sequence, and the elements the clients hold.  A client may queue only what
  it holds, and holds again what it takes out.
\<close>

fun spec_run :: "nat \<Rightarrow> 'a queue_op list \<Rightarrow> 'a list \<Rightarrow> 'a list \<Rightarrow> ('a option list \<times> 'a list) option" where
  "spec_run cap [] held xs = Some ([], xs)"
| "spec_run cap (Enq a # ops) held xs =
     (if a \<in> set held \<and> length xs < cap then spec_run cap ops (removeAll a held) (xs @ [a]) else None)"
| "spec_run cap (Deq # ops) held xs = (case xs of
     [] \<Rightarrow> map_option (apfst (Cons None)) (spec_run cap ops held xs)
   | x # xs' \<Rightarrow> map_option (apfst (Cons (Some x))) (spec_run cap ops (x # held) xs'))"

fun run_ops ::
    "('a \<Rightarrow> 's \<Rightarrow> 's option) \<Rightarrow> ('s \<Rightarrow> ('a option \<times> 's) option) \<Rightarrow> 'a queue_op list \<Rightarrow> 's \<Rightarrow>
     ('a option list \<times> 's) option" where
  "run_ops enq deq [] s = Some ([], s)"
| "run_ops enq deq (Enq a # ops) s = enq a s \<bind> run_ops enq deq ops"
| "run_ops enq deq (Deq # ops) s =
     deq s \<bind> (\<lambda>(x, s). map_option (apfst (Cons x)) (run_ops enq deq ops s))"

locale fifo =
  fixes cap :: nat
    and rep :: "'s \<Rightarrow> 'a list \<Rightarrow> bool"
    and own :: "'s \<Rightarrow> 'a list \<Rightarrow> 'a \<Rightarrow> bool"
    and enq :: "'a \<Rightarrow> 's \<Rightarrow> 's option"
    and deq :: "'s \<Rightarrow> ('a option \<times> 's) option"
  assumes enq_law: "rep s xs \<Longrightarrow> own s xs a \<Longrightarrow> length xs < cap \<Longrightarrow>
      \<exists>s'. enq a s = Some s' \<and> rep s' (xs @ [a]) \<and> (\<forall>b. b \<noteq> a \<longrightarrow> own s xs b \<longrightarrow> own s' (xs @ [a]) b)"
    and deq_law: "rep s (x # xs) \<Longrightarrow>
      \<exists>s'. deq s = Some (Some x, s') \<and> rep s' xs \<and> own s' xs x \<and> (\<forall>b. own s (x # xs) b \<longrightarrow> own s' xs b)"
    and deq_empty_law: "rep s [] \<Longrightarrow> deq s = Some (None, s)"
begin

lemma run_refines:
  assumes "rep s xs" and "\<forall>a\<in>set held. own s xs a" and "spec_run cap ops held xs = Some (outs, ys)"
  shows "\<exists>s'. run_ops enq deq ops s = Some (outs, s') \<and> rep s' ys"
  using assms
proof (induction ops arbitrary: s held xs outs)
  case (Cons op ops)
  show ?case
  proof (cases op)
    case (Enq a)
    then have "a \<in> set held" "length xs < cap"
      and sp: "spec_run cap ops (removeAll a held) (xs @ [a]) = Some (outs, ys)"
      using Cons.prems(3) by (auto split: if_splits)
    then obtain s1 where "enq a s = Some s1" and "rep s1 (xs @ [a])"
      and "\<forall>b. b \<noteq> a \<longrightarrow> own s xs b \<longrightarrow> own s1 (xs @ [a]) b"
      using enq_law [OF Cons.prems(1)] Cons.prems(2) by blast
    moreover have "\<forall>b\<in>set (removeAll a held). own s1 (xs @ [a]) b"
      using calculation(3) Cons.prems(2) by auto
    ultimately show ?thesis using Cons.IH [OF _ _ sp] Enq by simp
  next
    case Deq
    show ?thesis
    proof (cases xs)
      case Nil
      then obtain o1 where "spec_run cap ops held [] = Some (o1, ys)" "outs = None # o1"
        using Cons.prems(3) Deq by auto
      then show ?thesis using Cons.IH [of s "[]" held o1] Cons.prems(1,2) Nil Deq deq_empty_law by auto
    next
      case xs: (Cons x xs')
      then obtain o1 where sp: "spec_run cap ops (x # held) xs' = Some (o1, ys)" and o1: "outs = Some x # o1"
        using Cons.prems(3) Deq by auto
      obtain s1 where "deq s = Some (Some x, s1)" "rep s1 xs'" "own s1 xs' x"
        and "\<forall>b. own s (x # xs') b \<longrightarrow> own s1 xs' b"
        using deq_law Cons.prems(1) xs by blast
      moreover have "\<forall>b\<in>set (x # held). own s1 xs' b" using calculation Cons.prems(2) xs by auto
      ultimately show ?thesis using Cons.IH [OF _ _ sp] o1 Deq by auto
    qed
  qed
qed simp

end

section \<open>The packet queues are first-in first-out\<close>

text \<open>The two queue operations as one thread sees them, without a wait.\<close>

type_synonym packet_queue = "list_head \<times> packet_heap"

definition pq_rep :: "packet_queue \<Rightarrow> addr list \<Rightarrow> bool" where
  "pq_rep s as \<longleftrightarrow> queue_rep (snd s) (fst s) as"

definition pq_own :: "packet_queue \<Rightarrow> addr list \<Rightarrow> addr \<Rightarrow> bool" where
  "pq_own s as a \<longleftrightarrow> owned (snd s) as a"

definition pq_enq :: "addr \<Rightarrow> packet_queue \<Rightarrow> packet_queue option" where
  "pq_enq a s = map_option snd (queue_packet (fst s) (Some a) (snd s))"

definition pq_deq :: "packet_queue \<Rightarrow> (addr option \<times> packet_queue) option" where
  "pq_deq s = dequeue_packet (\<lambda>x. x) False (fst s) (snd s)"

definition QCAP :: nat where
  "QCAP = 2 ^ 32 - 1"

lemma QCAP_iff: "n < QCAP \<longleftrightarrow> n + 1 < 2 ^ 32"
  by (simp add: QCAP_def)

interpretation pq: fifo QCAP pq_rep pq_own pq_enq pq_deq
proof
  fix s xs a
  assume "pq_rep s xs" "pq_own s xs a" "length xs < QCAP"
  then show "\<exists>s'. pq_enq a s = Some s' \<and> pq_rep s' (xs @ [a]) \<and>
      (\<forall>b. b \<noteq> a \<longrightarrow> pq_own s xs b \<longrightarrow> pq_own s' (xs @ [a]) b)"
    using queue_packet_ok [of "snd s" "fst s" xs a]
    by (auto simp: pq_rep_def pq_own_def pq_enq_def QCAP_iff)
next
  fix s x xs
  assume "pq_rep s (x # xs)"
  then show "\<exists>s'. pq_deq s = Some (Some x, s') \<and> pq_rep s' xs \<and> pq_own s' xs x \<and>
      (\<forall>b. pq_own s (x # xs) b \<longrightarrow> pq_own s' xs b)"
    using dequeue_packet_ok [of "snd s" "fst s" x xs "\<lambda>x. x" False]
    by (auto simp: pq_rep_def pq_own_def pq_deq_def)
next
  fix s
  assume "pq_rep s []"
  then show "pq_deq s = Some (None, s)"
    by (simp add: pq_rep_def pq_deq_def dequeue_packet_empty)
qed

text \<open>
  (C16) Packet queues are first-in first-out: every interleaving of \<open>queue_packet\<close> and
  \<open>dequeue_packet\<close> in which the callers queue only packets they hold returns exactly what the
  abstract sequence returns, dereferences no bad pointer, and leaves the queue linked correctly.
\<close>

theorem packet_queue_fifo:
  assumes "queue_rep h q as" and "\<forall>a\<in>set held. owned h as a"
    and "spec_run QCAP ops held as = Some (outs, bs)"
  shows "\<exists>q' h'. run_ops pq_enq pq_deq ops (q, h) = Some (outs, (q', h')) \<and> queue_rep h' q' bs"
  using pq.run_refines [of "(q, h)" as held ops outs bs] assms by (auto simp: pq_rep_def pq_own_def)

definition empty_head :: list_head where
  "empty_head = \<lparr>hd_next = None, hd_prev = None, hd_qlen = 0\<rparr>"

text \<open>A heap with three packets, used by the witnesses.\<close>

definition three_packets :: packet_heap where
  "three_packets = [1 \<mapsto> zero_packet, 2 \<mapsto> zero_packet\<lparr>pkt_id := 2\<rparr>, 3 \<mapsto> zero_packet]"

lemma empty_head_rep [simp]: "queue_rep h empty_head []"
  by (simp add: queue_rep_def empty_head_def head_ok_def)

lemma three_packets_owned: "\<forall>a\<in>set [1, 2, 3]. owned three_packets [] a"
  by (simp add: owned_def three_packets_def zero_packet_def)

theorem packet_queue_fifo_witness:
  "\<exists>q' h'. run_ops pq_enq pq_deq [Enq 1, Enq 2, Deq, Enq 1, Deq, Deq, Deq] (empty_head, three_packets)
     = Some ([Some 1, Some 2, Some 1, None], (q', h')) \<and> queue_rep h' q' []"
  by (rule packet_queue_fifo [OF empty_head_rep three_packets_owned]) (simp add: QCAP_def)

text \<open>\<open>move_queued_packets\<close> appends the whole source queue to the destination in order, leaves the
  source empty, returns the number of packets moved, and changes neither the payload of a packet
  nor any packet of another queue; its one requirement, that the source is not empty when the
  destination is not, is needed, because otherwise the code dereferences the null \<open>start\<close>.
\<close>

theorem move_queued_packets_correct:
  assumes "queue_rep h q as" and "queue_rep h r bs" and "set as \<inter> set bs = {}"
    and "length bs + length as < 2 ^ 32"
  shows "if as = [] \<and> bs \<noteq> [] then move_queued_packets q r h = None
    else (\<exists>q' r' h'. move_queued_packets q r h = Some (of_nat (length as), q', r', h') \<and>
      queue_rep h' q' [] \<and> queue_rep h' r' (bs @ as) \<and> same_payload h h' \<and> frame h h' (set as \<union> set bs))"
  using move_queued_packets_ok [of h q as r bs] move_queued_packets_null [of h q r bs] assms
  by (cases "as = [] \<and> bs \<noteq> []") auto

definition two_head :: list_head where
  "two_head = \<lparr>hd_next = Some 1, hd_prev = Some 2, hd_qlen = 2\<rparr>"

definition one_head :: list_head where
  "one_head = \<lparr>hd_next = Some 3, hd_prev = Some 3, hd_qlen = 1\<rparr>"

definition linked_packets :: packet_heap where
  "linked_packets = [1 \<mapsto> zero_packet\<lparr>pkt_next := Some 2\<rparr>, 2 \<mapsto> zero_packet, 3 \<mapsto> zero_packet]"

lemma linked_packets_rep:
  "queue_rep linked_packets two_head [1, 2]" "queue_rep linked_packets one_head [3]"
  by (simp_all add: queue_rep_def linked_packets_def two_head_def one_head_def head_ok_def zero_packet_def)

theorem move_queued_packets_correct_witness:
  "\<exists>q' r' h'. move_queued_packets two_head one_head linked_packets = Some (2, q', r', h') \<and>
      queue_rep h' q' [] \<and> queue_rep h' r' [3, 1, 2] \<and> same_payload linked_packets h' \<and>
      frame linked_packets h' {1, 2, 3}"
  using move_queued_packets_correct [OF linked_packets_rep] by (simp add: insert_commute)

end
