(* ===== verification/Memory_Manager.thy ===== *)
theory Memory_Manager
  imports Packet_Queue
begin

text \<open>
  The pool of packet buffers (\<open>opennopd/subsystems/memorymanager.c\<close>): the fetcher takes a buffer
  for each packet it queues, the workers give it back, and a thread refills the pool.

  The state holds the pool, the count of buffers allocated so far and the heap of packets.  The
  steps of other threads between two critical sections of one function, and during its wait on
  a condition, are the argument \<open>env\<close>; \<open>calloc\<close> is the argument \<open>alloc\<close>.  Buffers are never freed.
\<close>

record mm_state =
  allocatedpacketbuffers :: u32
  freepacketbuffers :: list_head
  mm_heap :: packet_heap
  mm_wakeups :: nat

definition initialfreepacketbuffers :: nat where
  "initialfreepacketbuffers = 1000"

definition minfreepacketbuffers :: u32 where
  "minfreepacketbuffers = 500"

definition packetbufferstoallocate :: nat where
  "packetbufferstoallocate = 100"

section \<open>Operations\<close>

definition allocatefreepacketbuffers ::
    "(packet_heap \<Rightarrow> addr option) \<Rightarrow> nat \<Rightarrow> list_head \<times> packet_heap \<Rightarrow> (list_head \<times> packet_heap) option" where
  "allocatefreepacketbuffers alloc n = foldM (\<lambda>i (queue, h). do {
     (a, h) \<leftarrow> newpacket alloc h;
     (r, queue, h) \<leftarrow> queue_packet queue a h;
     Some (queue, h) }) [0..<n]"

definition get_freepacket_buffer ::
    "(packet_heap \<Rightarrow> addr option) \<Rightarrow> (mm_state \<Rightarrow> mm_state) \<Rightarrow> mm_state \<Rightarrow> (addr option \<times> mm_state) option" where
  "get_freepacket_buffer alloc env s = do {
     (thispacket, s) \<leftarrow>
       (if 0 < hd_qlen (freepacketbuffers s) then do {
          let s = (if hd_qlen (freepacketbuffers s) < minfreepacketbuffers
                   then s\<lparr>mm_wakeups := Suc (mm_wakeups s)\<rparr> else s);
          let s = env s;
          (a, q, h) \<leftarrow> dequeue_packet (\<lambda>x. x) False (freepacketbuffers s) (mm_heap s);
          Some (a, s\<lparr>freepacketbuffers := q, mm_heap := h\<rparr>) }
        else do {
          let s = s\<lparr>mm_wakeups := Suc (mm_wakeups s)\<rparr>;
          let s = env s;
          (a, h) \<leftarrow> newpacket alloc (mm_heap s);
          Some (a, s\<lparr>mm_heap := h, allocatedpacketbuffers := allocatedpacketbuffers s + 1\<rparr>) });
     (case thispacket of
        Some a \<Rightarrow> Some (Some a, s\<lparr>mm_heap := (mm_heap s)(a \<mapsto> zero_packet)\<rparr>)
      | None \<Rightarrow> Some (None, s)) }"

definition put_freepacket_buffer :: "addr option \<Rightarrow> mm_state \<Rightarrow> (int \<times> mm_state) option" where
  "put_freepacket_buffer thispacket s = do {
     (result, q, h) \<leftarrow> queue_packet (freepacketbuffers s) thispacket (mm_heap s);
     Some (result, s\<lparr>freepacketbuffers := q, mm_heap := h\<rparr>) }"

text \<open>
  The thread: its initialisation, with the uninitialised staging head as an argument, and one
  iteration of its loop; it runs as many iterations as the list \<open>envs\<close> has elements.
\<close>

definition move_staging :: "list_head \<times> mm_state \<Rightarrow> (list_head \<times> mm_state) option" where
  "move_staging = (\<lambda>(staging, s). do {
     (n, staging, pool, h) \<leftarrow> move_queued_packets staging (freepacketbuffers s) (mm_heap s);
     Some (staging, s\<lparr>freepacketbuffers := pool, mm_heap := h,
       allocatedpacketbuffers := allocatedpacketbuffers s + n\<rparr>) })"

definition stage_buffers ::
    "(packet_heap \<Rightarrow> addr option) \<Rightarrow> nat \<Rightarrow> list_head \<times> mm_state \<Rightarrow> (list_head \<times> mm_state) option" where
  "stage_buffers alloc n = (\<lambda>(staging, s). do {
     (staging, h) \<leftarrow> allocatefreepacketbuffers alloc n (staging, mm_heap s);
     move_staging (staging, s\<lparr>mm_heap := h\<rparr>) })"

definition memorymanager_init ::
    "(packet_heap \<Rightarrow> addr option) \<Rightarrow> list_head \<Rightarrow> mm_state \<Rightarrow> (list_head \<times> mm_state) option" where
  "memorymanager_init alloc staging s = (
     let s = s\<lparr>allocatedpacketbuffers := 0\<rparr>;
         s = s\<lparr>freepacketbuffers := (freepacketbuffers s)\<lparr>hd_qlen := 0\<rparr>\<rparr>;
         staging = staging\<lparr>hd_qlen := 0\<rparr> in
     stage_buffers alloc initialfreepacketbuffers (staging, s))"

definition memorymanager_iter ::
    "(packet_heap \<Rightarrow> addr option) \<Rightarrow> (mm_state \<Rightarrow> mm_state) \<Rightarrow> list_head \<times> mm_state \<Rightarrow>
     (list_head \<times> mm_state) option" where
  "memorymanager_iter alloc env = (\<lambda>(staging, s). (
     let s = (if minfreepacketbuffers \<le> hd_qlen (freepacketbuffers s) then env s else s) in
     stage_buffers alloc packetbufferstoallocate (staging, s)))"

definition memorymanager_function ::
    "(packet_heap \<Rightarrow> addr option) \<Rightarrow> (mm_state \<Rightarrow> mm_state) list \<Rightarrow> list_head \<Rightarrow> mm_state \<Rightarrow>
     (list_head \<times> mm_state) option" where
  "memorymanager_function alloc envs staging s =
     memorymanager_init alloc staging s \<bind> foldM (memorymanager_iter alloc) envs"

section \<open>The pool invariant\<close>

text \<open>
  \<open>calloc\<close> returns a block that is not in use, as long as fewer than \<open>N\<close> buffers are.
\<close>

definition alloc_ok :: "nat \<Rightarrow> (packet_heap \<Rightarrow> addr option) \<Rightarrow> bool" where
  "alloc_ok N alloc \<longleftrightarrow>
     (\<forall>h. finite (dom h) \<and> card (dom h) < N \<longrightarrow> (\<exists>a. alloc h = Some a \<and> h a = None))"

text \<open>The pool holds \<open>as\<close>, and every buffer ever allocated is counted.\<close>

definition pool_ok :: "mm_state \<Rightarrow> addr list \<Rightarrow> bool" where
  "pool_ok s as \<longleftrightarrow> queue_rep (mm_heap s) (freepacketbuffers s) as \<and> finite (dom (mm_heap s)) \<and>
     allocatedpacketbuffers s = of_nat (card (dom (mm_heap s)))"

lemma dom_same_payload: "same_payload h h' \<Longrightarrow> dom h' = dom h"
proof -
  assume "same_payload h h'"
  then have "(h' a = None) = (h a = None)" for a
    unfolding same_payload_def by (metis map_option_is_None)
  then show "dom h' = dom h" by (auto simp: dom_def simp flip: not_None_eq)
qed

text \<open>A fresh buffer is queued behind \<open>as\<close>, whatever an empty head holds in its pointers.\<close>

definition stageable :: "packet_heap \<Rightarrow> list_head \<Rightarrow> addr list \<Rightarrow> bool" where
  "stageable h q as \<longleftrightarrow> (if as = [] then hd_qlen q = 0 else queue_rep h q as)"

lemma stage_one:
  assumes "stageable h q as" and "finite (dom h)" and "card (dom h) < N" and "alloc_ok N alloc"
    and "length as + 1 < 2 ^ 32" and "set as \<subseteq> dom h"
  shows "\<exists>a q' h' h1. newpacket alloc h = Some (Some a, h1) \<and> queue_packet q (Some a) h1 = Some (0, q', h') \<and>
    h a = None \<and> dom h' = insert a (dom h) \<and> queue_rep h' q' (as @ [a]) \<and> frame h h' (insert a (set as))"
proof -
  obtain a where a: "alloc h = Some a" "h a = None" using assms(2-4) by (auto simp: alloc_ok_def)
  define h1 where "h1 = h(a \<mapsto> zero_packet)"
  have new: "newpacket alloc h = Some (Some a, h1)" using a by (simp add: newpacket_def h1_def zero_packet_def)
  have nin: "a \<notin> set as" using a(2) assms(6) by auto
  show ?thesis
  proof (cases "as = []")
    case True
    then have "hd_qlen q = 0" using assms(1) by (simp add: stageable_def)
    then show ?thesis using new a True
      by (auto simp: queue_packet_def queue_rep_def head_ok_def h1_def zero_packet_def frame_def)
  next
    case False
    then have rep1: "queue_rep h1 q as" using assms(1) nin by (simp add: stageable_def queue_rep_def h1_def)
    have "owned h1 as a" using nin by (simp add: owned_def h1_def zero_packet_def)
    from queue_packet_ok [OF rep1 this assms(5)] obtain q' h' where
      q: "queue_packet q (Some a) h1 = Some (0, q', h')" "queue_rep h' q' (as @ [a])"
      "same_payload h1 h'" "frame h1 h' (insert a (set as))" by blast
    have "dom h' = insert a (dom h)" using dom_same_payload [OF q(3)] by (simp add: h1_def)
    moreover have "frame h h' (insert a (set as))" using q(4) by (auto simp: frame_def h1_def)
    ultimately show ?thesis using new q a(2) by blast
  qed
qed

lemma allocatefreepacketbuffers_ok:
  assumes "stageable h q []" and "finite (dom h)" and "card (dom h) + n \<le> N" and "alloc_ok N alloc"
    and "n < 2 ^ 32"
  shows "\<exists>q' h' as. allocatefreepacketbuffers alloc n (q, h) = Some (q', h') \<and> stageable h' q' as \<and>
    length as = n \<and> set as \<inter> dom h = {} \<and> dom h' = dom h \<union> set as \<and> distinct as \<and> (\<forall>b\<in>dom h. h' b = h b)"
  using assms(3,5)
proof (induction n)
  case 0
  then show ?case using assms(1) by (auto simp: allocatefreepacketbuffers_def)
next
  case (Suc n)
  then obtain q1 h1 as where run: "allocatefreepacketbuffers alloc n (q, h) = Some (q1, h1)"
    and st: "stageable h1 q1 as" and as: "length as = n" "set as \<inter> dom h = {}" "dom h1 = dom h \<union> set as"
    "distinct as" "\<forall>b\<in>dom h. h1 b = h b" by auto
  have card1: "card (dom h1) = card (dom h) + n"
    using as assms(2) by (simp add: card_Un_disjoint Int_commute distinct_card)
  have fin1: "finite (dom h1)" using as(3) assms(2) by simp
  have "card (dom h1) < N" using card1 Suc.prems by simp
  from stage_one [OF st fin1 this assms(4)] as Suc.prems obtain a q2 h2 hn where
    a: "newpacket alloc h1 = Some (Some a, hn)" "queue_packet q1 (Some a) hn = Some (0, q2, h2)"
    "h1 a = None" "dom h2 = insert a (dom h1)" "queue_rep h2 q2 (as @ [a])" "frame h1 h2 (insert a (set as))"
    by auto
  have "allocatefreepacketbuffers alloc (Suc n) (q, h) = Some (q2, h2)"
    using run a(1,2) by (simp add: allocatefreepacketbuffers_def foldM_append)
  moreover have "stageable h2 q2 (as @ [a])" using a(5) by (simp add: stageable_def)
  moreover have "a \<notin> set as" "a \<notin> dom h" using a(3) as(3) by auto
  moreover have "\<forall>b\<in>dom h. h2 b = h b"
  proof
    fix b assume b: "b \<in> dom h"
    then have "b \<notin> insert a (set as)" using calculation(4) as(2) by (auto simp: disjoint_iff)
    then show "h2 b = h b" using a(6) as(5) b by (auto simp: frame_def)
  qed
  ultimately show ?case using as a(4)
    by (intro exI [of _ q2] exI [of _ h2] exI [of _ "as @ [a]"]) auto
qed

lemma queue_rep_dom: "queue_rep h q as \<Longrightarrow> set as \<subseteq> dom h"
  by (auto simp: queue_rep_def dest: nseg_alloc)

lemma queue_rep_agree:
  assumes "queue_rep h q as" and "\<forall>b\<in>dom h. h' b = h b"
  shows "queue_rep h' q as"
proof -
  have "frame h h' (- dom h)" using assms(2) by (simp add: frame_def)
  then show ?thesis using queue_rep_frame [OF assms(1)] queue_rep_dom [OF assms(1)] by blast
qed

text \<open>Staging \<open>n\<close> buffers and moving them adds \<open>n\<close> fresh buffers at the end of the pool.\<close>

lemma stage_buffers_ok:
  assumes pool: "queue_rep (mm_heap s) (freepacketbuffers s) as" and fin: "finite (dom (mm_heap s))"
    and cnt: "allocatedpacketbuffers s = of_nat (card (dom (mm_heap s)))"
    and st: "hd_qlen staging = 0" and n: "0 < n" and N: "card (dom (mm_heap s)) + n \<le> N" "N < 2 ^ 32"
    and al: "alloc_ok N alloc"
  shows "\<exists>staging' s' bs. stage_buffers alloc n (staging, s) = Some (staging', s') \<and>
    pool_ok s' (as @ bs) \<and> length bs = n \<and> set bs \<inter> dom (mm_heap s) = {} \<and>
    card (dom (mm_heap s')) = card (dom (mm_heap s)) + n \<and> hd_qlen staging' = 0"
proof -
  let ?h = "mm_heap s"
  obtain q1 h1 bs where run: "allocatefreepacketbuffers alloc n (staging, ?h) = Some (q1, h1)"
    and st1: "stageable h1 q1 bs" and bs: "length bs = n" "set bs \<inter> dom ?h = {}" "dom h1 = dom ?h \<union> set bs"
    "distinct bs" "\<forall>b\<in>dom ?h. h1 b = ?h b"
    using allocatefreepacketbuffers_ok [of ?h staging n N alloc] st fin N al by (auto simp: stageable_def)
  have rep1: "queue_rep h1 q1 bs" using st1 bs(1) n by (auto simp: stageable_def)
  have rep: "queue_rep h1 (freepacketbuffers s) as" using queue_rep_agree [OF pool bs(5)] .
  have sub: "set as \<subseteq> dom ?h" using queue_rep_dom [OF pool] .
  have "length as \<le> card (dom ?h)"
    using sub fin pool by (metis card_mono distinct_card queue_rep_def)
  then have len: "length as + length bs < 2 ^ 32" using N bs(1) by simp
  have disj: "set bs \<inter> set as = {}" using bs(2) sub by blast
  obtain q2 r2 h2 where mv: "move_queued_packets q1 (freepacketbuffers s) h1 = Some (of_nat n, q2, r2, h2)"
    "queue_rep h2 q2 []" "queue_rep h2 r2 (as @ bs)" "same_payload h1 h2"
    using move_queued_packets_ok [OF rep1 rep disj _ len] bs(1) n by auto
  have dom2: "dom h2 = dom ?h \<union> set bs" using dom_same_payload [OF mv(4)] bs(3) by simp
  have card2: "card (dom h2) = card (dom ?h) + n"
    using dom2 bs fin by (simp add: card_Un_disjoint Int_commute distinct_card)
  define s2 where "s2 = s\<lparr>mm_heap := h2, freepacketbuffers := r2,
    allocatedpacketbuffers := allocatedpacketbuffers s + of_nat n\<rparr>"
  have "stage_buffers alloc n (staging, s) = Some (q2, s2)"
    using run mv(1) by (simp add: stage_buffers_def move_staging_def s2_def)
  moreover have "hd_qlen q2 = 0" using queue_rep_qlen [OF mv(2)] by simp
  moreover have "pool_ok s2 (as @ bs)" using mv(3) card2 dom2 fin cnt by (simp add: pool_ok_def s2_def)
  moreover have "card (dom (mm_heap s2)) = card (dom ?h) + n" using card2 by (simp add: s2_def)
  ultimately show ?thesis using bs by blast
qed

section \<open>Properties\<close>

text \<open>What the other threads may do to the pool: keep it well-formed and allocate at most \<open>k\<close> buffers.\<close>

definition env_ok :: "nat \<Rightarrow> (mm_state \<Rightarrow> mm_state) \<Rightarrow> bool" where
  "env_ok k env \<longleftrightarrow> (\<forall>s as. pool_ok s as \<longrightarrow>
     (\<exists>bs. pool_ok (env s) bs) \<and> card (dom (mm_heap (env s))) \<le> card (dom (mm_heap s)) + k)"

lemma env_okD:
  assumes "env_ok k env" and "pool_ok s as"
  obtains bs where "pool_ok (env s) bs" "card (dom (mm_heap (env s))) \<le> card (dom (mm_heap s)) + k"
  using assms by (auto simp: env_ok_def)

lemma memorymanager_iter_ok:
  assumes "pool_ok s as" and "hd_qlen staging = 0" and "env_ok k env" and "alloc_ok N alloc"
    and "card (dom (mm_heap s)) + k + packetbufferstoallocate \<le> N" and "N < 2 ^ 32"
  shows "\<exists>staging' s' bs. memorymanager_iter alloc env (staging, s) = Some (staging', s') \<and>
    pool_ok s' bs \<and> packetbufferstoallocate \<le> length bs \<and> hd_qlen staging' = 0 \<and>
    card (dom (mm_heap s')) \<le> card (dom (mm_heap s)) + k + packetbufferstoallocate"
proof -
  define s1 where "s1 = (if minfreepacketbuffers \<le> hd_qlen (freepacketbuffers s) then env s else s)"
  obtain cs where s1: "pool_ok s1 cs" and card1: "card (dom (mm_heap s1)) \<le> card (dom (mm_heap s)) + k"
    using assms(1,3) by (cases "minfreepacketbuffers \<le> hd_qlen (freepacketbuffers s)")
      (auto simp: s1_def env_ok_def)
  obtain st' s' bs where "stage_buffers alloc packetbufferstoallocate (staging, s1) = Some (st', s')"
    "pool_ok s' (cs @ bs)" "length bs = packetbufferstoallocate"
    "card (dom (mm_heap s')) = card (dom (mm_heap s1)) + packetbufferstoallocate" "hd_qlen st' = 0"
    using stage_buffers_ok [of s1 cs staging packetbufferstoallocate N alloc] s1 card1 assms
    by (auto simp: pool_ok_def packetbufferstoallocate_def)
  then show ?thesis
    using card1 by (intro exI [of _ st'] exI [of _ s'] exI [of _ "cs @ bs"])
      (simp add: memorymanager_iter_def s1_def [symmetric])
qed

lemma memorymanager_iters_ok:
  assumes "pool_ok s as" and "hd_qlen staging = 0" and "\<forall>env\<in>set envs. env_ok k env" and "alloc_ok N alloc"
    and "card (dom (mm_heap s)) + length envs * (k + packetbufferstoallocate) \<le> N" and "N < 2 ^ 32"
    and "packetbufferstoallocate \<le> length as"
  shows "\<exists>staging' s' bs. foldM (memorymanager_iter alloc) envs (staging, s) = Some (staging', s') \<and>
    pool_ok s' bs \<and> packetbufferstoallocate \<le> length bs"
  using assms(1,2,3,5,7)
proof (induction envs arbitrary: s staging as)
  case (Cons env envs)
  have "card (dom (mm_heap s)) + k + packetbufferstoallocate \<le> N" using Cons.prems(4) by simp
  from memorymanager_iter_ok [OF Cons.prems(1,2) _ assms(4) this assms(6), of env] Cons.prems(3)
  obtain st1 s1 bs where it: "memorymanager_iter alloc env (staging, s) = Some (st1, s1)"
    "pool_ok s1 bs" "packetbufferstoallocate \<le> length bs" "hd_qlen st1 = 0"
    "card (dom (mm_heap s1)) \<le> card (dom (mm_heap s)) + k + packetbufferstoallocate" by auto
  have "card (dom (mm_heap s1)) + length envs * (k + packetbufferstoallocate) \<le> N"
    using it(5) Cons.prems(4) by simp
  with Cons.IH [OF it(2,4) _ _ it(3)] Cons.prems(3) it(1) show ?case by auto
qed auto

text \<open>
  (C17) Refilling: from a pool in any state with no packet buffers yet, the memory manager thread
  builds its initial pool and, whatever the other threads do to the pool while it waits (keeping
  it well-formed), each of its iterations leaves the pool a well-formed queue, adds a hundred
  buffers, and \<open>allocatedpacketbuffers\<close> is the number of buffers ever allocated; no iteration
  dereferences a bad pointer.
\<close>

theorem memorymanager_pool_invariant:
  assumes "mm_heap s = Map.empty" and "hd_next (freepacketbuffers s) = None"
    and "alloc_ok N alloc" and "\<forall>env\<in>set envs. env_ok k env"
    and "initialfreepacketbuffers + length envs * (k + packetbufferstoallocate) \<le> N" and "N < 2 ^ 32"
  shows "\<exists>staging' s' as. memorymanager_function alloc envs staging s = Some (staging', s') \<and>
    pool_ok s' as \<and> packetbufferstoallocate \<le> length as"
proof -
  define s0 where "s0 = s\<lparr>allocatedpacketbuffers := 0,
    freepacketbuffers := (freepacketbuffers s)\<lparr>hd_qlen := 0\<rparr>\<rparr>"
  have "queue_rep (mm_heap s0) (freepacketbuffers s0) []" "finite (dom (mm_heap s0))"
    "allocatedpacketbuffers s0 = of_nat (card (dom (mm_heap s0)))" "card (dom (mm_heap s0)) = 0"
    using assms(1,2) by (simp_all add: s0_def queue_rep_def head_ok_def)
  from stage_buffers_ok [OF this(1-3), of "staging\<lparr>hd_qlen := 0\<rparr>" initialfreepacketbuffers N alloc] this(4)
  obtain st1 s1 bs where init: "memorymanager_init alloc staging s = Some (st1, s1)" "pool_ok s1 bs"
    "length bs = initialfreepacketbuffers" "card (dom (mm_heap s1)) = initialfreepacketbuffers" "hd_qlen st1 = 0"
    using assms(3,5,6)
    by (auto simp: memorymanager_init_def Let_def s0_def initialfreepacketbuffers_def)
  then show ?thesis
    using memorymanager_iters_ok [OF init(2,5) assms(4,3) _ assms(6)] assms(5)
    by (auto simp: memorymanager_function_def initialfreepacketbuffers_def packetbufferstoallocate_def)
qed

text \<open>The two ways to obtain a buffer, after the pool was checked.\<close>

definition take_buffer :: "mm_state \<Rightarrow> (addr option \<times> mm_state) option" where
  "take_buffer s = do {
     (a, q, h) \<leftarrow> dequeue_packet (\<lambda>x. x) False (freepacketbuffers s) (mm_heap s);
     let s = s\<lparr>freepacketbuffers := q, mm_heap := h\<rparr>;
     (case a of Some a \<Rightarrow> Some (Some a, s\<lparr>mm_heap := (mm_heap s)(a \<mapsto> zero_packet)\<rparr>)
      | None \<Rightarrow> Some (None, s)) }"

definition make_buffer :: "(packet_heap \<Rightarrow> addr option) \<Rightarrow> mm_state \<Rightarrow> (addr option \<times> mm_state) option" where
  "make_buffer alloc s = do {
     (a, h) \<leftarrow> newpacket alloc (mm_heap s);
     let s = s\<lparr>mm_heap := h, allocatedpacketbuffers := allocatedpacketbuffers s + 1\<rparr>;
     (case a of Some a \<Rightarrow> Some (Some a, s\<lparr>mm_heap := (mm_heap s)(a \<mapsto> zero_packet)\<rparr>)
      | None \<Rightarrow> Some (None, s)) }"

lemma get_freepacket_buffer_take:
  assumes "0 < hd_qlen (freepacketbuffers s)"
  shows "get_freepacket_buffer alloc env s = take_buffer (env
    (if hd_qlen (freepacketbuffers s) < minfreepacketbuffers then s\<lparr>mm_wakeups := Suc (mm_wakeups s)\<rparr> else s))"
  (is "_ = take_buffer ?s")
  using assms
  by (cases "dequeue_packet (\<lambda>x. x) False (freepacketbuffers ?s) (mm_heap ?s)")
    (auto simp: get_freepacket_buffer_def take_buffer_def Let_def split: option.splits)

lemma get_freepacket_buffer_make:
  assumes "hd_qlen (freepacketbuffers s) = 0"
  shows "get_freepacket_buffer alloc env s = make_buffer alloc (env (s\<lparr>mm_wakeups := Suc (mm_wakeups s)\<rparr>))"
  (is "_ = make_buffer alloc ?s")
  using assms
  by (cases "newpacket alloc (mm_heap ?s)")
    (auto simp: get_freepacket_buffer_def make_buffer_def Let_def split: option.splits)

lemma take_buffer_ok:
  assumes "pool_ok s bs"
  shows "\<exists>s' cs. take_buffer s = Some (if bs = [] then None else Some (hd bs), s') \<and> pool_ok s' cs \<and>
    (if bs = [] then cs = [] else cs = tl bs \<and> mm_heap s' (hd bs) = Some zero_packet \<and> owned (mm_heap s') cs (hd bs))"
proof (cases bs)
  case Nil
  then show ?thesis using assms dequeue_packet_empty [of "mm_heap s" "freepacketbuffers s"]
    by (simp add: take_buffer_def pool_ok_def)
next
  case (Cons a cs)
  then have rep: "queue_rep (mm_heap s) (freepacketbuffers s) (a # cs)" using assms by (simp add: pool_ok_def)
  from dequeue_packet_ok [OF this, of "\<lambda>x. x" False] obtain q' h' where
    d: "dequeue_packet (\<lambda>x. x) False (freepacketbuffers s) (mm_heap s) = Some (Some a, q', h')"
    "queue_rep h' q' cs" "owned h' cs a" "same_payload (mm_heap s) h'" by blast
  have "dom (h'(a \<mapsto> zero_packet)) = dom (mm_heap s)"
    using dom_same_payload [OF d(4)] queue_rep_dom [OF rep] by auto
  moreover have "queue_rep (h'(a \<mapsto> zero_packet)) q' cs" using d(2,3) by (simp add: queue_rep_def owned_def)
  moreover have "owned (h'(a \<mapsto> zero_packet)) cs a" using d(3) by (simp add: owned_def zero_packet_def)
  ultimately show ?thesis using d(1) Cons assms by (simp add: take_buffer_def pool_ok_def)
qed

lemma make_buffer_ok:
  assumes "pool_ok s bs" and "card (dom (mm_heap s)) < N" and "alloc_ok N alloc"
  shows "\<exists>a s'. make_buffer alloc s = Some (Some a, s') \<and> pool_ok s' bs \<and>
    mm_heap s' a = Some zero_packet \<and> owned (mm_heap s') bs a"
proof -
  obtain a where a: "alloc (mm_heap s) = Some a" "mm_heap s a = None"
    using assms by (auto simp: alloc_ok_def pool_ok_def)
  have "a \<notin> set bs" using a(2) assms(1) queue_rep_dom by (force simp: pool_ok_def)
  moreover have "a \<notin> dom (mm_heap s)" using a(2) by auto
  ultimately show ?thesis using a assms(1)
    by (simp add: make_buffer_def newpacket_def pool_ok_def queue_rep_def owned_def zero_packet_def)
qed


text \<open>Returning a buffer: \<open>put_freepacket_buffer\<close> of a buffer the caller holds appends it to the
  pool, and a later \<open>get_freepacket_buffer\<close> on a pool that was empty gives the same buffer back;
  a null argument is reported by \<open>-1\<close> and changes nothing.
\<close>

theorem put_freepacket_buffer_correct:
  assumes "pool_ok s as" and "owned (mm_heap s) as a" and "length as + 1 < 2 ^ 32"
  shows "put_freepacket_buffer None s = Some (-1, s) \<and>
    (\<exists>s'. put_freepacket_buffer (Some a) s = Some (0, s') \<and> pool_ok s' (as @ [a]) \<and>
      (as = [] \<longrightarrow> (\<exists>s''. get_freepacket_buffer alloc (\<lambda>x. x) s' = Some (Some a, s'') \<and> pool_ok s'' [])))"
proof -
  obtain q' h' where q: "queue_packet (freepacketbuffers s) (Some a) (mm_heap s) = Some (0, q', h')"
    "queue_rep h' q' (as @ [a])" "same_payload (mm_heap s) h'"
    using queue_packet_ok assms unfolding pool_ok_def by blast
  define s' where "s' = s\<lparr>freepacketbuffers := q', mm_heap := h'\<rparr>"
  have put: "put_freepacket_buffer (Some a) s = Some (0, s')" using q(1) by (simp add: put_freepacket_buffer_def s'_def)
  have ok: "pool_ok s' (as @ [a])"
    using q(2) dom_same_payload [OF q(3)] assms(1) by (simp add: pool_ok_def s'_def)
  define s1 where "s1 = (if hd_qlen (freepacketbuffers s') < minfreepacketbuffers
    then s'\<lparr>mm_wakeups := Suc (mm_wakeups s')\<rparr> else s')"
  have "pool_ok s1 (as @ [a])" using ok by (simp add: pool_ok_def s1_def)
  from take_buffer_ok [OF this] have "as = [] \<Longrightarrow> \<exists>s''. take_buffer s1 = Some (Some a, s'') \<and> pool_ok s'' []"
    by auto
  moreover have "0 < hd_qlen (freepacketbuffers s')"
    using queue_rep_qlen [OF q(2)] by (simp add: s'_def word_gt_0)
  then have "get_freepacket_buffer alloc (\<lambda>x. x) s' = take_buffer s1"
    by (simp add: get_freepacket_buffer_take s1_def)
  ultimately show ?thesis using put ok by (simp add: put_freepacket_buffer_def queue_packet_def)
qed

section \<open>Witnesses\<close>

text \<open>An allocator over a fixed number of addresses.\<close>

definition first_free :: "packet_heap \<Rightarrow> addr option" where
  "first_free h = find (\<lambda>a. h a = None) [0..<2000]"

lemma first_free_ok: "alloc_ok 2000 first_free"
  unfolding alloc_ok_def
proof (intro allI impI)
  fix h :: packet_heap
  assume fin: "finite (dom h) \<and> card (dom h) < 2000"
  have "\<not> {0..<2000} \<subseteq> dom h" using fin card_mono [of "dom h" "{0..<2000}"] by auto
  then have "find (\<lambda>a. h a = None) [0..<2000] \<noteq> None" by (auto simp: find_None_iff)
  then show "\<exists>a. first_free h = Some a \<and> h a = None"
    by (auto simp: first_free_def find_Some_iff)
qed

definition empty_pool :: mm_state where
  "empty_pool = \<lparr>allocatedpacketbuffers = 0, freepacketbuffers = empty_head, mm_heap = Map.empty, mm_wakeups = 0\<rparr>"

lemma empty_pool_ok: "pool_ok empty_pool []"
  by (simp add: pool_ok_def empty_pool_def)

lemma env_id_ok: "env_ok 0 (\<lambda>x. x)"
  by (auto simp: env_ok_def)

theorem memorymanager_pool_invariant_witness:
  "\<exists>staging' s' as. memorymanager_function first_free [\<lambda>x. x, \<lambda>x. x] two_head empty_pool = Some (staging', s') \<and>
    pool_ok s' as \<and> packetbufferstoallocate \<le> length as"
  by (rule memorymanager_pool_invariant [OF _ _ first_free_ok, where k = 0])
    (auto simp: empty_pool_def empty_head_def env_id_ok initialfreepacketbuffers_def packetbufferstoallocate_def)


definition held_pool :: mm_state where
  "held_pool = empty_pool\<lparr>mm_heap := [7 \<mapsto> zero_packet], allocatedpacketbuffers := 1\<rparr>"

theorem put_freepacket_buffer_correct_witness:
  "put_freepacket_buffer None held_pool = Some (-1, held_pool) \<and>
    (\<exists>s'. put_freepacket_buffer (Some 7) held_pool = Some (0, s') \<and> pool_ok s' ([] @ [7]) \<and>
      ([] = ([]::addr list) \<longrightarrow>
        (\<exists>s''. get_freepacket_buffer first_free (\<lambda>x. x) s' = Some (Some 7, s'') \<and> pool_ok s'' [])))"
  by (rule put_freepacket_buffer_correct)
    (simp_all add: held_pool_def empty_pool_def pool_ok_def owned_def zero_packet_def)

end
