(* ===== verification/Worker.thy ===== *)
theory Worker
  imports Opennop_Header Tcp_Dedup Session_Map Memory_Manager
begin

text \<open>
  The worker threads (\<open>opennopd/subsystems/worker.c\<close>): each takes packets from its queue, optimises
  or deoptimises them, and returns them to the kernel with a verdict.

  A packet is processed as a byte buffer and written back to the heap of packets at the end.
  Verdicts are recorded in order, with the bytes handed to the kernel.  \<open>w_env\<close> holds what a thread
  reads and other threads or the configuration set; \<open>w_shared\<close> holds what the threads share.
  Logging is left out.  \<^const>\<open>None\<close> is a fault.
\<close>

section \<open>State\<close>

record workercounters =
  packets :: u64
  packetsprevious :: u64
  pps :: u64
  bytesin :: u64
  bytesinprevious :: u64
  bpsin :: u64
  bytesout :: u64
  bytesoutprevious :: u64
  bpsout :: u64
  diffBytesCompression :: u64
  diffBytesDeduplication :: u64
  diffBytesIpTcpHeader :: u64
  packetsWithOnlyCompression :: u64
  packetsWithOnlyDeduplication :: u64
  packetsWithBothCompressionAndDeduplication :: u64
  sequenceGaps :: u64

record processor =
  metrics :: workercounters
  pr_queue :: list_head
  dedupProcessor :: Deduplicator
  lzbuffer :: "bytes option"
  dedup_buffer :: "bytes option"

datatype verdict =
  Accepted "addr option" u32 "bytes option"
| Dropped "addr option" u32

record w_env =
  e_compression :: bool
  e_deduplication :: bool
  e_packetPipeline :: bool
  e_localID :: u32
  e_config :: config
  e_qlz :: "bytes \<Rightarrow> bytes"
  e_dlz :: "bytes \<Rightarrow> bytes option"
  e_status :: UncompReturnStatus

record w_shared =
  w_sessions :: session_state
  w_dicts :: shared_dictionaries
  w_mm :: mm_state
  w_verdicts :: "verdict list"

definition TCP_ESTABLISHED :: u8 where "TCP_ESTABLISHED = 1"

definition TCP_SYN_SENT :: u8 where "TCP_SYN_SENT = 2"

definition TCP_CLOSING :: u8 where "TCP_CLOSING = 11"

abbreviation upd_metrics :: "(workercounters \<Rightarrow> workercounters) \<Rightarrow> processor \<Rightarrow> processor" where
  "upd_metrics f pr \<equiv> pr\<lparr>metrics := f (metrics pr)\<rparr>"

text \<open>The local variables of the optimisation thread that outlive a packet; the first three start uninitialised.\<close>

record opt_locals =
  redEl :: nat
  redElComp :: nat
  redElDedup :: nat
  seqNo :: u32

section \<open>Header fields\<close>

definition ip_addrs :: "bytes \<Rightarrow> iphdr option" where
  "ip_addrs p = do {
     s \<leftarrow> load32 p 12;
     d \<leftarrow> load32 p 16;
     Some \<lparr>ip_saddr = s, ip_daddr = d\<rparr> }"

definition tcp_hdr :: "bytes \<Rightarrow> nat \<Rightarrow> tcphdr option" where
  "tcp_hdr p tcph = map_option (\<lambda>s. \<lparr>th_seq = s\<rparr>) (load32 p (tcph + 4))"

definition packet_key :: "bytes \<Rightarrow> nat \<Rightarrow> session_key option" where
  "packet_key p tcph = do {
     ip \<leftarrow> ip_addrs p;
     source \<leftarrow> load16 p tcph;
     dest \<leftarrow> load16 p (tcph + 2);
     Some (sort_sockets (ip_saddr ip) source (ip_daddr ip) dest) }"

text \<open>\<open>syn == 0 && ack == 1 && fin == 0\<close>.\<close>

definition data_segment :: "u8 \<Rightarrow> bool" where
  "data_segment f \<longleftrightarrow> \<not> bit f TH_SYN \<and> bit f TH_ACK \<and> \<not> bit f TH_FIN"

text \<open>Writes the buffer back to the packet at \<open>a\<close>, which may meanwhile have changed queues.\<close>

definition write_back :: "addr \<Rightarrow> bytes \<Rightarrow> w_shared \<Rightarrow> w_shared option" where
  "write_back a p w = do {
     pk \<leftarrow> mm_heap (w_mm w) a;
     Some (w\<lparr>w_mm := (w_mm w)\<lparr>mm_heap := (mm_heap (w_mm w))(a \<mapsto> pk\<lparr>pkt_data := p\<rparr>)\<rparr>\<rparr>) }"

definition give_back :: "addr \<Rightarrow> verdict \<Rightarrow> w_shared \<Rightarrow> w_shared option" where
  "give_back a v w = do {
     (r, mm) \<leftarrow> put_freepacket_buffer (Some a) (w_mm w);
     Some (w\<lparr>w_mm := mm, w_verdicts := w_verdicts w @ [v]\<rparr>) }"

definition set_session :: "addr \<Rightarrow> session \<Rightarrow> w_shared \<Rightarrow> w_shared" where
  "set_session a s w = w\<lparr>w_sessions := (w_sessions w)\<lparr>st_heap := (st_heap (w_sessions w))(a \<mapsto> s)\<rparr>\<rparr>"

text \<open>\<open>getIPPlusTCPHeaderLength(iph) - headersBefore\<close>, 32 bits wide, added to a 64 bit counter.\<close>

definition add_header_diff :: "nat \<Rightarrow> nat \<Rightarrow> workercounters \<Rightarrow> workercounters" where
  "add_header_diff a b m = m\<lparr>diffBytesIpTcpHeader := diffBytesIpTcpHeader m + ucast (of_nat a - of_nat b :: u32)\<rparr>"

section \<open>Closing a session\<close>

definition closingsession :: "nat \<Rightarrow> bytes \<Rightarrow> addr option \<Rightarrow> w_shared \<Rightarrow> (addr option \<times> w_shared) option" where
  "closingsession tcph p thissession w = (case thissession of
     None \<Rightarrow> Some (None, w)
   | Some a \<Rightarrow> do {
       f \<leftarrow> tcp_flags p tcph;
       (if bit f TH_FIN then do {
          s \<leftarrow> st_heap (w_sessions w) a;
          (if s_state s = TCP_ESTABLISHED then Some (Some a, set_session a (s\<lparr>s_state := TCP_CLOSING\<rparr>) w)
           else if s_state s = TCP_CLOSING then do {
             st \<leftarrow> clearsession (Some a) (w_sessions w);
             Some (None, w\<lparr>w_sessions := st\<rparr>) }
           else Some (Some a, w)) }
        else Some (Some a, w)) })"

definition end_of_session :: "nat \<Rightarrow> bytes \<Rightarrow> addr \<Rightarrow> w_shared \<Rightarrow> w_shared option" where
  "end_of_session tcph p a w = do {
     f \<leftarrow> tcp_flags p tcph;
     (thissession, w) \<leftarrow> (if bit f TH_RST then do {
         st \<leftarrow> clearsession (Some a) (w_sessions w);
         Some (None, w\<lparr>w_sessions := st\<rparr>) }
       else Some (Some a, w));
     (x, w) \<leftarrow> closingsession tcph p thissession w;
     Some w }"

section \<open>Optimisation\<close>

text \<open>The far end is another accelerator and the session is established.\<close>

definition accelerate :: "u32 \<Rightarrow> u32 \<Rightarrow> u32 \<Rightarrow> iphdr \<Rightarrow> session \<Rightarrow> bool" where
  "accelerate localID lip sip ip s \<longleftrightarrow>
     ((ip_saddr ip = lip \<and> largerIPAccelerator s = localID \<and> smallerIPAccelerator s \<noteq> 0 \<and> smallerIPAccelerator s \<noteq> localID) \<or>
      (ip_saddr ip = sip \<and> smallerIPAccelerator s = localID \<and> largerIPAccelerator s \<noteq> 0 \<and> largerIPAccelerator s \<noteq> localID)) \<and>
     s_state s = TCP_ESTABLISHED"

type_synonym opt_state = "bytes \<times> session \<times> processor \<times> shared_dictionaries \<times> opt_locals \<times> u8"

definition optimize_compress :: "w_env \<Rightarrow> nat \<Rightarrow> opt_state \<Rightarrow> opt_state option" where
  "optimize_compress e tcph = (\<lambda>(p, s, pr, sh, l, cause). do {
     (n, p, lz) \<leftarrow> tcp_compress (e_qlz e) p (lzbuffer pr);
     let pr = pr\<lparr>lzbuffer := lz\<rparr>;
     let l = l\<lparr>redEl := n\<rparr>;
     (if 0 < n then do {
        p \<leftarrow> tcp_add_seq p tcph 8000;
        Some (p, s, upd_metrics (\<lambda>m. m\<lparr>diffBytesCompression := diffBytesCompression m + of_nat n,
          packetsWithOnlyCompression := packetsWithOnlyCompression m + 1\<rparr>) pr, sh, l, cause) }
      else Some (p, s, pr, sh, l, cause)) })"

text \<open>The packet counters of the combined algorithms.\<close>

definition count_dedup :: "bool \<Rightarrow> nat \<Rightarrow> nat \<Rightarrow> workercounters \<Rightarrow> workercounters" where
  "count_dedup compress_on nd nc m =
     (if compress_on \<and> 0 < nc then
        (let m = m\<lparr>diffBytesCompression := diffBytesCompression m + of_nat nc\<rparr> in
         if 0 < nd
         then m\<lparr>packetsWithBothCompressionAndDeduplication := packetsWithBothCompressionAndDeduplication m + 1\<rparr>
         else m\<lparr>packetsWithOnlyCompression := packetsWithOnlyCompression m + 1\<rparr>)
      else if 0 < nd then m\<lparr>packetsWithOnlyDeduplication := packetsWithOnlyDeduplication m + 1\<rparr>
      else m)"

definition optimize_dedup :: "w_env \<Rightarrow> nat \<Rightarrow> u32 \<Rightarrow> iphdr \<Rightarrow> opt_state \<Rightarrow> opt_state option" where
  "optimize_dedup e tcph lip ip = (\<lambda>(p, s, pr, sh, l, cause). do {
     th \<leftarrow> tcp_hdr p tcph;
     (if checkseqnumber lip (Some ip) (Some th) (Some s) \<noteq> 0 then do {
        s \<leftarrow> snd (updateseqnumber lip (Some ip) (Some th) (Some s));
        buf \<leftarrow> dedup_buffer pr;
        (nd, pd, sh, p, buf) \<leftarrow> tcp_optimize (e_deduplication e) (e_config e) (dedupProcessor pr) sh p buf;
        let pr = pr\<lparr>dedupProcessor := pd, dedup_buffer := Some buf\<rparr>;
        let pr = (if 0 < nd then upd_metrics (\<lambda>m. m\<lparr>diffBytesDeduplication := diffBytesDeduplication m + of_nat nd\<rparr>) pr else pr);
        let l = l\<lparr>redElDedup := nd\<rparr>;
        (p, pr, l) \<leftarrow> (if e_compression e then do {
            (nc, p, lz) \<leftarrow> tcp_compress (e_qlz e) p (lzbuffer pr);
            Some (p, pr\<lparr>lzbuffer := lz\<rparr>, l\<lparr>redElComp := nc\<rparr>) }
          else Some (p, pr, l));
        let pr = upd_metrics (count_dedup (e_compression e) nd (redElComp l)) pr;
        p \<leftarrow> (if 0 < nd \<or> (e_compression e \<and> 0 < redElComp l) then tcp_add_seq p tcph 8000 else Some p);
        Some (p, s, pr, sh, l,
          if redEl l \<noteq> 0 \<or> redElComp l \<noteq> 0 \<or> redElDedup l \<noteq> 0 then NOT_RELEVANT else NO_OPT_GAIN) }
      else do {
        (x, pd, sh) \<leftarrow> tcp_cache_optim (e_config e) (dedupProcessor pr) sh p;
        Some (p, s, pr\<lparr>dedupProcessor := pd\<rparr>, sh, l, IS_A_RTX) }) })"

definition optimize_payload :: "w_env \<Rightarrow> nat \<Rightarrow> u32 \<Rightarrow> u32 \<Rightarrow> iphdr \<Rightarrow> opt_state \<Rightarrow> opt_state option" where
  "optimize_payload e tcph lip sip ip = (\<lambda>(p, s, pr, sh, l, cause).
     if accelerate (e_localID e) lip sip ip s then do {
       let l = l\<lparr>redEl := 0, redElComp := 0, redElDedup := 0\<rparr>;
       x \<leftarrow> (if e_compression e \<and> \<not> e_deduplication e then optimize_compress e tcph (p, s, pr, sh, l, cause)
             else Some (p, s, pr, sh, l, cause));
       (if e_deduplication e then optimize_dedup e tcph lip ip x else Some x) }
     else
       (if e_deduplication e then do {
          th \<leftarrow> tcp_hdr p tcph;
          s \<leftarrow> snd (updateseqnumber lip (Some ip) (Some th) (Some s));
          (x, pd, sh) \<leftarrow> tcp_cache_optim (e_config e) (dedupProcessor pr) sh p;
          Some (p, s, pr\<lparr>dedupProcessor := pd\<rparr>, sh, l, SESSION_CHECK) }
        else Some (p, s, pr, sh, l, SESSION_CHECK)))"

definition add_header :: "w_env \<Rightarrow> nat \<Rightarrow> u8 \<Rightarrow> u8 \<Rightarrow> bytes \<Rightarrow> opt_locals \<Rightarrow> (bytes \<times> opt_locals) option" where
  "add_header e tcph queue cause p l = do {
     doff \<leftarrow> tcp_doff p tcph;
     tcplen \<leftarrow> data_size p tcph doff;
     p \<leftarrow> memmove p (tcph + 4 * doff + OHSIZE) (tcph + 4 * doff) tcplen;
     p \<leftarrow> write_header p (tcph + 4 * doff) \<lparr>oh_seqNo = seqNo l, oh_opennopID = e_localID e,
       oh_compression = (if redEl l \<noteq> 0 \<or> redElComp l \<noteq> 0 then 1 else 0),
       oh_deduplication = (if redElDedup l \<noteq> 0 then 1 else 0), oh_reason = cause, oh_queuenum = queue,
       oh_pattern = OPENNOP_PATTERN\<rparr>;
     tot \<leftarrow> ip_tot_len p;
     p \<leftarrow> set_ip_tot_len p (tot + OHSIZE);
     Some (p, l\<lparr>seqNo := seqNo l + 1\<rparr>) }"

text \<open>A segment without option 32: it gets the option, the acceleration and the header.\<close>

definition optimize_tag ::
    "w_env \<Rightarrow> nat \<Rightarrow> u32 \<Rightarrow> u32 \<Rightarrow> iphdr \<Rightarrow> bytes \<times> session \<times> processor \<times> shared_dictionaries \<times> opt_locals \<Rightarrow>
     (bool \<times> bytes \<times> session \<times> processor \<times> shared_dictionaries \<times> opt_locals) option" where
  "optimize_tag e tcph lip sip ip = (\<lambda>(p, s, pr, sh, l). do {
     s \<leftarrow> snd (saveacceleratorid lip (e_localID e) (Some ip) (Some s));
     (r, p) \<leftarrow> set_tcp_option p 32 3 1;
     (if r = -1 then Some (False, p, s, pr, sh, l)
      else do {
        (p, s, pr, sh, l, cause) \<leftarrow> optimize_payload e tcph lip sip ip (p, s, pr, sh, l, NOT_RELEVANT);
        (p, l) \<leftarrow> add_header e tcph (s_queue s) cause p l;
        Some (True, p, s, pr, sh, l) }) })"

definition optimize_found ::
    "w_env \<Rightarrow> nat \<Rightarrow> nat \<Rightarrow> session_key \<Rightarrow> addr \<Rightarrow> addr \<Rightarrow> packet \<Rightarrow> bytes \<Rightarrow>
     processor \<times> opt_locals \<times> w_shared \<Rightarrow> (processor \<times> opt_locals \<times> w_shared) option" where
  "optimize_found e tcph headersBefore key a sa pk p = (\<lambda>(pr, l, w). do {
     ip \<leftarrow> ip_addrs p;
     f \<leftarrow> tcp_flags p tcph;
     (added, p, pr, l, w) \<leftarrow> (if data_segment f then do {
         s \<leftarrow> st_heap (w_sessions w) sa;
         let (lip, lport, sip, sport) = key;
         (added, p, s, pr, sh, l) \<leftarrow> optimize_tag e tcph lip sip ip (p, s, pr, w_dicts w, l);
         Some (added, p, pr, l, set_session sa s w\<lparr>w_dicts := sh\<rparr>) }
       else Some (False, p, pr, l, w));
     w \<leftarrow> end_of_session tcph p sa w;
     p \<leftarrow> checksum p;
     tot \<leftarrow> ip_tot_len p;
     hdrs \<leftarrow> getIPPlusTCPHeaderLength p;
     let pr = upd_metrics (\<lambda>m. m\<lparr>bytesout := bytesout m + of_nat tot\<rparr>) pr;
     let pr = upd_metrics (add_header_diff hdrs headersBefore) pr;
     let pr = (if added then upd_metrics (\<lambda>m. m\<lparr>diffBytesIpTcpHeader := diffBytesIpTcpHeader m + of_nat OHSIZE\<rparr>) pr else pr);
     data \<leftarrow> load_bytes p 0 tot;
     w \<leftarrow> write_back a p w;
     w \<leftarrow> give_back a (Accepted (pkt_hq pk) (pkt_id pk) (Some data)) w;
     Some (pr, l, w) })"

definition optimize_unknown ::
    "nat \<Rightarrow> addr \<Rightarrow> packet \<Rightarrow> bytes \<Rightarrow> processor \<times> opt_locals \<times> w_shared \<Rightarrow> (processor \<times> opt_locals \<times> w_shared) option" where
  "optimize_unknown headersBefore a pk p = (\<lambda>(pr, l, w). do {
     tot \<leftarrow> ip_tot_len p;
     hdrs \<leftarrow> getIPPlusTCPHeaderLength p;
     let pr = upd_metrics (\<lambda>m. m\<lparr>bytesout := bytesout m + of_nat tot\<rparr>) pr;
     let pr = upd_metrics (add_header_diff hdrs headersBefore) pr;
     w \<leftarrow> give_back a (Accepted (pkt_hq pk) (pkt_id pk) None) w;
     Some (pr, l, w) })"

text \<open>
  A packet that already carries option 32 is given back and its pointer is cleared before the
  verdict reads it: a null dereference.
\<close>

definition optimize_one ::
    "w_env \<Rightarrow> addr \<Rightarrow> processor \<times> opt_locals \<times> w_shared \<Rightarrow> (processor \<times> opt_locals \<times> w_shared) option" where
  "optimize_one e a = (\<lambda>(pr, l, w). do {
     pk \<leftarrow> mm_heap (w_mm w) a;
     let p = pkt_data pk;
     tcph \<leftarrow> ip_ihl4 p;
     headersBefore \<leftarrow> getIPPlusTCPHeaderLength p;
     tot \<leftarrow> ip_tot_len p;
     let pr = upd_metrics (\<lambda>m. m\<lparr>bytesin := bytesin m + of_nat tot\<rparr>) pr;
     v \<leftarrow> get_tcp_option p 32;
     c_assert (v = 0);
     key \<leftarrow> packet_key p tcph;
     thissession \<leftarrow> getsession (w_sessions w) key;
     (pr, l, w) \<leftarrow> (case thissession of
         Some sa \<Rightarrow> optimize_found e tcph headersBefore key a sa pk p (pr, l, w)
       | None \<Rightarrow> optimize_unknown headersBefore a pk p (pr, l, w));
     Some (upd_metrics (\<lambda>m. m\<lparr>packets := packets m + 1\<rparr>) pr, l, w) })"

text \<open>One round of the thread's loop; with nothing enabled the packet pointer is used without a test for null.\<close>

definition optimization_round ::
    "w_env \<Rightarrow> (list_head \<times> packet_heap \<Rightarrow> list_head \<times> packet_heap) \<Rightarrow>
     processor \<times> opt_locals \<times> w_shared \<Rightarrow> (processor \<times> opt_locals \<times> w_shared) option" where
  "optimization_round e wait = (\<lambda>(pr, l, w). do {
     (thispacket, q, h) \<leftarrow> dequeue_packet wait True (pr_queue pr) (mm_heap (w_mm w));
     let pr = pr\<lparr>pr_queue := q\<rparr>;
     let w = w\<lparr>w_mm := (w_mm w)\<lparr>mm_heap := h\<rparr>\<rparr>;
     (if e_compression e \<or> e_deduplication e \<or> e_packetPipeline e then
        (case thispacket of None \<Rightarrow> Some (pr, l, w) | Some a \<Rightarrow> optimize_one e a (pr, l, w))
      else do {
        a \<leftarrow> thispacket;
        pk \<leftarrow> h a;
        w \<leftarrow> give_back a (Accepted (pkt_hq pk) (pkt_id pk) None) w;
        Some (pr, l, w) }) })"

section \<open>Deoptimisation\<close>

text \<open>
  A packet without option 32, with less data than a header, or with the wrong pattern is dropped
  and ends the thread.  Otherwise the header is taken out, the option is reset, and the fields of
  the header are handed on.
\<close>

definition strip_header :: "nat \<Rightarrow> bytes \<Rightarrow> (OpennopHeader \<times> bytes) option option" where
  "strip_header tcph p = do {
     v \<leftarrow> get_tcp_option p 32;
     (if v \<noteq> 0 then do {
        doff \<leftarrow> tcp_doff p tcph;
        let tcpdata = tcph + 4 * doff;
        oh \<leftarrow> read_header p tcpdata;
        incomingLen \<leftarrow> data_size p tcph doff;
        (if incomingLen < OHSIZE then Some None
         else if oh_pattern oh \<noteq> OPENNOP_PATTERN then Some None
         else do {
           p \<leftarrow> memmove p tcpdata (tcpdata + OHSIZE) (incomingLen - OHSIZE);
           (r, p) \<leftarrow> set_tcp_option p 32 3 0;
           tot \<leftarrow> ip_tot_len p;
           p \<leftarrow> set_ip_tot_len p (sub16 tot OHSIZE);
           p \<leftarrow> checksum p;
           Some (Some (oh, p)) }) }
      else Some None) }"

definition check_seqNo :: "u32 \<Rightarrow> u32 \<Rightarrow> processor \<Rightarrow> u32 \<times> processor" where
  "check_seqNo rxSeqNo expectedSeqNo pr =
     (if rxSeqNo \<noteq> expectedSeqNo
      then (rxSeqNo + 1, upd_metrics (\<lambda>m. m\<lparr>sequenceGaps := sequenceGaps m + 1\<rparr>) pr)
      else (expectedSeqNo + 1, pr))"

text \<open>The packet, whether it is still to be delivered, and what the thread changes.\<close>

type_synonym deopt_state = "bytes \<times> bool \<times> session \<times> processor \<times> shared_dictionaries"

definition deoptimize_compressed :: "w_env \<Rightarrow> nat \<Rightarrow> deopt_state \<Rightarrow> deopt_state option" where
  "deoptimize_compressed e tcph = (\<lambda>(p, alive, s, pr, sh). do {
     (n, p, lz) \<leftarrow> tcp_decompress (e_dlz e) p (lzbuffer pr);
     let pr = pr\<lparr>lzbuffer := lz\<rparr>;
     (if n < 0 then Some (p, False, s, pr, sh)
      else do {
        p \<leftarrow> tcp_add_seq p tcph (- 8000);
        Some (p, alive, s, upd_metrics (\<lambda>m. m\<lparr>diffBytesCompression := diffBytesCompression m + of_int n,
          packetsWithOnlyCompression := packetsWithOnlyCompression m + 1\<rparr>) pr, sh) }) })"

text \<open>
  With deduplication enabled: decompression first, then deduplication.  A failed decompression
  gives the packet back, but its buffer is used again below.
\<close>

definition decompress_first :: "w_env \<Rightarrow> nat \<Rightarrow> bool \<Rightarrow> deopt_state \<Rightarrow> (int \<times> deopt_state) option" where
  "decompress_first e tcph dedupPresent = (\<lambda>(p, alive, s, pr, sh). do {
     (n, p, lz) \<leftarrow> tcp_decompress (e_dlz e) p (lzbuffer pr);
     let pr = pr\<lparr>lzbuffer := lz\<rparr>;
     (if n < 0 then Some (n, p, False, s, pr, sh)
      else do {
        let pr = upd_metrics (\<lambda>m. m\<lparr>diffBytesCompression := diffBytesCompression m + of_int n\<rparr>) pr;
        (if \<not> dedupPresent then do {
           p \<leftarrow> tcp_add_seq p tcph (- 8000);
           Some (n, p, alive, s,
             upd_metrics (\<lambda>m. m\<lparr>packetsWithOnlyCompression := packetsWithOnlyCompression m + 1\<rparr>) pr, sh) }
         else Some (n, p, alive, s, pr, sh)) }) })"

definition deoptimize_dedup ::
    "w_env \<Rightarrow> nat \<Rightarrow> u32 \<Rightarrow> iphdr \<Rightarrow> bool \<Rightarrow> bool \<Rightarrow> deopt_state \<Rightarrow> deopt_state option" where
  "deoptimize_dedup e tcph lip ip compressPresent dedupPresent st0 = do {
     (redComp, p, alive, s, pr, sh) \<leftarrow>
       (if e_compression e \<and> compressPresent then decompress_first e tcph dedupPresent st0 else Some (0, st0));
     (if dedupPresent then do {
        th \<leftarrow> tcp_hdr p tcph;
        s \<leftarrow> snd (updateseqnumber lip (Some ip) (Some th) (Some s));
        (redDedup, pd, sh, p, buf) \<leftarrow>
          tcp_deoptimize (e_config e) (dedupProcessor pr) sh p (dedup_buffer pr) (e_status e);
        let pr = pr\<lparr>dedupProcessor := pd, dedup_buffer := buf\<rparr>;
        (if redDedup = ERROR then Some (p, False, s, pr, sh)
         else if redDedup = HASH_NOT_FOUND then Some (p, False, s, pr, sh)
         else do {
           p \<leftarrow> tcp_add_seq p tcph (- 8000);
           let pr = upd_metrics (\<lambda>m. m\<lparr>diffBytesDeduplication := diffBytesDeduplication m + of_int redDedup\<rparr>) pr;
           Some (p, alive, s,
             (if 0 < redComp
              then upd_metrics (\<lambda>m. m\<lparr>packetsWithBothCompressionAndDeduplication := packetsWithBothCompressionAndDeduplication m + 1\<rparr>) pr
              else upd_metrics (\<lambda>m. m\<lparr>packetsWithOnlyDeduplication := packetsWithOnlyDeduplication m + 1\<rparr>) pr), sh) }) }
      else do {
        (x, pd, sh) \<leftarrow> tcp_cache_deoptim (e_config e) (dedupProcessor pr) sh p;
        Some (p, alive, s, pr\<lparr>dedupProcessor := pd\<rparr>, sh) }) }"

definition deoptimize_payload ::
    "w_env \<Rightarrow> nat \<Rightarrow> u32 \<Rightarrow> u32 \<Rightarrow> iphdr \<Rightarrow> OpennopHeader \<Rightarrow> deopt_state \<Rightarrow> deopt_state option" where
  "deoptimize_payload e tcph lip sip ip oh = (\<lambda>(p, alive, s, pr, sh).
     let compressPresent = oh_compression oh \<noteq> 0; dedupPresent = oh_deduplication oh \<noteq> 0 in
     if oh_opennopID oh \<noteq> 0 then do {
       s \<leftarrow> snd (saveacceleratorid lip (oh_opennopID oh) (Some ip) (Some s));
       (if compressPresent \<or> dedupPresent then
          (if (ip_saddr ip = lip \<and> smallerIPAccelerator s = e_localID e) \<or>
              (ip_saddr ip = sip \<and> largerIPAccelerator s = e_localID e) then do {
             x \<leftarrow> (if e_compression e \<and> \<not> e_deduplication e \<and> compressPresent
                  then deoptimize_compressed e tcph (p, alive, s, pr, sh) else Some (p, alive, s, pr, sh));
             (if e_deduplication e then deoptimize_dedup e tcph lip ip compressPresent dedupPresent x else Some x) }
           else Some (p, alive, s, pr, sh))
        else if e_deduplication e then do {
          (x, pd, sh) \<leftarrow> tcp_cache_deoptim (e_config e) (dedupProcessor pr) sh p;
          Some (p, alive, s, pr\<lparr>dedupProcessor := pd\<rparr>, sh) }
        else Some (p, alive, s, pr, sh)) }
     else Some (p, alive, s, pr, sh))"

text \<open>The verdict on a packet whose deoptimisation failed is given at the point of failure, before the session is updated.\<close>

definition deoptimize_found ::
    "w_env \<Rightarrow> nat \<Rightarrow> nat \<Rightarrow> session_key \<Rightarrow> addr \<Rightarrow> addr \<Rightarrow> packet \<Rightarrow> OpennopHeader \<Rightarrow> bytes \<Rightarrow>
     processor \<times> w_shared \<Rightarrow> (processor \<times> w_shared) option" where
  "deoptimize_found e tcph headersBefore key a sa pk oh p = (\<lambda>(pr, w). do {
     ip \<leftarrow> ip_addrs p;
     f \<leftarrow> tcp_flags p tcph;
     (p, alive, pr, w) \<leftarrow> (if data_segment f then do {
         s \<leftarrow> st_heap (w_sessions w) sa;
         let (lip, lport, sip, sport) = key;
         (p, alive, s, pr, sh) \<leftarrow> deoptimize_payload e tcph lip sip ip oh (p, True, s, pr, w_dicts w);
         Some (p, alive, pr, set_session sa s w\<lparr>w_dicts := sh\<rparr>) }
       else Some (p, True, pr, w));
     w \<leftarrow> (if alive then Some w else give_back a (Dropped (pkt_hq pk) (pkt_id pk)) w);
     w \<leftarrow> end_of_session tcph p sa w;
     (if alive then do {
        p \<leftarrow> checksum p;
        tot \<leftarrow> ip_tot_len p;
        hdrs \<leftarrow> getIPPlusTCPHeaderLength p;
        let pr = upd_metrics (\<lambda>m. m\<lparr>bytesout := bytesout m + of_nat tot\<rparr>) pr;
        let pr = upd_metrics (add_header_diff headersBefore hdrs) pr;
        let pr = upd_metrics (\<lambda>m. m\<lparr>diffBytesIpTcpHeader := diffBytesIpTcpHeader m + of_nat OHSIZE\<rparr>) pr;
        data \<leftarrow> load_bytes p 0 tot;
        w \<leftarrow> write_back a p w;
        w \<leftarrow> give_back a (Accepted (pkt_hq pk) (pkt_id pk) (Some data)) w;
        Some (pr, w) }
      else do {
        w \<leftarrow> write_back a p w;
        Some (pr, w) }) })"

definition deoptimize_unknown ::
    "nat \<Rightarrow> addr \<Rightarrow> packet \<Rightarrow> bytes \<Rightarrow> processor \<times> w_shared \<Rightarrow> (processor \<times> w_shared) option" where
  "deoptimize_unknown headersBefore a pk p = (\<lambda>(pr, w). do {
     tot \<leftarrow> ip_tot_len p;
     hdrs \<leftarrow> getIPPlusTCPHeaderLength p;
     let pr = upd_metrics (\<lambda>m. m\<lparr>bytesout := bytesout m + of_nat tot\<rparr>) pr;
     let pr = upd_metrics (add_header_diff hdrs headersBefore) pr;
     let pr = upd_metrics (\<lambda>m. m\<lparr>diffBytesIpTcpHeader := diffBytesIpTcpHeader m - of_nat OHSIZE\<rparr>) pr;
     w \<leftarrow> write_back a p w;
     w \<leftarrow> give_back a (Accepted (pkt_hq pk) (pkt_id pk) None) w;
     Some (pr, w) })"

text \<open>The result tells whether the thread goes on.\<close>

definition deoptimize_one ::
    "w_env \<Rightarrow> addr \<Rightarrow> processor \<times> u32 \<times> w_shared \<Rightarrow> (bool \<times> processor \<times> u32 \<times> w_shared) option" where
  "deoptimize_one e a = (\<lambda>(pr, expectedSeqNo, w). do {
     pk \<leftarrow> mm_heap (w_mm w) a;
     let p = pkt_data pk;
     tcph \<leftarrow> ip_ihl4 p;
     headersBefore \<leftarrow> getIPPlusTCPHeaderLength p;
     tot \<leftarrow> ip_tot_len p;
     let pr = upd_metrics (\<lambda>m. m\<lparr>bytesin := bytesin m + of_nat tot\<rparr>) pr;
     r \<leftarrow> strip_header tcph p;
     (case r of
        None \<Rightarrow> do {
          w \<leftarrow> give_back a (Dropped (pkt_hq pk) (pkt_id pk)) w;
          Some (False, pr, expectedSeqNo, w) }
      | Some (oh, p) \<Rightarrow> do {
          let (expectedSeqNo, pr) = check_seqNo (oh_seqNo oh) expectedSeqNo pr;
          key \<leftarrow> packet_key p tcph;
          thissession \<leftarrow> getsession (w_sessions w) key;
          (pr, w) \<leftarrow> (case thissession of
              Some sa \<Rightarrow> deoptimize_found e tcph headersBefore key a sa pk oh p (pr, w)
            | None \<Rightarrow> deoptimize_unknown headersBefore a pk p (pr, w));
          Some (True, upd_metrics (\<lambda>m. m\<lparr>packets := packets m + 1\<rparr>) pr, expectedSeqNo, w) }) })"

definition deoptimization_round ::
    "w_env \<Rightarrow> (list_head \<times> packet_heap \<Rightarrow> list_head \<times> packet_heap) \<Rightarrow>
     processor \<times> u32 \<times> w_shared \<Rightarrow> (bool \<times> processor \<times> u32 \<times> w_shared) option" where
  "deoptimization_round e wait = (\<lambda>(pr, x, w). do {
     (thispacket, q, h) \<leftarrow> dequeue_packet wait True (pr_queue pr) (mm_heap (w_mm w));
     let pr = pr\<lparr>pr_queue := q\<rparr>;
     let w = w\<lparr>w_mm := (w_mm w)\<lparr>mm_heap := h\<rparr>\<rparr>;
     (case thispacket of None \<Rightarrow> Some (True, pr, x, w) | Some a \<Rightarrow> deoptimize_one e a (pr, x, w)) })"

section \<open>The threads\<close>

text \<open>
  A run of a thread: for each round the state of the worker, the environment, the effect of the
  other threads since the last round and during the wait for a packet.  The run ends when the
  state is \<open>STOPPED\<close>, when the thread returns, or when the list is exhausted.
\<close>

record w_step =
  ws_state :: int
  ws_env :: w_env
  ws_others :: "list_head \<times> w_shared \<Rightarrow> list_head \<times> w_shared"
  ws_wait :: "list_head \<times> packet_heap \<Rightarrow> list_head \<times> packet_heap"

definition STOPPED :: int where "STOPPED = -1"

definition STOPPING :: int where "STOPPING = 0"

definition RUNNING :: int where "RUNNING = 1"

definition others_act :: "w_step \<Rightarrow> processor \<times> w_shared \<Rightarrow> processor \<times> w_shared" where
  "others_act x = (\<lambda>(pr, w). (let (q, w) = ws_others x (pr_queue pr, w) in (pr\<lparr>pr_queue := q\<rparr>, w)))"

fun optimization_loop ::
    "w_step list \<Rightarrow> processor \<times> opt_locals \<times> w_shared \<Rightarrow> (processor \<times> opt_locals \<times> w_shared) option" where
  "optimization_loop [] s = Some s"
| "optimization_loop (x # xs) (pr, l, w) =
     (if STOPPING \<le> ws_state x then
        (let (pr, w) = others_act x (pr, w) in
         optimization_round (ws_env x) (ws_wait x) (pr, l, w) \<bind> optimization_loop xs)
      else Some (pr, l, w))"

text \<open>\<open>calloc\<close> of the two buffers is taken to succeed; the thread exits the process otherwise.\<close>

definition thread_init :: "processor \<Rightarrow> processor" where
  "thread_init pr = pr\<lparr>lzbuffer := Some (replicate (BUFSIZE + 400) 0), dedup_buffer := Some (replicate (2 * BUFSIZE + 400) 0)\<rparr>"

definition thread_exit :: "processor \<Rightarrow> processor" where
  "thread_exit pr = pr\<lparr>lzbuffer := None, dedup_buffer := None\<rparr>"

definition optimization_thread ::
    "opt_locals \<Rightarrow> w_step list \<Rightarrow> processor \<times> w_shared \<Rightarrow> (processor \<times> w_shared) option" where
  "optimization_thread uninit steps = (\<lambda>(pr, w). do {
     (pr, l, w) \<leftarrow> optimization_loop steps (thread_init pr, uninit\<lparr>seqNo := 0\<rparr>, w);
     Some (thread_exit pr, w) })"

text \<open>The flag tells whether the loop ended by its condition, not by a return.\<close>

fun deoptimization_loop ::
    "w_step list \<Rightarrow> processor \<times> u32 \<times> w_shared \<Rightarrow> (bool \<times> processor \<times> u32 \<times> w_shared) option" where
  "deoptimization_loop [] s = Some (True, s)"
| "deoptimization_loop (x # xs) (pr, n, w) =
     (if STOPPING \<le> ws_state x then do {
        let (pr, w) = others_act x (pr, w);
        (go, s) \<leftarrow> deoptimization_round (ws_env x) (ws_wait x) (pr, n, w);
        (if go then deoptimization_loop xs s else Some (False, s)) }
      else Some (True, pr, n, w))"

definition deoptimization_thread :: "w_step list \<Rightarrow> processor \<times> w_shared \<Rightarrow> (processor \<times> w_shared) option" where
  "deoptimization_thread steps = (\<lambda>(pr, w). do {
     (go, pr, n, w) \<leftarrow> deoptimization_loop steps (thread_init pr, 0, w);
     Some (if go then thread_exit pr else pr, w) })"

end
