(* ===== verification/Worker_Control.thy ===== *)
theory Worker_Control
  imports Worker
begin

text \<open>
  The array of workers (\<open>opennopd/subsystems/worker.c\<close>): creating and stopping them, handing packets
  to their queues, and updating their metrics (\<open>counters.c\<close>).  The session counters of the workers
  are in the session table; threads, locks and condition variables are left out.  An index outside
  the array is a fault.
\<close>

record worker =
  workernum :: int
  optimization :: processor
  deoptimization :: processor
  wk_state :: int

section \<open>Creation and shutdown\<close>

definition initialize_worker_processor :: "processor \<Rightarrow> processor" where
  "initialize_worker_processor pr = pr\<lparr>pr_queue := \<lparr>hd_next = None, hd_prev = None, hd_qlen = 0\<rparr>,
     lzbuffer := None, dedup_buffer := None\<rparr>"

definition set_worker_state_running :: "worker \<Rightarrow> worker" where
  "set_worker_state_running k = k\<lparr>wk_state := RUNNING\<rparr>"

definition set_worker_state_stopping :: "worker \<Rightarrow> worker" where
  "set_worker_state_stopping k = k\<lparr>wk_state := STOPPING\<rparr>"

definition set_worker_state_stopped :: "worker \<Rightarrow> worker" where
  "set_worker_state_stopped k = k\<lparr>wk_state := STOPPED\<rparr>"

definition get_workers :: "session_state \<Rightarrow> u8" where
  "get_workers st = numworkers st"

definition set_workers :: "u8 \<Rightarrow> session_state \<Rightarrow> session_state" where
  "set_workers n st = st\<lparr>numworkers := n\<rparr>"

definition upd_worker :: "nat \<Rightarrow> (worker \<Rightarrow> worker) \<Rightarrow> worker list \<Rightarrow> worker list option" where
  "upd_worker i f ws = (if i < length ws then Some (ws[i := f (ws ! i)]) else None)"

text \<open>The session counter of the worker is reset as well; the two threads start.\<close>

definition create_worker ::
    "config \<Rightarrow> uninit \<Rightarrow> uninit \<Rightarrow> nat \<Rightarrow> worker list \<times> session_state \<Rightarrow> (worker list \<times> session_state) option" where
  "create_worker c u v i = (\<lambda>(ws, st). do {
     ws \<leftarrow> upd_worker i (\<lambda>k. set_worker_state_running (k\<lparr>
       optimization := (initialize_worker_processor (optimization k))\<lparr>dedupProcessor := newDeduplicator c u\<rparr>,
       deoptimization := (initialize_worker_processor (deoptimization k))\<lparr>dedupProcessor := newDeduplicator c v\<rparr>,
       workernum := int i\<rparr>)) ws;
     c_assert (i < length (worker_sessions st));
     Some (ws, st\<lparr>worker_sessions := (worker_sessions st)[i := 0]\<rparr>) })"

text \<open>The daemon creates its workers one after the other.\<close>

definition create_workers ::
    "config \<Rightarrow> (nat \<Rightarrow> uninit) \<Rightarrow> (nat \<Rightarrow> uninit) \<Rightarrow> worker list \<times> session_state \<Rightarrow> (worker list \<times> session_state) option" where
  "create_workers c u v = (\<lambda>(ws, st). foldM (\<lambda>i. create_worker c (u i) (v i) i) [0..<unat (get_workers st)] (ws, st))"

definition rejoin_worker :: "nat \<Rightarrow> worker list \<Rightarrow> worker list option" where
  "rejoin_worker i ws = upd_worker i set_worker_state_stopped ws"

definition get_worker_compressor :: "nat \<Rightarrow> worker list \<Rightarrow> Deduplicator option" where
  "get_worker_compressor i ws = (if i < length ws then Some (dedupProcessor (optimization (ws ! i))) else None)"

definition get_worker_decompressor :: "nat \<Rightarrow> worker list \<Rightarrow> Deduplicator option" where
  "get_worker_decompressor i ws = (if i < length ws then Some (dedupProcessor (deoptimization (ws ! i))) else None)"

section \<open>Handing packets to the workers\<close>

definition optimize_packet :: "u8 \<Rightarrow> addr option \<Rightarrow> worker list \<times> packet_heap \<Rightarrow> (int \<times> worker list \<times> packet_heap) option" where
  "optimize_packet queue thispacket = (\<lambda>(ws, h). do {
     c_assert (unat queue < length ws);
     let k = ws ! unat queue;
     (r, q, h) \<leftarrow> queue_packet (pr_queue (optimization k)) thispacket h;
     Some (r, ws[unat queue := k\<lparr>optimization := (optimization k)\<lparr>pr_queue := q\<rparr>\<rparr>], h) })"

definition deoptimize_packet :: "u8 \<Rightarrow> addr option \<Rightarrow> worker list \<times> packet_heap \<Rightarrow> (int \<times> worker list \<times> packet_heap) option" where
  "deoptimize_packet queue thispacket = (\<lambda>(ws, h). do {
     c_assert (unat queue < length ws);
     let k = ws ! unat queue;
     (r, q, h) \<leftarrow> queue_packet (pr_queue (deoptimization k)) thispacket h;
     Some (r, ws[unat queue := k\<lparr>deoptimization := (deoptimization k)\<lparr>pr_queue := q\<rparr>\<rparr>], h) })"

section \<open>Metrics\<close>

definition UPDATECOUNTERSTIMER :: nat where "UPDATECOUNTERSTIMER = 5"

text \<open>
  The rate since the last update.  The counts are 32 bits wide; the quotient of an unsigned
  difference by the timer fits in the signed result.
\<close>

definition calculate_ppsbps :: "u32 \<Rightarrow> u32 \<Rightarrow> int" where
  "calculate_ppsbps previouscount currentcount =
     (if previouscount < currentcount then int (unat (currentcount - previouscount) div UPDATECOUNTERSTIMER)
      else (let scale = 2 ^ 31 :: u32 in
        int (unat ((currentcount + scale) - (previouscount + scale)) div UPDATECOUNTERSTIMER)))"

definition counter_updateworkermetrics :: "workercounters \<Rightarrow> workercounters" where
  "counter_updateworkermetrics m = (
     let counter = ucast (packets m) :: u32;
         m = m\<lparr>pps := of_int (calculate_ppsbps (ucast (packetsprevious m)) counter)\<rparr>;
         m = m\<lparr>packetsprevious := ucast counter\<rparr>;
         counter = ucast (bytesin m);
         m = m\<lparr>bpsin := of_int (calculate_ppsbps (ucast (bytesinprevious m)) counter)\<rparr>;
         m = m\<lparr>bytesinprevious := ucast counter\<rparr>;
         counter = ucast (bytesout m);
         m = m\<lparr>bpsout := of_int (calculate_ppsbps (ucast (bytesoutprevious m)) counter)\<rparr> in
     m\<lparr>bytesoutprevious := ucast counter\<rparr>)"

section \<open>Properties\<close>

text \<open>A worker whose byte counters are about to pass \<open>2 ^ 32\<close>.\<close>

definition busy_metrics :: workercounters where
  "busy_metrics = \<lparr>packets = 2 ^ 33 + 7, packetsprevious = 0, pps = 0, bytesin = 2 ^ 32 - 1, bytesinprevious = 0, bpsin = 0,
     bytesout = 2 ^ 32 - 9, bytesoutprevious = 0, bpsout = 0, diffBytesCompression = 0, diffBytesDeduplication = 0,
     diffBytesIpTcpHeader = 0, packetsWithOnlyCompression = 0, packetsWithOnlyDeduplication = 0,
     packetsWithBothCompressionAndDeduplication = 0, sequenceGaps = 0\<rparr>"

lemma ucast_back: "(ucast (ucast (x :: u64) :: u32) :: u64) = take_bit 32 x" "(ucast (take_bit 32 x) :: u32) = ucast x"
  by (rule bit_word_eqI; simp add: bit_simps)+

lemma rate_step: "n < 2 ^ 32 \<Longrightarrow> calculate_ppsbps c (c + of_nat n) = int (n div 5)"
proof -
  assume "n < 2 ^ 32"
  then have "unat (of_nat n :: u32) = n" by (simp add: unat_of_nat)
  then show ?thesis by (simp add: calculate_ppsbps_def UPDATECOUNTERSTIMER_def Let_def)
qed

text \<open>Rates survive the wrap-around of the 32 bit counters: if a counter advances by \<open>d\<close>, for any
  \<open>d\<close> below \<open>2 ^ 32\<close> and any starting value, the rate is \<open>d\<close> divided by the length of the period, and it
  is never negative.
\<close>

theorem calculate_ppsbps_wraps:
  assumes "d < 2 ^ 32"
  shows "calculate_ppsbps c (c + of_nat d) = int (d div 5)"
  using assms by (rule rate_step)

theorem calculate_ppsbps_wraps_witness:
  "(100 :: nat) < 2 ^ 32 \<and> calculate_ppsbps (- 1) (- 1 + of_nat 100) = int (100 div 5)"
  using calculate_ppsbps_wraps [of 100 "- 1"] by simp

lemma ucast_add: "(ucast (x + of_nat n :: u64) :: u32) = ucast x + of_nat n"
proof -
  have "(a + n mod 2 ^ 64) mod 2 ^ 64 mod 2 ^ 32 = (a mod 2 ^ 32 + n mod 2 ^ 32) mod 2 ^ 32" for a n :: nat
  proof -
    have "(a + n mod 2 ^ 64) mod 2 ^ 64 mod 2 ^ 32 = (a + n) mod 2 ^ 64 mod 2 ^ 32" by (simp add: mod_simps)
    also have "\<dots> = (a + n) mod 2 ^ 32" by (rule mod_mod_cancel) simp
    also have "\<dots> = (a mod 2 ^ 32 + n mod 2 ^ 32) mod 2 ^ 32" by (simp add: mod_simps)
    finally show ?thesis .
  qed
  from this [of "unat x" n] have "unat (ucast (x + of_nat n) :: u32) = unat (ucast x + of_nat n :: u32)"
    by (simp add: unsigned_ucast_eq take_bit_eq_mod unat_word_ariths unat_of_nat)
  then show ?thesis by (simp add: word_unat_eq_iff)
qed

text \<open>After an update the stored previous counts are the low 32 bits of the counters, so the rates
  of a worker that has handled less than \<open>2 ^ 32\<close> packets and bytes since the last update are exact
  whatever the 64 bit totals are.
\<close>

theorem worker_rates_exact:
  assumes "np < 2 ^ 32" and "ni < 2 ^ 32" and "no < 2 ^ 32"
  shows "let m1 = counter_updateworkermetrics m;
      m2 = counter_updateworkermetrics (m1\<lparr>packets := packets m1 + of_nat np, bytesin := bytesin m1 + of_nat ni,
        bytesout := bytesout m1 + of_nat no\<rparr>) in
    pps m2 = of_nat (np div 5) \<and> bpsin m2 = of_nat (ni div 5) \<and> bpsout m2 = of_nat (no div 5) \<and>
    packets m2 = packets m + of_nat np"
  using assms by (simp add: counter_updateworkermetrics_def Let_def ucast_add rate_step ucast_back)

theorem worker_rates_exact_witness:
  "let m1 = counter_updateworkermetrics busy_metrics;
      m2 = counter_updateworkermetrics (m1\<lparr>packets := packets m1 + of_nat 50, bytesin := bytesin m1 + of_nat 70000,
        bytesout := bytesout m1 + of_nat 40000\<rparr>) in
    pps m2 = of_nat (50 div 5) \<and> bpsin m2 = of_nat (70000 div 5) \<and> bpsout m2 = of_nat (40000 div 5) \<and>
    packets m2 = packets busy_metrics + of_nat 50"
  by (rule worker_rates_exact) simp_all

end
