(* ===== verification/Fetcher.thy ===== *)
theory Fetcher
  imports Worker_Control
begin

text \<open>
  The fetcher (\<open>opennopd/subsystems/fetcher.c\<close>): the callback the kernel's packet queue calls for
  each packet.  It tracks sessions from SYN segments, tags these, and hands data segments to the
  workers of their session.

  A packet is the bytes from the start of its IP header to the end of the receive buffer.  The
  time of day and the allocators are arguments; the return value, which the library ignores, and
  the log are left out.  \<^const>\<open>None\<close> is a fault.
\<close>

section \<open>State\<close>

record fetchercounters =
  f_packets :: u32
  f_packetsprevious :: u32
  f_pps :: u32
  f_bytesin :: u32
  f_bytesinprevious :: u32
  f_bpsin :: u32

record f_state =
  f_sessions :: session_state
  f_mm :: mm_state
  f_workers :: "worker list"
  f_metrics :: fetchercounters
  f_verdicts :: "verdict list"

record f_env =
  fe_servicestate :: int
  fe_localID :: u32
  fe_time :: u64
  fe_alloc :: "packet_heap \<Rightarrow> addr option"
  fe_salloc :: "session heap \<Rightarrow> addr option"
  fe_others :: "mm_state \<Rightarrow> mm_state"

record f_packet =
  fp_hq :: "addr option"
  fp_id :: u32
  fp_ret :: nat
  fp_data :: bytes

definition count_packet :: "f_state \<Rightarrow> f_state" where
  "count_packet s = s\<lparr>f_metrics := (f_metrics s)\<lparr>f_packets := f_packets (f_metrics s) + 1\<rparr>\<rparr>"

definition add_verdict :: "verdict \<Rightarrow> f_state \<Rightarrow> f_state" where
  "add_verdict v s = s\<lparr>f_verdicts := f_verdicts s @ [v]\<rparr>"

text \<open>\<open>nfq_set_verdict(hq, id, NF_ACCEPT, ntohs(iph->tot_len), originalpacket)\<close>.\<close>

definition accept_packet :: "f_packet \<Rightarrow> bytes \<Rightarrow> f_state \<Rightarrow> f_state option" where
  "accept_packet fp p s = do {
     tot \<leftarrow> ip_tot_len p;
     d \<leftarrow> load_bytes p 0 tot;
     Some (add_verdict (Accepted (fp_hq fp) (fp_id fp) (Some d)) s) }"

definition put_session :: "addr \<Rightarrow> session \<Rightarrow> f_state \<Rightarrow> f_state" where
  "put_session a x s = s\<lparr>f_sessions := (f_sessions s)\<lparr>st_heap := (st_heap (f_sessions s))(a \<mapsto> x)\<rparr>\<rparr>"

section \<open>Reading the accelerator header\<close>

text \<open>The identifier and queue of the remote accelerator, 0 without option 32; \<^term>\<open>None\<close> inside: drop.\<close>

definition fetch_remote :: "nat \<Rightarrow> bytes \<Rightarrow> (u32 \<times> u8) option option" where
  "fetch_remote tcph p = do {
     v \<leftarrow> get_tcp_option p 32;
     (if v \<noteq> 0 then do {
        doff \<leftarrow> tcp_doff p tcph;
        incLen \<leftarrow> data_size p tcph doff;
        (if incLen < OHSIZE then Some None
         else do {
           oh \<leftarrow> read_header p (tcph + 4 * doff);
           (if oh_pattern oh \<noteq> OPENNOP_PATTERN then Some None
            else Some (Some (oh_opennopID oh, oh_queuenum oh))) }) }
      else Some (Some (0, 0))) }"

section \<open>SYN segments\<close>

text \<open>The header added to a SYN segment, which has no data to move.\<close>

definition syn_header :: "u32 \<Rightarrow> u8 \<Rightarrow> nat \<Rightarrow> bytes \<Rightarrow> bytes option" where
  "syn_header localID queue tcph p = do {
     doff \<leftarrow> tcp_doff p tcph;
     p \<leftarrow> write_header p (tcph + 4 * doff) \<lparr>oh_seqNo = 0, oh_opennopID = localID, oh_compression = 0,
       oh_deduplication = 0, oh_reason = NOT_RELEVANT, oh_queuenum = queue, oh_pattern = OPENNOP_PATTERN\<rparr>;
     tot \<leftarrow> ip_tot_len p;
     set_ip_tot_len p (tot + OHSIZE) }"

text \<open>A SYN segment from a client: its MSS is reduced and it is tagged, if its MSS allows.\<close>

definition syn_from_client :: "f_env \<Rightarrow> nat \<Rightarrow> u32 \<Rightarrow> iphdr \<Rightarrow> bytes \<Rightarrow> session \<Rightarrow> (bytes \<times> session) option" where
  "syn_from_client e tcph lip ip p x = do {
     v \<leftarrow> get_tcp_option p 2;
     let mms = (ucast v :: u16);
     (if 68 < mms then do {
        (r, p) \<leftarrow> set_tcp_option p 2 4 (ucast mms - 68);
        (r, p) \<leftarrow> set_tcp_option p 32 3 1;
        p \<leftarrow> (if r = -1 then Some p else syn_header (fe_localID e) (s_queue x) tcph p);
        x \<leftarrow> snd (saveacceleratorid lip (fe_localID e) (Some ip) (Some x));
        p \<leftarrow> checksum p;
        Some (p, x) }
      else Some (p, x)) }"

definition syn_from_remote :: "nat \<Rightarrow> u32 \<Rightarrow> u32 \<Rightarrow> iphdr \<Rightarrow> bytes \<Rightarrow> session \<Rightarrow> (bytes \<times> session) option" where
  "syn_from_remote tcph lip remoteID ip p x = do {
     (r, p) \<leftarrow> set_tcp_option p 32 3 0;
     p \<leftarrow> (if r = -1 then Some p else do {
         tot \<leftarrow> ip_tot_len p;
         set_ip_tot_len p (sub16 tot OHSIZE) });
     p \<leftarrow> checksum p;
     x \<leftarrow> snd (saveacceleratorid lip remoteID (Some ip) (Some x));
     Some (p, x) }"

definition fetch_syn ::
    "f_env \<Rightarrow> f_packet \<Rightarrow> nat \<Rightarrow> session_key \<Rightarrow> u32 \<Rightarrow> u8 \<Rightarrow> u8 \<Rightarrow> addr option \<Rightarrow> f_state \<Rightarrow> f_state option" where
  "fetch_syn e fp tcph key remoteID inqueue flags thissession s = do {
     let p = fp_data fp;
     (thissession, st) \<leftarrow> (case thissession of
         None \<Rightarrow> insertsession (fe_salloc e) key (if remoteID \<noteq> 0 then int (unat inqueue) else -1) (f_sessions s)
       | Some a \<Rightarrow> Some (Some a, f_sessions s));
     let s = s\<lparr>f_sessions := st\<rparr>;
     (p, s) \<leftarrow> (case thissession of
         None \<Rightarrow> Some (p, s)
       | Some a \<Rightarrow> do {
           let (lip, lport, sip, sport) = key;
           let ack = bit flags TH_ACK;
           x \<leftarrow> st_heap st a;
           ip \<leftarrow> ip_addrs p;
           th \<leftarrow> tcp_hdr p tcph;
           let x = x\<lparr>lastactive := fe_time e\<rparr>;
           (r, x) \<leftarrow> sourceisclient lip (Some ip) (Some x) (\<not> ack);
           let (r, x) = updateseq lip (Some ip) (Some th) x;
           x \<leftarrow> snd (updateseqnumber lip (Some ip) (Some th) x);
           (p, x) \<leftarrow> (if remoteID = 0 then syn_from_client e tcph lip ip p x
                    else syn_from_remote tcph lip remoteID ip p x);
           Some (p, put_session a (x\<lparr>s_state := if ack then TCP_ESTABLISHED else TCP_SYN_SENT\<rparr>) s) });
     accept_packet fp p (count_packet s) }"

section \<open>Data segments\<close>

text \<open>Copies the packet to a buffer from the pool and hands it to a worker; without a buffer it is lost.  The result tells whether there was one.\<close>

definition enqueue_for ::
    "f_env \<Rightarrow> bool \<Rightarrow> u8 \<Rightarrow> f_packet \<Rightarrow> f_state \<Rightarrow> (bool \<times> f_state) option" where
  "enqueue_for e optimize queue fp s = do {
     (thispacket, mm) \<leftarrow> get_freepacket_buffer (fe_alloc e) (fe_others e) (f_mm s);
     (case thispacket of
        None \<Rightarrow> Some (False, s\<lparr>f_mm := mm\<rparr>)
      | Some a \<Rightarrow> do {
          (r, h) \<leftarrow> save_packet a (fp_hq fp) (fp_id fp) (fp_ret fp) (fp_data fp) (mm_heap mm);
          (r, ws, h) \<leftarrow> (if optimize then optimize_packet queue (Some a) (f_workers s, h)
                       else deoptimize_packet queue (Some a) (f_workers s, h));
          Some (True, s\<lparr>f_mm := mm\<lparr>mm_heap := h\<rparr>, f_workers := ws\<rparr>) }) }"

definition fetch_known ::
    "f_env \<Rightarrow> f_packet \<Rightarrow> u32 \<Rightarrow> addr \<Rightarrow> f_state \<Rightarrow> f_state option" where
  "fetch_known e fp remoteID a s = do {
     x \<leftarrow> st_heap (f_sessions s) a;
     let s = put_session a (x\<lparr>lastactive := fe_time e, deadcounter := 0\<rparr>) s;
     v \<leftarrow> get_tcp_option (fp_data fp) 32;
     (if v = 2 then Some (add_verdict (Dropped (fp_hq fp) (fp_id fp)) s)
      else do {
        (q, s) \<leftarrow> enqueue_for e (remoteID = 0) (s_queue x) fp s;
        Some (count_packet s) }) }"

text \<open>A segment of an unknown session: a tagged ACK segment creates the session.\<close>

definition fetch_unknown ::
    "f_env \<Rightarrow> f_packet \<Rightarrow> nat \<Rightarrow> session_key \<Rightarrow> u32 \<Rightarrow> u8 \<Rightarrow> u8 \<Rightarrow> f_state \<Rightarrow> f_state option" where
  "fetch_unknown e fp tcph key remoteID inqueue flags s = do {
     (created, s) \<leftarrow> (if bit flags TH_ACK \<and> remoteID \<noteq> 0 then do {
         (thissession, st) \<leftarrow> insertsession (fe_salloc e) key (int (unat inqueue)) (f_sessions s);
         let s = s\<lparr>f_sessions := st\<rparr>;
         (case thissession of
            None \<Rightarrow> Some (False, s)
          | Some a \<Rightarrow> do {
              let (lip, lport, sip, sport) = key;
              x \<leftarrow> st_heap st a;
              ip \<leftarrow> ip_addrs (fp_data fp);
              th \<leftarrow> tcp_hdr (fp_data fp) tcph;
              x \<leftarrow> snd (saveacceleratorid lip remoteID (Some ip) (Some (x\<lparr>s_state := TCP_ESTABLISHED\<rparr>)));
              y \<leftarrow> snd (updateseqnumber lip (Some ip) (Some th) (Some x));
              (queued, s) \<leftarrow> enqueue_for e False (s_queue x) fp (put_session a x s);
              let s = (if queued then put_session a y s else s);
              Some (True, count_packet s) }) }
       else Some (False, s));
     (if created then Some s else accept_packet fp (fp_data fp) (count_packet s)) }"

section \<open>The callback\<close>

definition fetcher_callback :: "f_env \<Rightarrow> f_packet \<Rightarrow> f_state \<Rightarrow> f_state option" where
  "fetcher_callback e fp s =
     (if RUNNING \<le> fe_servicestate e then do {
        let p = fp_data fp;
        tot \<leftarrow> ip_tot_len p;
        let s = s\<lparr>f_metrics := (f_metrics s)\<lparr>f_bytesin := f_bytesin (f_metrics s) + of_nat tot\<rparr>\<rparr>;
        proto \<leftarrow> ip_protocol p;
        (if proto = IPPROTO_TCP \<and> fp_id fp \<noteq> 0 then do {
           tcph \<leftarrow> ip_ihl4 p;
           key \<leftarrow> packet_key p tcph;
           r \<leftarrow> fetch_remote tcph p;
           (case r of
              None \<Rightarrow> Some (add_verdict (Dropped (fp_hq fp) (fp_id fp)) s)
            | Some (remoteID, inqueue) \<Rightarrow> do {
                thissession \<leftarrow> getsession (f_sessions s) key;
                flags \<leftarrow> tcp_flags p tcph;
                (if bit flags TH_SYN then fetch_syn e fp tcph key remoteID inqueue flags thissession s
                 else (case thissession of
                    Some a \<Rightarrow> fetch_known e fp remoteID a s
                  | None \<Rightarrow> fetch_unknown e fp tcph key remoteID inqueue flags s)) }) }
         else Some (add_verdict (Accepted (fp_hq fp) (fp_id fp) None) (count_packet s))) }
      else Some (add_verdict (Accepted (fp_hq fp) (fp_id fp) None) (count_packet s)))"

definition counter_updatefetchermetrics :: "fetchercounters \<Rightarrow> fetchercounters" where
  "counter_updatefetchermetrics m = (
     let counter = f_packets m;
         m = m\<lparr>f_pps := of_int (calculate_ppsbps (f_packetsprevious m) counter)\<rparr>;
         m = m\<lparr>f_packetsprevious := counter\<rparr>;
         counter = f_bytesin m;
         m = m\<lparr>f_bpsin := of_int (calculate_ppsbps (f_bytesinprevious m) counter)\<rparr> in
     m\<lparr>f_bytesinprevious := counter\<rparr>)"

section \<open>The branches of the callback\<close>

lemma count_packet_metrics: "\<exists>m. count_packet s = s\<lparr>f_metrics := m\<rparr>"
  by (auto simp: count_packet_def)

lemma fetcher_callback_cases:
  assumes r: "fetcher_callback e fp s = Some s'"
  obtains (verdict) v m where "s' = add_verdict v (s\<lparr>f_metrics := m\<rparr>)"
      "v = Dropped (fp_hq fp) (fp_id fp) \<or> v = Accepted (fp_hq fp) (fp_id fp) None"
    | (syn) t key i q f x m where "getsession (f_sessions s) key = Some x"
        "fetch_syn e fp t key i q f x (s\<lparr>f_metrics := m\<rparr>) = Some s'"
    | (known) a i m where "fetch_known e fp i a (s\<lparr>f_metrics := m\<rparr>) = Some s'"
    | (unknown) t key i q f m where "getsession (f_sessions s) key = Some None"
        "fetch_unknown e fp t key i q f (s\<lparr>f_metrics := m\<rparr>) = Some s'"
proof (cases "RUNNING \<le> fe_servicestate e")
  case False
  then have "s' = add_verdict (Accepted (fp_hq fp) (fp_id fp) None) (count_packet s)" using r by (simp add: fetcher_callback_def)
  then show thesis using verdict count_packet_metrics [of s] by metis
next
  case run: True
  obtain tot proto where h: "ip_tot_len (fp_data fp) = Some tot" "ip_protocol (fp_data fp) = Some proto"
    using r run by (auto simp: fetcher_callback_def Let_def bind_eq_Some_conv)
  let ?m = "(f_metrics s)\<lparr>f_bytesin := f_bytesin (f_metrics s) + of_nat tot\<rparr>"
  let ?s = "s\<lparr>f_metrics := ?m\<rparr>"
  show thesis
  proof (cases "proto = IPPROTO_TCP \<and> fp_id fp \<noteq> 0")
    case False
    then have "s' = add_verdict (Accepted (fp_hq fp) (fp_id fp) None) (count_packet ?s)"
      using r run h by (auto simp: fetcher_callback_def Let_def)
    moreover obtain m where "count_packet ?s = s\<lparr>f_metrics := m\<rparr>" using count_packet_metrics [of ?s] by auto
    ultimately show thesis using verdict by metis
  next
    case True
    obtain t key z where k: "ip_ihl4 (fp_data fp) = Some t" "packet_key (fp_data fp) t = Some key" "fetch_remote t (fp_data fp) = Some z"
      using r run h True by (auto simp: fetcher_callback_def Let_def bind_eq_Some_conv)
    show thesis
    proof (cases z)
      case None
      then have "s' = add_verdict (Dropped (fp_hq fp) (fp_id fp)) ?s" using r run h True k by (auto simp: fetcher_callback_def Let_def)
      then show thesis using verdict by blast
    next
      case (Some y)
      obtain i q where y: "y = (i, q)" by (cases y)
      obtain x f where x: "getsession (f_sessions s) key = Some x" "tcp_flags (fp_data fp) t = Some f"
        using r run h True k Some y by (auto simp: fetcher_callback_def Let_def bind_eq_Some_conv)
      have c: "(if bit f TH_SYN then fetch_syn e fp t key i q f x ?s
             else (case x of Some a \<Rightarrow> fetch_known e fp i a ?s | None \<Rightarrow> fetch_unknown e fp t key i q f ?s)) = Some s'"
        using r run h True k Some y x by (simp add: fetcher_callback_def Let_def)
      show thesis
      proof (cases "bit f TH_SYN")
        case True
        then have "fetch_syn e fp t key i q f x ?s = Some s'" using c by simp
        then show thesis by (rule syn [OF x(1)])
      next
        case False
        then have c': "(case x of Some a \<Rightarrow> fetch_known e fp i a ?s | None \<Rightarrow> fetch_unknown e fp t key i q f ?s) = Some s'"
          using c by simp
        show thesis
        proof (cases x)
          case None
          then show thesis using unknown x(1) c' by simp
        next
          case (Some a)
          then show thesis using known c' by simp
        qed
      qed
    qed
  qed
qed

end
