(* ===== verification/Session_Cleanup.thy ===== *)
theory Session_Cleanup
  imports Opennop_Header Session_Map Packet_Queue
begin

text \<open>
  The cleanup thread (\<open>opennopd/subsystems/sessioncleanup.c\<close>): every five minutes it walks the
  buckets of the session table, sends keepalive segments to both ends of idle sessions, and
  removes the sessions that did not react.  The datagrams sent are recorded with the destination
  address; sockets and sleeping are left out, the time is an argument.
\<close>

section \<open>Keepalive segments\<close>

type_synonym datagram = "u32 \<times> bytes"

definition keepalive_head :: "u32 \<Rightarrow> u16 \<Rightarrow> u32 \<Rightarrow> u32 \<Rightarrow> u16 \<Rightarrow> u32 \<Rightarrow> bytes option" where
  "keepalive_head saddr source seq daddr dest ack_seq = do {
     let p = replicate BUFSIZE 0;
     p \<leftarrow> store8 p 0 0x45;
     p \<leftarrow> store8 p 1 0;
     p \<leftarrow> store16 p 2 (htons 40);
     p \<leftarrow> store16 p 4 0;
     p \<leftarrow> store16 p 6 0;
     p \<leftarrow> store8 p 8 64;
     p \<leftarrow> store8 p 9 IPPROTO_TCP;
     p \<leftarrow> store16 p 10 0;
     p \<leftarrow> store32 p 12 saddr;
     p \<leftarrow> store32 p 16 daddr;
     p \<leftarrow> store16 p 36 0;
     p \<leftarrow> store16 p 20 source;
     p \<leftarrow> store16 p 22 dest;
     p \<leftarrow> store32 p 24 (htonl (seq - 1));
     p \<leftarrow> store32 p 28 (htonl (ack_seq - 1));
     p \<leftarrow> store8 p 32 0x50;
     store8 p 33 0x10 }"

text \<open>The same computation as \<open>checksum\<close>, written out.\<close>

definition keepalive_sums :: "bytes \<Rightarrow> bytes option" where
  "keepalive_sums p = do {
     tcph \<leftarrow> ip_ihl4 p;
     tot \<leftarrow> ip_tot_len p;
     p \<leftarrow> store16 p (tcph + 16) 0;
     c \<leftarrow> tcp_sum_calc (sub16 tot tcph) p 12 16 tcph;
     p \<leftarrow> store16 p (tcph + 16) c;
     p \<leftarrow> store16 p 10 0;
     ihl \<leftarrow> ip_ihl4 p;
     c \<leftarrow> ip_sum_calc ihl p 0;
     store16 p 10 c }"

definition sendkeepalive :: "u32 \<Rightarrow> u32 \<Rightarrow> u16 \<Rightarrow> u32 \<Rightarrow> u32 \<Rightarrow> u16 \<Rightarrow> u32 \<Rightarrow> datagram option" where
  "sendkeepalive localID saddr source seq daddr dest ack_seq = do {
     p \<leftarrow> keepalive_head saddr source seq daddr dest ack_seq;
     (r, p) \<leftarrow> set_tcp_option p 32 3 2;
     p \<leftarrow> (if r = -1 then Some p else do {
         doff \<leftarrow> tcp_doff p 20;
         p \<leftarrow> write_header p (20 + 4 * doff) \<lparr>oh_seqNo = 0, oh_opennopID = localID, oh_compression = 0,
           oh_deduplication = 0, oh_reason = NOT_RELEVANT, oh_queuenum = 0, oh_pattern = OPENNOP_PATTERN\<rparr>;
         tot \<leftarrow> ip_tot_len p;
         set_ip_tot_len p (tot + OHSIZE) });
     p \<leftarrow> keepalive_sums p;
     tot \<leftarrow> ip_tot_len p;
     d \<leftarrow> load_bytes p 0 tot;
     Some (daddr, d) }"

section \<open>One bucket\<close>

definition keepalives :: "u32 \<Rightarrow> session \<Rightarrow> datagram list option" where
  "keepalives localID s = do {
     a \<leftarrow> sendkeepalive localID (largerIP s) (largerIPPort s) (largerIPseq s) (smallerIP s) (smallerIPPort s) (smallerIPseq s);
     b \<leftarrow> sendkeepalive localID (smallerIP s) (smallerIPPort s) (smallerIPseq s) (largerIP s) (largerIPPort s) (largerIPseq s);
     Some [a, b] }"

partial_function (option) cleanup_loop ::
    "u32 \<Rightarrow> u64 \<Rightarrow> addr option \<Rightarrow> session_state \<times> datagram list \<Rightarrow> (session_state \<times> datagram list) option" where
  [code]: "cleanup_loop localID currenttime cur x = (case cur of
     None \<Rightarrow> Some x
   | Some a \<Rightarrow> do {
       let (st, out) = x;
       s \<leftarrow> st_heap st a;
       (if 2 < deadcounter s then
          (case s_next s of
             Some n \<Rightarrow> do {
               ns \<leftarrow> st_heap st n;
               st \<leftarrow> clearsession (s_prev ns) st;
               cleanup_loop localID currenttime (Some n) (st, out) }
           | None \<Rightarrow> do {
               st \<leftarrow> clearsession (Some a) st;
               cleanup_loop localID currenttime None (st, out) })
        else do {
          (st, out) \<leftarrow> (if lastactive s < currenttime then do {
              let s = s\<lparr>deadcounter := deadcounter s + 1\<rparr>;
              ds \<leftarrow> keepalives localID s;
              Some (st\<lparr>st_heap := (st_heap st)(a \<mapsto> s)\<rparr>, out @ ds) }
            else Some (st, out));
          cleanup_loop localID currenttime (s_next s) (st, out) }) })"

definition cleanuplist :: "u32 \<Rightarrow> u64 \<Rightarrow> u16 \<Rightarrow> session_state \<Rightarrow> (session_state \<times> datagram list) option" where
  "cleanuplist localID tv_sec i st = (case hd_next (sessiontable st i) of
     None \<Rightarrow> Some (st, [])
   | Some a \<Rightarrow> cleanup_loop localID (tv_sec - 60) (Some a) (st, []))"

text \<open>One pass over the buckets, at the times given.\<close>

definition cleanup_pass :: "u32 \<Rightarrow> (nat \<Rightarrow> u64) \<Rightarrow> session_state \<times> datagram list \<Rightarrow> (session_state \<times> datagram list) option" where
  "cleanup_pass localID time = foldM (\<lambda>i (st, out).
     if hd_next (getsessionhead st (of_nat i)) \<noteq> None then do {
       (st, ds) \<leftarrow> cleanuplist localID (time i) (of_nat i) st;
       Some (st, out @ ds) }
     else Some (st, out)) [0..<65536]"

text \<open>The thread: passes while the service is not stopped; before each the other threads act.\<close>

fun cleanup_function ::
    "u32 \<Rightarrow> (int \<times> (session_state \<Rightarrow> session_state) \<times> (nat \<Rightarrow> u64)) list \<Rightarrow> session_state \<times> datagram list \<Rightarrow>
     (session_state \<times> datagram list) option" where
  "cleanup_function localID [] x = Some x"
| "cleanup_function localID ((servicestate, others, time) # rs) (st, out) =
     (if 0 \<le> servicestate then cleanup_pass localID time (others st, out) \<bind> cleanup_function localID rs
      else Some (st, out))"

section \<open>Keepalives are well-formed\<close>

definition keepalive_bytes :: "u32 \<Rightarrow> u16 \<Rightarrow> u32 \<Rightarrow> u32 \<Rightarrow> u16 \<Rightarrow> u32 \<Rightarrow> bytes" where
  "keepalive_bytes saddr source seq daddr dest ack_seq =
     [0x45, 0] @ le16 (htons 40) @ [0, 0, 0, 0, 64, 6, 0, 0] @ le32 saddr @ le32 daddr @
     le16 source @ le16 dest @ le32 (htonl (seq - 1)) @ le32 (htonl (ack_seq - 1)) @ [0x50, 0x10, 0, 0, 0, 0, 0, 0]"

lemma keepalive_head_eval:
  "keepalive_head saddr source seq daddr dest ack_seq = Some (keepalive_bytes saddr source seq daddr dest ack_seq @ replicate 2008 0)"
proof -
  have "replicate BUFSIZE 0 = replicate 40 (0::u8) @ replicate 2008 0"
    by (simp add: BUFSIZE_def replicate_add [symmetric])
  moreover have "replicate 40 (0::u8) = [0, 0, 0, 0, 0, 0, 0, 0, 0, 0, 0, 0, 0, 0, 0, 0, 0, 0, 0, 0, 0, 0, 0, 0, 0, 0, 0, 0, 0, 0, 0, 0, 0, 0, 0, 0, 0, 0, 0, 0]"
    by (simp add: numeral_eq_Suc)
  ultimately show ?thesis
    by (simp add: keepalive_head_def keepalive_bytes_def store8_def store16_def store32_def store_bytes_def le16_def le32_def
        IPPROTO_TCP_def)
qed

lemma length_keepalive [simp]: "length (keepalive_bytes sa sp q da dp k) = 40"
  by (simp add: keepalive_bytes_def)

lemma keepalive_bytes_ok:
  "hdr_ok (keepalive_bytes sa sp q da dp k) 20 5 (length ([] :: bytes))" "tcp_flags (keepalive_bytes sa sp q da dp k) 20 = Some 0x10"
proof -
  let ?p = "keepalive_bytes sa sp q da dp k"
  have b: "?p ! 0 = 0x45" "?p ! 9 = 6" "?p ! 32 = 0x50" "?p ! 33 = 0x10"
    by (simp_all add: keepalive_bytes_def le16_def le32_def)
  have "take 2 (drop 2 ?p) = le16 (htons 40)" by (simp add: keepalive_bytes_def le16_def)
  then have "ip_tot_len ?p = Some 40" by (simp add: ip_tot_len_def load16_le16)
  then show "hdr_ok ?p 20 5 (length ([] :: bytes))"
    by (simp add: hdr_ok_def ip_ihl4_def tcp_doff_def ip_protocol_def load8_def b IPPROTO_TCP_def)
  show "tcp_flags ?p 20 = Some 0x10" by (simp add: tcp_flags_def load8_def b)
qed

lemma keepalive_sums_checksum: "ip_protocol p = Some IPPROTO_TCP \<Longrightarrow> keepalive_sums p = checksum p"
  by (simp add: keepalive_sums_def checksum_def Let_def)

definition keepalive_header :: "u32 \<Rightarrow> OpennopHeader" where
  "keepalive_header localID = \<lparr>oh_seqNo = 0, oh_opennopID = localID, oh_compression = 0, oh_deduplication = 0,
     oh_reason = NOT_RELEVANT, oh_queuenum = 0, oh_pattern = OPENNOP_PATTERN\<rparr>"

lemma sendkeepalive_ok:
  obtains h where "sendkeepalive localID sa sp q da dp k = Some (da, h @ header_bytes (keepalive_header localID))"
    "hdr_ok h 20 6 16" "tagged 2 h 20" "tcp_flags h 20 = Some 0x10"
    "\<forall>i<20 + 20. i \<notin> insert (20 + 12) (volatile 20) \<longrightarrow> h ! i = keepalive_bytes sa sp q da dp k ! i"
proof -
  let ?p = "keepalive_bytes sa sp q da dp k" and ?oh = "keepalive_header localID"
  obtain h1 where h1: "set_tcp_option (?p @ [] @ replicate 2008 0) 32 3 2 = Some (0, h1 @ [] @ drop 4 (replicate 2008 0))"
    "hdr_ok h1 20 6 (length ([] :: bytes))" "tagged 2 h1 20" "tcp_flags h1 20 = tcp_flags ?p 20"
    "\<forall>i<20 + 20. i \<notin> {2, 3, 20 + 12} \<longrightarrow> h1 ! i = ?p ! i"
    using set_option_tags [OF keepalive_bytes_ok(1) [of sa sp q da dp k], where v = 2 and r = "replicate 2008 0"] by auto
  have l1: "length h1 = 44" using h1(3) by (simp add: tagged_def)
  have "replicate 2004 (0::u8) = replicate 16 0 @ replicate 1988 0" by (simp flip: replicate_add)
  then have w: "write_header (h1 @ replicate 2004 0) (20 + 24) ?oh = Some (h1 @ header_bytes ?oh @ replicate 1988 0)"
    using write_header_mid [of h1 44 "replicate 16 0" "replicate 1988 0" ?oh] l1 by simp
  let ?h = "resize h1 16"
  have t: "set_ip_tot_len (h1 @ x) (44 + 16) = Some (?h @ x)" for x
    using set_ip_tot_len_append [of h1 x 16] l1 by simp
  have ok: "hdr_ok ?h 20 6 (length (header_bytes ?oh))" "tcp_flags ?h 20 = tcp_flags h1 20"
    using hdr_ok_resize [OF h1(2), of 16] l1 by simp_all
  obtain h2 where h2: "checksum (?h @ header_bytes ?oh @ replicate 1988 0) = Some (h2 @ header_bytes ?oh @ replicate 1988 0)"
    "hdr_ok h2 20 6 (length (header_bytes ?oh))" "length h2 = length ?h" "tcp_flags h2 20 = tcp_flags ?h 20"
    "\<forall>i. i < length ?h \<and> i \<notin> {10, 11, 20 + 16, 20 + 17} \<longrightarrow> h2 ! i = ?h ! i"
    by (rule checksum_segment [OF ok(1), of "replicate 1988 0"]) simp
  have l2: "length h2 = 44" using h2(3) l1 by simp
  have d1: "tcp_doff (h1 @ x) 20 = Some 6" "ip_tot_len (h1 @ x) = Some 44" for x
    using hdr_ok_fields(2,3) [OF h1(2)] l1 by simp_all
  have pr: "ip_protocol (?h @ x) = Some IPPROTO_TCP" for x by (rule hdr_ok_fields(4) [OF ok(1)])
  have tot: "ip_tot_len (h2 @ header_bytes ?oh @ replicate 1988 0) = Some 60" using hdr_ok_fields(3) [OF h2(2)] l2 by simp
  have ld: "load_bytes (h2 @ header_bytes ?oh @ replicate 1988 0) 0 60 = Some (h2 @ header_bytes ?oh)"
    using l2 by (simp add: load_bytes_def)
  have run: "sendkeepalive localID sa sp q da dp k = Some (da, h2 @ header_bytes ?oh)"
    using h1(1) w d1 t keepalive_sums_checksum [OF pr] h2(1) tot ld
    by (simp add: sendkeepalive_def keepalive_head_eval keepalive_header_def OHSIZE_def)
  have kp: "kept (volatile 20) h1 h2" using kept_trans [OF kept_resize kept_sumI [OF h2(3,5)]] .
  have "\<forall>i<20 + 20. i \<notin> insert (20 + 12) (volatile 20) \<longrightarrow> h2 ! i = ?p ! i"
    using kept_nth [OF kp] h1(5) l1 by (simp add: volatile_def)
  then show thesis
    using that [OF run] h2(2,4) ok(2) h1(4) keepalive_bytes_ok(2) [of sa sp q da dp k] tagged_kept [OF kp h1(3)] by simp
qed

section \<open>What a pass over a bucket does\<close>

definition dead :: "session \<Rightarrow> bool" where
  "dead s \<longleftrightarrow> 2 < deadcounter s"

definition idle :: "u64 \<Rightarrow> session \<Rightarrow> bool" where
  "idle T s \<longleftrightarrow> lastactive s < T"

definition aged :: "u64 \<Rightarrow> session \<Rightarrow> session" where
  "aged T s = (if idle T s then s\<lparr>deadcounter := deadcounter s + 1\<rparr> else s)"

text \<open>The sessions \<open>as\<close> have been visited: the dead ones are gone, the others aged; all else is as before, up to links.\<close>

definition visited :: "u64 \<Rightarrow> addr list \<Rightarrow> session heap \<Rightarrow> session heap \<Rightarrow> bool" where
  "visited T as h h' \<longleftrightarrow> (\<forall>b. case h b of None \<Rightarrow> h' b = None
     | Some s \<Rightarrow> if b \<in> set as \<and> dead s then h' b = None
         else map_option core (h' b) = Some (core (if b \<in> set as then aged T s else s)))"

definition alive_in :: "session heap \<Rightarrow> addr \<Rightarrow> bool" where
  "alive_in h a \<longleftrightarrow> (case h a of Some s \<Rightarrow> \<not> dead s | None \<Rightarrow> False)"

definition idle_in :: "u64 \<Rightarrow> session heap \<Rightarrow> addr \<Rightarrow> bool" where
  "idle_in T h a \<longleftrightarrow> (case h a of Some s \<Rightarrow> \<not> dead s \<and> idle T s | None \<Rightarrow> False)"

lemma core_status:
  assumes "core s' = core s"
  shows "dead s' = dead s" "idle T s' = idle T s" "core (aged T s') = core (aged T s)"
  using assms by (cases s; cases s'; simp add: core_def dead_def idle_def aged_def)+

lemma aged_place: "same_place s (aged T s)"
  by (simp add: same_place_def aged_def session_key_def)

lemma visited_none: "visited T [] h h"
  by (simp add: visited_def split: option.splits)

lemma visited_dead:
  assumes sc: "same_core (h(a := None)) h1" and a: "h a = Some s" "dead s" and v: "visited T as h1 h'" and d: "a \<notin> set as"
  shows "visited T (a # as) h h'"
  unfolding visited_def
proof
  fix b
  have c: "map_option core (h1 b) = map_option core ((h(a := None)) b)" using sc by (simp add: same_core_def)
  have vb: "case h1 b of None \<Rightarrow> h' b = None
     | Some s \<Rightarrow> if b \<in> set as \<and> dead s then h' b = None
         else map_option core (h' b) = Some (core (if b \<in> set as then aged T s else s))"
    using v by (simp add: visited_def)
  show "case h b of None \<Rightarrow> h' b = None
     | Some s \<Rightarrow> if b \<in> set (a # as) \<and> dead s then h' b = None
         else map_option core (h' b) = Some (core (if b \<in> set (a # as) then aged T s else s))"
  proof (cases "b = a")
    case True
    then have "h1 b = None" using c by simp
    then show ?thesis using vb a True by simp
  next
    case False
    show ?thesis
    proof (cases "h b")
      case None
      then show ?thesis using c vb False by simp
    next
      case (Some t)
      then obtain u where u: "h1 b = Some u" "core u = core t" using c False by auto
      show ?thesis using vb u(1) core_status [OF u(2)] u(2) Some False by simp
    qed
  qed
qed

lemma visited_alive:
  assumes a: "h a = Some s" "\<not> dead s" and v: "visited T as (h(a \<mapsto> aged T s)) h'" and d: "a \<notin> set as"
  shows "visited T (a # as) h h'"
  unfolding visited_def
proof
  fix b
  have "case (h(a \<mapsto> aged T s)) b of None \<Rightarrow> h' b = None
     | Some s \<Rightarrow> if b \<in> set as \<and> dead s then h' b = None
         else map_option core (h' b) = Some (core (if b \<in> set as then aged T s else s))"
    using v by (simp add: visited_def)
  then show "case h b of None \<Rightarrow> h' b = None
     | Some s \<Rightarrow> if b \<in> set (a # as) \<and> dead s then h' b = None
         else map_option core (h' b) = Some (core (if b \<in> set (a # as) then aged T s else s))"
    using a d by (cases "b = a") (auto split: option.splits)
qed

lemma status_cong:
  assumes "\<forall>b\<in>set as. map_option core (h1 b) = map_option core (h b)"
  shows "filter (alive_in h1) as = filter (alive_in h) as" "filter (idle_in T h1) as = filter (idle_in T h) as"
proof -
  have "alive_in h1 b = alive_in h b \<and> idle_in T h1 b = idle_in T h b" if bas: "b \<in> set as" for b
  proof (cases "h b")
    case None
    then have "h1 b = None" using assms bas by (metis option.map_disc_iff)
    then show ?thesis using None by (simp add: alive_in_def idle_in_def)
  next
    case (Some t)
    then obtain u where u: "h1 b = Some u" "core u = core t" using assms bas by fastforce
    show ?thesis using u(1) core_status [OF u(2)] Some by (simp add: alive_in_def idle_in_def)
  qed
  then show "filter (alive_in h1) as = filter (alive_in h) as" "filter (idle_in T h1) as = filter (idle_in T h) as"
    by (auto intro!: filter_cong)
qed

abbreviation hd_addr :: "addr list \<Rightarrow> addr option" where
  "hd_addr as \<equiv> (case as of [] \<Rightarrow> None | a # _ \<Rightarrow> Some a)"

text \<open>One round of the loop.\<close>

lemma cleanup_loop_dead:
  assumes ok: "table_ok st L" and L: "L i = pre @ a # as" and s: "st_heap st a = Some s" "dead s"
  shows "\<exists>st1. cleanup_loop localID T (Some a) (st, out) = cleanup_loop localID T (hd_addr as) (st1, out) \<and>
    table_ok st1 (L(i := pre @ as)) \<and> same_core ((st_heap st)(a := None)) (st_heap st1) \<and>
    length (worker_sessions st1) = length (worker_sessions st)"
proof -
  have b: "bucket_ok (st_heap st) (sessiontable st i) i (pre @ a # as)" using ok L by (metis table_ok_def)
  have i: "s_head s = i" using b s(1) by (auto simp: bucket_ok_def)
  obtain st1 where c: "clearsession (Some a) st = Some st1" "table_ok st1 (L(i := pre @ as))"
    "same_core ((st_heap st)(a := None)) (st_heap st1)" "length (worker_sessions st1) = length (worker_sessions st)"
    using clearsession_unlinks [OF ok s(1), of pre as] L i by auto
  have n: "s_next s = hd_addr as" using bucket_links(1) [OF b s(1)] .
  have "cleanup_loop localID T (Some a) (st, out) = cleanup_loop localID T (hd_addr as) (st1, out)"
  proof (cases as)
    case Nil
    then show ?thesis using s n c(1) by (subst cleanup_loop.simps) (simp add: dead_def)
  next
    case (Cons m ms)
    have b': "bucket_ok (st_heap st) (sessiontable st i) i ((pre @ [a]) @ m # ms)" using b Cons by simp
    then obtain ns where ns: "st_heap st m = Some ns" by (auto simp: bucket_ok_def)
    have "s_prev ns = Some a" using bucket_links(2) [OF b' ns] by simp
    then show ?thesis using s n c(1) ns Cons by (subst cleanup_loop.simps) (simp add: dead_def)
  qed
  then show ?thesis using c by blast
qed

lemma cleanup_loop_alive:
  assumes ok: "table_ok st L" and L: "L i = pre @ a # as" and s: "st_heap st a = Some s" "\<not> dead s"
  shows "\<exists>ds. cleanup_loop localID T (Some a) (st, out) =
      cleanup_loop localID T (hd_addr as) (put_heap a (aged T s) st, out @ ds) \<and>
    length ds = (if idle T s then 2 else 0)"
proof -
  have b: "bucket_ok (st_heap st) (sessiontable st i) i (pre @ a # as)" using ok L by (metis table_ok_def)
  have n: "s_next s = hd_addr as" using bucket_links(1) [OF b s(1)] .
  have "\<exists>ds. keepalives localID (aged T s) = Some ds \<and> length ds = 2"
  proof -
    obtain h1 h2 where "sendkeepalive localID (largerIP (aged T s)) (largerIPPort (aged T s)) (largerIPseq (aged T s))
        (smallerIP (aged T s)) (smallerIPPort (aged T s)) (smallerIPseq (aged T s)) = Some h1"
      "sendkeepalive localID (smallerIP (aged T s)) (smallerIPPort (aged T s)) (smallerIPseq (aged T s))
        (largerIP (aged T s)) (largerIPPort (aged T s)) (largerIPseq (aged T s)) = Some h2"
      by (metis sendkeepalive_ok)
    then show ?thesis by (simp add: keepalives_def)
  qed
  then obtain ds where ds: "keepalives localID (aged T s) = Some ds" "length ds = 2" by blast
  show ?thesis
  proof (cases "idle T s")
    case True
    then show ?thesis using s n ds
      by (intro exI [of _ ds]) (subst cleanup_loop.simps, simp add: dead_def idle_def aged_def put_heap_def)
  next
    case False
    have "st\<lparr>st_heap := (st_heap st)(a \<mapsto> s)\<rparr> = st" using s(1) by (simp add: fun_upd_idem)
    then show ?thesis using s n False
      by (intro exI [of _ "[]"]) (subst cleanup_loop.simps, simp add: dead_def idle_def aged_def put_heap_def)
  qed
qed

lemma cleanup_loop_ok:
  assumes "table_ok st L" and "L i = pre @ as"
  shows "\<exists>st' ds. cleanup_loop localID T (hd_addr as) (st, out) = Some (st', out @ ds) \<and>
    table_ok st' (L(i := pre @ filter (alive_in (st_heap st)) as)) \<and> visited T as (st_heap st) (st_heap st') \<and>
    length ds = 2 * length (filter (idle_in T (st_heap st)) as) \<and> length (worker_sessions st') = length (worker_sessions st)"
  using assms
proof (induction as arbitrary: st L pre out)
  case Nil
  have "L(i := pre) = L" using Nil.prems(2) by auto
  then show ?case using Nil.prems(1) visited_none
    by (intro exI [of _ st] exI [of _ "[]"]) (simp add: cleanup_loop.simps)
next
  case (Cons a as)
  have b: "bucket_ok (st_heap st) (sessiontable st i) i (pre @ a # as)" using Cons.prems by (metis table_ok_def)
  then have d: "a \<notin> set as" by (simp add: bucket_ok_def)
  obtain s where s: "st_heap st a = Some s" using b by (auto simp: bucket_ok_def)
  show ?case
  proof (cases "dead s")
    case True
    obtain st1 where c: "cleanup_loop localID T (Some a) (st, out) = cleanup_loop localID T (hd_addr as) (st1, out)"
      "table_ok st1 (L(i := pre @ as))" "same_core ((st_heap st)(a := None)) (st_heap st1)"
      "length (worker_sessions st1) = length (worker_sessions st)"
      using cleanup_loop_dead [OF Cons.prems s True] by blast
    obtain st' ds where r: "cleanup_loop localID T (hd_addr as) (st1, out) = Some (st', out @ ds)"
      "table_ok st' ((L(i := pre @ as))(i := pre @ filter (alive_in (st_heap st1)) as))" "visited T as (st_heap st1) (st_heap st')"
      "length ds = 2 * length (filter (idle_in T (st_heap st1)) as)" "length (worker_sessions st') = length (worker_sessions st1)"
      using Cons.IH [OF c(2) fun_upd_same] by blast
    have "\<forall>b\<in>set as. map_option core (st_heap st1 b) = map_option core (st_heap st b)"
      using c(3) d unfolding same_core_def by (metis fun_upd_other)
    note st = status_cong [OF this]
    have "\<not> alive_in (st_heap st) a" "\<not> idle_in T (st_heap st) a" using s True by (simp_all add: alive_in_def idle_in_def)
    then have f: "filter (alive_in (st_heap st)) (a # as) = filter (alive_in (st_heap st1)) as"
      "filter (idle_in T (st_heap st)) (a # as) = filter (idle_in T (st_heap st1)) as" using st by simp_all
    have "table_ok st' (L(i := pre @ filter (alive_in (st_heap st)) (a # as)))" using r(2) unfolding f fun_upd_upd .
    moreover have "cleanup_loop localID T (hd_addr (a # as)) (st, out) = Some (st', out @ ds)" using c(1) r(1) by simp
    moreover have "length ds = 2 * length (filter (idle_in T (st_heap st)) (a # as))" using r(4) unfolding f .
    ultimately show ?thesis using c(4) r(5) visited_dead [OF c(3) s True r(3) d] by metis
  next
    case False
    let ?st = "put_heap a (aged T s) st"
    obtain ds0 where c: "cleanup_loop localID T (Some a) (st, out) = cleanup_loop localID T (hd_addr as) (?st, out @ ds0)"
      "length ds0 = (if idle T s then 2 else 0)"
      using cleanup_loop_alive [OF Cons.prems s False] by blast
    have ok: "table_ok ?st L" by (rule table_ok_put [OF Cons.prems(1) s aged_place])
    obtain st' ds where r: "cleanup_loop localID T (hd_addr as) (?st, out @ ds0) = Some (st', (out @ ds0) @ ds)"
      "table_ok st' (L(i := (pre @ [a]) @ filter (alive_in (st_heap ?st)) as))" "visited T as (st_heap ?st) (st_heap st')"
      "length ds = 2 * length (filter (idle_in T (st_heap ?st)) as)" "length (worker_sessions st') = length (worker_sessions ?st)"
      using Cons.IH [OF ok, of "pre @ [a]"] Cons.prems(2) by (metis append.assoc append_Cons append_Nil)
    have "\<forall>b\<in>set as. map_option core (st_heap ?st b) = map_option core (st_heap st b)"
      using d by (auto simp: put_heap_def)
    note st = status_cong [OF this]
    have "visited T as ((st_heap st)(a \<mapsto> aged T s)) (st_heap st')" using r(3) by (simp add: put_heap_def)
    then have v: "visited T (a # as) (st_heap st) (st_heap st')" using visited_alive [of "st_heap st" a s T as] s False d by blast
    have "alive_in (st_heap st) a" "idle_in T (st_heap st) a = idle T s" using s False by (simp_all add: alive_in_def idle_in_def)
    moreover have "length (worker_sessions ?st) = length (worker_sessions st)" by (simp add: put_heap_def)
    ultimately have f: "pre @ filter (alive_in (st_heap st)) (a # as) = (pre @ [a]) @ filter (alive_in (st_heap ?st)) as"
      "length (ds0 @ ds) = 2 * length (filter (idle_in T (st_heap st)) (a # as))"
      "length (worker_sessions st') = length (worker_sessions st)" using st c(2) r(4,5) by simp_all
    have "table_ok st' (L(i := pre @ filter (alive_in (st_heap st)) (a # as)))" using r(2) unfolding f(1) .
    moreover have "cleanup_loop localID T (hd_addr (a # as)) (st, out) = Some (st', out @ ds0 @ ds)" using c(1) r(1) by simp
    ultimately show ?thesis using v f(2,3) by blast
  qed
qed

lemma cleanuplist_run:
  assumes "table_ok st L"
  shows "\<exists>st' ds. cleanuplist localID tv i st = Some (st', ds) \<and>
    table_ok st' (L(i := filter (alive_in (st_heap st)) (L i))) \<and>
    visited (tv - 60) (L i) (st_heap st) (st_heap st') \<and>
    length ds = 2 * length (filter (idle_in (tv - 60) (st_heap st)) (L i)) \<and>
    length (worker_sessions st') = length (worker_sessions st)"
proof -
  have "bucket_ok (st_heap st) (sessiontable st i) i (L i)" using assms by (simp add: table_ok_def)
  then have hd: "hd_next (sessiontable st i) = hd_addr (L i)" using nchain_hd by (auto simp: bucket_ok_def)
  have "cleanuplist localID tv i st = cleanup_loop localID (tv - 60) (hd_addr (L i)) (st, [])"
    by (cases "L i") (simp_all add: cleanuplist_def hd cleanup_loop.simps)
  then show ?thesis using cleanup_loop_ok [OF assms, of i "[]" "L i" localID "tv - 60" "[]"] by auto
qed

lemma visited_keys:
  assumes v: "visited T as h h'" and b: "h' b = Some s'"
  shows "\<exists>s. h b = Some s \<and> session_key s' = session_key s"
proof -
  have vb: "case h b of None \<Rightarrow> h' b = None
     | Some s \<Rightarrow> if b \<in> set as \<and> dead s then h' b = None
         else map_option core (h' b) = Some (core (if b \<in> set as then aged T s else s))"
    using v by (simp add: visited_def)
  then obtain s where s: "h b = Some s" using b by (cases "h b") auto
  then have "core s' = core (if b \<in> set as then aged T s else s)" using vb b by (auto split: if_splits)
  then have "session_key s' = session_key (if b \<in> set as then aged T s else s)" by (rule core_eq(1))
  then show ?thesis using s aged_place [of s T] by (auto simp: same_place_def)
qed

lemma cleanuplist_sessions_ok:
  assumes "sessions_ok st"
  shows "\<exists>st' ds. cleanuplist localID tv i st = Some (st', ds) \<and> sessions_ok st' \<and> dom (st_heap st') \<subseteq> dom (st_heap st)"
proof -
  obtain L where L: "table_ok st L" and uk: "unique_keys (st_heap st)" and len: "length (worker_sessions st) = MAXWORKERS"
    using assms by (auto simp: sessions_ok_def)
  obtain st' ds where r: "cleanuplist localID tv i st = Some (st', ds)" "table_ok st' (L(i := filter (alive_in (st_heap st)) (L i)))"
    "visited (tv - 60) (L i) (st_heap st) (st_heap st')" "length (worker_sessions st') = length (worker_sessions st)"
    using cleanuplist_run [OF L] by blast
  have "unique_keys (st_heap st')" unfolding unique_keys_def
    using visited_keys [OF r(3)] uk unfolding unique_keys_def by metis
  moreover have "dom (st_heap st') \<subseteq> dom (st_heap st)" using visited_keys [OF r(3)] by auto
  ultimately show ?thesis using r len by (auto simp: sessions_ok_def)
qed


text \<open>
  (C25) A whole pass of the cleanup thread ends and keeps the session table well-formed: every
  bucket is a proper list, every session is in the bucket of its key, and every worker's counter is
  the number of its sessions; no session is created.
\<close>

theorem cleanup_pass_keeps_table:
  assumes "sessions_ok st"
  shows "\<exists>st' out'. cleanup_pass localID time (st, out) = Some (st', out') \<and> sessions_ok st' \<and>
    dom (st_heap st') \<subseteq> dom (st_heap st)"
proof -
  have "\<exists>x. cleanup_pass localID time (st, out) = Some x \<and> (sessions_ok (fst x) \<and> dom (st_heap (fst x)) \<subseteq> dom (st_heap st))"
    unfolding cleanup_pass_def
  proof (rule foldM_inv)
    fix i :: nat and x :: "session_state \<times> datagram list"
    assume x: "sessions_ok (fst x) \<and> dom (st_heap (fst x)) \<subseteq> dom (st_heap st)"
    obtain st1 out1 where p: "x = (st1, out1)" by (cases x)
    obtain st2 ds where "cleanuplist localID (time i) (of_nat i) st1 = Some (st2, ds)" "sessions_ok st2"
      "dom (st_heap st2) \<subseteq> dom (st_heap st1)"
      using cleanuplist_sessions_ok [of st1 localID "time i" "of_nat i"] x p by auto
    then show "\<exists>y. (case x of (st, out) \<Rightarrow> if hd_next (getsessionhead st (of_nat i)) \<noteq> None
        then cleanuplist localID (time i) (of_nat i) st \<bind> (\<lambda>(st, ds). Some (st, out @ ds)) else Some (st, out)) = Some y \<and>
        sessions_ok (fst y) \<and> dom (st_heap (fst y)) \<subseteq> dom (st_heap st)"
      using x p by auto
  qed (use assms in simp)
  then show ?thesis by (metis fst_conv surj_pair)
qed

section \<open>Witnesses\<close>

text \<open>One bucket with a dead session and an idle one.\<close>

definition stale_sessions :: session_state where
  "stale_sessions = \<lparr>sessiontable = (\<lambda>i. if i = 3 then \<lparr>hd_next = Some 1, hd_prev = Some 2, hd_qlen = 2\<rparr>
       else \<lparr>hd_next = None, hd_prev = None, hd_qlen = 0\<rparr>),
     st_heap = [1 \<mapsto> zero_session\<lparr>s_head := 3, s_next := Some 2, largerIP := 2, smallerIP := 1, deadcounter := 3\<rparr>,
       2 \<mapsto> zero_session\<lparr>s_head := 3, s_prev := Some 1, largerIP := 3, smallerIP := 0, lastactive := 10\<rparr>],
     worker_sessions = 2 # replicate (MAXWORKERS - 1) 0, numworkers = 1\<rparr>"

definition stale_lists :: "u16 \<Rightarrow> addr list" where
  "stale_lists i = (if i = 3 then [1, 2] else [])"

lemma stale_buckets: "session_bucket (2, 0, 1, 0) = 3" "session_bucket (3, 0, 0, 0) = 3"
  by (simp_all add: session_bucket.simps sessionhash_def)

lemma stale_ok: "table_ok stale_sessions stale_lists"
proof -
  let ?h = "st_heap stale_sessions"
  have "bucket_ok ?h (sessiontable stale_sessions i) i (stale_lists i)" for i
    using stale_buckets
    by (simp add: bucket_ok_def stale_sessions_def stale_lists_def head_ok_def session_key_def zero_session_def)
  moreover have "assigned ?h w = (if w = 0 then {1, 2} else {})" for w
    by (auto simp: assigned_def stale_sessions_def zero_session_def split: if_splits)
  then have "counters_ok ?h (worker_sessions stale_sessions)"
    by (auto simp: counters_ok_def stale_sessions_def zero_session_def MAXWORKERS_def nth_Cons split: nat.splits if_splits)
  moreover have "a \<in> set (stale_lists (s_head s))" if "?h a = Some s" for a s
    using that by (auto simp: stale_sessions_def stale_lists_def zero_session_def split: if_splits)
  moreover have "finite (dom ?h)" by (simp add: stale_sessions_def)
  ultimately show ?thesis by (simp add: table_ok_def)
qed


theorem cleanup_pass_keeps_table_witness:
  "\<exists>st' out'. cleanup_pass 7 (\<lambda>i. 1000) (empty_sessions, []) = Some (st', out') \<and> sessions_ok st' \<and>
    dom (st_heap st') \<subseteq> dom (st_heap empty_sessions)"
  by (rule cleanup_pass_keeps_table [OF empty_sessions_ok])

end
