(* ===== verification/Session_Invariant.thy ===== *)
theory Session_Invariant
  imports Fetcher Session_Cleanup
begin

text \<open>
  The session table is shared by the fetcher, the workers and the cleanup thread.  Each of their
  steps on a packet or a bucket keeps it well-formed; the steps are taken one at a time, as if
  each held the locks of the buckets it uses from beginning to end.
\<close>

section \<open>Updates of one session\<close>

lemma same_place_refl [simp]: "same_place s s"
  by (simp add: same_place_def)

lemma same_place_trans: "same_place s t \<Longrightarrow> same_place t u \<Longrightarrow> same_place s u"
  by (simp add: same_place_def)

named_theorems place_simps \<open>updates of one session that leave its place in the table\<close>

lemma place_fields [place_simps]:
  "same_place s (s\<lparr>lastactive := x\<rparr>)" "same_place s (s\<lparr>deadcounter := c\<rparr>)" "same_place s (s\<lparr>s_state := y\<rparr>)"
  "same_place s (s\<lparr>lastactive := x, deadcounter := c\<rparr>)"
  by (simp_all add: same_place_def session_key_def)

lemma place_sourceisclient:
  "sourceisclient lip ip (Some s) b = Some (r, y) \<Longrightarrow> \<exists>s'. y = Some s' \<and> same_place s s'"
  by (auto simp: sourceisclient_def same_place_def session_key_def split: option.splits if_splits)

lemma place_updateseq: "\<exists>s'. snd (updateseq lip ip th (Some s)) = Some s' \<and> same_place s s'"
  by (auto simp: updateseq_def same_place_def session_key_def split: option.splits)

lemma place_updateseqnumber: "\<exists>s'. snd (updateseqnumber lip ip th (Some s)) = Some s' \<and> same_place s s'"
  by (auto simp: updateseqnumber_def same_place_def session_key_def split: option.splits)

lemma place_saveacceleratorid: "\<exists>s'. snd (saveacceleratorid lip i ip (Some s)) = Some s' \<and> same_place s s'"
  by (auto simp: saveacceleratorid_def same_place_def session_key_def split: option.splits)

lemma placeD:
  "snd (updateseq lip ip th (Some s)) = Some s' \<Longrightarrow> same_place s s'"
  "snd (updateseqnumber lip ip th (Some s)) = Some s' \<Longrightarrow> same_place s s'"
  "snd (saveacceleratorid lip i ip (Some s)) = Some s' \<Longrightarrow> same_place s s'"
  using place_updateseq [of lip ip th s] place_updateseqnumber [of lip ip th s] place_saveacceleratorid [of lip i ip s] by auto

section \<open>The workers\<close>

lemma optimize_compress_place: "optimize_compress e t (p, s, r) = Some (p', s', r') \<Longrightarrow> s' = s"
  by (cases r) (auto simp: optimize_compress_def bind_eq_Some_conv Let_def split: if_splits prod.splits)

lemma optimize_dedup_place:
  assumes "optimize_dedup e t lip ip (p, s, r) = Some (p', s', r')"
  shows "same_place s s'"
proof -
  obtain pr sh l cause where r: "r = (pr, sh, l, cause)" by (cases r) auto
  obtain th where th: "tcp_hdr p t = Some th" using assms by (auto simp: optimize_dedup_def r bind_eq_Some_conv)
  show ?thesis
  proof (cases "checkseqnumber lip (Some ip) (Some th) (Some s) = 0")
    case True
    then have "s' = s" using assms th by (auto simp: optimize_dedup_def r bind_eq_Some_conv split: prod.splits)
    then show ?thesis by simp
  next
    case False
    then have "snd (updateseqnumber lip (Some ip) (Some th) (Some s)) = Some s'"
      using assms th by (auto simp: optimize_dedup_def r bind_eq_Some_conv Let_def split: prod.splits if_splits)
    then show ?thesis by (rule placeD(2))
  qed
qed

lemma optimize_payload_place:
  assumes "optimize_payload e t lip sip ip (p, s, r) = Some (p', s', r')"
  shows "same_place s s'"
proof -
  obtain pr sh l cause where r: "r = (pr, sh, l, cause)" by (cases r) auto
  let ?l = "l\<lparr>redEl := 0, redElComp := 0, redElDedup := 0\<rparr>"
  show ?thesis
  proof (cases "accelerate (e_localID e) lip sip ip s")
    case True
    then obtain x where x: "(if e_compression e \<and> \<not> e_deduplication e then optimize_compress e t (p, s, pr, sh, ?l, cause)
             else Some (p, s, pr, sh, ?l, cause)) = Some x"
      "(if e_deduplication e then optimize_dedup e t lip ip x else Some x) = Some (p', s', r')"
      using assms by (auto simp: optimize_payload_def r bind_eq_Some_conv Let_def)
    obtain p1 s1 r1 where x': "x = (p1, s1, r1)" by (cases x) auto
    have "s1 = s" using x(1) x' optimize_compress_place by (auto split: if_splits)
    then show ?thesis using x(2) x' optimize_dedup_place by (auto split: if_splits)
  next
    case False
    then show ?thesis using assms placeD(2)
      by (auto simp: optimize_payload_def r bind_eq_Some_conv split: prod.splits if_splits)
  qed
qed

lemma optimize_tag_place:
  assumes "optimize_tag e t lip sip ip (p, s, pr, sh, l) = Some (b, p', s', r)"
  shows "same_place s s'"
proof -
  obtain s1 x p1 where 1: "snd (saveacceleratorid lip (e_localID e) (Some ip) (Some s)) = Some s1" "set_tcp_option p 32 3 1 = Some (x, p1)"
    using assms by (auto simp: optimize_tag_def bind_eq_Some_conv)
  have "same_place s1 s'"
  proof (cases "x = -1")
    case True
    then show ?thesis using assms 1 by (auto simp: optimize_tag_def)
  next
    case False
    then obtain y where "optimize_payload e t lip sip ip (p1, s1, pr, sh, l, NOT_RELEVANT) = Some y" "fst (snd y) = s'"
      using assms 1 by (auto simp: optimize_tag_def bind_eq_Some_conv split: prod.splits)
    then show ?thesis
      using optimize_payload_place [of e t lip sip ip p1 s1 "(pr, sh, l, NOT_RELEVANT)" "fst y" s' "snd (snd y)"] by (cases y) auto
  qed
  then show ?thesis using same_place_trans placeD(3) [OF 1(1)] by blast
qed

lemma deoptimize_dedup_place:
  assumes "deoptimize_dedup e t lip ip nc nd (p, b, s, r) = Some (p', b', s', r')"
  shows "same_place s s'"
proof -
  obtain pr sh where r: "r = (pr, sh)" by (cases r)
  obtain y where y: "(if e_compression e \<and> nc then decompress_first e t nd (p, b, s, r) else Some (0, p, b, s, r)) = Some y"
    using assms by (auto simp: deoptimize_dedup_def bind_eq_Some_conv)
  obtain n p1 b1 s1 pr1 sh1 where y': "y = (n, p1, b1, s1, pr1, sh1)" by (cases y) auto
  have s1: "s1 = s" using y y' by (auto simp: decompress_first_def r bind_eq_Some_conv Let_def split: if_splits prod.splits)
  note rest = assms [unfolded deoptimize_dedup_def y y' Option.bind.simps prod.case]
  show ?thesis
  proof (cases nd)
    case True
    then obtain th where "tcp_hdr p1 t = Some th" using rest True by (auto simp: bind_eq_Some_conv)
    moreover obtain s2 where s2: "snd (updateseqnumber lip (Some ip) (Some th) (Some s)) = Some s2" "same_place s s2"
      using place_updateseqnumber [of lip "Some ip" "Some th" s] by blast
    ultimately have "s' = s2" using rest True s1
      by (auto simp: bind_eq_Some_conv Let_def split: if_splits)
    then show ?thesis using s2 by simp
  next
    case False
    then have "s' = s1" using rest False by (auto simp: bind_eq_Some_conv)
    then show ?thesis using s1 by simp
  qed
qed

lemma deoptimize_compressed_place: "deoptimize_compressed e t (p, b, s, r) = Some (p', b', s', r') \<Longrightarrow> s' = s"
  by (cases r) (auto simp: deoptimize_compressed_def bind_eq_Some_conv Let_def split: if_splits prod.splits)

lemma deoptimize_payload_place:
  assumes "deoptimize_payload e t lip sip ip oh (p, b, s, r) = Some (p', b', s', r')"
  shows "same_place s s'"
proof (cases "oh_opennopID oh = 0")
  case True
  then show ?thesis using assms by (cases r) (auto simp: deoptimize_payload_def Let_def)
next
  case False
  let ?nc = "oh_compression oh \<noteq> 0" and ?nd = "oh_deduplication oh \<noteq> 0"
  obtain pr sh where r: "r = (pr, sh)" by (cases r)
  obtain s1 where s1: "snd (saveacceleratorid lip (oh_opennopID oh) (Some ip) (Some s)) = Some s1"
    using place_saveacceleratorid [of lip "oh_opennopID oh" "Some ip" s] by blast
  consider (acc) x where "(if e_compression e \<and> \<not> e_deduplication e \<and> ?nc
        then deoptimize_compressed e t (p, b, s1, pr, sh) else Some (p, b, s1, pr, sh)) = Some x"
      "(if e_deduplication e then deoptimize_dedup e t lip ip ?nc ?nd x else Some x) = Some (p', b', s', r')"
    | (rest) "s' = s1"
    using assms False s1 by (auto simp: deoptimize_payload_def r bind_eq_Some_conv Let_def split: if_splits prod.splits)
  then have "same_place s1 s'"
  proof cases
    case acc
    obtain p2 b2 s2 r2 where x: "x = (p2, b2, s2, r2)" by (cases x) auto
    have "s2 = s1" using acc(1) x deoptimize_compressed_place by (auto split: if_splits)
    then show ?thesis using acc(2) x deoptimize_dedup_place by (auto split: if_splits)
  qed simp
  then show ?thesis using same_place_trans placeD(3) [OF s1] by blast
qed

lemma set_session_ok:
  assumes "sessions_ok (w_sessions w)" and "st_heap (w_sessions w) a = Some s" and "same_place s s'"
  shows "sessions_ok (w_sessions (set_session a s' w))" and "\<exists>x. st_heap (w_sessions (set_session a s' w)) a = Some x"
  using sessions_ok_put(1) [OF assms] by (simp_all add: set_session_def put_heap_def)

lemma clearsession_sessions_ok:
  assumes ok: "sessions_ok st" and r: "clearsession (Some a) st = Some st'"
  shows "sessions_ok st'" and "dom (st_heap st') \<subseteq> dom (st_heap st)"
proof -
  obtain s where s: "st_heap st a = Some s" using r by (auto simp: clearsession_def bind_eq_Some_conv)
  have "getsession st (session_key s) = Some (Some a)" by (rule getsession_SomeI [OF ok]) (use s in \<open>simp add: holds_def\<close>)
  from clearsession_contract [OF ok this] r show "sessions_ok st'" by auto
  obtain L where "table_ok st L" using ok by (auto simp: sessions_ok_def)
  from clearsession_ok [OF this s] r have "same_core ((st_heap st)(a := None)) (st_heap st')" by auto
  then show "dom (st_heap st') \<subseteq> dom (st_heap st)"
    using same_core_dom [of "(st_heap st)(a := None)" "st_heap st'"] by auto
qed

lemma closingsession_sessions_ok:
  assumes ok: "sessions_ok (w_sessions w)" and r: "closingsession t p (Some a) w = Some (x, w')"
  shows "sessions_ok (w_sessions w')"
proof -
  obtain f where f: "tcp_flags p t = Some f" using r by (auto simp: closingsession_def bind_eq_Some_conv)
  show ?thesis
  proof (cases "bit f TH_FIN")
    case True
    then obtain s where s: "st_heap (w_sessions w) a = Some s" using r f by (auto simp: closingsession_def bind_eq_Some_conv)
    consider (est) "s_state s = TCP_ESTABLISHED" | (cl) "s_state s = TCP_CLOSING" "s_state s \<noteq> TCP_ESTABLISHED"
      | (other) "s_state s \<noteq> TCP_ESTABLISHED" "s_state s \<noteq> TCP_CLOSING" by blast
    then show ?thesis
    proof cases
      case est
      then have "w' = set_session a (s\<lparr>s_state := TCP_CLOSING\<rparr>) w" using r f s True by (simp add: closingsession_def)
      then show ?thesis using set_session_ok(1) [OF ok s place_fields(3)] by simp
    next
      case cl
      then obtain st where "clearsession (Some a) (w_sessions w) = Some st" "w' = w\<lparr>w_sessions := st\<rparr>"
        using r f s True by (auto simp: closingsession_def bind_eq_Some_conv)
      then show ?thesis using clearsession_sessions_ok(1) [OF ok] by simp
    next
      case other
      then show ?thesis using r f s True ok by (simp add: closingsession_def)
    qed
  next
    case False
    then show ?thesis using r f ok by (simp add: closingsession_def)
  qed
qed

lemma end_of_session_sessions_ok:
  assumes ok: "sessions_ok (w_sessions w)" and r: "end_of_session t p a w = Some w'"
  shows "sessions_ok (w_sessions w')"
proof -
  obtain f where f: "tcp_flags p t = Some f" using r by (auto simp: end_of_session_def bind_eq_Some_conv)
  show ?thesis
  proof (cases "bit f TH_RST")
    case True
    then obtain st where "clearsession (Some a) (w_sessions w) = Some st" "w' = w\<lparr>w_sessions := st\<rparr>"
      using r f by (auto simp: end_of_session_def bind_eq_Some_conv closingsession_def)
    then show ?thesis using clearsession_sessions_ok(1) [OF ok] by auto
  next
    case False
    then obtain x where "closingsession t p (Some a) w = Some (x, w')"
      using r f by (auto simp: end_of_session_def bind_eq_Some_conv)
    then show ?thesis by (rule closingsession_sessions_ok [OF ok])
  qed
qed

lemma give_back_sessions: "give_back a v w = Some w' \<Longrightarrow> w_sessions w' = w_sessions w"
  by (auto simp: give_back_def bind_eq_Some_conv)

lemma write_back_sessions: "write_back a p w = Some w' \<Longrightarrow> w_sessions w' = w_sessions w"
  by (auto simp: write_back_def bind_eq_Some_conv)

lemma tagged_session_ok:
  assumes ok: "sessions_ok (w_sessions w)" and s: "st_heap (w_sessions w) a = Some s" and p: "same_place s s'"
  shows "sessions_ok (w_sessions (set_session a s' w\<lparr>w_dicts := sh\<rparr>))"
  using set_session_ok(1) [OF assms] by simp

lemma optimize_found_sessions:
  assumes ok: "sessions_ok (w_sessions w)" and r: "optimize_found e t hb key a sa pk p (pr, l, w) = Some (pr', l', w')"
  shows "sessions_ok (w_sessions w')"
proof -
  obtain lip lport sip sport where k: "key = (lip, lport, sip, sport)" by (cases key)
  obtain ip f where hf: "ip_addrs p = Some ip" "tcp_flags p t = Some f" using r by (auto simp: optimize_found_def bind_eq_Some_conv)
  note rest = r [unfolded optimize_found_def k hf Option.bind.simps prod.case Let_def]
  obtain p1 w1 w2 where "end_of_session t p1 sa w1 = Some w2" "sessions_ok (w_sessions w1)" "w_sessions w' = w_sessions w2"
  proof (cases "data_segment f")
    case True
    obtain s where s: "st_heap (w_sessions w) sa = Some s" using rest True by (auto simp: bind_eq_Some_conv)
    obtain y where y: "optimize_tag e t lip sip ip (p, s, pr, w_dicts w, l) = Some y" using rest True s by (auto simp: bind_eq_Some_conv)
    obtain b p1 s1 pr1 sh1 l1 where y': "y = (b, p1, s1, pr1, sh1, l1)" by (cases y) auto
    let ?w = "set_session sa s1 w\<lparr>w_dicts := sh1\<rparr>"
    have "sessions_ok (w_sessions ?w)" by (rule tagged_session_ok [OF ok s optimize_tag_place [OF y [unfolded y']]])
    moreover obtain w2 where "end_of_session t p1 sa ?w = Some w2" "w_sessions w' = w_sessions w2"
      using rest True s y y' by (auto simp: bind_eq_Some_conv dest!: write_back_sessions give_back_sessions)
    ultimately show thesis using that by blast
  next
    case False
    then obtain w2 where "end_of_session t p sa w = Some w2" "w_sessions w' = w_sessions w2"
      using rest by (auto simp: bind_eq_Some_conv dest!: write_back_sessions give_back_sessions)
    then show thesis using that ok by blast
  qed
  then show ?thesis using end_of_session_sessions_ok by metis
qed

lemma optimize_one_sessions:
  assumes ok: "sessions_ok (w_sessions w)" and r: "optimize_one e a (pr, l, w) = Some (pr', l', w')"
  shows "sessions_ok (w_sessions w')"
proof -
  obtain pr0 t hb key pk p x y where c: "(case x of Some sa \<Rightarrow> optimize_found e t hb key a sa pk p (pr0, l, w)
       | None \<Rightarrow> optimize_unknown hb a pk p (pr0, l, w)) = Some y" "snd (snd y) = w'"
    using r by (auto simp: optimize_one_def bind_eq_Some_conv Let_def)
  show ?thesis
  proof (cases x)
    case None
    then have "w_sessions w' = w_sessions w"
      using c by (auto simp: optimize_unknown_def bind_eq_Some_conv Let_def dest!: give_back_sessions)
    then show ?thesis using ok by simp
  next
    case (Some sa)
    then show ?thesis
      using optimize_found_sessions [OF ok, of e t hb key a sa pk p pr0 l "fst y" "fst (snd y)" w'] c by (cases y) auto
  qed
qed

lemma deoptimize_found_sessions:
  assumes ok: "sessions_ok (w_sessions w)" and r: "deoptimize_found e t hb key a sa pk oh p (pr, w) = Some (pr', w')"
  shows "sessions_ok (w_sessions w')"
proof -
  obtain lip lport sip sport where k: "key = (lip, lport, sip, sport)" by (cases key)
  obtain ip f where hf: "ip_addrs p = Some ip" "tcp_flags p t = Some f" using r by (auto simp: deoptimize_found_def bind_eq_Some_conv)
  note rest = r [unfolded deoptimize_found_def k hf Option.bind.simps prod.case Let_def]
  obtain z where z: "(if data_segment f then do {
         s \<leftarrow> st_heap (w_sessions w) sa;
         (p, alive, s, pr, sh) \<leftarrow> deoptimize_payload e t lip sip ip oh (p, True, s, pr, w_dicts w);
         Some (p, alive, pr, set_session sa s w\<lparr>w_dicts := sh\<rparr>) }
       else Some (p, True, pr, w)) = Some z"
    using rest by (auto simp: bind_eq_Some_conv)
  obtain p1 alive pr1 w1 where z': "z = (p1, alive, pr1, w1)" by (cases z) auto
  have w1: "sessions_ok (w_sessions w1)"
  proof (cases "data_segment f")
    case True
    obtain s y where y: "st_heap (w_sessions w) sa = Some s" "deoptimize_payload e t lip sip ip oh (p, True, s, pr, w_dicts w) = Some y"
      using z True by (auto simp: bind_eq_Some_conv)
    obtain p2 b2 s2 pr2 sh2 where y': "y = (p2, b2, s2, pr2, sh2)" by (cases y) auto
    have "w1 = set_session sa s2 w\<lparr>w_dicts := sh2\<rparr>" using z z' True y y' by simp
    then show ?thesis using tagged_session_ok [OF ok y(1) deoptimize_payload_place [OF y(2) [unfolded y']]] by simp
  next
    case False
    then show ?thesis using z z' ok by simp
  qed
  obtain w2 w3 where "w_sessions w2 = w_sessions w1" "end_of_session t p1 sa w2 = Some w3" "w_sessions w' = w_sessions w3"
    using rest [unfolded z z' Option.bind.simps prod.case]
    by (auto simp: bind_eq_Some_conv dest!: write_back_sessions give_back_sessions split: if_splits)
  then show ?thesis using end_of_session_sessions_ok [of w2 t p1 sa w3] w1 by simp
qed

lemma deoptimize_one_sessions:
  assumes ok: "sessions_ok (w_sessions w)" and r: "deoptimize_one e a (pr, n, w) = Some (b, pr', n', w')"
  shows "sessions_ok (w_sessions w')"
proof -
  consider (dropped) v where "give_back a v w = Some w'"
    | (found) pr0 t hb key pk oh p sa pr1 where "deoptimize_found e t hb key a sa pk oh p (pr0, w) = Some (pr1, w')"
    | (unknown) hb pk p pr0 pr1 where "deoptimize_unknown hb a pk p (pr0, w) = Some (pr1, w')"
  proof -
    obtain pk t hb tot z where i: "mm_heap (w_mm w) a = Some pk" "ip_ihl4 (pkt_data pk) = Some t"
      "getIPPlusTCPHeaderLength (pkt_data pk) = Some hb" "ip_tot_len (pkt_data pk) = Some tot" "strip_header t (pkt_data pk) = Some z"
      using r by (auto simp: deoptimize_one_def bind_eq_Some_conv Let_def)
    note rest = r [unfolded deoptimize_one_def prod.case i Option.bind.simps Let_def]
    show thesis
    proof (cases z)
      case None
      then have "give_back a (Dropped (pkt_hq pk) (pkt_id pk)) w = Some w'" using rest by (auto simp: bind_eq_Some_conv)
      then show thesis by (rule dropped)
    next
      case (Some y)
      obtain oh p where y: "y = (oh, p)" by (cases y)
      obtain key x pr0 pr1 where "(case x of Some sa \<Rightarrow> deoptimize_found e t hb key a sa pk oh p (pr0, w)
            | None \<Rightarrow> deoptimize_unknown hb a pk p (pr0, w)) = Some (pr1, w')"
        using rest Some y by (auto simp: bind_eq_Some_conv split: prod.splits)
      then show thesis using found unknown by (cases x) auto
    qed
  qed
  then show ?thesis
  proof cases
    case dropped
    then show ?thesis using give_back_sessions ok by simp
  next
    case found
    then show ?thesis by (rule deoptimize_found_sessions [OF ok])
  next
    case unknown
    then have "w_sessions w' = w_sessions w"
      by (auto simp: deoptimize_unknown_def bind_eq_Some_conv Let_def dest!: write_back_sessions give_back_sessions)
    then show ?thesis using ok by simp
  qed
qed

section \<open>The fetcher\<close>

text \<open>What the fetcher may do to the table: update a session in place, or insert one for an unused key.\<close>

lemma put_session_eq: "f_sessions (put_session a x s) = put_heap a x (f_sessions s)"
  by (simp add: put_session_def put_heap_def)

lemma put_session_ok:
  assumes "sessions_ok (f_sessions s)" and "st_heap (f_sessions s) a = Some x" and "same_place x y"
  shows "sessions_ok (f_sessions (put_session a y s))" and "st_heap (f_sessions (put_session a y s)) a = Some y"
  using sessions_ok_put(1) [OF assms] by (simp_all add: put_session_eq) (simp add: put_heap_def)

definition fresh_alloc :: "(session heap \<Rightarrow> addr option) \<Rightarrow> bool" where
  "fresh_alloc alloc \<longleftrightarrow> (\<forall>h a. alloc h = Some a \<longrightarrow> h a = None)"

lemma insertsession_sessions_ok:
  assumes ok: "sessions_ok st" and al: "fresh_alloc alloc" and room: "card (dom (st_heap st)) + 1 < 2 ^ 32"
    and new: "getsession st k = Some None" and r: "insertsession alloc k q st = Some (x, st')"
  shows "sessions_ok st'"
proof (cases "alloc (st_heap st)")
  case None
  then show ?thesis using r ok by (auto simp: insertsession_def Let_def bind_eq_Some_conv split: prod.splits)
next
  case (Some a)
  then have a: "st_heap st a = None" using al by (auto simp: fresh_alloc_def)
  have "ok_queue q" using insertsession_bad_queue [of alloc st a q k] Some r ok by (auto simp: sessions_ok_def)
  then show ?thesis using insertsession_fresh [of st alloc a q k] ok Some a room new r by auto
qed

lemma enqueue_for_sessions: "enqueue_for e b q fp s = Some (r, s') \<Longrightarrow> f_sessions s' = f_sessions s"
  by (auto simp: enqueue_for_def bind_eq_Some_conv split: option.splits prod.splits if_splits)

lemma accept_packet_sessions: "accept_packet fp p s = Some s' \<Longrightarrow> f_sessions s' = f_sessions s"
  by (auto simp: accept_packet_def add_verdict_def bind_eq_Some_conv)

lemma count_packet_sessions [simp]: "f_sessions (count_packet s) = f_sessions s"
  by (simp add: count_packet_def)

lemma add_verdict_sessions [simp]: "f_sessions (add_verdict v s) = f_sessions s"
  by (simp add: add_verdict_def)

lemmas fetch_frames = enqueue_for_sessions accept_packet_sessions

lemma fetch_known_sessions:
  assumes ok: "sessions_ok (f_sessions s)" and r: "fetch_known e fp i a s = Some s'"
  shows "sessions_ok (f_sessions s')"
proof -
  obtain x where x: "st_heap (f_sessions s) a = Some x" using r by (auto simp: fetch_known_def bind_eq_Some_conv)
  let ?s = "put_session a (x\<lparr>lastactive := fe_time e, deadcounter := 0\<rparr>) s"
  have "f_sessions s' = f_sessions ?s"
    using r x by (auto simp: fetch_known_def Let_def bind_eq_Some_conv dest!: fetch_frames split: if_splits)
  then show ?thesis using put_session_ok(1) [OF ok x place_fields(4)] by simp
qed

lemma syn_from_client_place: "syn_from_client e t lip ip p x = Some (p', x') \<Longrightarrow> same_place x x'"
  using placeD(3) by (auto simp: syn_from_client_def Let_def bind_eq_Some_conv split: if_splits)

lemma syn_from_remote_place: "syn_from_remote t lip i ip p x = Some (p', x') \<Longrightarrow> same_place x x'"
  using placeD(3) by (auto simp: syn_from_remote_def Let_def bind_eq_Some_conv split: if_splits)

lemma fetch_syn_sessions:
  assumes ok: "sessions_ok (f_sessions s)" and al: "fresh_alloc (fe_salloc e)"
    and room: "card (dom (st_heap (f_sessions s))) + 1 < 2 ^ 32" and found: "getsession (f_sessions s) key = Some x"
    and r: "fetch_syn e fp t key i q f x s = Some s'"
  shows "sessions_ok (f_sessions s')"
proof -
  obtain y where y: "(case x of
         None \<Rightarrow> insertsession (fe_salloc e) key (if i \<noteq> 0 then int (unat q) else -1) (f_sessions s)
       | Some a \<Rightarrow> Some (Some a, f_sessions s)) = Some y"
    using r unfolding fetch_syn_def Let_def by (auto simp: bind_eq_Some_conv)
  obtain ts st where y': "y = (ts, st)" by (cases y)
  have st: "sessions_ok st"
    using y y' insertsession_sessions_ok [OF ok al room] found ok by (auto split: option.splits)
  note rest = r [unfolded fetch_syn_def Let_def y y' Option.bind.simps prod.case]
  show ?thesis
  proof (cases ts)
    case None
    then show ?thesis using rest st by (auto dest!: fetch_frames)
  next
    case (Some a)
    obtain lip lport sip sport where k: "key = (lip, lport, sip, sport)" by (cases key)
    obtain z where z: "st_heap st a = Some z" using rest Some k by (auto simp: bind_eq_Some_conv)
    obtain ip th where h: "ip_addrs (fp_data fp) = Some ip" "tcp_hdr (fp_data fp) t = Some th"
      using rest Some k z by (auto simp: bind_eq_Some_conv)
    obtain r1 z1 where z1: "sourceisclient lip (Some ip) (Some (z\<lparr>lastactive := fe_time e\<rparr>)) (\<not> bit f TH_ACK) = Some (r1, z1)"
      using rest Some k z h by (auto simp: bind_eq_Some_conv)
    obtain z1' where z1': "z1 = Some z1'" "same_place z z1'"
      using place_sourceisclient [OF z1] place_fields(1) same_place_trans by blast
    obtain z2 where z2: "snd (updateseq lip (Some ip) (Some th) z1) = Some z2" "same_place z1' z2"
      using place_updateseq [of lip "Some ip" "Some th" z1'] z1' by auto
    obtain z3 where z3: "snd (updateseqnumber lip (Some ip) (Some th) (Some z2)) = Some z3" "same_place z2 z3"
      using place_updateseqnumber [of lip "Some ip" "Some th" z2] by auto
    obtain p' z4 where z4: "(if i = 0 then syn_from_client e t lip ip (fp_data fp) z3
        else syn_from_remote t lip i ip (fp_data fp) z3) = Some (p', z4)"
      "accept_packet fp p' (count_packet (put_session a (z4\<lparr>s_state := if bit f TH_ACK then TCP_ESTABLISHED else TCP_SYN_SENT\<rparr>)
        (s\<lparr>f_sessions := st\<rparr>))) = Some s'"
    proof -
      obtain r2 where z2': "updateseq lip (Some ip) (Some th) z1 = (r2, Some z2)" using z2(1) by (metis prod.collapse)
      note tail = rest [unfolded Some k z h z1 z2' z3(1) Option.bind.simps option.case prod.case]
      obtain y where y: "(if i = 0 then syn_from_client e t lip ip (fp_data fp) z3
        else syn_from_remote t lip i ip (fp_data fp) z3) = Some y" using tail by (auto simp only: bind_eq_Some_conv)
      obtain p' z4 where y': "y = (p', z4)" by (cases y)
      show thesis by (rule that [OF y [unfolded y'] tail [unfolded y y' Option.bind.simps prod.case]])
    qed
    have "same_place z3 z4" using z4(1) syn_from_client_place syn_from_remote_place by (auto split: if_splits)
    then have "same_place z (z4\<lparr>s_state := if bit f TH_ACK then TCP_ESTABLISHED else TCP_SYN_SENT\<rparr>)"
      using same_place_trans [OF z1'(2) same_place_trans [OF z2(2) same_place_trans [OF z3(2)]]]
        same_place_trans [OF _ place_fields(3)] by blast
    then show ?thesis using accept_packet_sessions [OF z4(2)] sessions_ok_put(1) [OF st z] by (simp add: put_session_eq)
  qed
qed

lemma fetch_unknown_sessions:
  assumes ok: "sessions_ok (f_sessions s)" and al: "fresh_alloc (fe_salloc e)"
    and room: "card (dom (st_heap (f_sessions s))) + 1 < 2 ^ 32" and new: "getsession (f_sessions s) key = Some None"
    and r: "fetch_unknown e fp t key i q f s = Some s'"
  shows "sessions_ok (f_sessions s')"
proof (cases "bit f TH_ACK \<and> i \<noteq> 0")
  case False
  then show ?thesis using r ok by (auto simp: fetch_unknown_def dest!: fetch_frames)
next
  case True
  obtain y where y: "insertsession (fe_salloc e) key (int (unat q)) (f_sessions s) = Some y"
    using r True by (auto simp: fetch_unknown_def bind_eq_Some_conv)
  obtain ts st where y': "y = (ts, st)" by (cases y)
  have st: "sessions_ok st" using y y' insertsession_sessions_ok [OF ok al room new] by simp
  note rest = r [unfolded fetch_unknown_def Let_def y y' Option.bind.simps prod.case]
  show ?thesis
  proof (cases ts)
    case None
    then show ?thesis using rest st True by (auto dest!: fetch_frames)
  next
    case (Some a)
    obtain lip lport sip sport where k: "key = (lip, lport, sip, sport)" by (cases key)
    obtain z where z: "st_heap st a = Some z" using rest Some k True by (auto simp: bind_eq_Some_conv)
    obtain ip th where h: "ip_addrs (fp_data fp) = Some ip" "tcp_hdr (fp_data fp) t = Some th"
      using rest Some k z True by (auto simp: bind_eq_Some_conv)
    obtain z1 where z1: "snd (saveacceleratorid lip i (Some ip) (Some (z\<lparr>s_state := TCP_ESTABLISHED\<rparr>))) = Some z1"
      "same_place z z1"
      using place_saveacceleratorid [of lip i "Some ip" "z\<lparr>s_state := TCP_ESTABLISHED\<rparr>"] place_fields(3) same_place_trans by blast
    obtain z2 where z2: "snd (updateseqnumber lip (Some ip) (Some th) (Some z1)) = Some z2" "same_place z1 z2"
      using place_updateseqnumber [of lip "Some ip" "Some th" z1] by auto
    let ?s = "put_session a z1 (s\<lparr>f_sessions := st\<rparr>)"
    obtain b s1 where e: "enqueue_for e False (s_queue z1) fp ?s = Some (b, s1)"
      "s' = count_packet (if b then put_session a z2 s1 else s1)"
      using rest Some k z h z1 z2 True by (auto simp: bind_eq_Some_conv)
    have s1: "sessions_ok (f_sessions s1)" "st_heap (f_sessions s1) a = Some z1"
      using put_session_ok [of "s\<lparr>f_sessions := st\<rparr>" a z z1] st z z1(2) enqueue_for_sessions [OF e(1)] by auto
    show ?thesis using put_session_ok(1) [OF s1 z2(2)] s1 e(2) by simp
  qed
qed

lemma fetcher_callback_sessions:
  assumes ok: "sessions_ok (f_sessions s)" and al: "fresh_alloc (fe_salloc e)"
    and room: "card (dom (st_heap (f_sessions s))) + 1 < 2 ^ 32" and r: "fetcher_callback e fp s = Some s'"
  shows "sessions_ok (f_sessions s')"
  using r
proof (cases rule: fetcher_callback_cases)
  case verdict
  then show ?thesis using ok by simp
next
  case syn
  then show ?thesis using fetch_syn_sessions [OF _ al _ _ syn(2)] ok room by simp
next
  case known
  then show ?thesis using fetch_known_sessions [OF _ known] ok by simp
next
  case unknown
  then show ?thesis using fetch_unknown_sessions [OF _ al _ _ unknown(2)] ok room by simp
qed

end
