(* ===== verification/Packet_Flow.thy ===== *)
theory Packet_Flow
  imports Fetcher "HOL-Library.Multiset"
begin

text \<open>
  Where the packet buffers are.  Every buffer is in the pool, in the queue of one worker thread, or in
  the hands of the thread that works on it; the queues are disjoint lists in one heap.  The lemmas say
  how the queue operations move a buffer, and what a step of a worker does with its packet.
\<close>

section \<open>Places\<close>

datatype place = Pool | Opt nat | Deopt nat

text \<open>The places \<open>P\<close> have the queue heads \<open>Q\<close>, which hold the lists \<open>L\<close>.\<close>

definition buffers_ok :: "place set \<Rightarrow> packet_heap \<Rightarrow> (place \<Rightarrow> list_head) \<Rightarrow> (place \<Rightarrow> addr list) \<Rightarrow> bool" where
  "buffers_ok P h Q L \<longleftrightarrow> (\<forall>x\<in>P. queue_rep h (Q x) (L x)) \<and> (\<forall>x. x \<notin> P \<longrightarrow> L x = []) \<and>
     (\<forall>x y. x \<noteq> y \<longrightarrow> set (L x) \<inter> set (L y) = {}) \<and> finite (dom h)"

text \<open>A buffer in the hands of a thread.\<close>

definition spare :: "packet_heap \<Rightarrow> (place \<Rightarrow> addr list) \<Rightarrow> addr \<Rightarrow> bool" where
  "spare h L a \<longleftrightarrow> (\<exists>p. h a = Some p \<and> pkt_next p = None) \<and> (\<forall>x. a \<notin> set (L x))"

lemma buffers_ok_cong: "(\<And>x. x \<in> P \<Longrightarrow> Q x = Q' x) \<Longrightarrow> buffers_ok P h Q L = buffers_ok P h Q' L"
  by (simp add: buffers_ok_def)

lemma buffers_ok_dom:
  assumes "buffers_ok P h Q L"
  shows "set (L x) \<subseteq> dom h"
proof (cases "x \<in> P")
  case True
  then show ?thesis using assms queue_rep_dom [of h "Q x" "L x"] by (simp add: buffers_ok_def)
next
  case False
  then show ?thesis using assms by (simp add: buffers_ok_def)
qed

lemma buffers_ok_length:
  assumes "buffers_ok P h Q L"
  shows "length (L x) \<le> card (dom h)"
proof -
  have "distinct (L x)" using assms by (cases "x \<in> P") (auto simp: buffers_ok_def queue_rep_def)
  then have "length (L x) = card (set (L x))" by (simp add: distinct_card)
  then show ?thesis using buffers_ok_dom [OF assms, of x] assms card_mono [of "dom h" "set (L x)"] by (simp add: buffers_ok_def)
qed

lemma queue_rep_same_next:
  "h a = Some p \<Longrightarrow> pkt_next p' = pkt_next p \<Longrightarrow> queue_rep (h(a \<mapsto> p')) q as = queue_rep h q as"
  by (simp add: queue_rep_def nseg_same_next)

lemma queue_rep_other: "a \<notin> set as \<Longrightarrow> queue_rep (h(a := y)) q as = queue_rep h q as"
  by (simp add: queue_rep_def)

lemma buffers_ok_same_next:
  assumes "buffers_ok P h Q L" and "h a = Some p" and "pkt_next p' = pkt_next p"
  shows "buffers_ok P (h(a \<mapsto> p')) Q L" and "spare h L b \<Longrightarrow> spare (h(a \<mapsto> p')) L b"
  using assms by (auto simp: buffers_ok_def queue_rep_same_next spare_def)

lemma buffers_ok_write:
  assumes "buffers_ok P h Q L" and "\<forall>x. a \<notin> set (L x)"
  shows "buffers_ok P (h(a \<mapsto> p)) Q L" and "pkt_next p = None \<Longrightarrow> spare (h(a \<mapsto> p)) L a"
  using assms by (auto simp: buffers_ok_def queue_rep_other spare_def)

section \<open>Moving buffers\<close>

text \<open>The queue at \<open>x\<close> is changed by an operation that touches its own elements and the buffers \<open>A\<close> only.\<close>

lemma buffers_ok_change:
  assumes ok: "buffers_ok P h Q L" and x: "x \<in> P" and q: "queue_rep h' q' as" and f: "frame h h' (A \<union> set (L x))"
    and sp: "same_payload h h'" and a: "\<forall>y. y \<noteq> x \<longrightarrow> A \<inter> set (L y) = {}" and as: "set as \<subseteq> A \<union> set (L x)"
  shows "buffers_ok P h' (Q(x := q')) (L(x := as))"
proof -
  have "queue_rep h' (Q y) (L y)" if "y \<in> P" "y \<noteq> x" for y
  proof (rule queue_rep_frame [OF _ f])
    show "queue_rep h (Q y) (L y)" using ok that by (simp add: buffers_ok_def)
    show "(A \<union> set (L x)) \<inter> set (L y) = {}" using ok a that by (simp add: buffers_ok_def Int_Un_distrib2)
  qed
  moreover have "set ((L(x := as)) y) \<inter> set ((L(x := as)) z) = {}" if "y \<noteq> z" for y z
  proof -
    have d: "set (L y) \<inter> set (L z) = {}" if "y \<noteq> z" for y z using ok that by (auto simp: buffers_ok_def)
    show ?thesis using d [OF that] d [of y x] d [of x z] a as that by (auto split: if_splits) blast+
  qed
  moreover have "finite (dom h')" using ok dom_same_payload [OF sp] by (simp add: buffers_ok_def)
  ultimately show ?thesis using ok x q by (auto simp: buffers_ok_def)
qed

lemma put_buffer:
  assumes ok: "buffers_ok P h Q L" and x: "x \<in> P" and a: "spare h L a" and room: "card (dom h) + 1 < 2 ^ 32"
  shows "\<exists>q' h'. queue_packet (Q x) (Some a) h = Some (0, q', h') \<and> buffers_ok P h' (Q(x := q')) (L(x := L x @ [a])) \<and>
    same_payload h h'"
proof -
  have rep: "queue_rep h (Q x) (L x)" using ok x by (simp add: buffers_ok_def)
  have own: "owned h (L x) a" using a by (auto simp: spare_def owned_def)
  have "length (L x) + 1 < 2 ^ 32" using buffers_ok_length [OF ok, of x] room by simp
  from queue_packet_ok [OF rep own this] obtain q' h' where
    q: "queue_packet (Q x) (Some a) h = Some (0, q', h')" "queue_rep h' q' (L x @ [a])" "same_payload h h'"
    "frame h h' (insert a (set (L x)))" by blast
  have f: "frame h h' ({a} \<union> set (L x))" using q(4) by simp
  have "buffers_ok P h' (Q(x := q')) (L(x := L x @ [a]))"
    by (rule buffers_ok_change [OF ok x q(2) f q(3)]) (use a in \<open>auto simp: spare_def\<close>)
  then show ?thesis using q by blast
qed

lemma take_buffer_place:
  assumes ok: "buffers_ok P h Q L" and x: "x \<in> P" and L: "L x = a # as"
  shows "\<exists>q' h'. dequeue_packet f s (Q x) h = Some (Some a, q', h') \<and> buffers_ok P h' (Q(x := q')) (L(x := as)) \<and>
    same_payload h h' \<and> spare h' (L(x := as)) a"
proof -
  have rep: "queue_rep h (Q x) (a # as)" using ok x L by (metis buffers_ok_def)
  from dequeue_packet_ok [OF rep, of f s] obtain q' h' where
    q: "dequeue_packet f s (Q x) h = Some (Some a, q', h')" "queue_rep h' q' as" "owned h' as a" "same_payload h h'"
    "frame h h' {a}" by blast
  have f: "frame h h' ({a} \<union> set (L x))" using q(5) by (auto simp: frame_def)
  have other: "a \<notin> set (L y)" if "y \<noteq> x" for y
  proof -
    have "set (L y) \<inter> set (L x) = {}" using ok that by (auto simp: buffers_ok_def)
    then show ?thesis using L by auto
  qed
  have "buffers_ok P h' (Q(x := q')) (L(x := as))"
    by (rule buffers_ok_change [OF ok x q(2) f q(4)]) (use other L in auto)
  moreover have "spare h' (L(x := as)) a" using q(3) other by (auto simp: spare_def owned_def)
  ultimately show ?thesis using q by blast
qed

lemma take_empty_place:
  assumes "buffers_ok P h Q L" and "x \<in> P" and "L x = []"
  shows "dequeue_packet (\<lambda>y. y) s (Q x) h = Some (None, Q x, h)"
  using assms by (force simp: buffers_ok_def dequeue_packet_def queue_rep_def)

text \<open>A buffer from the pool, or a new one; allocation returns unused memory.\<close>

definition fresh_buffers :: "(packet_heap \<Rightarrow> addr option) \<Rightarrow> bool" where
  "fresh_buffers alloc \<longleftrightarrow> (\<forall>h a. alloc h = Some a \<longrightarrow> h a = None)"

lemma get_buffer:
  assumes ok: "buffers_ok P (mm_heap mm) Q L" and x: "Pool \<in> P" and Q: "Q Pool = freepacketbuffers mm"
    and al: "fresh_buffers alloc"
    and r: "get_freepacket_buffer alloc (\<lambda>x. x) mm = Some (b, mm')"
  shows "\<exists>a as. b = Some a \<and> mm_heap mm' a = Some zero_packet \<and>
    buffers_ok P (mm_heap mm') (Q(Pool := freepacketbuffers mm')) (L(Pool := as)) \<and> spare (mm_heap mm') (L(Pool := as)) a \<and>
    (\<forall>c. c \<in> dom (mm_heap mm) - {a} \<longrightarrow> map_option payload (mm_heap mm' c) = map_option payload (mm_heap mm c)) \<and>
    dom (mm_heap mm') = insert a (dom (mm_heap mm))"
proof (cases "L Pool")
  case Nil
  then have z: "hd_qlen (freepacketbuffers mm) = 0" using ok x Q queue_rep_qlen unfolding buffers_ok_def by metis
  note rest = r [unfolded get_freepacket_buffer_make [OF z] make_buffer_def newpacket_def]
  obtain a where a: "alloc (mm_heap mm) = Some a" using rest by (auto simp: bind_eq_Some_conv)
  then have n: "mm_heap mm a = None" using al by (simp add: fresh_buffers_def)
  then have na: "\<forall>x. a \<notin> set (L x)" using buffers_ok_dom [OF ok] by blast
  have mm': "mm' = mm\<lparr>mm_wakeups := Suc (mm_wakeups mm), allocatedpacketbuffers := allocatedpacketbuffers mm + 1,
      mm_heap := (mm_heap mm)(a \<mapsto> zero_packet)\<rparr>" "b = Some a"
    using rest a by simp_all
  have Q': "Q(Pool := freepacketbuffers mm) = Q" using Q by auto
  have L': "L(Pool := []) = L" using Nil by auto
  show ?thesis using buffers_ok_write [OF ok na, of zero_packet] n mm' Q' L'
    by (intro exI [of _ a] exI [of _ "[]"]) (auto simp: zero_packet_def)
next
  case (Cons a as)
  then have "hd_qlen (freepacketbuffers mm) \<noteq> 0" using ok x Q queue_rep_qlen unfolding buffers_ok_def by (metis list.distinct(1))
  then have z: "0 < hd_qlen (freepacketbuffers mm)" by (simp add: word_gt_0)
  obtain q' h' where d: "dequeue_packet (\<lambda>x. x) False (freepacketbuffers mm) (mm_heap mm) = Some (Some a, q', h')"
    "buffers_ok P h' (Q(Pool := q')) (L(Pool := as))" "same_payload (mm_heap mm) h'" "spare h' (L(Pool := as)) a"
    using take_buffer_place [OF ok x Cons, of "\<lambda>x. x" False] Q by auto
  have mm': "mm_heap mm' = h'(a \<mapsto> zero_packet)" "freepacketbuffers mm' = q'" "b = Some a"
    using r d(1) unfolding get_freepacket_buffer_take [OF z] take_buffer_def by (auto split: if_splits)
  have na: "\<forall>x. a \<notin> set ((L(Pool := as)) x)" using d(4) by (auto simp: spare_def)
  have dm: "dom h' = dom (mm_heap mm)" by (rule dom_same_payload [OF d(3)])
  have "a \<in> dom (mm_heap mm)" using buffers_ok_dom [OF ok, of Pool] Cons by auto
  then have "dom (mm_heap mm') = insert a (dom (mm_heap mm))" using mm' dm by auto
  moreover have "buffers_ok P (h'(a \<mapsto> zero_packet)) (Q(Pool := q')) (L(Pool := as))"
    by (rule buffers_ok_write(1) [OF d(2) na])
  moreover have "spare (h'(a \<mapsto> zero_packet)) (L(Pool := as)) a"
    by (rule buffers_ok_write(2) [OF d(2) na]) (simp add: zero_packet_def)
  ultimately show ?thesis using d(3) mm' by (intro exI [of _ a] exI [of _ as]) (simp add: same_payload_def)
qed

section \<open>Packets in flight\<close>

type_synonym ticket = "addr option \<times> u32"

text \<open>A packet of the kernel is known by its queue handle and its number, which the verdict repeats.\<close>

definition ticket_at :: "packet_heap \<Rightarrow> addr \<Rightarrow> ticket" where
  "ticket_at h a = (case h a of Some p \<Rightarrow> (pkt_hq p, pkt_id p) | None \<Rightarrow> (None, 0))"

fun verdict_ticket :: "verdict \<Rightarrow> ticket" where
  "verdict_ticket (Accepted hq i d) = (hq, i)"
| "verdict_ticket (Dropped hq i) = (hq, i)"

definition queued :: "(place \<Rightarrow> addr list) \<Rightarrow> addr set" where
  "queued L = (\<Union>x\<in>-{Pool}. set (L x))"

definition in_flight :: "packet_heap \<Rightarrow> (place \<Rightarrow> addr list) \<Rightarrow> ticket multiset" where
  "in_flight h L = image_mset (ticket_at h) (mset_set (queued L))"

lemma finite_queued:
  assumes "buffers_ok P h Q L"
  shows "finite (queued L)"
proof (rule finite_subset)
  show "queued L \<subseteq> dom h" unfolding queued_def using buffers_ok_dom [OF assms] by (rule UN_least)
  show "finite (dom h)" using assms by (simp add: buffers_ok_def)
qed

lemma queued_split: "x \<noteq> Pool \<Longrightarrow> queued L = set (L x) \<union> (\<Union>y\<in>-{Pool, x}. set (L y))"
  by (auto simp: queued_def)

lemma in_flight_cong: "(\<And>a. a \<in> queued L \<Longrightarrow> ticket_at h' a = ticket_at h a) \<Longrightarrow> in_flight h' L = in_flight h L"
  unfolding in_flight_def by (cases "finite (queued L)") (auto intro!: image_mset_cong)

lemma ticket_at_payload: "map_option payload (h' a) = map_option payload (h a) \<Longrightarrow> ticket_at h' a = ticket_at h a"
  unfolding ticket_at_def payload_def by (cases "h a"; cases "h' a") simp_all

lemma in_flight_same_payload: "same_payload h h' \<Longrightarrow> in_flight h' L = in_flight h L"
  by (rule in_flight_cong, rule ticket_at_payload) (simp add: same_payload_def)

lemma queued_pool [simp]: "queued (L(Pool := as)) = queued L"
  by (simp add: queued_def)

lemma in_flight_pool [simp]: "in_flight h (L(Pool := as)) = in_flight h L"
  by (simp add: in_flight_def)

lemma in_flight_put:
  assumes "finite (queued L)" and "\<forall>x. a \<notin> set (L x)" and "x \<noteq> Pool"
  shows "in_flight h (L(x := L x @ [a])) = add_mset (ticket_at h a) (in_flight h L)"
proof -
  have "queued (L(x := L x @ [a])) = insert a (queued L)" unfolding queued_split [OF assms(3)] by auto
  moreover have "a \<notin> queued L" using assms(2) by (simp add: queued_def)
  ultimately show ?thesis using assms(1) by (simp add: in_flight_def)
qed

lemma in_flight_take:
  assumes ok: "buffers_ok P h Q L" and x: "x \<in> P" "x \<noteq> Pool" and L: "L x = a # as"
  shows "in_flight h L = add_mset (ticket_at h a) (in_flight h (L(x := as)))"
proof -
  have d: "a \<notin> set as" "distinct as" using ok x L unfolding buffers_ok_def queue_rep_def by (metis distinct.simps(2))+
  have "a \<notin> set (L y)" if "y \<noteq> x" for y
  proof -
    have "set (L x) \<inter> set (L y) = {}" using ok that by (auto simp: buffers_ok_def)
    then show ?thesis using L by auto
  qed
  then have "a \<notin> queued (L(x := as))" using d by (auto simp: queued_def)
  moreover have q: "queued L = insert a (queued (L(x := as)))"
    unfolding queued_split [OF x(2)] using L by auto
  moreover have "finite (queued (L(x := as)))" using finite_queued [OF ok] q by simp
  ultimately show ?thesis by (simp add: in_flight_def)
qed

section \<open>What a worker does with its packet\<close>

definition data_changed :: "addr \<Rightarrow> mm_state \<Rightarrow> mm_state \<Rightarrow> bool" where
  "data_changed a mm mm' \<longleftrightarrow> (\<exists>p d. mm_heap mm a = Some p \<and> mm' = mm\<lparr>mm_heap := (mm_heap mm)(a \<mapsto> p\<lparr>pkt_data := d\<rparr>)\<rparr>)"

text \<open>The packet gets the verdict \<open>v\<close>, and its buffer goes back to the pool; its data may change before and after.\<close>

definition returned :: "addr \<Rightarrow> verdict \<Rightarrow> w_shared \<Rightarrow> w_shared \<Rightarrow> bool" where
  "returned a v w w' \<longleftrightarrow> (\<exists>mm1 r mm2. data_changed a (w_mm w) mm1 \<and> put_freepacket_buffer (Some a) mm1 = Some (r, mm2) \<and>
     data_changed a mm2 (w_mm w')) \<and> w_verdicts w' = w_verdicts w @ [v] \<and> verdict_ticket v = ticket_at (mm_heap (w_mm w)) a"

lemma data_changed_refl: "mm_heap mm a = Some p \<Longrightarrow> data_changed a mm mm"
  unfolding data_changed_def by (intro exI [of _ p] exI [of _ "pkt_data p"]) (simp add: fun_upd_idem)

lemma data_changed_ok:
  assumes "data_changed a mm mm'" and "buffers_ok P (mm_heap mm) Q L"
  shows "buffers_ok P (mm_heap mm') Q L" and "spare (mm_heap mm) L b \<Longrightarrow> spare (mm_heap mm') L b"
    and "ticket_at (mm_heap mm') = ticket_at (mm_heap mm)" and "dom (mm_heap mm') = dom (mm_heap mm)"
    and "freepacketbuffers mm' = freepacketbuffers mm"
proof -
  obtain p d where p: "mm_heap mm a = Some p" "mm' = mm\<lparr>mm_heap := (mm_heap mm)(a \<mapsto> p\<lparr>pkt_data := d\<rparr>)\<rparr>"
    using assms(1) by (auto simp: data_changed_def)
  show "buffers_ok P (mm_heap mm') Q L" "spare (mm_heap mm) L b \<Longrightarrow> spare (mm_heap mm') L b"
    using buffers_ok_same_next [OF assms(2) p(1), of "p\<lparr>pkt_data := d\<rparr>"] p(2) by simp_all
  show "ticket_at (mm_heap mm') = ticket_at (mm_heap mm)" "dom (mm_heap mm') = dom (mm_heap mm)"
    "freepacketbuffers mm' = freepacketbuffers mm" using p by (auto simp: ticket_at_def)
qed

lemma returned_ok:
  assumes r: "returned a v w w'" and ok: "buffers_ok P (mm_heap (w_mm w)) Q L" and P: "Pool \<in> P" "Q Pool = freepacketbuffers (w_mm w)"
    and a: "spare (mm_heap (w_mm w)) L a" and room: "card (dom (mm_heap (w_mm w))) + 1 < 2 ^ 32"
  shows "buffers_ok P (mm_heap (w_mm w')) (Q(Pool := freepacketbuffers (w_mm w'))) (L(Pool := L Pool @ [a]))"
    and "in_flight (mm_heap (w_mm w')) L = in_flight (mm_heap (w_mm w)) L"
proof -
  obtain mm1 x mm2 where m: "data_changed a (w_mm w) mm1" "put_freepacket_buffer (Some a) mm1 = Some (x, mm2)"
    "data_changed a mm2 (w_mm w')" using r by (auto simp: returned_def)
  note m1 = data_changed_ok [OF m(1) ok]
  obtain q' h' where q: "queue_packet (Q Pool) (Some a) (mm_heap mm1) = Some (0, q', h')"
    "buffers_ok P h' (Q(Pool := q')) (L(Pool := L Pool @ [a]))" "same_payload (mm_heap mm1) h'"
    using put_buffer [OF m1(1) P(1) m1(2) [OF a]] room m1(4) by auto
  have mm2: "mm_heap mm2 = h'" "freepacketbuffers mm2 = q'"
    using m(2) q(1) P(2) m1(5) by (auto simp: put_freepacket_buffer_def)
  note m2 = data_changed_ok [OF m(3), of P "Q(Pool := q')" "L(Pool := L Pool @ [a])"]
  show "buffers_ok P (mm_heap (w_mm w')) (Q(Pool := freepacketbuffers (w_mm w'))) (L(Pool := L Pool @ [a]))"
    using m2 q(2) mm2 by simp
  have "ticket_at (mm_heap (w_mm w')) = ticket_at h'" using m2(3) q(2) mm2 by simp
  then have "in_flight (mm_heap (w_mm w')) L = in_flight h' L" by (simp add: in_flight_def)
  also have "\<dots> = in_flight (mm_heap mm1) L" by (rule in_flight_same_payload [OF q(3)])
  finally show "in_flight (mm_heap (w_mm w')) L = in_flight (mm_heap (w_mm w)) L" using m1(3) by (simp add: in_flight_def)
qed

subsection \<open>The queue of the worker is left alone\<close>

lemma optimize_compress_queue: "optimize_compress e t (p, s, pr, r) = Some (p', s', pr', r') \<Longrightarrow> pr_queue pr' = pr_queue pr"
  by (cases r) (auto simp: optimize_compress_def bind_eq_Some_conv Let_def split: if_splits prod.splits)

lemma optimize_dedup_queue:
  assumes "optimize_dedup e t lip ip (p, s, pr, r) = Some (p', s', pr', r')"
  shows "pr_queue pr' = pr_queue pr"
proof -
  obtain sh l cause where r: "r = (sh, l, cause)" by (cases r) auto
  obtain th where th: "tcp_hdr p t = Some th" using assms by (auto simp: optimize_dedup_def r bind_eq_Some_conv)
  show ?thesis
  proof (cases "checkseqnumber lip (Some ip) (Some th) (Some s) = 0")
    case True
    then show ?thesis using assms th by (auto simp: optimize_dedup_def r bind_eq_Some_conv split: prod.splits)
  next
    case False
    obtain s1 buf o1 where 1: "snd (updateseqnumber lip (Some ip) (Some th) (Some s)) = Some s1" "dedup_buffer pr = Some buf"
      "tcp_optimize (e_deduplication e) (e_config e) (dedupProcessor pr) sh p buf = Some o1"
      using assms th False by (auto simp: optimize_dedup_def r bind_eq_Some_conv)
    obtain nd pd sh1 p1 buf1 where o1: "o1 = (nd, pd, sh1, p1, buf1)" by (cases o1) auto
    let ?pr = "if 0 < nd then upd_metrics (\<lambda>m. m\<lparr>diffBytesDeduplication := diffBytesDeduplication m + of_nat nd\<rparr>)
      (pr\<lparr>dedupProcessor := pd, dedup_buffer := Some buf1\<rparr>) else pr\<lparr>dedupProcessor := pd, dedup_buffer := Some buf1\<rparr>"
    have q: "pr_queue ?pr = pr_queue pr" by simp
    note rest = assms [unfolded optimize_dedup_def r th 1 o1 Option.bind.simps prod.case Let_def if_not_P [OF False] if_P [OF False]]
    obtain z where z: "(if e_compression e then do {
            (nc, p, lz) \<leftarrow> tcp_compress (e_qlz e) p1 (lzbuffer ?pr);
            Some (p, ?pr\<lparr>lzbuffer := lz\<rparr>, (l\<lparr>redElDedup := nd\<rparr>)\<lparr>redElComp := nc\<rparr>) }
          else Some (p1, ?pr, l\<lparr>redElDedup := nd\<rparr>)) = Some z"
      using rest by (auto simp only: bind_eq_Some_conv)
    obtain p2 pr2 l2 where z': "z = (p2, pr2, l2)" by (cases z)
    have "pr_queue pr2 = pr_queue pr" using z z' q by (auto simp: bind_eq_Some_conv simp del: if_split split: if_splits(2))
    moreover have "pr_queue pr' = pr_queue pr2" using rest [unfolded z z' Option.bind.simps prod.case]
      by (auto simp only: bind_eq_Some_conv option.inject prod.inject) simp
    ultimately show ?thesis by simp
  qed
qed

lemma optimize_payload_queue:
  assumes "optimize_payload e t lip sip ip (p, s, pr, r) = Some (p', s', pr', r')"
  shows "pr_queue pr' = pr_queue pr"
proof -
  obtain sh l cause where r: "r = (sh, l, cause)" by (cases r) auto
  let ?l = "l\<lparr>redEl := 0, redElComp := 0, redElDedup := 0\<rparr>"
  show ?thesis
  proof (cases "accelerate (e_localID e) lip sip ip s")
    case True
    then obtain x where x: "(if e_compression e \<and> \<not> e_deduplication e then optimize_compress e t (p, s, pr, sh, ?l, cause)
             else Some (p, s, pr, sh, ?l, cause)) = Some x"
      "(if e_deduplication e then optimize_dedup e t lip ip x else Some x) = Some (p', s', pr', r')"
      using assms by (auto simp: optimize_payload_def r bind_eq_Some_conv Let_def)
    obtain p1 s1 pr1 r1 where x': "x = (p1, s1, pr1, r1)" by (cases x) auto
    have "pr_queue pr1 = pr_queue pr" using x(1) x' optimize_compress_queue by (auto split: if_splits)
    then show ?thesis using x(2) x' optimize_dedup_queue by (auto split: if_splits)
  next
    case False
    then show ?thesis using assms by (auto simp: optimize_payload_def r bind_eq_Some_conv split: prod.splits if_splits)
  qed
qed

lemma optimize_tag_queue:
  assumes "optimize_tag e t lip sip ip (p, s, pr, sh, l) = Some (b, p', s', pr', r)"
  shows "pr_queue pr' = pr_queue pr"
proof -
  obtain s1 x p1 where 1: "snd (saveacceleratorid lip (e_localID e) (Some ip) (Some s)) = Some s1" "set_tcp_option p 32 3 1 = Some (x, p1)"
    using assms by (auto simp: optimize_tag_def bind_eq_Some_conv)
  show ?thesis
  proof (cases "x = -1")
    case True
    then show ?thesis using assms 1 by (auto simp: optimize_tag_def)
  next
    case False
    then obtain y where "optimize_payload e t lip sip ip (p1, s1, pr, sh, l, NOT_RELEVANT) = Some y" "fst (snd (snd y)) = pr'"
      using assms 1 by (auto simp: optimize_tag_def bind_eq_Some_conv split: prod.splits)
    then show ?thesis
      using optimize_payload_queue [of e t lip sip ip p1 s1 pr "(sh, l, NOT_RELEVANT)" "fst y" "fst (snd y)" pr' "snd (snd (snd y))"]
      by (cases y) auto
  qed
qed

lemma decompress_first_queue:
  assumes "decompress_first e t nd (p, b, s, pr, sh) = Some (n, p', b', s', pr', sh')"
  shows "pr_queue pr' = pr_queue pr"
proof -
  obtain m p1 lz where m: "tcp_decompress (e_dlz e) p (lzbuffer pr) = Some (m, p1, lz)"
    using assms by (auto simp: decompress_first_def bind_eq_Some_conv)
  note rest = assms [unfolded decompress_first_def prod.case m Option.bind.simps Let_def]
  show ?thesis
  proof (cases "m < 0")
    case True
    then show ?thesis using rest by clarsimp
  next
    case False
    then show ?thesis using rest by (cases nd) (auto simp: bind_eq_Some_conv)
  qed
qed

lemma deoptimize_dedup_queue:
  assumes "deoptimize_dedup e t lip ip nc nd (p, b, s, pr, sh) = Some (p', b', s', pr', sh')"
  shows "pr_queue pr' = pr_queue pr"
proof -
  obtain y where y: "(if e_compression e \<and> nc then decompress_first e t nd (p, b, s, pr, sh) else Some (0, p, b, s, pr, sh)) = Some y"
    using assms by (auto simp: deoptimize_dedup_def bind_eq_Some_conv)
  obtain n p1 b1 s1 pr1 sh1 where y': "y = (n, p1, b1, s1, pr1, sh1)" by (cases y) auto
  have 1: "pr_queue pr1 = pr_queue pr" using y y' decompress_first_queue by (auto split: if_splits)
  note rest = assms [unfolded deoptimize_dedup_def y y' Option.bind.simps prod.case]
  show ?thesis
  proof (cases nd)
    case True
    then show ?thesis using rest 1 by (auto simp: bind_eq_Some_conv Let_def split: if_splits)
  next
    case False
    then show ?thesis using rest 1 by (auto simp: bind_eq_Some_conv)
  qed
qed

lemma deoptimize_compressed_queue:
  assumes "deoptimize_compressed e t (p, b, s, pr, sh) = Some (p', b', s', pr', sh')"
  shows "pr_queue pr' = pr_queue pr"
proof -
  obtain m p1 lz where m: "tcp_decompress (e_dlz e) p (lzbuffer pr) = Some (m, p1, lz)"
    using assms by (auto simp: deoptimize_compressed_def bind_eq_Some_conv)
  note rest = assms [unfolded deoptimize_compressed_def prod.case m Option.bind.simps Let_def]
  show ?thesis
  proof (cases "m < 0")
    case True
    then show ?thesis using rest by clarsimp
  next
    case False
    then show ?thesis using rest by (auto simp: bind_eq_Some_conv)
  qed
qed

lemma deoptimize_payload_queue:
  assumes "deoptimize_payload e t lip sip ip oh (p, b, s, pr, sh) = Some (p', b', s', pr', sh')"
  shows "pr_queue pr' = pr_queue pr"
proof (cases "oh_opennopID oh = 0")
  case True
  then show ?thesis using assms by (auto simp: deoptimize_payload_def Let_def)
next
  case False
  let ?nc = "oh_compression oh \<noteq> 0" and ?nd = "oh_deduplication oh \<noteq> 0"
  obtain s1 where s1: "snd (saveacceleratorid lip (oh_opennopID oh) (Some ip) (Some s)) = Some s1"
    using assms False by (auto simp: deoptimize_payload_def Let_def bind_eq_Some_conv)
  consider (acc) x where "(if e_compression e \<and> \<not> e_deduplication e \<and> ?nc
        then deoptimize_compressed e t (p, b, s1, pr, sh) else Some (p, b, s1, pr, sh)) = Some x"
      "(if e_deduplication e then deoptimize_dedup e t lip ip ?nc ?nd x else Some x) = Some (p', b', s', pr', sh')"
    | (rest) "pr_queue pr' = pr_queue pr"
    using assms False s1 by (auto simp: deoptimize_payload_def bind_eq_Some_conv Let_def split: if_splits prod.splits)
  then show ?thesis
  proof cases
    case acc
    obtain p2 b2 s2 pr2 sh2 where x: "x = (p2, b2, s2, pr2, sh2)" by (cases x) auto
    have "pr_queue pr2 = pr_queue pr" using acc(1) x deoptimize_compressed_queue by (auto split: if_splits)
    then show ?thesis using acc(2) x deoptimize_dedup_queue by (auto split: if_splits)
  qed
qed

subsection \<open>Every packet is returned once\<close>

lemma set_session_frame [simp]: "w_mm (set_session a s w) = w_mm w" "w_verdicts (set_session a s w) = w_verdicts w"
  by (simp_all add: set_session_def)

lemma closingsession_frame: "closingsession t p x w = Some (y, w') \<Longrightarrow> w_mm w' = w_mm w \<and> w_verdicts w' = w_verdicts w"
proof (cases x)
  case (Some a)
  assume r: "closingsession t p x w = Some (y, w')"
  then obtain f where f: "tcp_flags p t = Some f" using Some by (auto simp: closingsession_def bind_eq_Some_conv)
  show ?thesis
  proof (cases "bit f TH_FIN")
    case True
    then obtain s where s: "st_heap (w_sessions w) a = Some s" using r f Some by (auto simp: closingsession_def bind_eq_Some_conv)
    then show ?thesis using r f Some True
      by (cases "s_state s = TCP_ESTABLISHED"; cases "s_state s = TCP_CLOSING")
        (auto simp: closingsession_def bind_eq_Some_conv)
  next
    case False
    then show ?thesis using r f Some by (simp add: closingsession_def)
  qed
qed (simp add: closingsession_def)

lemma end_of_session_frame:
  assumes "end_of_session t p a w = Some w'"
  shows "w_mm w' = w_mm w \<and> w_verdicts w' = w_verdicts w"
proof -
  obtain f where f: "tcp_flags p t = Some f" using assms by (auto simp: end_of_session_def bind_eq_Some_conv)
  obtain x w1 y where "closingsession t p x w1 = Some (y, w')" "w_mm w1 = w_mm w" "w_verdicts w1 = w_verdicts w"
  proof (cases "bit f TH_RST")
    case True
    then obtain st where "closingsession t p None (w\<lparr>w_sessions := st\<rparr>) = Some (None, w')"
      using assms f by (auto simp: end_of_session_def bind_eq_Some_conv closingsession_def)
    then show thesis by (rule that) simp_all
  next
    case False
    then obtain y where "closingsession t p (Some a) w = Some (y, w')"
      using assms f by (auto simp: end_of_session_def bind_eq_Some_conv)
    then show thesis by (rule that) simp_all
  qed
  then show ?thesis using closingsession_frame by metis
qed

lemma write_backD:
  "write_back a p w = Some w' \<Longrightarrow> data_changed a (w_mm w) (w_mm w') \<and> w_verdicts w' = w_verdicts w"
  by (auto simp: write_back_def data_changed_def bind_eq_Some_conv)

lemma give_backD:
  "give_back a v w = Some w' \<Longrightarrow> \<exists>r. put_freepacket_buffer (Some a) (w_mm w) = Some (r, w_mm w') \<and> w_verdicts w' = w_verdicts w @ [v]"
  by (auto simp: give_back_def bind_eq_Some_conv)

lemma queue_packet_dom: "queue_packet q (Some a) h = Some (r, q', h') \<Longrightarrow> dom h' = dom h"
  by (auto simp: queue_packet_def Let_def bind_eq_Some_conv split: if_splits)

lemma put_freepacket_buffer_holds:
  assumes "put_freepacket_buffer (Some a) mm = Some (r, mm')" and "mm_heap mm a = Some p"
  shows "\<exists>p'. mm_heap mm' a = Some p'"
  using assms queue_packet_dom by (fastforce simp: put_freepacket_buffer_def bind_eq_Some_conv)

lemma returnedI:
  assumes "mm_heap (w_mm w) a = Some pk" and "verdict_ticket v = (pkt_hq pk, pkt_id pk)" and "data_changed a (w_mm w) (w_mm w1)"
    and "w_verdicts w1 = w_verdicts w" and "give_back a v w1 = Some w2" and "data_changed a (w_mm w2) (w_mm w')" and "w_verdicts w' = w_verdicts w2"
  shows "returned a v w w'"
  using assms give_backD [OF assms(5)] by (auto simp: returned_def ticket_at_def)

text \<open>The two orders: the data written before the buffer is given back, or after.\<close>

lemma returned_last:
  assumes pk: "mm_heap (w_mm w) a = Some pk" and v: "verdict_ticket v = (pkt_hq pk, pkt_id pk)"
    and 1: "data_changed a (w_mm w) (w_mm w1)" "w_verdicts w1 = w_verdicts w" and 2: "give_back a v w1 = Some w'"
  shows "returned a v w w'"
proof -
  obtain p where p: "mm_heap (w_mm w1) a = Some p" using 1(1) by (auto simp: data_changed_def)
  obtain r where "put_freepacket_buffer (Some a) (w_mm w1) = Some (r, w_mm w')" using give_backD [OF 2] by blast
  then obtain p' where "mm_heap (w_mm w') a = Some p'" using put_freepacket_buffer_holds p by blast
  then show ?thesis using returnedI [OF pk v 1 2 data_changed_refl] by simp
qed

lemma returned_first:
  assumes pk: "mm_heap (w_mm w) a = Some pk" and v: "verdict_ticket v = (pkt_hq pk, pkt_id pk)"
    and 1: "w_mm w1 = w_mm w" "w_verdicts w1 = w_verdicts w" and 2: "give_back a v w1 = Some w2"
    and 3: "data_changed a (w_mm w2) (w_mm w')" "w_verdicts w' = w_verdicts w2"
  shows "returned a v w w'"
  by (rule returnedI [OF pk v _ 1(2) 2 3]) (use data_changed_refl [OF pk] 1(1) in simp)

lemma optimize_found_returned:
  assumes pk: "mm_heap (w_mm w) a = Some pk" and r: "optimize_found e t hb key a sa pk p (pr, l, w) = Some (pr', l', w')"
  shows "(\<exists>v. returned a v w w') \<and> pr_queue pr' = pr_queue pr"
proof -
  obtain lip lport sip sport where k: "key = (lip, lport, sip, sport)" by (cases key)
  obtain ip f where hf: "ip_addrs p = Some ip" "tcp_flags p t = Some f" using r by (auto simp: optimize_found_def bind_eq_Some_conv)
  note rest = r [unfolded optimize_found_def k hf Option.bind.simps prod.case Let_def]
  obtain z where z: "(if data_segment f then do {
         s \<leftarrow> st_heap (w_sessions w) sa;
         (added, p, s, pr, sh, l) \<leftarrow> optimize_tag e t lip sip ip (p, s, pr, w_dicts w, l);
         Some (added, p, pr, l, set_session sa s w\<lparr>w_dicts := sh\<rparr>) }
       else Some (False, p, pr, l, w)) = Some z"
    using rest by (auto simp: bind_eq_Some_conv)
  obtain added p1 pr1 l1 w1 where z': "z = (added, p1, pr1, l1, w1)" by (cases z) auto
  have 1: "pr_queue pr1 = pr_queue pr" "w_mm w1 = w_mm w" "w_verdicts w1 = w_verdicts w"
    using z z' optimize_tag_queue by (auto simp: bind_eq_Some_conv split: if_splits)
  note rest2 = rest [unfolded z z' Option.bind.simps prod.case]
  obtain w2 p2 w3 d where 2: "end_of_session t p1 sa w1 = Some w2" "write_back a p2 w2 = Some w3"
    "give_back a (Accepted (pkt_hq pk) (pkt_id pk) (Some d)) w3 = Some w'"
    using rest2 by (auto simp: bind_eq_Some_conv)
  have "returned a (Accepted (pkt_hq pk) (pkt_id pk) (Some d)) w w'"
    by (rule returned_last [OF pk _ _ _ 2(3)])
      (use end_of_session_frame [OF 2(1)] write_backD [OF 2(2)] 1 in simp_all)
  moreover have "pr_queue pr' = pr_queue pr1" using rest2 by (auto simp: bind_eq_Some_conv)
  ultimately show ?thesis using 1 by auto
qed

lemma optimize_one_returned:
  assumes r: "optimize_one e a (pr, l, w) = Some (pr', l', w')"
  shows "(\<exists>v. returned a v w w') \<and> pr_queue pr' = pr_queue pr"
proof -
  obtain pr0 t hb key pk x y where c: "mm_heap (w_mm w) a = Some pk" "(case x of Some sa \<Rightarrow> optimize_found e t hb key a sa pk (pkt_data pk) (pr0, l, w)
       | None \<Rightarrow> optimize_unknown hb a pk (pkt_data pk) (pr0, l, w)) = Some y" "snd (snd y) = w'" "pr_queue pr' = pr_queue (fst y)"
       "pr_queue pr0 = pr_queue pr"
    using r by (auto simp: optimize_one_def bind_eq_Some_conv Let_def)
  obtain pr1 l1 where y: "y = (pr1, l1, w')" using c(3) by (cases y) auto
  show ?thesis
  proof (cases x)
    case None
    then obtain v where v: "give_back a v w = Some w'" "verdict_ticket v = (pkt_hq pk, pkt_id pk)" "pr_queue pr1 = pr_queue pr0"
      using c y by (auto simp: optimize_unknown_def bind_eq_Some_conv Let_def)
    show ?thesis using returned_last [OF c(1) v(2) data_changed_refl [OF c(1)] refl v(1)] v(3) c(4,5) y by auto
  next
    case (Some sa)
    then show ?thesis using optimize_found_returned [OF c(1)] c(2,4,5) y by auto
  qed
qed

lemma deoptimize_found_returned:
  assumes pk: "mm_heap (w_mm w) a = Some pk" and r: "deoptimize_found e t hb key a sa pk oh p (pr, w) = Some (pr', w')"
  shows "(\<exists>v. returned a v w w') \<and> pr_queue pr' = pr_queue pr"
proof -
  obtain lip lport sip sport where k: "key = (lip, lport, sip, sport)" by (cases key)
  obtain ip f where hf: "ip_addrs p = Some ip" "tcp_flags p t = Some f" using r by (auto simp: deoptimize_found_def bind_eq_Some_conv)
  note rest = r [unfolded deoptimize_found_def k hf Option.bind.simps prod.case Let_def]
  obtain z where z: "(if data_segment f then do {
         s \<leftarrow> st_heap (w_sessions w) sa;
         (p, alive, s, pr, sh) \<leftarrow> deoptimize_payload e t lip sip ip oh (p, True, s, pr, w_dicts w);
         Some (p, alive, pr, set_session sa s w\<lparr>w_dicts := sh\<rparr>) }
       else Some (p, True, pr, w)) = Some z"
    using rest by (auto simp: bind_eq_Some_conv)
  obtain p1 alive pr1 w1 where z': "z = (p1, alive, pr1, w1)" by (cases z) auto
  have 1: "pr_queue pr1 = pr_queue pr" "w_mm w1 = w_mm w" "w_verdicts w1 = w_verdicts w"
    using z z' deoptimize_payload_queue by (auto simp: bind_eq_Some_conv split: if_splits)
  note rest2 = rest [unfolded z z' Option.bind.simps prod.case]
  show ?thesis
  proof (cases alive)
    case True
    obtain w2 p2 w3 d where 2: "end_of_session t p1 sa w1 = Some w2" "write_back a p2 w2 = Some w3"
      "give_back a (Accepted (pkt_hq pk) (pkt_id pk) (Some d)) w3 = Some w'" "pr_queue pr' = pr_queue pr1"
      using rest2 True by (auto simp: bind_eq_Some_conv)
    have "returned a (Accepted (pkt_hq pk) (pkt_id pk) (Some d)) w w'"
      by (rule returned_last [OF pk _ _ _ 2(3)])
        (use end_of_session_frame [OF 2(1)] write_backD [OF 2(2)] 1 in simp_all)
    then show ?thesis using 1 2 by auto
  next
    case False
    obtain w2 w3 where 2: "give_back a (Dropped (pkt_hq pk) (pkt_id pk)) w1 = Some w2" "end_of_session t p1 sa w2 = Some w3"
      "write_back a p1 w3 = Some w'" "pr' = pr1"
      using rest2 False by (auto simp: bind_eq_Some_conv)
    have "returned a (Dropped (pkt_hq pk) (pkt_id pk)) w w'"
      by (rule returned_first [OF pk _ 1(2,3) 2(1)])
        (use end_of_session_frame [OF 2(2)] write_backD [OF 2(3)] in simp_all)
    then show ?thesis using 1 2 by auto
  qed
qed

lemma deoptimize_one_returned:
  assumes r: "deoptimize_one e a (pr, n, w) = Some (b, pr', n', w')"
  shows "(\<exists>v. returned a v w w') \<and> pr_queue pr' = pr_queue pr"
proof -
  obtain pk t hb tot z where i: "mm_heap (w_mm w) a = Some pk" "ip_ihl4 (pkt_data pk) = Some t"
    "getIPPlusTCPHeaderLength (pkt_data pk) = Some hb" "ip_tot_len (pkt_data pk) = Some tot" "strip_header t (pkt_data pk) = Some z"
    using r by (auto simp: deoptimize_one_def bind_eq_Some_conv Let_def)
  note rest = r [unfolded deoptimize_one_def prod.case i Option.bind.simps Let_def]
  show ?thesis
  proof (cases z)
    case None
    then have "give_back a (Dropped (pkt_hq pk) (pkt_id pk)) w = Some w'" "pr_queue pr' = pr_queue pr"
      using rest by (auto simp: bind_eq_Some_conv)
    then show ?thesis using returned_last [OF i(1) _ data_changed_refl [OF i(1)] refl, of "Dropped (pkt_hq pk) (pkt_id pk)" w'] by auto
  next
    case (Some y)
    obtain oh p where y: "y = (oh, p)" by (cases y)
    obtain key x pr0 pr1 where c: "(case x of Some sa \<Rightarrow> deoptimize_found e t hb key a sa pk oh p (pr0, w)
          | None \<Rightarrow> deoptimize_unknown hb a pk p (pr0, w)) = Some (pr1, w')" "pr_queue pr0 = pr_queue pr" "pr_queue pr' = pr_queue pr1"
      using rest Some y by (auto simp: bind_eq_Some_conv check_seqNo_def split: prod.splits if_splits)
    show ?thesis
    proof (cases x)
      case None
      then obtain w1 where "write_back a p w = Some w1" "give_back a (Accepted (pkt_hq pk) (pkt_id pk) None) w1 = Some w'"
        "pr_queue pr1 = pr_queue pr0"
        using c by (auto simp: deoptimize_unknown_def bind_eq_Some_conv Let_def)
      then show ?thesis using returned_last [OF i(1)] write_backD c(2,3) by (metis verdict_ticket.simps(1))
    next
      case (Some sa)
      then show ?thesis using deoptimize_found_returned [OF i(1)] c by auto
    qed
  qed
qed

section \<open>Steps\<close>

text \<open>The packets that have a verdict or are queued.\<close>

definition accounted :: "verdict list \<Rightarrow> packet_heap \<Rightarrow> (place \<Rightarrow> addr list) \<Rightarrow> ticket multiset" where
  "accounted vs h L = image_mset verdict_ticket (mset vs) + in_flight h L"

text \<open>A worker takes the first packet of its queue and returns it.\<close>

lemma round_flow:
  assumes ok: "buffers_ok P (mm_heap (w_mm w)) Q L" and P: "Pool \<in> P" "x \<in> P" "x \<noteq> Pool" "Q Pool = freepacketbuffers (w_mm w)"
    and L: "L x = a # as" and d: "dequeue_packet (\<lambda>y. y) True (Q x) (mm_heap (w_mm w)) = Some (b, q, h)"
    and r: "returned a v (w\<lparr>w_mm := (w_mm w)\<lparr>mm_heap := h\<rparr>\<rparr>) w'" and room: "card (dom (mm_heap (w_mm w))) + 1 < 2 ^ 32"
  shows "\<exists>L'. buffers_ok P (mm_heap (w_mm w')) (Q(x := q, Pool := freepacketbuffers (w_mm w'))) L' \<and>
    accounted (w_verdicts w') (mm_heap (w_mm w')) L' = accounted (w_verdicts w) (mm_heap (w_mm w)) L"
proof -
  let ?w = "w\<lparr>w_mm := (w_mm w)\<lparr>mm_heap := h\<rparr>\<rparr>" and ?L = "L(x := as)"
  have h: "buffers_ok P h (Q(x := q)) ?L" "same_payload (mm_heap (w_mm w)) h" "spare h ?L a"
    using take_buffer_place [OF ok P(2) L, of "\<lambda>y. y" True] d by auto
  have "card (dom h) + 1 < 2 ^ 32" using room dom_same_payload [OF h(2)] by simp
  from returned_ok [OF r _ P(1), of "Q(x := q)" ?L] h this P(3,4)
  have w': "buffers_ok P (mm_heap (w_mm w')) (Q(x := q, Pool := freepacketbuffers (w_mm w'))) (?L(Pool := ?L Pool @ [a]))"
    "in_flight (mm_heap (w_mm w')) ?L = in_flight h ?L" by simp_all
  have v: "w_verdicts w' = w_verdicts w @ [v]" "verdict_ticket v = ticket_at h a" using r by (simp_all add: returned_def)
  have "in_flight (mm_heap (w_mm w)) L = in_flight h L" by (rule in_flight_same_payload [OF h(2), symmetric])
  also have "\<dots> = add_mset (ticket_at h a) (in_flight h ?L)"
  proof -
    have "ticket_at h a = ticket_at (mm_heap (w_mm w)) a" using h(2) by (intro ticket_at_payload) (simp add: same_payload_def)
    then show ?thesis using in_flight_take [OF ok P(2,3) L] in_flight_same_payload [OF h(2)] by simp
  qed
  finally have "accounted (w_verdicts w') (mm_heap (w_mm w')) (?L(Pool := ?L Pool @ [a])) = accounted (w_verdicts w) (mm_heap (w_mm w)) L"
    using w'(2) v by (simp add: accounted_def)
  then show ?thesis using w'(1) by blast
qed

lemma optimization_round_flow:
  assumes ok: "buffers_ok P (mm_heap (w_mm w)) Q L" and P: "Pool \<in> P" "x \<in> P" "x \<noteq> Pool" "Q Pool = freepacketbuffers (w_mm w)"
    "Q x = pr_queue pr" and room: "card (dom (mm_heap (w_mm w))) + 1 < 2 ^ 32"
    and r: "optimization_round e (\<lambda>y. y) (pr, l, w) = Some (pr', l', w')"
  shows "\<exists>L'. buffers_ok P (mm_heap (w_mm w')) (Q(x := pr_queue pr', Pool := freepacketbuffers (w_mm w'))) L' \<and>
    accounted (w_verdicts w') (mm_heap (w_mm w')) L' = accounted (w_verdicts w) (mm_heap (w_mm w)) L"
proof -
  obtain y where y: "dequeue_packet (\<lambda>y. y) True (pr_queue pr) (mm_heap (w_mm w)) = Some y"
    using r by (auto simp: optimization_round_def bind_eq_Some_conv)
  obtain b q h where y': "y = (b, q, h)" by (cases y)
  note rest = r [unfolded optimization_round_def prod.case y y' Option.bind.simps Let_def]
  show ?thesis
  proof (cases "L x")
    case Nil
    then have e: "b = None" "q = pr_queue pr" "h = mm_heap (w_mm w)"
      using take_empty_place [OF ok P(2) Nil, of True] y y' P(5) by simp_all
    then have "pr' = pr" "w' = w" using rest by (auto split: if_splits)
    moreover have "Q(x := pr_queue pr, Pool := freepacketbuffers (w_mm w)) = Q" using P by auto
    ultimately show ?thesis using ok by auto
  next
    case (Cons a as)
    then have b: "b = Some a" using take_buffer_place [OF ok P(2) Cons, of "\<lambda>y. y" True] y y' P(5) by auto
    let ?w = "w\<lparr>w_mm := (w_mm w)\<lparr>mm_heap := h\<rparr>\<rparr>"
    obtain v where v: "returned a v ?w w'" "pr_queue pr' = q"
    proof (cases "e_compression e \<or> e_deduplication e \<or> e_packetPipeline e")
      case True
      then have "optimize_one e a (pr\<lparr>pr_queue := q\<rparr>, l, ?w) = Some (pr', l', w')" using rest b by simp
      from optimize_one_returned [OF this] show thesis using that by auto
    next
      case False
      then obtain pk where pk: "h a = Some pk" "give_back a (Accepted (pkt_hq pk) (pkt_id pk) None) ?w = Some w'" "pr' = pr\<lparr>pr_queue := q\<rparr>"
        using rest b by (auto simp: bind_eq_Some_conv)
      have m: "mm_heap (w_mm ?w) a = Some pk" using pk by simp
      show thesis using that returned_last [OF m _ data_changed_refl [OF m] refl pk(2)] pk(3) by simp
    qed
    have d: "dequeue_packet (\<lambda>y. y) True (Q x) (mm_heap (w_mm w)) = Some (b, q, h)" using y y' P(5) by simp
    show ?thesis using round_flow [OF ok P(1-4) Cons d v(1) room] v(2) by simp
  qed
qed

lemma deoptimization_round_flow:
  assumes ok: "buffers_ok P (mm_heap (w_mm w)) Q L" and P: "Pool \<in> P" "x \<in> P" "x \<noteq> Pool" "Q Pool = freepacketbuffers (w_mm w)"
    "Q x = pr_queue pr" and room: "card (dom (mm_heap (w_mm w))) + 1 < 2 ^ 32"
    and r: "deoptimization_round e (\<lambda>y. y) (pr, n, w) = Some (go, pr', n', w')"
  shows "\<exists>L'. buffers_ok P (mm_heap (w_mm w')) (Q(x := pr_queue pr', Pool := freepacketbuffers (w_mm w'))) L' \<and>
    accounted (w_verdicts w') (mm_heap (w_mm w')) L' = accounted (w_verdicts w) (mm_heap (w_mm w)) L"
proof -
  obtain y where y: "dequeue_packet (\<lambda>y. y) True (pr_queue pr) (mm_heap (w_mm w)) = Some y"
    using r by (auto simp: deoptimization_round_def bind_eq_Some_conv)
  obtain b q h where y': "y = (b, q, h)" by (cases y)
  note rest = r [unfolded deoptimization_round_def prod.case y y' Option.bind.simps Let_def]
  show ?thesis
  proof (cases "L x")
    case Nil
    then have e: "b = None" "q = pr_queue pr" "h = mm_heap (w_mm w)"
      using take_empty_place [OF ok P(2) Nil, of True] y y' P(5) by simp_all
    then have "pr' = pr" "w' = w" using rest by auto
    moreover have "Q(x := pr_queue pr, Pool := freepacketbuffers (w_mm w)) = Q" using P by auto
    ultimately show ?thesis using ok by auto
  next
    case (Cons a as)
    then have b: "b = Some a" using take_buffer_place [OF ok P(2) Cons, of "\<lambda>y. y" True] y y' P(5) by auto
    have "deoptimize_one e a (pr\<lparr>pr_queue := q\<rparr>, n, w\<lparr>w_mm := (w_mm w)\<lparr>mm_heap := h\<rparr>\<rparr>) = Some (go, pr', n', w')"
      using rest b by simp
    from deoptimize_one_returned [OF this] obtain v where v: "returned a v (w\<lparr>w_mm := (w_mm w)\<lparr>mm_heap := h\<rparr>\<rparr>) w'" "pr_queue pr' = q"
      by auto
    have d: "dequeue_packet (\<lambda>y. y) True (Q x) (mm_heap (w_mm w)) = Some (b, q, h)" using y y' P(5) by simp
    show ?thesis using round_flow [OF ok P(1-4) Cons d v(1) room] v(2) by simp
  qed
qed

section \<open>The fetcher\<close>

definition places :: "nat \<Rightarrow> place set" where
  "places n = {Pool} \<union> Opt ` {..<n} \<union> Deopt ` {..<n}"

fun heads_of :: "mm_state \<Rightarrow> worker list \<Rightarrow> place \<Rightarrow> list_head" where
  "heads_of mm ws Pool = freepacketbuffers mm"
| "heads_of mm ws (Opt i) = pr_queue (optimization (ws ! i))"
| "heads_of mm ws (Deopt i) = pr_queue (deoptimization (ws ! i))"

lemma places_simps [simp]: "Pool \<in> places n" "Opt i \<in> places n \<longleftrightarrow> i < n" "Deopt i \<in> places n \<longleftrightarrow> i < n"
  by (auto simp: places_def)

text \<open>The queues of the workers and the pool, as the fetcher sees them.\<close>

definition flow_ok :: "f_state \<Rightarrow> (place \<Rightarrow> addr list) \<Rightarrow> bool" where
  "flow_ok s L \<longleftrightarrow> buffers_ok (places (length (f_workers s))) (mm_heap (f_mm s)) (heads_of (f_mm s) (f_workers s)) L"

text \<open>Handing a buffer to the worker \<open>i\<close>: the two functions differ in the queue only.\<close>

definition hand_over :: "bool \<Rightarrow> u8 \<Rightarrow> addr \<Rightarrow> worker list \<times> packet_heap \<Rightarrow> (int \<times> worker list \<times> packet_heap) option" where
  "hand_over optimize queue a = (if optimize then optimize_packet queue (Some a) else deoptimize_packet queue (Some a))"

definition handed_to :: "bool \<Rightarrow> u8 \<Rightarrow> place" where
  "handed_to optimize queue = (if optimize then Opt (unat queue) else Deopt (unat queue))"

lemma hand_over_flow:
  assumes ok: "buffers_ok (places (length ws)) h Q L" and Q: "\<And>x. x \<noteq> Pool \<Longrightarrow> Q x = heads_of mm ws x"
    and a: "spare h L a" and room: "card (dom h) + 1 < 2 ^ 32" and r: "hand_over b q a (ws, h) = Some (n, ws', h')"
  shows "buffers_ok (places (length ws')) h' (\<lambda>x. if x = Pool then Q Pool else heads_of mm ws' x)
      (L(handed_to b q := L (handed_to b q) @ [a]))" (is "buffers_ok _ _ ?Q' _")
    and "same_payload h h'" and "length ws' = length ws" and "unat q < length ws"
proof -
  let ?x = "handed_to b q"
  show q: "unat q < length ws" using r by (auto simp: hand_over_def optimize_packet_def deoptimize_packet_def bind_eq_Some_conv split: if_splits)
  then have x: "?x \<in> places (length ws)" "?x \<noteq> Pool" by (auto simp: handed_to_def)
  obtain q' h1 where put: "queue_packet (Q ?x) (Some a) h = Some (0, q', h1)"
    "buffers_ok (places (length ws)) h1 (Q(?x := q')) (L(?x := L ?x @ [a]))" "same_payload h h1"
    using put_buffer [OF ok x(1) a room] by blast
  have e: "h' = h1" "length ws' = length ws" "?Q' y = (Q(?x := q')) y" if "y \<in> places (length ws)" for y
  proof -
    let ?k = "ws ! unat q"
    have ws': "h' = h1 \<and> ws' = ws[unat q := if b then ?k\<lparr>optimization := (optimization ?k)\<lparr>pr_queue := q'\<rparr>\<rparr>
        else ?k\<lparr>deoptimization := (deoptimization ?k)\<lparr>pr_queue := q'\<rparr>\<rparr>]"
      using r put(1) q Q [OF x(2)] by (cases b) (auto simp: hand_over_def handed_to_def optimize_packet_def deoptimize_packet_def Let_def)
    then show "h' = h1" "length ws' = length ws" by simp_all
    show "?Q' y = (Q(?x := q')) y"
      using ws' q Q [of y] that by (cases y; cases b) (simp_all add: handed_to_def nth_list_update)
  qed
  note e = e [OF places_simps(1)] e(3)
  show "length ws' = length ws" by (rule e(2))
  show "same_payload h h'" using put(3) e(1) by simp
  show "buffers_ok (places (length ws')) h' ?Q' (L(?x := L ?x @ [a]))"
    unfolding e(1,2) by (rule iffD2 [OF buffers_ok_cong put(2)]) (rule e(4))
qed

lemma enqueue_for_flow:
  assumes ok: "flow_ok s L" and e: "fe_others e = (\<lambda>x. x)" "fresh_buffers (fe_alloc e)"
    and room: "card (dom (mm_heap (f_mm s))) + 2 < 2 ^ 32" and r: "enqueue_for e opt q fp s = Some (b, s')"
  shows "\<exists>L'. b \<and> flow_ok s' L' \<and> unat q < length (f_workers s) \<and>
    in_flight (mm_heap (f_mm s')) L' = add_mset (fp_hq fp, fp_id fp) (in_flight (mm_heap (f_mm s)) L) \<and>
    (\<exists>a pk as. mm_heap (f_mm s') a = Some pk \<and> pkt_hq pk = fp_hq fp \<and> pkt_id pk = fp_id fp \<and> take (fp_ret fp) (pkt_data pk) = take (fp_ret fp) (fp_data fp) \<and>
       L' = L(Pool := as, handed_to opt q := L (handed_to opt q) @ [a]))"
proof -
  let ?n = "length (f_workers s)" and ?x = "handed_to opt q"
  obtain y where y: "get_freepacket_buffer (fe_alloc e) (\<lambda>x. x) (f_mm s) = Some y"
    using r e(1) by (auto simp: enqueue_for_def bind_eq_Some_conv)
  obtain c mm where y': "y = (c, mm)" by (cases y)
  note ok' = ok [unfolded flow_ok_def]
  obtain a as where a: "c = Some a" "mm_heap mm a = Some zero_packet"
    "buffers_ok (places ?n) (mm_heap mm) ((heads_of (f_mm s) (f_workers s))(Pool := freepacketbuffers mm)) (L(Pool := as))"
    "spare (mm_heap mm) (L(Pool := as)) a"
    "\<forall>c. c \<in> dom (mm_heap (f_mm s)) - {a} \<longrightarrow> map_option payload (mm_heap mm c) = map_option payload (mm_heap (f_mm s) c)"
    "dom (mm_heap mm) = insert a (dom (mm_heap (f_mm s)))"
    using get_buffer [OF ok' _ _ e(2) y [unfolded y']] by auto
  obtain z where z: "save_packet a (fp_hq fp) (fp_id fp) (fp_ret fp) (fp_data fp) (mm_heap mm) = Some z"
    using r y y' a(1) e(1) by (auto simp: enqueue_for_def bind_eq_Some_conv)
  obtain d where d: "memcpy (pkt_data zero_packet) 0 (fp_data fp) 0 (fp_ret fp) = Some d"
    "z = (0, (mm_heap mm)(a \<mapsto> zero_packet\<lparr>pkt_hq := fp_hq fp, pkt_id := fp_id fp, pkt_data := d\<rparr>))"
    using z a(2) by (auto simp: save_packet_def bind_eq_Some_conv)
  let ?p = "zero_packet\<lparr>pkt_hq := fp_hq fp, pkt_id := fp_id fp, pkt_data := d\<rparr>"
  let ?h = "(mm_heap mm)(a \<mapsto> ?p)"
  have na: "\<forall>x. a \<notin> set ((L(Pool := as)) x)" using a(4) by (simp add: spare_def)
  have h: "buffers_ok (places ?n) ?h ((heads_of (f_mm s) (f_workers s))(Pool := freepacketbuffers mm)) (L(Pool := as))"
    by (rule buffers_ok_write(1) [OF a(3) na])
  have sp: "spare ?h (L(Pool := as)) a" by (rule buffers_ok_write(2) [OF a(3) na]) (simp add: zero_packet_def)
  have hand: "hand_over opt q a (f_workers s, ?h) \<bind> (\<lambda>(r, ws, h). Some (True, s\<lparr>f_mm := mm\<lparr>mm_heap := h\<rparr>, f_workers := ws\<rparr>)) = Some (b, s')"
    using r y y' a(1) z d(2) e(1) by (cases opt) (simp_all add: enqueue_for_def hand_over_def)
  then obtain n ws h' where w: "hand_over opt q a (f_workers s, ?h) = Some (n, ws, h')"
    "b" "s' = s\<lparr>f_mm := mm\<lparr>mm_heap := h'\<rparr>, f_workers := ws\<rparr>" by (auto simp: bind_eq_Some_conv)
  have "card (dom ?h) \<le> card (dom (mm_heap (f_mm s))) + 1" using a(6) ok' card_insert_le_m1
    by (simp add: buffers_ok_def insert_absorb card_insert_if)
  then have cr: "card (dom ?h) + 1 < 2 ^ 32" using room by simp
  note f = hand_over_flow [OF h _ sp cr w(1), where mm = "f_mm s"]
  have L': "(L(Pool := as))(?x := (L(Pool := as)) ?x @ [a]) = L(Pool := as, ?x := L ?x @ [a])" by (auto simp: handed_to_def)
  let ?L = "L(Pool := as, ?x := L ?x @ [a])"
  have fl: "buffers_ok (places (length ws)) h' (\<lambda>x. if x = Pool then freepacketbuffers mm else heads_of (f_mm s) ws x) ?L"
    "same_payload ?h h'" using f unfolding L' fun_upd_same by simp_all
  have "heads_of (mm\<lparr>mm_heap := h'\<rparr>) ws x = (if x = Pool then freepacketbuffers mm else heads_of (f_mm s) ws x)" for x
    by (cases x) simp_all
  then have "buffers_ok (places (length ws)) h' (heads_of (mm\<lparr>mm_heap := h'\<rparr>) ws) ?L"
    by (rule iffD2 [OF buffers_ok_cong fl(1)])
  then have "flow_ok s' ?L" unfolding flow_ok_def w(3) by simp
  moreover have "in_flight h' ?L = add_mset (fp_hq fp, fp_id fp) (in_flight (mm_heap (f_mm s)) L)"
  proof -
    have "in_flight h' ?L = in_flight ?h ?L" by (rule in_flight_same_payload [OF fl(2)])
    also have "\<dots> = add_mset (ticket_at ?h a) (in_flight ?h (L(Pool := as)))"
      unfolding L' [symmetric] by (rule in_flight_put [OF finite_queued [OF h] na]) (simp add: handed_to_def)
    also have "in_flight ?h (L(Pool := as)) = in_flight ?h L" by simp
    also have "\<dots> = in_flight (mm_heap (f_mm s)) L"
    proof (rule in_flight_cong)
      fix c assume c: "c \<in> queued L"
      then have "c \<noteq> a" using na by (auto simp: queued_def split: if_splits)
      moreover have "c \<in> dom (mm_heap (f_mm s))" using c buffers_ok_dom [OF ok'] by (auto simp: queued_def)
      ultimately show "ticket_at ?h c = ticket_at (mm_heap (f_mm s)) c" using a(5) by (intro ticket_at_payload) simp
    qed
    also have "ticket_at ?h a = (fp_hq fp, fp_id fp)" by (simp add: ticket_at_def)
    finally show ?thesis .
  qed
  moreover have "\<exists>pk. h' a = Some pk \<and> pkt_hq pk = fp_hq fp \<and> pkt_id pk = fp_id fp \<and> take (fp_ret fp) (pkt_data pk) = take (fp_ret fp) (fp_data fp)"
  proof -
    have "map_option payload (h' a) = Some (payload ?p)" using fl(2) by (simp add: same_payload_def)
    then obtain pk where "h' a = Some pk" "pkt_data pk = d" "pkt_hq pk = fp_hq fp" "pkt_id pk = fp_id fp" by (auto simp: payload_def)
    moreover have "take (fp_ret fp) d = take (fp_ret fp) (fp_data fp)"
      using d(1) by (auto simp: memcpy_def load_bytes_def store_bytes_def bind_eq_Some_conv split: if_splits)
    ultimately show ?thesis by auto
  qed
  ultimately show ?thesis using w f(4) by auto
qed

lemma enqueue_for_frame:
  assumes "enqueue_for e opt q fp s = Some (b, s')"
  shows "f_verdicts s' = f_verdicts s" and "length (f_workers s') = length (f_workers s)"
  using assms by (auto simp: enqueue_for_def optimize_packet_def deoptimize_packet_def Let_def bind_eq_Some_conv split: option.splits prod.splits if_splits)

text \<open>What a branch of the callback does with the packet: a verdict, or a place in the queue of a worker.\<close>

definition same_flow :: "f_state \<Rightarrow> f_state \<Rightarrow> bool" where
  "same_flow s s' \<longleftrightarrow> f_mm s' = f_mm s \<and> f_workers s' = f_workers s \<and> f_verdicts s' = f_verdicts s"

lemma same_flow_simps [simp]:
  "same_flow s (count_packet s)" "same_flow s (put_session a x s)" "same_flow s (s\<lparr>f_sessions := st\<rparr>)" "same_flow s (s\<lparr>f_metrics := m\<rparr>)"
  "same_flow s s"
  by (simp_all add: same_flow_def count_packet_def put_session_def)

lemma same_flow_trans: "same_flow s t \<Longrightarrow> same_flow t u \<Longrightarrow> same_flow s u"
  by (simp add: same_flow_def)

definition decided :: "f_packet \<Rightarrow> f_state \<Rightarrow> f_state \<Rightarrow> bool" where
  "decided fp s s' \<longleftrightarrow> (\<exists>v. f_mm s' = f_mm s \<and> f_workers s' = f_workers s \<and> f_verdicts s' = f_verdicts s @ [v] \<and>
     verdict_ticket v = (fp_hq fp, fp_id fp))"

definition delegated :: "f_env \<Rightarrow> f_packet \<Rightarrow> f_state \<Rightarrow> f_state \<Rightarrow> bool" where
  "delegated e fp s s' \<longleftrightarrow> (\<exists>opt q b s1 s2. same_flow s s1 \<and> enqueue_for e opt q fp s1 = Some (b, s2) \<and> same_flow s2 s')"

lemma accept_packet_decided: "accept_packet fp p s1 = Some s' \<Longrightarrow> same_flow s s1 \<Longrightarrow> decided fp s s'"
  by (auto simp: accept_packet_def add_verdict_def decided_def same_flow_def bind_eq_Some_conv)

lemma add_verdict_decided: "verdict_ticket v = (fp_hq fp, fp_id fp) \<Longrightarrow> same_flow s s1 \<Longrightarrow> decided fp s (add_verdict v s1)"
  by (auto simp: add_verdict_def decided_def same_flow_def)

lemma fetch_known_flow: "fetch_known e fp i a s = Some s' \<Longrightarrow> decided fp s s' \<or> delegated e fp s s'"
proof -
  assume r: "fetch_known e fp i a s = Some s'"
  obtain x v where x: "st_heap (f_sessions s) a = Some x" "get_tcp_option (fp_data fp) 32 = Some v"
    using r by (auto simp: fetch_known_def Let_def bind_eq_Some_conv)
  let ?s = "put_session a (x\<lparr>lastactive := fe_time e, deadcounter := 0\<rparr>) s"
  show ?thesis
  proof (cases "v = 2")
    case True
    then have "s' = add_verdict (Dropped (fp_hq fp) (fp_id fp)) ?s" using r x by (simp add: fetch_known_def Let_def)
    then show ?thesis using add_verdict_decided by simp
  next
    case False
    then obtain b s2 where "enqueue_for e (i = 0) (s_queue x) fp ?s = Some (b, s2)" "s' = count_packet s2"
      using r x by (auto simp: fetch_known_def Let_def bind_eq_Some_conv)
    then show ?thesis unfolding delegated_def using same_flow_simps by blast
  qed
qed

lemma fetch_syn_flow: "fetch_syn e fp t key i q f x s = Some s' \<Longrightarrow> decided fp s s'"
proof -
  assume r: "fetch_syn e fp t key i q f x s = Some s'"
  obtain y where y: "(case x of
         None \<Rightarrow> insertsession (fe_salloc e) key (if i \<noteq> 0 then int (unat q) else -1) (f_sessions s)
       | Some a \<Rightarrow> Some (Some a, f_sessions s)) = Some y"
    using r unfolding fetch_syn_def Let_def by (auto simp: bind_eq_Some_conv)
  obtain ts st where y': "y = (ts, st)" by (cases y)
  note rest = r [unfolded fetch_syn_def Let_def y y' Option.bind.simps prod.case]
  obtain p s1 where "accept_packet fp p (count_packet s1) = Some s'" "same_flow (s\<lparr>f_sessions := st\<rparr>) s1"
  proof (cases ts)
    case None
    then show thesis using rest that by simp
  next
    case (Some a)
    obtain lip lport sip sport where k: "key = (lip, lport, sip, sport)" by (cases key)
    obtain z where z: "st_heap st a = Some z" using rest Some k by (auto simp: bind_eq_Some_conv)
    obtain ip th where h: "ip_addrs (fp_data fp) = Some ip" "tcp_hdr (fp_data fp) t = Some th"
      using rest Some k z by (auto simp: bind_eq_Some_conv)
    obtain r1 z1 where z1: "sourceisclient lip (Some ip) (Some (z\<lparr>lastactive := fe_time e\<rparr>)) (\<not> bit f TH_ACK) = Some (r1, z1)"
      using rest Some k z h by (auto simp: bind_eq_Some_conv)
    obtain r2 z2 where z2: "updateseq lip (Some ip) (Some th) z1 = (r2, z2)" by (cases "updateseq lip (Some ip) (Some th) z1")
    note rest2 = rest [unfolded Some k z h z1 z2 Option.bind.simps option.case prod.case]
    obtain z3 where z3: "snd (updateseqnumber lip (Some ip) (Some th) z2) = Some z3" using rest2 by (auto simp only: bind_eq_Some_conv)
    obtain y where y: "(if i = 0 then syn_from_client e t lip ip (fp_data fp) z3
        else syn_from_remote t lip i ip (fp_data fp) z3) = Some y" using rest2 [unfolded z3 Option.bind.simps] by (auto simp only: bind_eq_Some_conv)
    obtain p' z4 where y': "y = (p', z4)" by (cases y)
    show thesis by (rule that [OF rest2 [unfolded z3 y y' Option.bind.simps prod.case]]) simp
  qed
  then show ?thesis using accept_packet_decided same_flow_trans same_flow_simps by meson
qed

lemma fetch_unknown_flow: "fetch_unknown e fp t key i q f s = Some s' \<Longrightarrow> decided fp s s' \<or> delegated e fp s s'"
proof -
  assume r: "fetch_unknown e fp t key i q f s = Some s'"
  show ?thesis
  proof (cases "bit f TH_ACK \<and> i \<noteq> 0")
    case False
    then have "accept_packet fp (fp_data fp) (count_packet s) = Some s'" using r by (auto simp: fetch_unknown_def)
    then show ?thesis using accept_packet_decided same_flow_simps(1) by blast
  next
    case True
    obtain y where y: "insertsession (fe_salloc e) key (int (unat q)) (f_sessions s) = Some y"
      using r True by (auto simp: fetch_unknown_def bind_eq_Some_conv)
    obtain ts st where y': "y = (ts, st)" by (cases y)
    note rest = r [unfolded fetch_unknown_def Let_def y y' Option.bind.simps prod.case]
    show ?thesis
    proof (cases ts)
      case None
      then have "accept_packet fp (fp_data fp) (count_packet (s\<lparr>f_sessions := st\<rparr>)) = Some s'" using rest True by simp
      then show ?thesis using accept_packet_decided same_flow_trans same_flow_simps by meson
    next
      case (Some a)
      obtain lip lport sip sport where k: "key = (lip, lport, sip, sport)" by (cases key)
      obtain x z b s2 where "enqueue_for e False (s_queue x) fp (put_session a x (s\<lparr>f_sessions := st\<rparr>)) = Some (b, s2)"
        "s' = count_packet (if b then put_session a z s2 else s2)"
        using rest True Some k by (auto simp: bind_eq_Some_conv)
      moreover have "same_flow s (put_session a x (s\<lparr>f_sessions := st\<rparr>))" "same_flow s2 (count_packet (if b then put_session a z s2 else s2))"
        using same_flow_trans same_flow_simps by (simp_all add: same_flow_def count_packet_def put_session_def)
      ultimately show ?thesis unfolding delegated_def by blast
    qed
  qed
qed

lemma fetcher_callback_flow: "fetcher_callback e fp s = Some s' \<Longrightarrow> decided fp s s' \<or> delegated e fp s s'"
proof (erule fetcher_callback_cases)
  fix v m
  assume "s' = add_verdict v (s\<lparr>f_metrics := m\<rparr>)" "v = Dropped (fp_hq fp) (fp_id fp) \<or> v = Accepted (fp_hq fp) (fp_id fp) None"
  then show ?thesis using add_verdict_decided [of v fp s "s\<lparr>f_metrics := m\<rparr>"] by auto
next
  have move: "decided fp (s\<lparr>f_metrics := m\<rparr>) s' \<or> delegated e fp (s\<lparr>f_metrics := m\<rparr>) s' \<Longrightarrow> decided fp s s' \<or> delegated e fp s s'" for m
    by (auto simp: decided_def delegated_def same_flow_def)
  show "fetch_syn e fp t key i q f x (s\<lparr>f_metrics := m\<rparr>) = Some s' \<Longrightarrow> ?thesis" for t key i q f x m
    using move fetch_syn_flow by blast
  show "fetch_known e fp i a (s\<lparr>f_metrics := m\<rparr>) = Some s' \<Longrightarrow> ?thesis" for a i m
    using move fetch_known_flow by blast
  show "fetch_unknown e fp t key i q f (s\<lparr>f_metrics := m\<rparr>) = Some s' \<Longrightarrow> ?thesis" for t key i q f m
    using move fetch_unknown_flow by blast
qed

lemma fetcher_callback_accounted:
  assumes ok: "flow_ok s L" and e: "fe_others e = (\<lambda>x. x)" "fresh_buffers (fe_alloc e)"
    and room: "card (dom (mm_heap (f_mm s))) + 2 < 2 ^ 32" and r: "fetcher_callback e fp s = Some s'"
  shows "\<exists>L'. flow_ok s' L' \<and> length (f_workers s') = length (f_workers s) \<and> accounted (f_verdicts s') (mm_heap (f_mm s')) L' =
    add_mset (fp_hq fp, fp_id fp) (accounted (f_verdicts s) (mm_heap (f_mm s)) L)"
  using fetcher_callback_flow [OF r]
proof
  assume "decided fp s s'"
  then show ?thesis using ok by (auto simp: decided_def flow_ok_def accounted_def)
next
  assume "delegated e fp s s'"
  then obtain opt q b s1 s2 where d: "same_flow s s1" "enqueue_for e opt q fp s1 = Some (b, s2)" "same_flow s2 s'"
    by (auto simp: delegated_def)
  have 1: "flow_ok s1 L" "card (dom (mm_heap (f_mm s1))) + 2 < 2 ^ 32" using d(1) ok room by (simp_all add: same_flow_def flow_ok_def)
  obtain L' where L': "flow_ok s2 L'"
    "in_flight (mm_heap (f_mm s2)) L' = add_mset (fp_hq fp, fp_id fp) (in_flight (mm_heap (f_mm s1)) L)"
    using enqueue_for_flow [OF 1(1) e 1(2) d(2)] by blast
  moreover have "f_verdicts s2 = f_verdicts s1" "length (f_workers s2) = length (f_workers s1)" using enqueue_for_frame [OF d(2)] by simp_all
  ultimately show ?thesis using d(1,3) by (intro exI [of _ L']) (simp add: same_flow_def flow_ok_def accounted_def)
qed

section \<open>The memory manager\<close>

lemma memorymanager_iter_flow:
  assumes ok: "buffers_ok P (mm_heap mm) Q L" and P: "Pool \<in> P" "Q Pool = freepacketbuffers mm" and st: "hd_qlen staging = 0"
    and N: "alloc_ok N alloc" "card (dom (mm_heap mm)) + packetbufferstoallocate \<le> N" "N < 2 ^ 32"
  shows "\<exists>staging' mm' as. memorymanager_iter alloc (\<lambda>x. x) (staging, mm) = Some (staging', mm') \<and> hd_qlen staging' = 0 \<and>
    buffers_ok P (mm_heap mm') (Q(Pool := freepacketbuffers mm')) (L(Pool := L Pool @ as)) \<and>
    in_flight (mm_heap mm') L = in_flight (mm_heap mm) L"
proof -
  let ?h = "mm_heap mm" and ?n = packetbufferstoallocate
  have n: "?n < 2 ^ 32" "0 < ?n" by (simp_all add: packetbufferstoallocate_def)
  have stg: "stageable ?h staging []" using st by (simp add: stageable_def)
  have fin: "finite (dom ?h)" using ok by (simp add: buffers_ok_def)
  obtain q h as where al: "allocatefreepacketbuffers alloc ?n (staging, ?h) = Some (q, h)" "stageable h q as"
    "length as = ?n" "set as \<inter> dom ?h = {}" "dom h = dom ?h \<union> set as" "distinct as" "\<forall>b\<in>dom ?h. h b = ?h b"
    using allocatefreepacketbuffers_ok [OF stg fin N(2,1) n(1)] by blast
  have src: "queue_rep h q as" using al(2,3) n(2) by (auto simp: stageable_def split: if_splits)
  have ok1: "buffers_ok P h Q L"
  proof -
    have "queue_rep h (Q x) (L x)" if "x \<in> P" for x
      using queue_rep_agree [OF _ al(7), of "Q x" "L x"] ok that by (simp add: buffers_ok_def)
    then show ?thesis using ok fin al(5) by (simp add: buffers_ok_def)
  qed
  have disj: "set as \<inter> set (L x) = {}" for x using al(4) buffers_ok_dom [OF ok, of x] by blast
  have pool: "queue_rep h (freepacketbuffers mm) (L Pool)" using ok1 P by (simp add: buffers_ok_def flip: P(2))
  have len: "length (L Pool) + length as < 2 ^ 32" using buffers_ok_length [OF ok, of Pool] al(3) N(2,3) by simp
  have ne: "as \<noteq> [] \<or> L Pool = []" using al(3) n(2) by auto
  obtain q' r' h' where mv: "move_queued_packets q (freepacketbuffers mm) h = Some (of_nat (length as), q', r', h')"
    "queue_rep h' q' []" "queue_rep h' r' (L Pool @ as)" "same_payload h h'" "frame h h' (set as \<union> set (L Pool))"
    using move_queued_packets_ok [OF src pool disj ne len] by blast
  have ok2: "buffers_ok P h' (Q(Pool := r')) (L(Pool := L Pool @ as))"
    by (rule buffers_ok_change [OF ok1 P(1) mv(3,5,4)]) (use disj in auto)
  let ?mm = "mm\<lparr>freepacketbuffers := r', mm_heap := h', allocatedpacketbuffers := allocatedpacketbuffers mm + of_nat (length as)\<rparr>"
  have run: "memorymanager_iter alloc (\<lambda>x. x) (staging, mm) = Some (q', ?mm)"
    using al(1) mv(1) by (simp add: memorymanager_iter_def stage_buffers_def move_staging_def Let_def)
  have "in_flight h' L = in_flight h L" by (rule in_flight_same_payload [OF mv(4)])
  also have "\<dots> = in_flight ?h L"
  proof (rule in_flight_cong)
    fix c assume "c \<in> queued L"
    then have "c \<in> dom ?h" using buffers_ok_dom [OF ok] by (auto simp: queued_def)
    then show "ticket_at h c = ticket_at ?h c" using al(7) by (simp add: ticket_at_def)
  qed
  finally show ?thesis using run ok2 mv(2) by (intro exI [of _ q'] exI [of _ ?mm] exI [of _ as]) (simp add: queue_rep_qlen)
qed

end
