(* ===== verification/Worker_Segment.thy ===== *)
theory Worker_Segment
  imports Worker
begin

text \<open>
  What the workers do to one segment, as lemmas on its header, data and the unused rest of the
  buffer: setting the option, adding and removing the accelerator header, and the acceleration
  itself in both directions.
\<close>

section \<open>The accelerator header\<close>

definition sent_header :: "w_env \<Rightarrow> u8 \<Rightarrow> u8 \<Rightarrow> opt_locals \<Rightarrow> OpennopHeader" where
  "sent_header e queue cause l = \<lparr>oh_seqNo = seqNo l, oh_opennopID = e_localID e,
     oh_compression = (if redEl l \<noteq> 0 \<or> redElComp l \<noteq> 0 then 1 else 0),
     oh_deduplication = (if redElDedup l \<noteq> 0 then 1 else 0), oh_reason = cause, oh_queuenum = queue,
     oh_pattern = OPENNOP_PATTERN\<rparr>"

lemma add_header_ok:
  assumes h: "hdr_ok h t d (length pl)" and r: "16 \<le> length r" and len: "length h + length pl + 16 < 65536"
  shows "add_header e t queue cause (h @ pl @ r) l =
    Some (resize h (16 + length pl) @ header_bytes (sent_header e queue cause l) @ pl @ drop 16 r, l\<lparr>seqNo := seqNo l + 1\<rparr>)"
proof -
  have l: "length h = t + 4 * d" "40 \<le> length h" using h by (auto simp: hdr_ok_def)
  note f = hdr_ok_fields [OF h, of "pl @ r"]
  let ?oh = "sent_header e queue cause l"
  obtain g where g: "memmove (h @ pl @ r) (t + 4 * d + 16) (t + 4 * d) (length pl) = Some (h @ g @ pl @ drop 16 r)" "length g = 16"
    using memmove_open [OF l(1) r, of pl] .
  have w: "write_header (h @ g @ pl @ drop 16 r) (t + 4 * d) ?oh = Some (h @ header_bytes ?oh @ pl @ drop 16 r)"
    by (rule write_header_mid [OF l(1) g(2)])
  have "set_ip_tot_len (h @ x) (length h + (16 + length pl)) = Some (resize h (16 + length pl) @ x)" for x
    using l by (intro set_ip_tot_len_append) simp
  then have "set_ip_tot_len (h @ x) (length h + (length pl + 16)) = Some (resize h (16 + length pl) @ x)" for x
    by (simp only: add.commute [of "length pl"])
  then show ?thesis
    using f(2,5) g(1) w hdr_ok_fields(3) [OF h] unfolding add_header_def sent_header_def [symmetric] OHSIZE_def
    by (simp add: add.assoc add.left_commute)
qed

lemma strip_header_ok:
  assumes h: "hdr_ok h t 6 (16 + length pl)" and tag: "tagged 1 h t" and oh: "oh_pattern oh = OPENNOP_PATTERN"
  obtains h1 r1 where "strip_header t (h @ header_bytes oh @ pl @ r) = Some (Some (oh, h1 @ pl @ r1))"
    "hdr_ok h1 t 6 (length pl)" "tagged 0 h1 t" "length r1 = length r + 16"
    "tcp_seq h1 t = tcp_seq h t" "tcp_flags h1 t = tcp_flags h t"
    "\<forall>i<t + 20. i \<notin> volatile t \<longrightarrow> h1 ! i = h ! i"
proof -
  have l: "length h = t + 24" "40 \<le> length h" "20 \<le> t" "length h + 16 + length pl < 65536"
    using h by (auto simp: hdr_ok_def)
  let ?p = "h @ header_bytes oh @ pl @ r"
  note f = hdr_ok_fields [OF h]
  have rd: "read_header ?p (t + 24) = Some oh" using read_header_mid [OF l(1)] .
  obtain r1 where mv: "memmove ?p (t + 24) (t + 24 + 16) (length pl) = Some (h @ pl @ r1)" "length r1 = length r + 16"
    using memmove_close [OF l(1) length_header_bytes, of oh pl r] .
  obtain h2 where h2: "set_tcp_option (h @ pl @ r1) 32 3 0 = Some (0, h2 @ pl @ r1)" "hdr_ok h2 t 6 (16 + length pl)"
    "tagged 0 h2 t" "tcp_seq h2 t = tcp_seq h t" "tcp_flags h2 t = tcp_flags h t" "\<forall>i<t + 20. h2 ! i = h ! i"
    using set_option_clears [OF h tag, of "pl @ r1"] by auto
  have l2: "length h2 = length h" using h2(3) l(1) by (simp add: tagged_def)
  let ?h3 = "resize h2 (length pl)"
  have h3: "hdr_ok ?h3 t 6 (length pl)" "tcp_seq ?h3 t = tcp_seq h2 t" "tcp_flags ?h3 t = tcp_flags h2 t"
    using hdr_ok_resize [OF h2(2), of "length pl"] l2 l by auto
  have "set_ip_tot_len (h2 @ pl @ r1) (length h2 + length pl) = Some (?h3 @ pl @ r1)"
    using l l2 by (intro set_ip_tot_len_append) simp
  moreover have "sub16 (length h2 + (16 + length pl)) 16 = length h2 + length pl" using l l2 by simp
  moreover have "ip_tot_len (h2 @ pl @ r1) = Some (length h2 + (16 + length pl))" by (rule hdr_ok_fields(3) [OF h2(2)])
  moreover have "r1 \<noteq> []" using mv(2) by auto
  from checksum_segment [OF h3(1) this] obtain h4 where h4: "checksum (?h3 @ pl @ r1) = Some (h4 @ pl @ r1)"
    "hdr_ok h4 t 6 (length pl)" "length h4 = length ?h3" "tcp_seq h4 t = tcp_seq ?h3 t" "tcp_flags h4 t = tcp_flags ?h3 t"
    "\<forall>i. i < length ?h3 \<and> i \<notin> {10, 11, t + 16, t + 17} \<longrightarrow> h4 ! i = ?h3 ! i" by blast
  ultimately have run: "strip_header t ?p = Some (Some (oh, h4 @ pl @ r1))"
    using tagged_get [OF h tag] f(2,5) rd mv(1) h2(1) oh by (simp add: strip_header_def OHSIZE_def)
  have k: "kept (volatile t) h2 h4"
    using kept_trans [OF kept_resize kept_sumI [OF h4(3,6)]] .
  have "tagged 0 h4 t" using tagged_kept [OF k h2(3) l(3)] .
  moreover have "\<forall>i<t + 20. i \<notin> volatile t \<longrightarrow> h4 ! i = h ! i"
    using kept_nth [OF k] h2(6) l l2 by simp
  ultimately show thesis using that [OF run h4(2)] mv(2) h2(4,5) h3(2,3) h4(4,5) by simp
qed

section \<open>Acceleration\<close>

text \<open>
  \<open>coded\<close>: the data \<open>pl1\<close> on the wire comes from \<open>pl\<close> by deduplication if \<open>nd\<close> and compression if
  \<open>nc\<close>, in this order.
\<close>

definition coded :: "w_env \<Rightarrow> bytes list \<Rightarrow> FPStore \<Rightarrow> bytes \<Rightarrow> bool \<Rightarrow> bool \<Rightarrow> bytes \<Rightarrow> bool" where
  "coded e hist fps pl nd nc pl1 \<longleftrightarrow> (\<exists>mid.
     (if nd then BETA \<le> length pl \<and> encoded (e_config e) (hist @ [pl]) fps pl mid (length mid) \<and> e_deduplication e else mid = pl) \<and>
     (if nc then mid \<noteq> [] \<and> length mid \<le> length pl \<and> length pl1 < length mid \<and> pl1 = e_qlz e mid \<and> e_compression e else pl1 = mid))"

text \<open>What both ends assume of the configuration, the buffers and QuickLZ.\<close>

definition env_good :: "w_env \<Rightarrow> processor \<Rightarrow> bool" where
  "env_good e pr \<longleftrightarrow> config_ok (e_config e) \<and> \<not> shared_dictionary_mode (e_config e) \<and> qlz_ok (e_qlz e) (e_dlz e) \<and>
     (\<forall>x. x \<noteq> [] \<longrightarrow> e_qlz e x \<noteq> []) \<and> MAX_PKT_SIZE (e_config e) \<le> 2 * BUFSIZE + 400 \<and>
     (\<exists>lz. lzbuffer pr = Some lz \<and> length lz = BUFSIZE + 400) \<and>
     (\<exists>b. dedup_buffer pr = Some b \<and> length b = 2 * BUFSIZE + 400)"

text \<open>The dictionary after a step: it has stored the data when deduplication is enabled.\<close>

definition stored :: "w_env \<Rightarrow> bytes list \<Rightarrow> bytes \<Rightarrow> Deduplicator \<Rightarrow> Deduplicator \<Rightarrow> bool" where
  "stored e hist pl pd pd' \<longleftrightarrow> (if e_deduplication e then sent (e_config e) hist pl pd pd' else pd' = pd)"

lemma stored_in_step:
  assumes "in_step c hist pds pdr" and "stored es hist pl pds pds'" and "stored er hist pl pdr pdr'"
    and "e_config es = c" "e_config er = c" "e_deduplication er = e_deduplication es"
  shows "in_step c (if e_deduplication es then hist_add hist pl else hist) pds' pdr'"
  using assms sent_in_step by (auto simp: stored_def)

lemma compress_segment:
  assumes e: "env_good e pr" and h: "hdr_ok h t d (length pl)" and len: "length pl \<le> BUFSIZE"
  shows "\<exists>n h' pl' r' lz'. tcp_compress (e_qlz e) (h @ pl @ r) (lzbuffer pr) = Some (n, h' @ pl' @ r', Some lz') \<and>
    hdr_ok h' t d (length pl') \<and> kept (volatile t) h h' \<and> length (h' @ pl' @ r') = length (h @ pl @ r) \<and>
    tcp_seq h' t = tcp_seq h t \<and> tcp_flags h' t = tcp_flags h t \<and> length lz' = BUFSIZE + 400 \<and>
    (if n = 0 then pl' = pl else pl \<noteq> [] \<and> pl' = e_qlz e pl) \<and> length pl' + n = length pl"
proof -
  obtain lz where lz: "lzbuffer pr = Some lz" "length lz = BUFSIZE + 400" and q: "qlz_ok (e_qlz e) (e_dlz e)"
    using e by (auto simp: env_good_def)
  have "length pl + 400 \<le> length lz" "length pl < 65136" using len lz by (simp_all add: BUFSIZE_def)
  from tcp_compress_ok [OF q h this, of r] obtain n lz' h' pl' r' where
    c: "tcp_compress (e_qlz e) (h @ pl @ r) (Some lz) = Some (n, h' @ pl' @ r', Some lz')" "length lz' = length lz"
    "hdr_ok h' t d (length pl')" "length h' = length h" "length (h' @ pl' @ r') = length (h @ pl @ r)" "length pl' + n = length pl"
    "tcp_seq h' t = tcp_seq h t" "tcp_flags h' t = tcp_flags h t" "\<forall>i. i \<noteq> 2 \<and> i \<noteq> 3 \<longrightarrow> h' ! i = h ! i"
    "if n = 0 then h' = h \<and> pl' = pl \<and> r' = r else pl \<noteq> [] \<and> pl' = e_qlz e pl" by blast
  have "kept (volatile t) h h'" using kept_totI [OF c(4,9)] .
  then show ?thesis using c lz
    by (intro exI [of _ n] exI [of _ h'] exI [of _ pl'] exI [of _ r'] exI [of _ lz']) (auto split: if_splits)
qed

text \<open>What the sender makes of a segment, up to the accelerator header.\<close>

definition sender_post ::
    "w_env \<Rightarrow> bytes list \<Rightarrow> nat \<Rightarrow> nat \<Rightarrow> bytes \<Rightarrow> bytes \<Rightarrow> bytes \<Rightarrow> processor \<Rightarrow> opt_locals \<Rightarrow> session \<Rightarrow> shared_dictionaries \<Rightarrow>
     opt_state \<Rightarrow> bool" where
  "sender_post e hist t d h pl r pr l s sh x \<longleftrightarrow> (\<exists>h' pl' r' s' pr' l' cause nd nc.
     x = (h' @ pl' @ r', s', pr', sh, l', cause) \<and> hdr_ok h' t d (length pl') \<and> kept (volatile t) h h' \<and>
     length (h' @ pl' @ r') = length (h @ pl @ r) \<and> length pl' \<le> length pl \<and> tcp_flags h' t = tcp_flags h t \<and>
     tcp_seq h' t = map_option (\<lambda>q. q + (if nd \<or> nc then 8000 else 0)) (tcp_seq h t) \<and>
     stored e hist pl (dedupProcessor pr) (dedupProcessor pr') \<and>
     coded e hist (dd_fps (dedupProcessor pr)) pl nd nc pl' \<and> seqNo l' = seqNo l \<and> s_queue s' = s_queue s \<and>
     (redElDedup l' \<noteq> 0) = nd \<and> (redEl l' \<noteq> 0 \<or> redElComp l' \<noteq> 0) = nc)"

lemma sender_postI:
  assumes "hdr_ok h' t d (length pl')" and "kept (volatile t) h h'" and "length (h' @ pl' @ r') = length (h @ pl @ r)"
    and "length pl' \<le> length pl" and "tcp_flags h' t = tcp_flags h t"
    and "tcp_seq h' t = map_option (\<lambda>q. q + (if nd \<or> nc then 8000 else 0)) (tcp_seq h t)"
    and "stored e hist pl (dedupProcessor pr) (dedupProcessor pr')"
    and "coded e hist (dd_fps (dedupProcessor pr)) pl nd nc pl'" and "seqNo l' = seqNo l" and "s_queue s' = s_queue s"
    and "(redElDedup l' \<noteq> 0) = nd" and "(redEl l' \<noteq> 0 \<or> redElComp l' \<noteq> 0) = nc"
  shows "sender_post e hist t d h pl r pr l s sh (h' @ pl' @ r', s', pr', sh, l', cause)"
  unfolding sender_post_def using assms by blast

text \<open>Shifting the sequence number, or not.\<close>

definition seq_if :: "bool \<Rightarrow> u32 \<Rightarrow> bytes \<Rightarrow> nat \<Rightarrow> bytes" where
  "seq_if b k h t = (if b then shift_seq h t k else h)"

lemma seq_if_ok:
  assumes h: "hdr_ok h t d n"
  shows "(if b then tcp_add_seq (h @ x) t k else Some (h @ x)) = Some (seq_if b k h t @ x)"
    and "hdr_ok (seq_if b k h t) t d n" and "tcp_flags (seq_if b k h t) t = tcp_flags h t"
    and "tcp_seq (seq_if b k h t) t = map_option (\<lambda>q. q + (if b then k else 0)) (tcp_seq h t)"
    and "length (seq_if b k h t) = length h" and "kept (volatile t) h (seq_if b k h t)"
  using tcp_add_seq_append [OF h, where k = k] h kept_seqI [OF h]
  by (simp_all add: seq_if_def option.map_ident)

lemma optimize_compress_ok:
  assumes e: "env_good e pr" and on: "e_compression e" "\<not> e_deduplication e" and h: "hdr_ok h t d (length pl)"
    and len: "length pl \<le> BUFSIZE" and l: "redEl l = 0" "redElComp l = 0" "redElDedup l = 0"
  shows "\<exists>x. optimize_compress e t (h @ pl @ r, s, pr, sh, l, cause) = Some x \<and> sender_post e hist t d h pl r pr l s sh x"
proof -
  obtain n h' pl' r' lz' where c: "tcp_compress (e_qlz e) (h @ pl @ r) (lzbuffer pr) = Some (n, h' @ pl' @ r', Some lz')"
    "hdr_ok h' t d (length pl')" "kept (volatile t) h h'" "length (h' @ pl' @ r') = length (h @ pl @ r)"
    "tcp_seq h' t = tcp_seq h t" "tcp_flags h' t = tcp_flags h t" "length pl' + n = length pl"
    "if n = 0 then pl' = pl else pl \<noteq> [] \<and> pl' = e_qlz e pl"
    using compress_segment [OF e h len, of r] by blast
  let ?h = "seq_if (0 < n) 8000 h' t"
  let ?l = "l\<lparr>redEl := n\<rparr>"
  note sq = seq_if_ok [OF c(2), where b = "0 < n" and k = 8000]
  obtain pr' where "optimize_compress e t (h @ pl @ r, s, pr, sh, l, cause) = Some (?h @ pl' @ r', s, pr', sh, ?l, cause)"
    and d: "dedupProcessor pr' = dedupProcessor pr"
    using c(1) sq(1) [of "pl' @ r'"] by (cases "0 < n") (simp_all add: optimize_compress_def)
  moreover have "coded e hist (dd_fps (dedupProcessor pr)) pl False (0 < n) pl'"
    using c(7,8) on by (auto simp: coded_def split: if_splits)
  then have "sender_post e hist t d h pl r pr l s sh (?h @ pl' @ r', s, pr', sh, ?l, cause)"
    by (rule sender_postI [OF sq(2) kept_trans [OF c(3) sq(6)] _ _ _ _ _, rotated 5])
      (use c sq l on d in \<open>simp_all add: stored_def\<close>)
  ultimately show ?thesis by blast
qed

lemma tcp_hdr_ok: "hdr_ok h t d n \<Longrightarrow> \<exists>th. tcp_hdr (h @ x) t = Some th"
  by (auto simp: tcp_hdr_def hdr_ok_def load32_def load8_def)

lemma updateseqnumber_ok:
  obtains s' where "snd (updateseqnumber lip (Some ip) (Some th) (Some s)) = Some s'" "s_queue s' = s_queue s"
    "largerIPAccelerator s' = largerIPAccelerator s" "smallerIPAccelerator s' = smallerIPAccelerator s" "s_state s' = s_state s"
proof -
  have "\<exists>s'. snd (updateseqnumber lip (Some ip) (Some th) (Some s)) = Some s' \<and> s_queue s' = s_queue s \<and>
    largerIPAccelerator s' = largerIPAccelerator s \<and> smallerIPAccelerator s' = smallerIPAccelerator s \<and> s_state s' = s_state s"
    by (simp add: updateseqnumber_def)
  then show thesis using that by blast
qed

text \<open>The second stage: compression, when enabled, of what deduplication has left.\<close>

lemma compress_stage:
  assumes e: "env_good e pr" and h: "hdr_ok h t d (length pl)" and len: "length pl \<le> BUFSIZE"
    and lz: "lzbuffer pr1 = lzbuffer pr" and l: "redElComp l = 0"
  shows "\<exists>nc h' pl' r' pr'. (if e_compression e then do {
            (nc, p, lz) \<leftarrow> tcp_compress (e_qlz e) (h @ pl @ r) (lzbuffer pr1);
            Some (p, pr1\<lparr>lzbuffer := lz\<rparr>, l\<lparr>redElComp := nc\<rparr>) }
          else Some (h @ pl @ r, pr1, l)) = Some (h' @ pl' @ r', pr', l\<lparr>redElComp := nc\<rparr>) \<and>
    hdr_ok h' t d (length pl') \<and> kept (volatile t) h h' \<and> length (h' @ pl' @ r') = length (h @ pl @ r) \<and>
    tcp_seq h' t = tcp_seq h t \<and> tcp_flags h' t = tcp_flags h t \<and> length pl' \<le> length pl \<and>
    dedupProcessor pr' = dedupProcessor pr1 \<and> (0 < nc \<longrightarrow> e_compression e) \<and>
    (if 0 < nc then pl \<noteq> [] \<and> pl' = e_qlz e pl \<and> length pl' < length pl else pl' = pl)"
proof (cases "e_compression e")
  case True
  obtain n h' pl' r' lz' where c: "tcp_compress (e_qlz e) (h @ pl @ r) (lzbuffer pr) = Some (n, h' @ pl' @ r', Some lz')"
    "hdr_ok h' t d (length pl')" "kept (volatile t) h h'" "length (h' @ pl' @ r') = length (h @ pl @ r)"
    "tcp_seq h' t = tcp_seq h t" "tcp_flags h' t = tcp_flags h t" "length pl' + n = length pl"
    "if n = 0 then pl' = pl else pl \<noteq> [] \<and> pl' = e_qlz e pl"
    using compress_segment [OF e h len, of r] by blast
  then show ?thesis using True lz
    by (intro exI [of _ n] exI [of _ h'] exI [of _ pl'] exI [of _ r'] exI [of _ "pr1\<lparr>lzbuffer := Some lz'\<rparr>"]) auto
next
  case False
  have "l\<lparr>redElComp := 0\<rparr> = l" using l by simp
  then show ?thesis using False h
    by (intro exI [of _ 0] exI [of _ h] exI [of _ pl] exI [of _ r] exI [of _ pr1]) simp
qed

lemma optimize_dedup_rtx:
  assumes e: "env_good e pr" and on: "e_deduplication e" and h: "hdr_ok h t d (length pl)"
    and len: "length pl \<le> BUFSIZE" "length pl \<le> MAX_PKT_SIZE (e_config e)" and rep: "pd_rep (e_config e) hist (dedupProcessor pr)"
    and l: "redEl l = 0" "redElComp l = 0" "redElDedup l = 0"
    and th: "tcp_hdr (h @ pl @ r) t = Some th" and seq: "checkseqnumber lip (Some ip) (Some th) (Some s) = 0"
  shows "\<exists>x. optimize_dedup e t lip ip (h @ pl @ r, s, pr, sh, l, cause) = Some x \<and> sender_post e hist t d h pl r pr l s sh x"
proof -
  have ok: "config_ok (e_config e)" "\<not> shared_dictionary_mode (e_config e)" using e by (simp_all add: env_good_def)
  obtain n pd' where c: "tcp_cache_optim (e_config e) (dedupProcessor pr) sh (h @ pl @ r) = Some (n, pd', sh)"
    "sent (e_config e) hist pl (dedupProcessor pr) pd'"
    using tcp_cache_optim_ok [OF ok rep h len(2)] by blast
  let ?x = "(h @ pl @ r, s, pr\<lparr>dedupProcessor := pd'\<rparr>, sh, l, IS_A_RTX)"
  have "optimize_dedup e t lip ip (h @ pl @ r, s, pr, sh, l, cause) = Some ?x"
    using th seq c(1) by (simp add: optimize_dedup_def)
  moreover have "sender_post e hist t d h pl r pr l s sh ?x"
    by (rule sender_postI [where nd = False and nc = False])
      (use h c(2) on l in \<open>simp_all add: stored_def coded_def option.map_ident\<close>)
  ultimately show ?thesis by blast
qed

lemma optimize_dedup_new:
  assumes e: "env_good e pr" and on: "e_deduplication e" and h: "hdr_ok h t d (length pl)"
    and len: "length pl \<le> BUFSIZE" "length pl \<le> MAX_PKT_SIZE (e_config e)" and rep: "pd_rep (e_config e) hist (dedupProcessor pr)"
    and l: "redEl l = 0" "redElComp l = 0" "redElDedup l = 0"
    and th: "tcp_hdr (h @ pl @ r) t = Some th" and seq: "checkseqnumber lip (Some ip) (Some th) (Some s) \<noteq> 0"
  shows "\<exists>x. optimize_dedup e t lip ip (h @ pl @ r, s, pr, sh, l, cause) = Some x \<and> sender_post e hist t d h pl r pr l s sh x"
proof -
  have ok: "config_ok (e_config e)" "\<not> shared_dictionary_mode (e_config e)" using e by (simp_all add: env_good_def)
  obtain s' where s': "snd (updateseqnumber lip (Some ip) (Some th) (Some s)) = Some s'" "s_queue s' = s_queue s"
    by (rule updateseqnumber_ok)
  obtain buf where buf: "dedup_buffer pr = Some buf" "length pl \<le> length buf" using e len(1) by (auto simp: env_good_def)
  obtain nd pd' h1 pl1 r1 buf' where
    o: "tcp_optimize True (e_config e) (dedupProcessor pr) sh (h @ pl @ r) buf = Some (nd, pd', sh, h1 @ pl1 @ r1, buf')"
    "sent (e_config e) hist pl (dedupProcessor pr) pd'" "hdr_ok h1 t d (length pl1)" "length h1 = length h"
    "pl \<noteq> [] \<longrightarrow> pl1 \<noteq> []" "length (h1 @ pl1 @ r1) = length (h @ pl @ r)" "length pl1 + nd = length pl"
    "tcp_seq h1 t = tcp_seq h t" "tcp_flags h1 t = tcp_flags h t" "\<forall>i. i \<noteq> 2 \<and> i \<noteq> 3 \<longrightarrow> h1 ! i = h ! i"
    "if nd = 0 then h1 = h \<and> pl1 = pl \<and> r1 = r
     else BETA \<le> length pl \<and> encoded (e_config e) (hist @ [pl]) (dd_fps (dedupProcessor pr)) pl pl1 (length pl1)"
    using tcp_optimize_ok [OF ok rep h len(2) buf(2), of sh r] by blast
  have len1: "length pl1 \<le> BUFSIZE" using o(7) len(1) by linarith
  let ?pr = "pr\<lparr>dedupProcessor := pd', dedup_buffer := Some buf'\<rparr>"
  let ?pr1 = "if 0 < nd then upd_metrics (\<lambda>m. m\<lparr>diffBytesDeduplication := diffBytesDeduplication m + of_nat nd\<rparr>) ?pr else ?pr"
  let ?l = "l\<lparr>redElDedup := nd\<rparr>"
  have "lzbuffer ?pr1 = lzbuffer pr" "redElComp ?l = 0" using l by simp_all
  from compress_stage [OF e o(3) len1 this, of r1] obtain nc h2 pl2 r2 pr2 where
    st: "(if e_compression e then do {
          (nc, p, lz) \<leftarrow> tcp_compress (e_qlz e) (h1 @ pl1 @ r1) (lzbuffer ?pr1);
          Some (p, ?pr1\<lparr>lzbuffer := lz\<rparr>, ?l\<lparr>redElComp := nc\<rparr>) }
        else Some (h1 @ pl1 @ r1, ?pr1, ?l)) = Some (h2 @ pl2 @ r2, pr2, ?l\<lparr>redElComp := nc\<rparr>)" and
    c: "hdr_ok h2 t d (length pl2)" "kept (volatile t) h1 h2" "length (h2 @ pl2 @ r2) = length (h1 @ pl1 @ r1)"
    "tcp_seq h2 t = tcp_seq h1 t" "tcp_flags h2 t = tcp_flags h1 t" "length pl2 \<le> length pl1"
    "dedupProcessor pr2 = dedupProcessor ?pr1" "0 < nc \<longrightarrow> e_compression e"
    "if 0 < nc then pl1 \<noteq> [] \<and> pl2 = e_qlz e pl1 \<and> length pl2 < length pl1 else pl2 = pl1" by blast
  let ?b = "0 < nd \<or> (e_compression e \<and> 0 < nc)"
  let ?h = "seq_if ?b 8000 h2 t" and ?l2 = "?l\<lparr>redElComp := nc\<rparr>"
  let ?pr3 = "upd_metrics (count_dedup (e_compression e) nd nc) pr2"
  note sq = seq_if_ok [OF c(1), where b = ?b and k = 8000]
  let ?x = "(?h @ pl2 @ r2, s', ?pr3, sh, ?l2,
    if redEl ?l2 \<noteq> 0 \<or> redElComp ?l2 \<noteq> 0 \<or> redElDedup ?l2 \<noteq> 0 then NOT_RELEVANT else NO_OPT_GAIN)"
  have "optimize_dedup e t lip ip (h @ pl @ r, s, pr, sh, l, cause) = Some ?x"
    unfolding optimize_dedup_def using th seq s'(1) buf(1) o(1) on st sq(1) [of "pl2 @ r2"]
    by (simp add: Let_def)
  moreover have kept: "kept (volatile t) h ?h"
    using kept_trans [OF kept_totI [OF o(4,10)] kept_trans [OF c(2) sq(6)]] .
  moreover have "coded e hist (dd_fps (dedupProcessor pr)) pl (0 < nd) (0 < nc) pl2"
    unfolding coded_def using o(7,11) c(8,9) on by (intro exI [of _ pl1]) (auto split: if_splits)
  moreover have "(0 < nd \<or> 0 < nc) = ?b" using c(8) by blast
  ultimately have "sender_post e hist t d h pl r pr l s sh ?x"
    by (intro sender_postI [where nd = "0 < nd" and nc = "0 < nc"] sq(2))
      (use o c sq l on s'(2) in \<open>simp_all add: stored_def\<close>)
  then show ?thesis using \<open>optimize_dedup e t lip ip (h @ pl @ r, s, pr, sh, l, cause) = Some ?x\<close> by blast
qed

lemma optimize_dedup_ok:
  assumes e: "env_good e pr" and on: "e_deduplication e" and h: "hdr_ok h t d (length pl)"
    and len: "length pl \<le> BUFSIZE" "length pl \<le> MAX_PKT_SIZE (e_config e)" and rep: "pd_rep (e_config e) hist (dedupProcessor pr)"
    and l: "redEl l = 0" "redElComp l = 0" "redElDedup l = 0"
  shows "\<exists>x. optimize_dedup e t lip ip (h @ pl @ r, s, pr, sh, l, cause) = Some x \<and> sender_post e hist t d h pl r pr l s sh x"
proof -
  obtain th where "tcp_hdr (h @ pl @ r) t = Some th" using tcp_hdr_ok [OF h] by blast
  then show ?thesis using optimize_dedup_rtx [OF assms] optimize_dedup_new [OF assms] by blast
qed

lemma optimize_payload_ok:
  assumes e: "env_good e pr" and acc: "accelerate (e_localID e) lip sip ip s" and h: "hdr_ok h t d (length pl)"
    and len: "length pl \<le> BUFSIZE" "length pl \<le> MAX_PKT_SIZE (e_config e)" and rep: "pd_rep (e_config e) hist (dedupProcessor pr)"
  shows "\<exists>x. optimize_payload e t lip sip ip (h @ pl @ r, s, pr, sh, l, cause) = Some x \<and> sender_post e hist t d h pl r pr l s sh x"
proof -
  let ?l = "l\<lparr>redEl := 0, redElComp := 0, redElDedup := 0\<rparr>"
  have l: "redEl ?l = 0" "redElComp ?l = 0" "redElDedup ?l = 0" by simp_all
  have cong: "sender_post e hist t d h pl r pr ?l s sh x = sender_post e hist t d h pl r pr l s sh x" for x
    by (simp add: sender_post_def)
  consider (dedup) "e_deduplication e" | (comp) "e_compression e" "\<not> e_deduplication e"
    | (off) "\<not> e_compression e" "\<not> e_deduplication e" by blast
  then show ?thesis
  proof cases
    case dedup
    from optimize_dedup_ok [OF e dedup h len rep l, of lip ip r s sh cause] show ?thesis
      using acc dedup cong by (auto simp: optimize_payload_def)
  next
    case comp
    from optimize_compress_ok [OF e comp h len(1) l, of r s sh cause hist] show ?thesis
      using acc comp cong by (auto simp: optimize_payload_def)
  next
    case off
    have "sender_post e hist t d h pl r pr l s sh (h @ pl @ r, s, pr, sh, ?l, cause)"
      by (rule sender_postI [where nd = False and nc = False])
        (use h off in \<open>simp_all add: stored_def coded_def option.map_ident\<close>)
    then show ?thesis using acc off by (simp add: optimize_payload_def)
  qed
qed

section \<open>Deoptimisation\<close>

lemma decompress_segment:
  assumes e: "env_good e pr" and h: "hdr_ok h t d (length (e_qlz e pl))" and pl: "pl \<noteq> []" "length h + length pl < 65136"
    and len: "length pl \<le> BUFSIZE" and room: "length pl \<le> length (e_qlz e pl) + length r"
  shows "\<exists>h' r' lz'. tcp_decompress (e_dlz e) (h @ e_qlz e pl @ r) (lzbuffer pr) =
      Some (int (length pl) - int (length (e_qlz e pl)), h' @ pl @ r', Some lz') \<and>
    hdr_ok h' t d (length pl) \<and> kept (volatile t) h h' \<and> length (h' @ pl @ r') = length (h @ e_qlz e pl @ r) \<and>
    tcp_seq h' t = tcp_seq h t \<and> tcp_flags h' t = tcp_flags h t"
proof -
  obtain lz where lz: "lzbuffer pr = Some lz" "length lz = BUFSIZE + 400" and q: "qlz_ok (e_qlz e) (e_dlz e)"
    and ne: "e_qlz e pl \<noteq> []" using e pl(1) by (auto simp: env_good_def)
  have "length pl \<le> length lz" using len lz by simp
  from tcp_decompress_ok [OF q h pl ne this room] obtain lz' h' r' where
    d: "tcp_decompress (e_dlz e) (h @ e_qlz e pl @ r) (Some lz) =
      Some (int (length pl) - int (length (e_qlz e pl)), h' @ pl @ r', Some lz')" "hdr_ok h' t d (length pl)"
    "length h' = length h" "length (h' @ pl @ r') = length (h @ e_qlz e pl @ r)" "tcp_seq h' t = tcp_seq h t"
    "tcp_flags h' t = tcp_flags h t" "\<forall>i. i \<noteq> 2 \<and> i \<noteq> 3 \<longrightarrow> h' ! i = h ! i" by blast
  then show ?thesis using kept_totI [OF d(3,7)] lz(1)
    by (intro exI [of _ h'] exI [of _ r'] exI [of _ lz']) simp
qed

text \<open>What the receiver makes of a segment.\<close>

definition receiver_post ::
    "w_env \<Rightarrow> bytes list \<Rightarrow> nat \<Rightarrow> nat \<Rightarrow> bytes \<Rightarrow> nat \<Rightarrow> bytes \<Rightarrow> bool \<Rightarrow> processor \<Rightarrow> shared_dictionaries \<Rightarrow> deopt_state \<Rightarrow> bool" where
  "receiver_post e hist t d h n pl shifted pr sh x \<longleftrightarrow> (\<exists>h' r' s' pr'.
     x = (h' @ pl @ r', True, s', pr', sh) \<and> hdr_ok h' t d (length pl) \<and> kept (volatile t) h h' \<and>
     length (h' @ pl @ r') = n \<and> tcp_flags h' t = tcp_flags h t \<and>
     tcp_seq h' t = map_option (\<lambda>q. q + (if shifted then - 8000 else 0)) (tcp_seq h t) \<and>
     stored e hist pl (dedupProcessor pr) (dedupProcessor pr'))"

lemma receiver_postI:
  assumes "hdr_ok h' t d (length pl)" and "kept (volatile t) h h'" and "length (h' @ pl @ r') = n"
    and "tcp_flags h' t = tcp_flags h t" and "tcp_seq h' t = map_option (\<lambda>q. q + (if shifted then - 8000 else 0)) (tcp_seq h t)"
    and "stored e hist pl (dedupProcessor pr) (dedupProcessor pr')"
  shows "receiver_post e hist t d h n pl shifted pr sh (h' @ pl @ r', True, s', pr', sh)"
  unfolding receiver_post_def using assms by blast

lemma deoptimize_compressed_ok:
  assumes e: "env_good e pr" and off: "\<not> e_deduplication e" and h: "hdr_ok h t d (length (e_qlz e pl))"
    and pl: "pl \<noteq> []" "length h + length pl < 65136" "length (e_qlz e pl) < length pl"
    and len: "length pl \<le> BUFSIZE" and room: "length pl \<le> length (e_qlz e pl) + length r"
  shows "\<exists>x. deoptimize_compressed e t (h @ e_qlz e pl @ r, True, s, pr, sh) = Some x \<and>
    receiver_post e hist t d h (length (h @ e_qlz e pl @ r)) pl True pr sh x"
proof -
  obtain h' r' lz' where c: "tcp_decompress (e_dlz e) (h @ e_qlz e pl @ r) (lzbuffer pr) =
      Some (int (length pl) - int (length (e_qlz e pl)), h' @ pl @ r', Some lz')"
    "hdr_ok h' t d (length pl)" "kept (volatile t) h h'" "length (h' @ pl @ r') = length (h @ e_qlz e pl @ r)"
    "tcp_seq h' t = tcp_seq h t" "tcp_flags h' t = tcp_flags h t"
    using decompress_segment [OF e h pl(1,2) len room] by blast
  let ?h = "seq_if True (- 8000) h' t"
  note sq = seq_if_ok [OF c(2), where b = True and k = "- 8000"]
  obtain pr' where run: "deoptimize_compressed e t (h @ e_qlz e pl @ r, True, s, pr, sh) = Some (?h @ pl @ r', True, s, pr', sh)"
    and d: "dedupProcessor pr' = dedupProcessor pr"
    using c(1) sq(1) [of "pl @ r'"] pl(3) by (simp add: deoptimize_compressed_def)
  have "receiver_post e hist t d h (length (h @ e_qlz e pl @ r)) pl True pr sh (?h @ pl @ r', True, s, pr', sh)"
    by (rule receiver_postI [OF sq(2) kept_trans [OF c(3) sq(6)]]) (use c sq off d in \<open>simp_all add: stored_def\<close>)
  then show ?thesis using run by blast
qed

lemma decompress_stage:
  assumes e: "env_good e pr" and h: "hdr_ok h t d (length pl1)"
    and nc: "if nc then mid \<noteq> [] \<and> length pl1 < length mid \<and> pl1 = e_qlz e mid \<and> e_compression e else pl1 = mid"
    and len: "length mid \<le> BUFSIZE" "length h + length mid < 65136" and room: "length mid \<le> length pl1 + length r"
  shows "\<exists>n h' r' pr'. (if e_compression e \<and> nc then decompress_first e t nd (h @ pl1 @ r, True, s, pr, sh)
        else Some (0, h @ pl1 @ r, True, s, pr, sh)) = Some (n, h' @ mid @ r', True, s, pr', sh) \<and>
    hdr_ok h' t d (length mid) \<and> kept (volatile t) h h' \<and> length (h' @ mid @ r') = length (h @ pl1 @ r) \<and>
    tcp_flags h' t = tcp_flags h t \<and> tcp_seq h' t = map_option (\<lambda>q. q + (if nc \<and> \<not> nd then - 8000 else 0)) (tcp_seq h t) \<and>
    dedupProcessor pr' = dedupProcessor pr \<and> dedup_buffer pr' = dedup_buffer pr"
proof (cases nc)
  case True
  then have m: "mid \<noteq> []" "length (e_qlz e mid) < length mid" "pl1 = e_qlz e mid" "e_compression e" using nc by auto
  obtain h' r' lz' where c: "tcp_decompress (e_dlz e) (h @ e_qlz e mid @ r) (lzbuffer pr) =
      Some (int (length mid) - int (length (e_qlz e mid)), h' @ mid @ r', Some lz')"
    "hdr_ok h' t d (length mid)" "kept (volatile t) h h'" "length (h' @ mid @ r') = length (h @ e_qlz e mid @ r)"
    "tcp_seq h' t = tcp_seq h t" "tcp_flags h' t = tcp_flags h t"
    using decompress_segment [OF e _ m(1) len(2,1), of t d r] h room m(3) by blast
  let ?h = "seq_if (\<not> nd) (- 8000) h' t"
  note sq = seq_if_ok [OF c(2), where b = "\<not> nd" and k = "- 8000"]
  obtain n pr' where "decompress_first e t nd (h @ pl1 @ r, True, s, pr, sh) = Some (n, ?h @ mid @ r', True, s, pr', sh)"
    "dedupProcessor pr' = dedupProcessor pr" "dedup_buffer pr' = dedup_buffer pr"
    using c(1) sq(1) [of "mid @ r'"] m by (cases nd) (simp_all add: decompress_first_def Let_def)
  then show ?thesis using True m c sq kept_trans [OF c(3) sq(6)]
    by (intro exI [of _ n] exI [of _ ?h] exI [of _ r'] exI [of _ pr']) simp
next
  case False
  then show ?thesis using nc h
    by (intro exI [of _ 0] exI [of _ h] exI [of _ r] exI [of _ pr]) (simp add: option.map_ident)
qed

text \<open>The data between the two stages of the sender.\<close>

lemma coded_middle:
  assumes "coded e hist fps pl nd nc pl1"
  obtains mid where "if nd then BETA \<le> length pl \<and> encoded (e_config e) (hist @ [pl]) fps pl mid (length mid) else mid = pl"
    and "if nc then mid \<noteq> [] \<and> length pl1 < length mid \<and> pl1 = e_qlz e mid \<and> e_compression e else pl1 = mid" and "length mid \<le> length pl"
proof -
  obtain mid where mid: "if nd then BETA \<le> length pl \<and> encoded (e_config e) (hist @ [pl]) fps pl mid (length mid) else mid = pl"
    "if nc then mid \<noteq> [] \<and> length mid \<le> length pl \<and> length pl1 < length mid \<and> pl1 = e_qlz e mid \<and> e_compression e else pl1 = mid"
    using assms unfolding coded_def by metis
  moreover have "length mid \<le> length pl" using mid(1) encoded_gain [of "e_config e"] by (cases nd) fastforce+
  ultimately show thesis using that [of mid] by (metis (no_types, lifting))
qed

lemma deoptimize_dedup_ok:
  assumes e: "env_good e pr" and on: "e_deduplication e" and h: "hdr_ok h t d (length pl1)"
    and st: "in_step (e_config e) hist pds (dedupProcessor pr)" and dis: "hash_distinct (set hist)"
    and coded: "coded e hist (dd_fps pds) pl nd nc pl1"
    and len: "length pl \<le> BUFSIZE" "length pl \<le> MAX_PKT_SIZE (e_config e)" "length h + length pl < 65136"
    and room: "length pl \<le> length pl1 + length r"
  shows "\<exists>x. deoptimize_dedup e t lip ip nc nd (h @ pl1 @ r, True, s, pr, sh) = Some x \<and>
    receiver_post e hist t d h (length (h @ pl1 @ r)) pl (nd \<or> nc) pr sh x"
proof -
  have ok: "config_ok (e_config e)" "\<not> shared_dictionary_mode (e_config e)" using e by (simp_all add: env_good_def)
  have rep: "pd_rep (e_config e) hist (dedupProcessor pr)" using st by (simp add: in_step_def)
  obtain mid where m: "if nd then BETA \<le> length pl \<and> encoded (e_config e) (hist @ [pl]) (dd_fps pds) pl mid (length mid) else mid = pl"
    "if nc then mid \<noteq> [] \<and> length pl1 < length mid \<and> pl1 = e_qlz e mid \<and> e_compression e else pl1 = mid" "length mid \<le> length pl"
    by (rule coded_middle [OF coded])
  have lens: "length mid \<le> BUFSIZE" "length h + length mid < 65136" "length mid \<le> length pl1 + length r"
    using m(3) len room by linarith+
  obtain n h1 r1 pr1 where s1: "(if e_compression e \<and> nc then decompress_first e t nd (h @ pl1 @ r, True, s, pr, sh)
        else Some (0, h @ pl1 @ r, True, s, pr, sh)) = Some (n, h1 @ mid @ r1, True, s, pr1, sh)"
    "hdr_ok h1 t d (length mid)" "kept (volatile t) h h1" "length (h1 @ mid @ r1) = length (h @ pl1 @ r)"
    "tcp_flags h1 t = tcp_flags h t" "tcp_seq h1 t = map_option (\<lambda>q. q + (if nc \<and> \<not> nd then - 8000 else 0)) (tcp_seq h t)"
    "dedupProcessor pr1 = dedupProcessor pr" "dedup_buffer pr1 = dedup_buffer pr"
    using decompress_stage [OF e h m(2) lens, of nd s sh] by blast
  show ?thesis
  proof (cases nd)
    case False
    then have mid: "mid = pl" using m(1) by simp
    obtain k pd' where c: "tcp_cache_deoptim (e_config e) (dedupProcessor pr) sh (h1 @ pl @ r1) = Some (k, pd', sh)"
      "sent (e_config e) hist pl (dedupProcessor pr) pd'"
      using tcp_cache_deoptim_ok [OF ok rep s1(2) [unfolded mid] len(2)] by blast
    let ?x = "(h1 @ pl @ r1, True, s, pr1\<lparr>dedupProcessor := pd'\<rparr>, sh)"
    have "deoptimize_dedup e t lip ip nc nd (h @ pl1 @ r, True, s, pr, sh) = Some ?x"
      unfolding deoptimize_dedup_def s1(1) using False mid c(1) s1(7) by simp
    moreover have "receiver_post e hist t d h (length (h @ pl1 @ r)) pl (nd \<or> nc) pr sh ?x"
      by (rule receiver_postI [OF _ s1(3)]) (use s1 c(2) mid False on in \<open>simp_all add: stored_def\<close>)
    ultimately show ?thesis by blast
  next
    case True
    then have enc: "BETA \<le> length pl" "encoded (e_config e) (hist @ [pl]) (dd_fps pds) pl mid (length mid)" using m(1) by auto
    obtain th where th: "tcp_hdr (h1 @ mid @ r1) t = Some th" using tcp_hdr_ok [OF s1(2)] by blast
    obtain s' where s': "snd (updateseqnumber lip (Some ip) (Some th) (Some s)) = Some s'" by (rule updateseqnumber_ok)
    obtain buf where buf: "dedup_buffer pr = Some buf" "MAX_PKT_SIZE (e_config e) \<le> length buf"
      using e by (auto simp: env_good_def)
    have l1: "length h1 = length h" using kept_length [OF s1(3)] .
    have r1: "length pl \<le> length mid + length r1" "length h1 + length pl < 65536" using s1(4) l1 room len(3) by simp_all
    obtain pd' h2 r2 buf' where o: "tcp_deoptimize (e_config e) (dedupProcessor pr) sh (h1 @ mid @ r1) (Some buf) (e_status e) =
        Some (int (length pl) - int (length mid), pd', sh, h2 @ pl @ r2, Some buf')"
      "sent (e_config e) hist pl (dedupProcessor pr) pd'" "hdr_ok h2 t d (length pl)" "length h2 = length h1"
      "length (h2 @ pl @ r2) = length (h1 @ mid @ r1)" "tcp_seq h2 t = tcp_seq h1 t" "tcp_flags h2 t = tcp_flags h1 t"
      "\<forall>i. i \<noteq> 2 \<and> i \<noteq> 3 \<longrightarrow> h2 ! i = h1 ! i"
      using tcp_deoptimize_ok [OF ok st dis s1(2) enc(2,1) len(2) r1(2) buf(2) r1(1), of sh "e_status e"] by blast
    have pos: "int (length pl) - int (length mid) \<noteq> ERROR" "int (length pl) - int (length mid) \<noteq> HASH_NOT_FOUND"
      using m(3) by (simp_all add: ERROR_def HASH_NOT_FOUND_def)
    let ?h = "seq_if True (- 8000) h2 t"
    note sq = seq_if_ok [OF o(3), where b = True and k = "- 8000"]
    obtain pr' where run: "deoptimize_dedup e t lip ip nc nd (h @ pl1 @ r, True, s, pr, sh) = Some (?h @ pl @ r2, True, s', pr', sh)"
      and d: "dedupProcessor pr' = pd'"
      unfolding deoptimize_dedup_def s1(1) using True th s' buf(1) s1(7,8) o(1) pos sq(1) [of "pl @ r2"]
      by (cases "0 < n") (simp_all add: Let_def)
    have k: "kept (volatile t) h ?h" using kept_trans [OF s1(3) kept_trans [OF kept_totI [OF o(4,8)] sq(6)]] .
    have "receiver_post e hist t d h (length (h @ pl1 @ r)) pl (nd \<or> nc) pr sh (?h @ pl @ r2, True, s', pr', sh)"
      by (rule receiver_postI [OF sq(2) k]) (use s1 o sq True on d in \<open>simp_all add: stored_def option.map_ident\<close>)
    then show ?thesis using run by blast
  qed
qed

end
