(* ===== verification/Worker_Roundtrip.thy ===== *)
theory Worker_Roundtrip
  imports Worker_Segment
begin

text \<open>
  Two accelerators on a path: a segment optimised by a worker of the first and deoptimised by the
  corresponding worker of the second reaches its destination with the data, the sequence number and
  the flags it had, and leaves the dictionaries of the two workers in step.
\<close>

section \<open>Agreement of the two ends\<close>

definition same_setup :: "w_env \<Rightarrow> w_env \<Rightarrow> bool" where
  "same_setup es er \<longleftrightarrow> e_config er = e_config es \<and> e_compression er = e_compression es \<and>
     e_deduplication er = e_deduplication es \<and> e_qlz er = e_qlz es"

text \<open>The sessions: at the sender, the far end is another accelerator; at the receiver, the near end is itself.\<close>

definition sends :: "u32 \<Rightarrow> u32 \<Rightarrow> u32 \<Rightarrow> iphdr \<Rightarrow> session \<Rightarrow> bool" where
  "sends self lip sip ip s \<longleftrightarrow> lip \<noteq> 0 \<and> s_state s = TCP_ESTABLISHED \<and>
     (if ip_saddr ip = lip then smallerIPAccelerator s \<noteq> 0 \<and> smallerIPAccelerator s \<noteq> self
      else ip_saddr ip = sip \<and> largerIPAccelerator s \<noteq> 0 \<and> largerIPAccelerator s \<noteq> self)"

definition receives :: "u32 \<Rightarrow> u32 \<Rightarrow> u32 \<Rightarrow> iphdr \<Rightarrow> session \<Rightarrow> bool" where
  "receives self lip sip ip s \<longleftrightarrow> 
     (if ip_saddr ip = lip then smallerIPAccelerator s = self else ip_saddr ip = sip \<and> largerIPAccelerator s = self)"

lemma sends_accelerate:
  assumes "sends self lip sip ip s"
  obtains s' where "snd (saveacceleratorid lip self (Some ip) (Some s)) = Some s'" "accelerate self lip sip ip s'"
    "s_queue s' = s_queue s"
proof -
  have "\<exists>s'. snd (saveacceleratorid lip self (Some ip) (Some s)) = Some s' \<and> accelerate self lip sip ip s' \<and> s_queue s' = s_queue s"
    using assms by (auto simp: sends_def saveacceleratorid_def accelerate_def)
  then show thesis using that by blast
qed

lemma receives_saved:
  assumes "receives self lip sip ip s"
  obtains s' where "snd (saveacceleratorid lip remote (Some ip) (Some s)) = Some s'"
    "(ip_saddr ip = lip \<and> smallerIPAccelerator s' = self) \<or> (ip_saddr ip = sip \<and> largerIPAccelerator s' = self)"
proof -
  have "\<exists>s'. snd (saveacceleratorid lip remote (Some ip) (Some s)) = Some s' \<and>
    ((ip_saddr ip = lip \<and> smallerIPAccelerator s' = self) \<or> (ip_saddr ip = sip \<and> largerIPAccelerator s' = self))"
    using assms by (auto simp: receives_def saveacceleratorid_def)
  then show thesis using that by blast
qed

section \<open>The receiver\<close>

lemma deoptimize_payload_ok:
  assumes e: "env_good e pr" and h: "hdr_ok h t d (length pl1)"
    and st: "in_step (e_config e) hist pds (dedupProcessor pr)" and dis: "hash_distinct (set hist)"
    and coded: "coded e hist (dd_fps pds) pl nd nc pl1"
    and len: "length pl \<le> BUFSIZE" "length pl \<le> MAX_PKT_SIZE (e_config e)" "length h + length pl < 65136"
    and room: "length pl \<le> length pl1 + length r"
    and oh: "oh_opennopID oh \<noteq> 0" "(oh_compression oh \<noteq> 0) = nc" "(oh_deduplication oh \<noteq> 0) = nd"
    and rc: "receives (e_localID e) lip sip ip s"
  shows "\<exists>x. deoptimize_payload e t lip sip ip oh (h @ pl1 @ r, True, s, pr, sh) = Some x \<and>
    receiver_post e hist t d h (length (h @ pl1 @ r)) pl (nd \<or> nc) pr sh x"
proof -
  obtain s' where s': "snd (saveacceleratorid lip (oh_opennopID oh) (Some ip) (Some s)) = Some s'"
    "(ip_saddr ip = lip \<and> smallerIPAccelerator s' = e_localID e) \<or> (ip_saddr ip = sip \<and> largerIPAccelerator s' = e_localID e)"
    by (rule receives_saved [OF rc])
  have flags: "nd \<Longrightarrow> e_deduplication e" "nc \<Longrightarrow> e_compression e" using coded by (auto simp: coded_def split: if_splits)
  note unf = deoptimize_payload_def Let_def oh(2,3)
  show ?thesis
  proof (cases "e_deduplication e")
    case on: True
    show ?thesis
    proof (cases "nd \<or> nc")
      case True
      from deoptimize_dedup_ok [OF e on h st dis coded len room, of lip ip s' sh] show ?thesis
        using True on s' oh(1) by (auto simp: unf)
    next
      case False
      then have pl: "pl1 = pl" using coded by (simp add: coded_def)
      have rep: "pd_rep (e_config e) hist (dedupProcessor pr)" using st by (simp add: in_step_def)
      have ok: "config_ok (e_config e)" "\<not> shared_dictionary_mode (e_config e)" using e by (simp_all add: env_good_def)
      obtain k pd' where c: "tcp_cache_deoptim (e_config e) (dedupProcessor pr) sh (h @ pl @ r) = Some (k, pd', sh)"
        "sent (e_config e) hist pl (dedupProcessor pr) pd'"
        using tcp_cache_deoptim_ok [OF ok rep h [unfolded pl] len(2)] by blast
      let ?x = "(h @ pl @ r, True, s', pr\<lparr>dedupProcessor := pd'\<rparr>, sh)"
      have "deoptimize_payload e t lip sip ip oh (h @ pl1 @ r, True, s, pr, sh) = Some ?x"
        using False on s'(1) oh c(1) pl by (simp add: deoptimize_payload_def Let_def)
      moreover have "receiver_post e hist t d h (length (h @ pl1 @ r)) pl (nd \<or> nc) pr sh ?x"
        by (rule receiver_postI) (use h False c(2) on pl in \<open>simp_all add: stored_def option.map_ident\<close>)
      ultimately show ?thesis by blast
    qed
  next
    case off: False
    show ?thesis
    proof (cases nc)
      case True
      then have m: "pl \<noteq> []" "length (e_qlz e pl) < length pl" "pl1 = e_qlz e pl"
        using coded off flags(1) by (auto simp: coded_def split: if_splits)
      from deoptimize_compressed_ok [OF e off h [unfolded m(3)] m(1) len(3) m(2) len(1), of r s' sh hist] show ?thesis
        using True off s' oh flags(2) m(3) room by (auto simp: unf)
    next
      case False
      then have "pl1 = pl" "\<not> nd" using coded off flags(1) by (auto simp: coded_def split: if_splits)
      moreover have "receiver_post e hist t d h (length (h @ pl @ r)) pl False pr sh (h @ pl @ r, True, s', pr, sh)"
        by (rule receiver_postI) (use h off \<open>pl1 = pl\<close> in \<open>simp_all add: stored_def option.map_ident\<close>)
      ultimately show ?thesis using False off s'(1) oh by (simp add: deoptimize_payload_def Let_def)
    qed
  qed
qed

section \<open>The sender\<close>

text \<open>What leaves the sender: headers with option 32, the accelerator header and the coded data, with valid checksums.\<close>

definition on_wire ::
    "w_env \<Rightarrow> bytes list \<Rightarrow> Deduplicator \<Rightarrow> nat \<Rightarrow> bytes \<Rightarrow> bytes \<Rightarrow> u32 \<Rightarrow> bytes \<Rightarrow> OpennopHeader \<Rightarrow> bytes \<Rightarrow> bool \<Rightarrow> bool \<Rightarrow> bool" where
  "on_wire e hist pd t h pl n h' oh pl' nd nc \<longleftrightarrow> hdr_ok h' t 6 (16 + length pl') \<and> tagged 1 h' t \<and>
     tcp_flags h' t = tcp_flags h t \<and> tcp_seq h' t = map_option (\<lambda>q. q + (if nd \<or> nc then 8000 else 0)) (tcp_seq h t) \<and>
     (\<forall>i<t + 20. i \<notin> insert (t + 12) (volatile t) \<longrightarrow> h' ! i = h ! i) \<and> length pl' \<le> length pl \<and>
     coded e hist (dd_fps pd) pl nd nc pl' \<and> oh_seqNo oh = n \<and> oh_opennopID oh = e_localID e \<and>
     oh_pattern oh = OPENNOP_PATTERN \<and> (oh_compression oh \<noteq> 0) = nc \<and> (oh_deduplication oh \<noteq> 0) = nd"

lemma optimize_tag_ok:
  assumes e: "env_good e pr" and snd: "sends (e_localID e) lip sip ip s" and h: "hdr_ok h t 5 (length pl)"
    and len: "length (h @ pl @ r) = BUFSIZE" "length h + length pl + 20 < BUFSIZE" "length pl \<le> MAX_PKT_SIZE (e_config e)"
    and rep: "pd_rep (e_config e) hist (dedupProcessor pr)"
  shows "\<exists>h1 oh pl1 r1 s' pr' l' nd nc h2. optimize_tag e t lip sip ip (h @ pl @ r, s, pr, sh, l) =
      Some (True, h1 @ header_bytes oh @ pl1 @ r1, s', pr', sh, l') \<and>
    checksum (h1 @ header_bytes oh @ pl1 @ r1) = Some (h2 @ header_bytes oh @ pl1 @ r1) \<and>
    on_wire e hist (dedupProcessor pr) t h pl (seqNo l) h2 oh pl1 nd nc \<and> seqNo l' = seqNo l + 1 \<and>
    tcp_flags h1 t = tcp_flags h t \<and> hdr_ok h1 t 6 (16 + length pl1) \<and> length h2 = t + 24 \<and>
    stored e hist pl (dedupProcessor pr) (dedupProcessor pr') \<and>
    length (h2 @ header_bytes oh @ pl1 @ r1) = BUFSIZE \<and> r1 \<noteq> []"
proof -
  have l: "length h = t + 20" "20 \<le> t" using h by (auto simp: hdr_ok_def)
  obtain s1 where s1: "snd (saveacceleratorid lip (e_localID e) (Some ip) (Some s)) = Some s1"
    "accelerate (e_localID e) lip sip ip s1" by (rule sends_accelerate [OF snd])
  have r: "4 \<le> length r" "length h + length pl + 4 < 65536" "length pl \<le> BUFSIZE" using len by (simp_all add: BUFSIZE_def)
  obtain ht where ht: "set_tcp_option (h @ pl @ r) 32 3 1 = Some (0, ht @ pl @ drop 4 r)" "hdr_ok ht t 6 (length pl)"
    "tagged 1 ht t" "tcp_seq ht t = tcp_seq h t" "tcp_flags ht t = tcp_flags h t"
    "\<forall>i<t + 20. i \<notin> {2, 3, t + 12} \<longrightarrow> ht ! i = h ! i"
    using set_option_tags [OF h r(1,2), where v = 1] by auto
  have lt: "length ht = t + 24" using ht(3) by (simp add: tagged_def)
  obtain x where x: "optimize_payload e t lip sip ip (ht @ pl @ drop 4 r, s1, pr, sh, l, NOT_RELEVANT) = Some x"
    "sender_post e hist t 6 ht pl (drop 4 r) pr l s1 sh x"
    using optimize_payload_ok [OF e s1(2) ht(2) r(3) len(3) rep] by blast
  obtain h1 pl1 r1 s' pr' l' cause nd nc where
    p: "x = (h1 @ pl1 @ r1, s', pr', sh, l', cause)" "hdr_ok h1 t 6 (length pl1)" "kept (volatile t) ht h1"
      "length (h1 @ pl1 @ r1) = length (ht @ pl @ drop 4 r)" "length pl1 \<le> length pl" "tcp_flags h1 t = tcp_flags ht t"
      "tcp_seq h1 t = map_option (\<lambda>q. q + (if nd \<or> nc then 8000 else 0)) (tcp_seq ht t)"
      "stored e hist pl (dedupProcessor pr) (dedupProcessor pr')" "coded e hist (dd_fps (dedupProcessor pr)) pl nd nc pl1"
      "seqNo l' = seqNo l" "(redElDedup l' \<noteq> 0) = nd" "(redEl l' \<noteq> 0 \<or> redElComp l' \<noteq> 0) = nc"
    using x(2) unfolding sender_post_def by blast
  have l1: "length h1 = t + 24" using kept_length [OF p(3)] lt by simp
  have tot: "length (h1 @ pl1 @ r1) = BUFSIZE" using p(4) len(1) lt l r(1) by simp
  have r1: "16 < length r1" "length h1 + length pl1 + 16 < 65536"
    using tot l1 p(5) len(2) l by (simp_all add: BUFSIZE_def)
  define oh where "oh = sent_header e (s_queue s') cause l'"
  let ?h = "resize h1 (16 + length pl1)"
  have run: "optimize_tag e t lip sip ip (h @ pl @ r, s, pr, sh, l) =
      Some (True, ?h @ header_bytes oh @ pl1 @ drop 16 r1, s', pr', sh, l'\<lparr>seqNo := seqNo l' + 1\<rparr>)"
    using s1(1) ht(1) x(1) p(1) add_header_ok [OF p(2) _ r1(2), of r1 e "s_queue s'" cause l'] r1(1)
    by (simp add: optimize_tag_def oh_def)
  have ok: "hdr_ok ?h t 6 (16 + length pl1)" "tcp_seq ?h t = tcp_seq h1 t" "tcp_flags ?h t = tcp_flags h1 t"
    using hdr_ok_resize [OF p(2), of "16 + length pl1"] r1(2) by simp_all
  have "hdr_ok ?h t 6 (length (header_bytes oh @ pl1))" "drop 16 r1 \<noteq> []" using ok(1) r1(1) by simp_all
  then obtain h2 where h2: "checksum (?h @ (header_bytes oh @ pl1) @ drop 16 r1) = Some (h2 @ (header_bytes oh @ pl1) @ drop 16 r1)"
    "hdr_ok h2 t 6 (length (header_bytes oh @ pl1))" "length h2 = length ?h" "tcp_seq h2 t = tcp_seq ?h t"
    "tcp_flags h2 t = tcp_flags ?h t" "\<forall>i. i < length ?h \<and> i \<notin> {10, 11, t + 16, t + 17} \<longrightarrow> h2 ! i = ?h ! i"
    by (rule checksum_segment)
  have k: "kept (volatile t) ht h2"
    using kept_trans [OF p(3) kept_trans [OF kept_resize kept_sumI [OF h2(3,6)]]] .
  have "\<forall>i<t + 20. i \<notin> insert (t + 12) (volatile t) \<longrightarrow> h2 ! i = h ! i"
    using kept_nth [OF k] ht(6) lt by (simp add: volatile_def)
  moreover have "oh_seqNo oh = seqNo l" "oh_opennopID oh = e_localID e" "oh_pattern oh = OPENNOP_PATTERN"
    "(oh_compression oh \<noteq> 0) = nc" "(oh_deduplication oh \<noteq> 0) = nd"
    using p(10-12) by (auto simp: oh_def sent_header_def)
  ultimately have wire: "on_wire e hist (dedupProcessor pr) t h pl (seqNo l) h2 oh pl1 nd nc"
    using h2(2,4,5) ok ht(4,5) p(5-7,9) tagged_kept [OF k ht(3) l(2)] by (simp add: on_wire_def)
  have "length (h2 @ header_bytes oh @ pl1 @ drop 16 r1) = BUFSIZE" using tot h2(3) r1(1) by simp
  then show ?thesis using run h2(1,3) wire p(6,8,10) ok(1,3) ht(5) l1 r1(1)
    by (intro exI [of _ ?h] exI [of _ oh] exI [of _ pl1] exI [of _ "drop 16 r1"] exI [of _ s'] exI [of _ pr']
        exI [of _ "l'\<lparr>seqNo := seqNo l' + 1\<rparr>"] exI [of _ nd] exI [of _ nc] exI [of _ h2]) simp
qed

section \<open>Both ends\<close>

lemma coded_same: "same_setup es er \<Longrightarrow> coded es hist fps pl nd nc pl1 = coded er hist fps pl nd nc pl1"
  by (simp add: coded_def same_setup_def)

lemma receive_wire:
  assumes e: "env_good er prr" and same: "same_setup es er"
    and st: "in_step (e_config es) hist pds (dedupProcessor prr)" and dis: "hash_distinct (set hist)"
    and h: "hdr_ok h t 5 (length pl)" and rc: "receives (e_localID er) lip sip ip s" and self: "e_localID es \<noteq> 0"
    and wire: "on_wire es hist pds t h pl n h2 oh pl1 nd nc"
    and len: "length pl \<le> MAX_PKT_SIZE (e_config es)" "length h + length pl + 20 < BUFSIZE"
    and rest: "length (h2 @ header_bytes oh @ pl1 @ rest) = BUFSIZE"
  shows "\<exists>h3 p3 h' r' s' prr'. strip_header t (h2 @ header_bytes oh @ pl1 @ rest) = Some (Some (oh, h3 @ p3)) \<and>
    tcp_flags h3 t = tcp_flags h t \<and> (\<forall>i<t + 20. i \<notin> insert (t + 12) (volatile t) \<longrightarrow> h3 ! i = h ! i) \<and> length h3 = t + 24 \<and>
    hdr_ok h3 t 6 (length pl1) \<and>
    deoptimize_payload er t lip sip ip oh (h3 @ p3, True, s, prr, sh) = Some (h' @ pl @ r', True, s', prr', sh) \<and>
    hdr_ok h' t 6 (length pl) \<and> tcp_seq h' t = tcp_seq h t \<and> tcp_flags h' t = tcp_flags h t \<and>
    (\<forall>i<t + 20. i \<notin> insert (t + 12) (volatile t) \<longrightarrow> h' ! i = h ! i) \<and>
    length (h' @ pl @ r') = BUFSIZE \<and> stored er hist pl (dedupProcessor prr) (dedupProcessor prr')"
proof -
  have w: "hdr_ok h2 t 6 (16 + length pl1)" "tagged 1 h2 t" "tcp_flags h2 t = tcp_flags h t"
    "tcp_seq h2 t = map_option (\<lambda>q. q + (if nd \<or> nc then 8000 else 0)) (tcp_seq h t)"
    "\<forall>i<t + 20. i \<notin> insert (t + 12) (volatile t) \<longrightarrow> h2 ! i = h ! i" "coded es hist (dd_fps pds) pl nd nc pl1"
    "oh_opennopID oh = e_localID es" "oh_pattern oh = OPENNOP_PATTERN"
    "(oh_compression oh \<noteq> 0) = nc" "(oh_deduplication oh \<noteq> 0) = nd"
    using wire by (simp_all add: on_wire_def)
  obtain h3 r3 where h3: "strip_header t (h2 @ header_bytes oh @ pl1 @ rest) = Some (Some (oh, h3 @ pl1 @ r3))"
    "hdr_ok h3 t 6 (length pl1)" "tagged 0 h3 t" "length r3 = length rest + 16" "tcp_seq h3 t = tcp_seq h2 t"
    "tcp_flags h3 t = tcp_flags h2 t" "\<forall>i<t + 20. i \<notin> volatile t \<longrightarrow> h3 ! i = h2 ! i"
    by (rule strip_header_ok [OF w(1,2,8)])
  have l: "length h = t + 20" "length h2 = t + 24" "length h3 = t + 24"
    using h w(2) h3(3) by (simp_all add: hdr_ok_def tagged_def)
  have lens: "length pl \<le> BUFSIZE" "length pl \<le> MAX_PKT_SIZE (e_config er)" "length h3 + length pl < 65136"
    "length pl \<le> length pl1 + length r3"
    using len rest l h3(4) same by (simp_all add: same_setup_def BUFSIZE_def)
  have st': "in_step (e_config er) hist pds (dedupProcessor prr)" using st same by (simp add: same_setup_def)
  have id: "oh_opennopID oh \<noteq> 0" using self w(7) by simp
  obtain x where x: "deoptimize_payload er t lip sip ip oh (h3 @ pl1 @ r3, True, s, prr, sh) = Some x"
    "receiver_post er hist t 6 h3 (length (h3 @ pl1 @ r3)) pl (nd \<or> nc) prr sh x"
    using deoptimize_payload_ok [OF e h3(2) st' dis w(6) [unfolded coded_same [OF same]] lens id w(9,10) rc] by blast
  obtain h' r' s' pr' where p: "x = (h' @ pl @ r', True, s', pr', sh)" "hdr_ok h' t 6 (length pl)" "kept (volatile t) h3 h'"
    "length (h' @ pl @ r') = length (h3 @ pl1 @ r3)" "tcp_flags h' t = tcp_flags h3 t"
    "tcp_seq h' t = map_option (\<lambda>q. q + (if nd \<or> nc then - 8000 else 0)) (tcp_seq h3 t)"
    "stored er hist pl (dedupProcessor prr) (dedupProcessor pr')"
    using x(2) unfolding receiver_post_def by blast
  have seq: "tcp_seq h' t = tcp_seq h t"
    using p(6) h3(5) w(4) by (cases "tcp_seq h t") (simp_all add: option.map_ident)
  have nth3: "\<forall>i<t + 20. i \<notin> insert (t + 12) (volatile t) \<longrightarrow> h3 ! i = h ! i" using h3(7) w(5) by simp
  then have "\<forall>i<t + 20. i \<notin> insert (t + 12) (volatile t) \<longrightarrow> h' ! i = h ! i" using kept_nth [OF p(3)] l by simp
  moreover have "length (h3 @ pl1 @ r3) = BUFSIZE" using rest h3(4) l by simp
  ultimately show ?thesis using h3(1,2,6) x(1) p seq nth3 w(3) l
    by (intro exI [of _ h3] exI [of _ "pl1 @ r3"] exI [of _ h'] exI [of _ r'] exI [of _ s'] exI [of _ pr']) simp
qed

end
