(* ===== verification/Worker_Link.thy ===== *)
theory Worker_Link
  imports Worker_Roundtrip
begin

text \<open>
  The round trip lifted to the per-packet steps of the two threads: from the buffer the sending
  worker takes from its queue to the bytes the receiving worker hands to the kernel.
\<close>

section \<open>Buffers\<close>

text \<open>The worker holds the buffer \<open>a\<close>, outside the pool, with the given contents.\<close>

definition worker_holds :: "w_shared \<Rightarrow> addr \<Rightarrow> bytes \<Rightarrow> addr option \<Rightarrow> u32 \<Rightarrow> bool" where
  "worker_holds w a p hq qid \<longleftrightarrow> (\<exists>as pk. queue_rep (mm_heap (w_mm w)) (freepacketbuffers (w_mm w)) as \<and> a \<notin> set as \<and>
     length as + 1 < 2 ^ 32 \<and> mm_heap (w_mm w) a = Some pk \<and> pkt_next pk = None \<and>
     pkt_data pk = p \<and> pkt_hq pk = hq \<and> pkt_id pk = qid)"

lemma give_back_ok:
  assumes "worker_holds w a p hq qid"
  shows "\<exists>w'. give_back a v w = Some w' \<and> w_verdicts w' = w_verdicts w @ [v] \<and> w_sessions w' = w_sessions w \<and> w_dicts w' = w_dicts w"
proof -
  obtain as where "queue_rep (mm_heap (w_mm w)) (freepacketbuffers (w_mm w)) as" "owned (mm_heap (w_mm w)) as a" "length as + 1 < 2 ^ 32"
    using assms by (auto simp: worker_holds_def owned_def)
  from queue_packet_ok [OF this] obtain q' h' where
    "queue_packet (freepacketbuffers (w_mm w)) (Some a) (mm_heap (w_mm w)) = Some (0, q', h')" by blast
  then show ?thesis by (simp add: give_back_def put_freepacket_buffer_def)
qed

lemma write_back_ok:
  assumes "worker_holds w a p hq qid"
  shows "\<exists>w'. write_back a p' w = Some w' \<and> worker_holds w' a p' hq qid \<and> w_verdicts w' = w_verdicts w \<and>
    w_sessions w' = w_sessions w \<and> w_dicts w' = w_dicts w"
proof -
  obtain as pk where as: "queue_rep (mm_heap (w_mm w)) (freepacketbuffers (w_mm w)) as" "a \<notin> set as" "length as + 1 < 2 ^ 32"
    "mm_heap (w_mm w) a = Some pk" "pkt_next pk = None" "pkt_hq pk = hq" "pkt_id pk = qid"
    using assms by (auto simp: worker_holds_def)
  let ?h = "(mm_heap (w_mm w))(a \<mapsto> pk\<lparr>pkt_data := p'\<rparr>)"
  have "queue_rep ?h (freepacketbuffers (w_mm w)) as"
    by (rule queue_rep_frame [OF as(1), of _ "{a}"]) (use as(2) in \<open>simp_all add: frame_def\<close>)
  then show ?thesis using as by (auto simp: write_back_def worker_holds_def)
qed

lemma deliver_ok:
  assumes "worker_holds w a p hq qid"
  obtains w1 w2 where "write_back a p' w = Some w1" "give_back a v w1 = Some w2" "w_verdicts w2 = w_verdicts w @ [v]"
    "w_sessions w2 = w_sessions w"
  using write_back_ok [OF assms, of p'] give_back_ok [of _ a p' hq qid v] by metis

lemma worker_holds_cong: "w_mm w' = w_mm w \<Longrightarrow> worker_holds w' a p hq qid = worker_holds w a p hq qid"
  by (simp add: worker_holds_def)

section \<open>Fields of a segment that both ends see\<close>

lemma load8_agree: "(\<forall>i<n. i \<notin> S \<longrightarrow> h' ! i = h ! i) \<Longrightarrow> i \<notin> S \<Longrightarrow> i < n \<Longrightarrow> n \<le> length h \<Longrightarrow> n \<le> length h' \<Longrightarrow>
    load8 (h' @ x) i = load8 (h @ y) i"
  by (simp add: load8_def nth_append)

lemma segment_fields_agree:
  assumes agree: "\<forall>i<t + 20. i \<notin> insert (t + 12) (volatile t) \<longrightarrow> h' ! i = h ! i"
    and len: "t + 20 \<le> length h" "t + 20 \<le> length h'" "20 \<le> t"
  shows "packet_key (h' @ x) t = packet_key (h @ y) t" and "ip_addrs (h' @ x) = ip_addrs (h @ y)"
proof -
  have l8: "load8 (h' @ x) i = load8 (h @ y) i" if "i < t + 20" "i \<notin> insert (t + 12) (volatile t)" for i
    using load8_agree [OF agree that(2,1) len(1,2)] .
  show ip: "ip_addrs (h' @ x) = ip_addrs (h @ y)"
    using len(3) by (simp add: ip_addrs_def load32_def l8 volatile_def)
  show "packet_key (h' @ x) t = packet_key (h @ y) t"
    using len(3) by (simp add: packet_key_def ip load16_def l8 volatile_def)
qed

lemma end_of_data_segment:
  assumes "tcp_flags p t = Some f" and "data_segment f" and "\<not> bit f TH_RST"
  shows "end_of_session t p a w = Some w"
  using assms by (simp add: end_of_session_def closingsession_def data_segment_def)

lemma bare_no_option: "hdr_ok h t 5 n \<Longrightarrow> get_tcp_option (h @ x) 32 = Some 0"
  using hdr_ok_fields(1,2) [of h t 5 n x]
  by (simp add: get_tcp_option_def get_opt_loop.simps get_opt_body_def opt_limit_ge)

lemma header_length: "hdr_ok h t d n \<Longrightarrow> getIPPlusTCPHeaderLength (h @ x) = Some (t + 4 * d)"
  using hdr_ok_fields(1,2) [of h t d n x] by (simp add: getIPPlusTCPHeaderLength_def)

section \<open>The sending step\<close>

lemma optimize_one_ok:
  assumes e: "env_good e pr" and snd: "sends (e_localID e) lip sip ip s" and h: "hdr_ok h t 5 (length pl)"
    and len: "length (h @ pl @ r) = BUFSIZE" "length h + length pl + 20 < BUFSIZE" "length pl \<le> MAX_PKT_SIZE (e_config e)"
    and rep: "pd_rep (e_config e) hist (dedupProcessor pr)"
    and buf: "worker_holds w a (h @ pl @ r) hq qid"
    and f: "tcp_flags h t = Some f" "data_segment f" "\<not> bit f TH_RST" and ip: "ip_addrs h = Some ip"
    and key: "packet_key h t = Some (lip, lport, sip, sport)"
    and sess: "getsession (w_sessions w) (lip, lport, sip, sport) = Some (Some sa)" "st_heap (w_sessions w) sa = Some s"
  shows "\<exists>h2 oh pl1 nd nc pr' l' w'. optimize_one e a (pr, l, w) = Some (pr', l', w') \<and>
    w_verdicts w' = w_verdicts w @ [Accepted hq qid (Some (h2 @ header_bytes oh @ pl1))] \<and>
    on_wire e hist (dedupProcessor pr) t h pl (seqNo l) h2 oh pl1 nd nc \<and> seqNo l' = seqNo l + 1 \<and>
    stored e hist pl (dedupProcessor pr) (dedupProcessor pr')"
proof -
  have l: "length h = t + 20" "20 \<le> t" using h by (auto simp: hdr_ok_def)
  let ?p = "h @ pl @ r"
  note fl = hdr_ok_fields [OF h, of "pl @ r"]
  obtain pk where pk: "mm_heap (w_mm w) a = Some pk" "pkt_data pk = ?p" "pkt_hq pk = hq" "pkt_id pk = qid"
    using buf by (auto simp: worker_holds_def)
  have ipk: "packet_key ?p t = Some (lip, lport, sip, sport)" "ip_addrs ?p = Some ip"
    using segment_fields_agree [of t h h "pl @ r" "[]"] l key ip by simp_all
  define pr0 where "pr0 = upd_metrics (\<lambda>m. m\<lparr>bytesin := bytesin m + of_nat (length h + length pl)\<rparr>) pr"
  have e0: "env_good e pr0" "pd_rep (e_config e) hist (dedupProcessor pr0)" "dedupProcessor pr0 = dedupProcessor pr"
    using e rep by (simp_all add: env_good_def pr0_def)
  obtain h1 oh pl1 r1 s' pr1 l1 nd nc h2 where
    o: "optimize_tag e t lip sip ip (?p, s, pr0, w_dicts w, l) = Some (True, h1 @ header_bytes oh @ pl1 @ r1, s', pr1, w_dicts w, l1)"
    "checksum (h1 @ header_bytes oh @ pl1 @ r1) = Some (h2 @ header_bytes oh @ pl1 @ r1)"
    "on_wire e hist (dedupProcessor pr0) t h pl (seqNo l) h2 oh pl1 nd nc" "seqNo l1 = seqNo l + 1"
    "tcp_flags h1 t = tcp_flags h t" "hdr_ok h1 t 6 (16 + length pl1)" "length h2 = t + 24"
    "stored e hist pl (dedupProcessor pr0) (dedupProcessor pr1)"
    using optimize_tag_ok [OF e0(1) snd h len e0(2), of "w_dicts w" l] by blast
  let ?q = "h2 @ header_bytes oh @ pl1" and ?w = "set_session sa s' w\<lparr>w_dicts := w_dicts w\<rparr>"
  have h2: "hdr_ok h2 t 6 (16 + length pl1)" using o(3) by (simp add: on_wire_def)
  have tot: "ip_tot_len (?q @ r1) = Some (length ?q)" "getIPPlusTCPHeaderLength (?q @ r1) = Some (t + 24)"
    using hdr_ok_fields(3) [OF h2] header_length [OF h2] by simp_all
  have ld: "load_bytes (?q @ r1) 0 (length ?q) = Some ?q" by (simp add: load_bytes_def)
  have eos: "end_of_session t (h1 @ header_bytes oh @ pl1 @ r1) sa ?w = Some ?w"
    by (rule end_of_data_segment [OF _ f(2,3)]) (simp add: hdr_ok_fields(7) [OF o(6)] o(5) f(1))
  have wh: "worker_holds ?w a ?p hq qid" using buf by (simp add: worker_holds_def set_session_def)
  obtain w1 w2 where w: "write_back a (?q @ r1) ?w = Some w1"
    "give_back a (Accepted hq qid (Some ?q)) w1 = Some w2" "w_verdicts w2 = w_verdicts ?w @ [Accepted hq qid (Some ?q)]"
    by (rule deliver_ok [OF wh])
  have ck: "checksum (h1 @ header_bytes oh @ pl1 @ r1) = Some (?q @ r1)" using o(2) by simp
  obtain pr2 where found: "optimize_found e t (t + 20) (lip, lport, sip, sport) a sa pk ?p (pr0, l, w) = Some (pr2, l1, w2)"
    and d2: "dedupProcessor pr2 = dedupProcessor pr1"
    using ipk(2) fl(7) f o(1) sess(2) eos ck tot ld w(1,2) pk(3,4)
    by (simp add: optimize_found_def del: append_assoc)
  have "optimize_one e a (pr, l, w) = Some (upd_metrics (\<lambda>m. m\<lparr>packets := packets m + 1\<rparr>) pr2, l1, w2)"
    using pk(1,2) fl(1,3) header_length [OF h] bare_no_option [OF h] ipk(1) sess(1) found
    by (simp add: optimize_one_def pr0_def)
  then show ?thesis using w(3) o(3,4,8) e0(3) d2 by (simp add: set_session_def) blast
qed

section \<open>The receiving step\<close>

lemma deoptimize_one_ok:
  assumes e: "env_good er prr" and same: "same_setup es er"
    and st: "in_step (e_config es) hist pds (dedupProcessor prr)" and dis: "hash_distinct (set hist)"
    and h: "hdr_ok h t 5 (length pl)" and rc: "receives (e_localID er) lip sip ip s" and self: "e_localID es \<noteq> 0"
    and wire: "on_wire es hist pds t h pl n h2 oh pl1 nd nc"
    and len: "length pl \<le> MAX_PKT_SIZE (e_config es)" "length h + length pl + 20 < BUFSIZE"
    and rest: "length (h2 @ header_bytes oh @ pl1 @ rest) = BUFSIZE"
    and buf: "worker_holds w a (h2 @ header_bytes oh @ pl1 @ rest) hq qid"
    and f: "tcp_flags h t = Some f" "data_segment f" "\<not> bit f TH_RST" and ip: "ip_addrs h = Some ip"
    and key: "packet_key h t = Some (lip, lport, sip, sport)"
    and sess: "getsession (w_sessions w) (lip, lport, sip, sport) = Some (Some sa)" "st_heap (w_sessions w) sa = Some s"
  shows "\<exists>h' prr' w'. deoptimize_one er a (prr, x, w) = Some (True, prr', n + 1, w') \<and>
    w_verdicts w' = w_verdicts w @ [Accepted hq qid (Some (h' @ pl))] \<and>
    hdr_ok h' t 6 (length pl) \<and> tcp_seq h' t = tcp_seq h t \<and> tcp_flags h' t = tcp_flags h t \<and>
    (\<forall>i<t + 20. i \<notin> insert (t + 12) (volatile t) \<longrightarrow> h' ! i = h ! i) \<and>
    stored er hist pl (dedupProcessor prr) (dedupProcessor prr')"
proof -
  have l: "length h = t + 20" "20 \<le> t" using h by (auto simp: hdr_ok_def)
  let ?p = "h2 @ header_bytes oh @ pl1 @ rest"
  have w2: "hdr_ok h2 t 6 (16 + length pl1)" "oh_seqNo oh = n" using wire by (simp_all add: on_wire_def)
  note fl = hdr_ok_fields [OF w2(1), of "header_bytes oh @ pl1 @ rest"]
  obtain pk where pk: "mm_heap (w_mm w) a = Some pk" "pkt_data pk = ?p" "pkt_hq pk = hq" "pkt_id pk = qid"
    using buf by (auto simp: worker_holds_def)
  define pr0 where "pr0 = snd (check_seqNo n x (upd_metrics (\<lambda>m. m\<lparr>bytesin := bytesin m + of_nat (length h2 + (16 + length pl1))\<rparr>) prr))"
  have cs: "check_seqNo n x (upd_metrics (\<lambda>m. m\<lparr>bytesin := bytesin m + of_nat (length h2 + (16 + length pl1))\<rparr>) prr) = (n + 1, pr0)"
    by (simp add: pr0_def check_seqNo_def)
  have d0: "dedupProcessor pr0 = dedupProcessor prr" "lzbuffer pr0 = lzbuffer prr" "dedup_buffer pr0 = dedup_buffer prr"
    by (simp_all add: pr0_def check_seqNo_def)
  have e0: "env_good er pr0" "in_step (e_config es) hist pds (dedupProcessor pr0)"
    using e st d0 by (simp_all add: env_good_def)
  obtain h3 p3 h' r' s' pr1 where
    r: "strip_header t ?p = Some (Some (oh, h3 @ p3))" "tcp_flags h3 t = tcp_flags h t"
    "\<forall>i<t + 20. i \<notin> insert (t + 12) (volatile t) \<longrightarrow> h3 ! i = h ! i" "length h3 = t + 24" "hdr_ok h3 t 6 (length pl1)"
    "deoptimize_payload er t lip sip ip oh (h3 @ p3, True, s, pr0, w_dicts w) = Some (h' @ pl @ r', True, s', pr1, w_dicts w)"
    "hdr_ok h' t 6 (length pl)" "tcp_seq h' t = tcp_seq h t" "tcp_flags h' t = tcp_flags h t"
    "\<forall>i<t + 20. i \<notin> insert (t + 12) (volatile t) \<longrightarrow> h' ! i = h ! i"
    "length (h' @ pl @ r') = BUFSIZE" "stored er hist pl (dedupProcessor pr0) (dedupProcessor pr1)"
    using receive_wire [OF e0(1) same e0(2) dis h rc self wire len rest, of "w_dicts w"] by blast
  have ipk: "packet_key (h3 @ p3) t = Some (lip, lport, sip, sport)" "ip_addrs (h3 @ p3) = Some ip"
    using segment_fields_agree [OF r(3), of p3 "[]"] l r(4) key ip by simp_all
  let ?w = "set_session sa s' w\<lparr>w_dicts := w_dicts w\<rparr>"
  have l': "length h' = t + 24" using r(7) by (simp add: hdr_ok_def)
  have "r' \<noteq> []" using r(11) l' len(2) l(1) by auto
  then obtain h4 where h4: "checksum (h' @ pl @ r') = Some (h4 @ pl @ r')" "hdr_ok h4 t 6 (length pl)" "length h4 = length h'"
    "tcp_seq h4 t = tcp_seq h' t" "tcp_flags h4 t = tcp_flags h' t"
    "\<forall>i. i < length h' \<and> i \<notin> {10, 11, t + 16, t + 17} \<longrightarrow> h4 ! i = h' ! i"
    by (rule checksum_segment [OF r(7)])
  let ?q = "h4 @ pl"
  have tot: "ip_tot_len (?q @ r') = Some (length ?q)" "getIPPlusTCPHeaderLength (?q @ r') = Some (t + 24)"
    using hdr_ok_fields(3) [OF h4(2)] header_length [OF h4(2)] by simp_all
  have ld: "load_bytes (?q @ r') 0 (length ?q) = Some ?q" by (simp add: load_bytes_def)
  have eos: "end_of_session t (h' @ pl @ r') sa ?w = Some ?w"
    by (rule end_of_data_segment [OF _ f(2,3)]) (simp add: hdr_ok_fields(7) [OF r(7)] r(9) f(1))
  have wh: "worker_holds ?w a ?p hq qid" using buf by (simp add: worker_holds_def set_session_def)
  obtain w1 w3 where w: "write_back a (?q @ r') ?w = Some w1"
    "give_back a (Accepted hq qid (Some ?q)) w1 = Some w3" "w_verdicts w3 = w_verdicts ?w @ [Accepted hq qid (Some ?q)]"
    by (rule deliver_ok [OF wh])
  have ck: "checksum (h' @ pl @ r') = Some (?q @ r')" using h4(1) by simp
  have fl3: "tcp_flags (h3 @ p3) t = Some f" using hdr_ok_fields(7) [OF r(5)] r(2) f(1) by simp
  obtain pr2 where found: "deoptimize_found er t (t + 24) (lip, lport, sip, sport) a sa pk oh (h3 @ p3) (pr0, w) = Some (pr2, w3)"
    and d2: "dedupProcessor pr2 = dedupProcessor pr1"
    using ipk(2) fl3 f(2) r(6) sess(2) eos ck tot ld w(1,2) pk(3,4)
    by (simp add: deoptimize_found_def del: append_assoc)
  have "deoptimize_one er a (prr, x, w) = Some (True, upd_metrics (\<lambda>m. m\<lparr>packets := packets m + 1\<rparr>) pr2, n + 1, w3)"
    using pk(1,2) fl(1,3) header_length [OF w2(1)] r(1) w2(2) cs ipk(1) sess(1) found
    by (simp add: deoptimize_one_def)
  moreover have "\<forall>i<t + 20. i \<notin> insert (t + 12) (volatile t) \<longrightarrow> h4 ! i = h ! i"
    using r(10) h4(6) l' by (simp add: volatile_def)
  ultimately show ?thesis using w(3) h4 r(8,9,12) d0(1) d2 by (simp add: set_session_def)
qed

section \<open>The link\<close>


section \<open>Packets that cannot be decoded\<close>


section \<open>Flags of packets that are not accelerated\<close>

text \<open>The accelerator header of a packet that was not accelerated carries the flags of an earlier
  packet.  When the session check fails, the data is not changed, but the header says compressed
  or deduplicated exactly when the last accelerated packet of this thread was, because the
  counters are only reset on the other branch.
\<close>

theorem unaccelerated_header_is_stale:
  assumes "\<not> accelerate (e_localID e) lip sip ip s" and "\<not> e_deduplication e" and "hdr_ok h t d (length pl)"
    and "16 \<le> length r" and "length h + length pl + 16 < 65536"
  shows "\<exists>h' oh. (do {
      (p, s, pr, sh, l, cause) \<leftarrow> optimize_payload e t lip sip ip (h @ pl @ r, s, pr, sh, l, NOT_RELEVANT);
      (p, l) \<leftarrow> add_header e t (s_queue s) cause p l;
      Some p }) = Some (h' @ header_bytes oh @ pl @ drop 16 r) \<and>
    (oh_compression oh \<noteq> 0) = (redEl l \<noteq> 0 \<or> redElComp l \<noteq> 0) \<and> (oh_deduplication oh \<noteq> 0) = (redElDedup l \<noteq> 0)"
proof -
  have "optimize_payload e t lip sip ip (h @ pl @ r, s, pr, sh, l, NOT_RELEVANT) = Some (h @ pl @ r, s, pr, sh, l, SESSION_CHECK)"
    using assms(1,2) by (simp add: optimize_payload_def)
  then show ?thesis using add_header_ok [OF assms(3-5), of e "s_queue s" SESSION_CHECK l]
    by (intro exI [of _ "resize h (16 + length pl)"] exI [of _ "sent_header e (s_queue s) SESSION_CHECK l"])
      (simp add: sent_header_def)
qed

section \<open>A concrete link\<close>

definition link_env :: "u32 \<Rightarrow> w_env" where
  "link_env self = \<lparr>e_compression = True, e_deduplication = True, e_packetPipeline = False, e_localID = self,
     e_config = demo_config, e_qlz = demo_qlz, e_dlz = demo_dlz, e_status = \<lparr>us_code = UNCOMP_OK, us_fp = 0, us_hash = 0\<rparr>\<rparr>"

definition link_processor :: "uninit \<Rightarrow> processor" where
  "link_processor u = \<lparr>metrics = \<lparr>packets = 0, packetsprevious = 0, pps = 0, bytesin = 0, bytesinprevious = 0, bpsin = 0,
       bytesout = 0, bytesoutprevious = 0, bpsout = 0, diffBytesCompression = 0, diffBytesDeduplication = 0,
       diffBytesIpTcpHeader = 0, packetsWithOnlyCompression = 0, packetsWithOnlyDeduplication = 0,
       packetsWithBothCompressionAndDeduplication = 0, sequenceGaps = 0\<rparr>,
     pr_queue = empty_head, dedupProcessor = newDeduplicator demo_config u,
     lzbuffer = Some (replicate (BUFSIZE + 400) 0), dedup_buffer = Some (replicate (2 * BUFSIZE + 400) 0)\<rparr>"

definition link_session :: "u32 \<Rightarrow> session" where
  "link_session acc = zero_session\<lparr>largerIP := 0x0200000a, largerIPPort := 0x5000, smallerIP := 0x0100000a, smallerIPPort := 0xa00f,
     largerIPAccelerator := acc, s_state := TCP_ESTABLISHED\<rparr>"

definition link_shared :: "session \<Rightarrow> addr \<Rightarrow> bytes \<Rightarrow> w_shared" where
  "link_shared s a p = \<lparr>w_sessions = \<lparr>sessiontable = (\<lambda>i. \<lparr>hd_next = Some 1, hd_prev = Some 1, hd_qlen = 1\<rparr>),
       st_heap = [1 \<mapsto> s], worker_sessions = [1], numworkers = 1\<rparr>,
     w_dicts = initDictionary demo_config zero_memory zero_memory,
     w_mm = \<lparr>allocatedpacketbuffers = 1, freepacketbuffers = empty_head, mm_heap = [a \<mapsto> zero_packet\<lparr>pkt_id := 9, pkt_data := p\<rparr>], mm_wakeups = 0\<rparr>,
     w_verdicts = []\<rparr>"

definition link_locals :: opt_locals where
  "link_locals = \<lparr>redEl = 0, redElComp = 0, redElDedup = 0, seqNo = 0\<rparr>"

lemma link_env_good: "env_good (link_env self) (link_processor u)"
  using demo_config_ok demo_qlz_ok demo_qlz_nonempty
  by (simp add: env_good_def link_env_def link_processor_def BUFSIZE_def)

lemma link_in_step: "in_step demo_config [] (newDeduplicator demo_config u) (newDeduplicator demo_config v)"
  using newDeduplicator_rep [of demo_config] abs_new_fps by (simp add: in_step_def newDeduplicator_def [of demo_config])

lemma link_holds: "worker_holds (link_shared s a p) a p None 9"
  by (simp add: worker_holds_def link_shared_def zero_packet_def exI [of _ "[]"])

lemma link_getsession:
  "session_key s = k \<Longrightarrow> getsession (w_sessions (link_shared s a p)) k = Some (Some 1)"
  by (simp add: getsession_def link_shared_def find_from.simps)

lemma link_head:
  "ip_addrs (demo_head 90) = Some \<lparr>ip_saddr = 0x0100000a, ip_daddr = 0x0200000a\<rparr>"
  "packet_key (demo_head 90) 20 = Some (0x0200000a, 0x5000, 0x0100000a, 0xa00f)"
  "tcp_flags (demo_head 90) 20 = Some 0x18" "data_segment 0x18" "\<not> bit (0x18 :: u8) TH_RST" "length (demo_head 90) = 40"
  by code_simp+


lemma empty_head_fields:
  "ip_addrs (demo_head 0) = Some \<lparr>ip_saddr = 0x0100000a, ip_daddr = 0x0200000a\<rparr>" "tcp_flags (demo_head 0) 20 = Some 0x18"
  by code_simp+

definition dedup_only :: w_env where
  "dedup_only = (link_env 2)\<lparr>e_compression := False\<rparr>"

definition flagged :: OpennopHeader where
  "flagged = \<lparr>oh_seqNo = 0, oh_opennopID = 1, oh_compression = 0, oh_deduplication = 1, oh_reason = 0, oh_queuenum = 0,
     oh_pattern = OPENNOP_PATTERN\<rparr>"


theorem unaccelerated_header_is_stale_witness:
  "\<exists>h' oh. (do {
      (p, s, pr, sh, l, cause) \<leftarrow> optimize_payload ((link_env 1)\<lparr>e_deduplication := False\<rparr>) 20 0x0200000a 0x0100000a
        \<lparr>ip_saddr = 0x0100000a, ip_daddr = 0x0200000a\<rparr>
        (demo_head 3 @ [104, 105, 33] @ replicate 30 0, zero_session, link_processor zero_memory,
         initDictionary demo_config zero_memory zero_memory, link_locals\<lparr>redEl := 5\<rparr>, NOT_RELEVANT);
      (p, l) \<leftarrow> add_header ((link_env 1)\<lparr>e_deduplication := False\<rparr>) 20 (s_queue s) cause p l;
      Some p }) = Some (h' @ header_bytes oh @ [104, 105, 33] @ drop 16 (replicate 30 0)) \<and>
    (oh_compression oh \<noteq> 0) = (redEl (link_locals\<lparr>redEl := 5\<rparr>) \<noteq> 0 \<or> redElComp (link_locals\<lparr>redEl := 5\<rparr>) \<noteq> 0) \<and>
    (oh_deduplication oh \<noteq> 0) = (redElDedup (link_locals\<lparr>redEl := 5\<rparr>) \<noteq> 0)"
proof -
  have h: "hdr_ok (demo_head 3) 20 5 (length [104, 105, 33 :: u8])"
    using demo_head_ok [of 3] by (simp add: numeral_3_eq_3)
  show ?thesis
    by (rule unaccelerated_header_is_stale [OF _ _ h])
      (simp_all add: accelerate_def link_env_def zero_session_def TCP_ESTABLISHED_def demo_head_def bare_head_def)
qed

end
