(* ===== verification/Daemon.thy ===== *)
theory Daemon
  imports Session_Invariant Packet_Flow Worker_Link
begin

text \<open>
  The daemon as a whole (\<open>opennopd/opennopd.c\<close>): start-up, and the steps its threads take on the state
  they share.  A step is one packet for the fetcher or a worker, one bucket for the cleanup thread,
  one iteration for the memory manager.  Steps are atomic: each thread takes the locks of what it
  changes, and the fetcher is the only thread that takes buffers from the pool.
\<close>

section \<open>State\<close>

record daemon =
  d_sessions :: session_state
  d_dicts :: shared_dictionaries
  d_mm :: mm_state
  d_staging :: list_head
  d_workers :: "worker list"
  d_olocals :: "nat \<Rightarrow> opt_locals"
  d_seqNos :: "nat \<Rightarrow> u32"
  d_metrics :: fetchercounters
  d_verdicts :: "verdict list"
  d_sent :: "datagram list"

text \<open>What the fetcher and a worker see of it, and the state after their step.\<close>

definition fetch_view :: "daemon \<Rightarrow> f_state" where
  "fetch_view d = \<lparr>f_sessions = d_sessions d, f_mm = d_mm d, f_workers = d_workers d, f_metrics = d_metrics d,
     f_verdicts = d_verdicts d\<rparr>"

definition after_fetch :: "f_state \<Rightarrow> daemon \<Rightarrow> daemon" where
  "after_fetch s d = d\<lparr>d_sessions := f_sessions s, d_mm := f_mm s, d_workers := f_workers s, d_metrics := f_metrics s,
     d_verdicts := f_verdicts s\<rparr>"

definition work_view :: "daemon \<Rightarrow> w_shared" where
  "work_view d = \<lparr>w_sessions = d_sessions d, w_dicts = d_dicts d, w_mm = d_mm d, w_verdicts = d_verdicts d\<rparr>"

definition after_work :: "w_shared \<Rightarrow> daemon \<Rightarrow> daemon" where
  "after_work w d = d\<lparr>d_sessions := w_sessions w, d_dicts := w_dicts w, d_mm := w_mm w, d_verdicts := w_verdicts w\<rparr>"

section \<open>Start-up\<close>

text \<open>
  The static variables start as zero.  The session table is initialised, the number of workers is
  taken from the configuration unless it is set already, and the workers are created.
\<close>

definition zero_sessions :: session_state where
  "zero_sessions = \<lparr>sessiontable = (\<lambda>i. \<lparr>hd_next = None, hd_prev = None, hd_qlen = 0\<rparr>), st_heap = Map.empty,
     worker_sessions = replicate MAXWORKERS 0, numworkers = 0\<rparr>"

definition start_workers ::
    "config \<Rightarrow> (nat \<Rightarrow> uninit) \<Rightarrow> (nat \<Rightarrow> uninit) \<Rightarrow> u32 \<Rightarrow> worker list \<times> session_state \<Rightarrow> (worker list \<times> session_state) option" where
  "start_workers c u v thr_num = (\<lambda>(ws, st). (
     let st = initialize_sessiontable st;
         st = (if get_workers st = 0 then set_workers (ucast thr_num) st else st) in
     create_workers c u v (ws, st)))"

text \<open>
  The state when all threads run: the static array of workers is \<open>ws\<close>, the memory of the dictionaries is
  uninitialised, and the memory manager has filled the pool before the first packet arrives.
\<close>

definition zero_mm :: mm_state where
  "zero_mm = \<lparr>allocatedpacketbuffers = 0, freepacketbuffers = \<lparr>hd_next = None, hd_prev = None, hd_qlen = 0\<rparr>,
     mm_heap = Map.empty, mm_wakeups = 0\<rparr>"

definition zero_fetcher :: fetchercounters where
  "zero_fetcher = \<lparr>f_packets = 0, f_packetsprevious = 0, f_pps = 0, f_bytesin = 0, f_bytesinprevious = 0, f_bpsin = 0\<rparr>"

record start_env =
  se_config :: config
  se_memory :: "nat \<Rightarrow> uninit"
  se_thr_num :: u32
  se_alloc :: "packet_heap \<Rightarrow> addr option"
  se_staging :: list_head
  se_locals :: "nat \<Rightarrow> opt_locals"
  se_workers :: "worker list"

definition start_daemon :: "start_env \<Rightarrow> daemon option" where
  "start_daemon x = do {
     (ws, st) \<leftarrow> start_workers (se_config x) (\<lambda>i. se_memory x (2 * i)) (\<lambda>i. se_memory x (2 * i + 1)) (se_thr_num x)
       (se_workers x, zero_sessions);
     (staging, mm) \<leftarrow> memorymanager_init (se_alloc x) (se_staging x) zero_mm;
     Some \<lparr>d_sessions = st, d_dicts = initDictionary (se_config x) (se_memory x 0) (se_memory x 1), d_mm = mm, d_staging = staging,
       d_workers = ws, d_olocals = (\<lambda>i. (se_locals x i)\<lparr>seqNo := 0\<rparr>), d_seqNos = (\<lambda>i. 0), d_metrics = zero_fetcher,
       d_verdicts = [], d_sent = []\<rparr> }"

section \<open>Steps\<close>

text \<open>There is memory left.\<close>

definition has_room :: "daemon \<Rightarrow> bool" where
  "has_room d \<longleftrightarrow> card (dom (st_heap (d_sessions d))) + 1 < 2 ^ 32 \<and> card (dom (mm_heap (d_mm d))) + 2 < 2 ^ 32"

definition set_optimizer :: "nat \<Rightarrow> processor \<Rightarrow> daemon \<Rightarrow> daemon" where
  "set_optimizer i pr d = d\<lparr>d_workers := (d_workers d)[i := (d_workers d ! i)\<lparr>optimization := pr\<rparr>]\<rparr>"

definition set_deoptimizer :: "nat \<Rightarrow> processor \<Rightarrow> daemon \<Rightarrow> daemon" where
  "set_deoptimizer i pr d = d\<lparr>d_workers := (d_workers d)[i := (d_workers d ! i)\<lparr>deoptimization := pr\<rparr>]\<rparr>"

text \<open>Each step comes with the packets it has taken over from the kernel.\<close>

inductive daemon_step :: "daemon \<Rightarrow> ticket list \<Rightarrow> daemon \<Rightarrow> bool" where
  fetch: "daemon_step d [(fp_hq fp, fp_id fp)] (after_fetch s d)"
    if "fetcher_callback e fp (fetch_view d) = Some s" "fe_others e = (\<lambda>x. x)"
      "fresh_alloc (fe_salloc e)" "fresh_buffers (fe_alloc e)" "has_room d"
| optimize: "daemon_step d [] (set_optimizer i pr (after_work w (d\<lparr>d_olocals := (d_olocals d)(i := l)\<rparr>)))"
    if "i < length (d_workers d)" "has_room d"
      "optimization_round e (\<lambda>x. x) (optimization (d_workers d ! i), d_olocals d i, work_view d) = Some (pr, l, w)"
| deoptimize: "daemon_step d [] (set_deoptimizer i pr (after_work w (d\<lparr>d_seqNos := (d_seqNos d)(i := n)\<rparr>)))"
    if "i < length (d_workers d)" "has_room d"
      "deoptimization_round e (\<lambda>x. x) (deoptimization (d_workers d ! i), d_seqNos d i, work_view d) = Some (go, pr, n, w)"
| cleanup: "daemon_step d [] (d\<lparr>d_sessions := st, d_sent := d_sent d @ ds\<rparr>)"
    if "cleanuplist localID tv b (d_sessions d) = Some (st, ds)"
| manage: "daemon_step d [] (d\<lparr>d_staging := staging, d_mm := mm\<rparr>)"
    if "memorymanager_iter alloc (\<lambda>x. x) (d_staging d, d_mm d) = Some (staging, mm)"
      "alloc_ok N alloc" "card (dom (mm_heap (d_mm d))) + packetbufferstoallocate \<le> N" "N < 2 ^ 32"

text \<open>Runs, with the packets taken over on the way.\<close>

inductive daemon_run :: "daemon \<Rightarrow> ticket list \<Rightarrow> daemon \<Rightarrow> bool" where
  stay: "daemon_run d [] d"
| step: "daemon_run d (ts @ us) d''" if "daemon_run d ts d'" "daemon_step d' us d''"

section \<open>The session table\<close>

lemma optimization_round_sessions:
  assumes ok: "sessions_ok (w_sessions w)" and r: "optimization_round e f (pr, l, w) = Some (pr', l', w')"
  shows "sessions_ok (w_sessions w')"
proof -
  obtain y where y: "dequeue_packet f True (pr_queue pr) (mm_heap (w_mm w)) = Some y"
    using r by (auto simp: optimization_round_def bind_eq_Some_conv)
  obtain x q h where y': "y = (x, q, h)" by (cases y)
  let ?w = "w\<lparr>w_mm := (w_mm w)\<lparr>mm_heap := h\<rparr>\<rparr>"
  note rest = r [unfolded optimization_round_def prod.case y y' Option.bind.simps Let_def]
  show ?thesis
  proof (cases "e_compression e \<or> e_deduplication e \<or> e_packetPipeline e")
    case True
    have "sessions_ok (w_sessions ?w)" using ok by simp
    then show ?thesis using rest True optimize_one_sessions [of ?w] by (cases x) auto
  next
    case False
    then have "w_sessions w' = w_sessions w" using rest by (auto simp: bind_eq_Some_conv dest!: give_back_sessions)
    then show ?thesis using ok by simp
  qed
qed

lemma deoptimization_round_sessions:
  assumes ok: "sessions_ok (w_sessions w)" and r: "deoptimization_round e f (pr, n, w) = Some (go, pr', n', w')"
  shows "sessions_ok (w_sessions w')"
proof -
  obtain y where y: "dequeue_packet f True (pr_queue pr) (mm_heap (w_mm w)) = Some y"
    using r by (auto simp: deoptimization_round_def bind_eq_Some_conv)
  obtain x q h where y': "y = (x, q, h)" by (cases y)
  let ?w = "w\<lparr>w_mm := (w_mm w)\<lparr>mm_heap := h\<rparr>\<rparr>"
  note rest = r [unfolded deoptimization_round_def prod.case y y' Option.bind.simps Let_def]
  have "sessions_ok (w_sessions ?w)" using ok by simp
  then show ?thesis using rest deoptimize_one_sessions [of ?w] by (cases x) auto
qed

lemma daemon_step_sessions: "daemon_step d ts d' \<Longrightarrow> sessions_ok (d_sessions d) \<Longrightarrow> sessions_ok (d_sessions d')"
proof (induction rule: daemon_step.induct)
  case (fetch e fp d s)
  then show ?case using fetcher_callback_sessions [OF _ fetch(3) _ fetch(1)]
    by (simp add: after_fetch_def fetch_view_def has_room_def)
next
  case (optimize i d e pr l w)
  then show ?case using optimization_round_sessions [OF _ optimize(3)]
    by (simp add: set_optimizer_def after_work_def work_view_def)
next
  case (deoptimize i d e go pr n w)
  then show ?case using deoptimization_round_sessions [OF _ deoptimize(3)]
    by (simp add: set_deoptimizer_def after_work_def work_view_def)
next
  case (cleanup localID tv b d st ds)
  then show ?case using cleanuplist_sessions_ok [of "d_sessions d" localID tv b] by simp
qed simp

lemma daemon_run_sessions: "daemon_run d ts d' \<Longrightarrow> sessions_ok (d_sessions d) \<Longrightarrow> sessions_ok (d_sessions d')"
  by (induction rule: daemon_run.induct) (auto intro: daemon_step_sessions)

text \<open>The table of a daemon that has just started.\<close>

lemma replicate_update_same: "(replicate n x)[i := x] = replicate n x"
  by (cases "i < n") (simp_all add: list_update_same_conv list_update_beyond)

lemma start_workers_eq:
  assumes "start_workers c u v n (ws, zero_sessions) = Some (ws', st)"
  shows "st = zero_sessions\<lparr>numworkers := ucast n\<rparr>" and "length ws' = length ws"
proof -
  let ?st = "zero_sessions\<lparr>numworkers := ucast n\<rparr>"
  define I where "I = (\<lambda>(ks :: worker list, st). st = ?st \<and> length ks = length ws)"
  have "I (ws', st)"
  proof (rule foldM_keeps [where I = I])
    show "foldM (\<lambda>i. create_worker c (u i) (v i) i) [0..<unat (get_workers ?st)] (ws, ?st) = Some (ws', st)"
      using assms by (simp add: start_workers_def create_workers_def initialize_sessiontable_def zero_sessions_def
          get_workers_def set_workers_def Let_def)
    show "I (ws, ?st)" by (simp add: I_def)
    fix i and x y :: "worker list \<times> session_state"
    assume "create_worker c (u i) (v i) i x = Some y" "I x"
    then show "I y"
      by (auto simp: I_def create_worker_def upd_worker_def bind_eq_Some_conv zero_sessions_def replicate_update_same split: if_splits)
  qed
  then show "st = ?st" "length ws' = length ws" by (simp_all add: I_def)
qed

lemma start_workers_ok:
  assumes "start_workers c u v n (ws, zero_sessions) = Some (ws', st)"
  shows "sessions_ok st"
proof -
  have "table_ok st (\<lambda>i. [])" unfolding start_workers_eq(1) [OF assms]
    by (simp add: table_ok_def zero_sessions_def bucket_ok_def head_ok_def counters_ok_def assigned_def)
  then show ?thesis unfolding start_workers_eq(1) [OF assms] sessions_ok_def
    by (auto simp: unique_keys_def zero_sessions_def)
qed


section \<open>Packets are neither lost nor duplicated\<close>

text \<open>
  Every buffer is in one place.  The lists are a function of the state: following the queue from its
  head.
\<close>

definition daemon_buffers :: "daemon \<Rightarrow> (place \<Rightarrow> addr list) \<Rightarrow> bool" where
  "daemon_buffers d L \<longleftrightarrow> buffers_ok (places (length (d_workers d))) (mm_heap (d_mm d)) (heads_of (d_mm d) (d_workers d)) L \<and>
     hd_qlen (d_staging d) = 0"

abbreviation daemon_accounted :: "daemon \<Rightarrow> (place \<Rightarrow> addr list) \<Rightarrow> ticket multiset" where
  "daemon_accounted d L \<equiv> accounted (d_verdicts d) (mm_heap (d_mm d)) L"

lemma daemon_step_accounted:
  "daemon_step d ts d' \<Longrightarrow> daemon_buffers d L \<Longrightarrow>
   \<exists>L'. daemon_buffers d' L' \<and> daemon_accounted d' L' = daemon_accounted d L + mset ts"
proof (induction rule: daemon_step.induct)
  case (fetch e fp d s)
  let ?s = "fetch_view d"
  have "flow_ok ?s L" "card (dom (mm_heap (f_mm ?s))) + 2 < 2 ^ 32" using fetch by (simp_all add: flow_ok_def fetch_view_def daemon_buffers_def has_room_def)
  from fetcher_callback_accounted [OF this(1) fetch(2,4) this(2) fetch(1)] obtain L' where
    "flow_ok s L'" "accounted (f_verdicts s) (mm_heap (f_mm s)) L' = add_mset (fp_hq fp, fp_id fp) (accounted (f_verdicts ?s) (mm_heap (f_mm ?s)) L)"
    by blast
  then show ?case using fetch(6)
    by (intro exI [of _ L']) (simp add: daemon_buffers_def flow_ok_def after_fetch_def fetch_view_def)
next
  case (optimize i d e pr l w)
  let ?Q = "heads_of (d_mm d) (d_workers d)" and ?P = "places (length (d_workers d))"
  have ok: "buffers_ok ?P (mm_heap (w_mm (work_view d))) ?Q L" "card (dom (mm_heap (w_mm (work_view d)))) + 1 < 2 ^ 32"
    using optimize by (simp_all add: daemon_buffers_def work_view_def has_room_def)
  obtain L' where L': "buffers_ok ?P (mm_heap (w_mm w)) (?Q(Opt i := pr_queue pr, Pool := freepacketbuffers (w_mm w))) L'"
    "accounted (w_verdicts w) (mm_heap (w_mm w)) L' = daemon_accounted d L"
    using optimization_round_flow [OF ok(1) _ _ _ _ _ ok(2) optimize(3), of "Opt i"] optimize(1) by (auto simp: work_view_def)
  let ?ws = "(d_workers d)[i := (d_workers d ! i)\<lparr>optimization := pr\<rparr>]"
  have "heads_of (w_mm w) ?ws x = (?Q(Opt i := pr_queue pr, Pool := freepacketbuffers (w_mm w))) x" if "x \<in> ?P" for x
    using that optimize(1) by (cases x) (auto simp: nth_list_update)
  then have "buffers_ok ?P (mm_heap (w_mm w)) (heads_of (w_mm w) ?ws) L'" by (rule iffD2 [OF buffers_ok_cong L'(1)])
  then show ?case using L'(2) optimize(4)
    by (intro exI [of _ L']) (simp add: daemon_buffers_def set_optimizer_def after_work_def)
next
  case (deoptimize i d e go pr n w)
  let ?Q = "heads_of (d_mm d) (d_workers d)" and ?P = "places (length (d_workers d))"
  have ok: "buffers_ok ?P (mm_heap (w_mm (work_view d))) ?Q L" "card (dom (mm_heap (w_mm (work_view d)))) + 1 < 2 ^ 32"
    using deoptimize by (simp_all add: daemon_buffers_def work_view_def has_room_def)
  obtain L' where L': "buffers_ok ?P (mm_heap (w_mm w)) (?Q(Deopt i := pr_queue pr, Pool := freepacketbuffers (w_mm w))) L'"
    "accounted (w_verdicts w) (mm_heap (w_mm w)) L' = daemon_accounted d L"
    using deoptimization_round_flow [OF ok(1) _ _ _ _ _ ok(2) deoptimize(3), of "Deopt i"] deoptimize(1) by (auto simp: work_view_def)
  let ?ws = "(d_workers d)[i := (d_workers d ! i)\<lparr>deoptimization := pr\<rparr>]"
  have "heads_of (w_mm w) ?ws x = (?Q(Deopt i := pr_queue pr, Pool := freepacketbuffers (w_mm w))) x" if "x \<in> ?P" for x
    using that deoptimize(1) by (cases x) (auto simp: nth_list_update)
  then have "buffers_ok ?P (mm_heap (w_mm w)) (heads_of (w_mm w) ?ws) L'" by (rule iffD2 [OF buffers_ok_cong L'(1)])
  then show ?case using L'(2) deoptimize(4)
    by (intro exI [of _ L']) (simp add: daemon_buffers_def set_deoptimizer_def after_work_def)
next
  case (cleanup localID tv b d st ds)
  then show ?case by (intro exI [of _ L]) (simp add: daemon_buffers_def)
next
  case (manage alloc d staging mm N)
  let ?Q = "heads_of (d_mm d) (d_workers d)" and ?P = "places (length (d_workers d))"
  have ok: "buffers_ok ?P (mm_heap (d_mm d)) ?Q L" "hd_qlen (d_staging d) = 0" using manage by (simp_all add: daemon_buffers_def)
  obtain as where as: "hd_qlen staging = 0" "buffers_ok ?P (mm_heap mm) (?Q(Pool := freepacketbuffers mm)) (L(Pool := L Pool @ as))"
    "in_flight (mm_heap mm) L = in_flight (mm_heap (d_mm d)) L"
    using memorymanager_iter_flow [OF ok(1) _ _ ok(2) manage(2,3,4)] manage(1) by auto
  have "heads_of mm (d_workers d) x = (?Q(Pool := freepacketbuffers mm)) x" for x by (cases x) auto
  then have "buffers_ok ?P (mm_heap mm) (heads_of mm (d_workers d)) (L(Pool := L Pool @ as))" by (rule iffD2 [OF buffers_ok_cong as(2)])
  then have "daemon_buffers (d\<lparr>d_staging := staging, d_mm := mm\<rparr>) (L(Pool := L Pool @ as))"
    using as(1) by (simp add: daemon_buffers_def)
  moreover have "daemon_accounted (d\<lparr>d_staging := staging, d_mm := mm\<rparr>) (L(Pool := L Pool @ as)) = daemon_accounted d L + mset []"
    unfolding accounted_def in_flight_pool using as(3) by simp
  ultimately show ?case by blast
qed

lemma daemon_run_accounted:
  "daemon_run d ts d' \<Longrightarrow> daemon_buffers d L \<Longrightarrow> \<exists>L'. daemon_buffers d' L' \<and> daemon_accounted d' L' = daemon_accounted d L + mset ts"
proof (induction rule: daemon_run.induct)
  case (step d ts d' us d'')
  then obtain L1 where L1: "daemon_buffers d' L1" "daemon_accounted d' L1 = daemon_accounted d L + mset ts" by blast
  then show ?case using daemon_step_accounted [OF step(2) L1(1)] by (auto simp: ac_simps)
qed auto

text \<open>The lists, by following the links of a queue from its head.\<close>

fun follow :: "nat \<Rightarrow> packet_heap \<Rightarrow> addr option \<Rightarrow> addr list" where
  "follow (Suc n) h (Some a) = a # (case h a of Some p \<Rightarrow> follow n h (pkt_next p) | None \<Rightarrow> [])"
| "follow n h x = []"

definition contents :: "daemon \<Rightarrow> place \<Rightarrow> addr list" where
  "contents d x = (if x \<in> places (length (d_workers d)) then
     (let q = heads_of (d_mm d) (d_workers d) x in follow (unat (hd_qlen q)) (mm_heap (d_mm d)) (hd_next q)) else [])"

lemma follow_chain: "nchain pkt_next h x as \<Longrightarrow> follow (length as) h x = as"
  by (induction as arbitrary: x) (auto split: option.splits)

lemma contents_unique:
  assumes "daemon_buffers d L"
  shows "contents d = L"
proof
  fix x
  show "contents d x = L x"
  proof (cases "x \<in> places (length (d_workers d))")
    case True
    then have q: "queue_rep (mm_heap (d_mm d)) (heads_of (d_mm d) (d_workers d) x) (L x)"
      using assms by (simp add: daemon_buffers_def buffers_ok_def)
    then show ?thesis using True queue_rep_length [OF q] follow_chain by (simp add: contents_def queue_rep_def Let_def)
  next
    case False
    then show ?thesis using assms by (simp add: daemon_buffers_def buffers_ok_def contents_def)
  qed
qed

text \<open>A daemon that has started: all queues are empty, and the pool is filled.\<close>

definition idle_worker :: "worker \<Rightarrow> bool" where
  "idle_worker k \<longleftrightarrow> pr_queue (optimization k) = empty_head \<and> pr_queue (deoptimization k) = empty_head"

lemma start_workers_idle:
  assumes "start_workers c u v n (ws, zero_sessions) = Some (ws', st)" and "list_all idle_worker ws"
  shows "list_all idle_worker ws'"
proof -
  define I where "I = (\<lambda>(ks, st :: session_state). list_all idle_worker ks)"
  obtain x where x: "foldM (\<lambda>i. create_worker c (u i) (v i) i) [0..<unat (get_workers x)] (ws, x) = Some (ws', st)"
    using assms(1) by (auto simp: start_workers_def create_workers_def Let_def)
  have "I (ws', st)"
  proof (rule foldM_keeps [where I = I, OF x])
    show "I (ws, x)" using assms(2) by (simp add: I_def)
    fix i and y z :: "worker list \<times> session_state"
    assume "create_worker c (u i) (v i) i y = Some z" "I y"
    then show "I z"
      by (auto simp: I_def create_worker_def upd_worker_def bind_eq_Some_conv list_all_length nth_list_update idle_worker_def
          set_worker_state_running_def initialize_worker_processor_def empty_head_def split: if_splits)
  qed
  then show ?thesis by (simp add: I_def)
qed

lemma start_daemon_buffers:
  assumes r: "start_daemon x = Some d" and i: "list_all idle_worker (se_workers x)" and N: "alloc_ok N (se_alloc x)"
    "initialfreepacketbuffers \<le> N" "N < 2 ^ 32"
  shows "\<exists>as. daemon_buffers d ((\<lambda>y. [])(Pool := as))" and "d_verdicts d = []"
proof -
  let ?mm = "zero_mm\<lparr>freepacketbuffers := (freepacketbuffers zero_mm)\<lparr>hd_qlen := 0\<rparr>\<rparr>"
  have z: "queue_rep (mm_heap ?mm) (freepacketbuffers ?mm) []" by (simp add: zero_mm_def queue_rep_def head_ok_def)
  obtain staging' mm as where m: "stage_buffers (se_alloc x) initialfreepacketbuffers ((se_staging x)\<lparr>hd_qlen := 0\<rparr>, ?mm) = Some (staging', mm)"
    "pool_ok mm ([] @ as)" "hd_qlen staging' = 0"
    using stage_buffers_ok [OF z, of "(se_staging x)\<lparr>hd_qlen := 0\<rparr>" initialfreepacketbuffers N "se_alloc x"] N
    by (auto simp: zero_mm_def initialfreepacketbuffers_def)
  obtain ws st where ws: "start_workers (se_config x) (\<lambda>i. se_memory x (2 * i)) (\<lambda>i. se_memory x (2 * i + 1)) (se_thr_num x)
      (se_workers x, zero_sessions) = Some (ws, st)" using r by (auto simp: start_daemon_def bind_eq_Some_conv)
  have run: "memorymanager_init (se_alloc x) (se_staging x) zero_mm = Some (staging', mm)"
    using m(1) by (simp add: memorymanager_init_def zero_mm_def)
  have d: "d_workers d = ws" "d_mm d = mm" "d_staging d = staging'" "d_verdicts d = []"
    using r ws run by (auto simp: start_daemon_def)
  show "d_verdicts d = []" by (rule d(4))
  have idle: "list_all idle_worker ws" by (rule start_workers_idle [OF ws i])
  have e: "queue_rep h empty_head []" for h by (simp add: queue_rep_def head_ok_def empty_head_def)
  have "queue_rep (mm_heap mm) (heads_of mm ws y) (((\<lambda>y. [])(Pool := as)) y)" if "y \<in> places (length ws)" for y
    using that idle m(2) e by (cases y) (auto simp: pool_ok_def list_all_length idle_worker_def)
  moreover have "finite (dom (mm_heap mm))" using m(2) by (simp add: pool_ok_def)
  ultimately have "buffers_ok (places (length ws)) (mm_heap mm) (heads_of mm ws) ((\<lambda>y. [])(Pool := as))"
    unfolding buffers_ok_def by auto
  then show "\<exists>as. daemon_buffers d ((\<lambda>y. [])(Pool := as))" using d m(3) unfolding daemon_buffers_def by auto
qed

text \<open>
  (C3) No packet is lost and none gets two verdicts.  Start the daemon with its static state and let
  its threads run in any order on any packets.  At every moment each packet the kernel has handed
  over either has exactly one verdict or sits in exactly one queue of one worker, and the queues and
  the pool are well-formed lists without a common buffer.  In particular no buffer is given back
  twice.
\<close>

theorem packets_conserved:
  assumes "start_daemon x = Some d" and "list_all idle_worker (se_workers x)" and "alloc_ok N (se_alloc x)"
    and "initialfreepacketbuffers \<le> N" and "N < 2 ^ 32" and "daemon_run d ts d'"
  shows "daemon_buffers d' (contents d') \<and>
    image_mset verdict_ticket (mset (d_verdicts d')) + in_flight (mm_heap (d_mm d')) (contents d') = mset ts"
proof -
  obtain as where d: "daemon_buffers d ((\<lambda>y. [])(Pool := as))" "d_verdicts d = []"
    using start_daemon_buffers [OF assms(1-5)] by blast
  obtain L where L: "daemon_buffers d' L" "daemon_accounted d' L = daemon_accounted d ((\<lambda>y. [])(Pool := as)) + mset ts"
    using daemon_run_accounted [OF assms(6) d(1)] by blast
  have "daemon_accounted d ((\<lambda>y. [])(Pool := as)) = {#}" unfolding accounted_def in_flight_pool using d(2) by (simp add: in_flight_def queued_def)
  then show ?thesis using L contents_unique [OF L(1)] by (simp add: accounted_def)
qed

section \<open>Examples\<close>

definition example_env :: f_env where
  "example_env = \<lparr>fe_servicestate = RUNNING, fe_localID = 7, fe_time = 1000, fe_alloc = first_free,
     fe_salloc = first_free_session, fe_others = (\<lambda>x. x)\<rparr>"

definition example_packet :: f_packet where
  "example_packet = \<lparr>fp_hq = Some 1, fp_id = 5, fp_ret = 40, fp_data = demo_head 0 @ replicate 30 0\<rparr>"

lemma example_fields:
  "ip_ihl4 (demo_head 0 @ replicate 30 0) = Some 20" "ip_protocol (demo_head 0 @ replicate 30 0) = Some IPPROTO_TCP"
  "ip_tot_len (demo_head 0 @ replicate 30 0) = Some 40" "tcp_flags (demo_head 0 @ replicate 30 0) 20 = Some 0x18"
  "packet_key (demo_head 0 @ replicate 30 0) 20 = Some (0x0200000a, 0x5000, 0x0100000a, 0xa00f)"
  "length (demo_head 0) = 40" "\<not> bit (0x18 :: u8) TH_SYN" "bit (0x18 :: u8) TH_ACK"
  by code_simp+

lemma example_remote: "fetch_remote 20 (demo_head 0 @ replicate 30 0) = Some (Some (0, 0))"
  using bare_no_option [OF demo_head_ok [of 0]] by (simp add: fetch_remote_def)

text \<open>A segment of a connection the daemon does not know is accepted as it is.\<close>

lemma example_fetch:
  assumes "getsession (f_sessions s) (0x0200000a, 0x5000, 0x0100000a, 0xa00f) = Some None"
  shows "\<exists>s'. fetcher_callback example_env example_packet s = Some s'"
  using assms example_fields example_remote
  by (simp add: fetcher_callback_def fetch_unknown_def accept_packet_def load_bytes_def count_packet_def
      example_env_def example_packet_def Let_def) blast

definition example_start :: start_env where
  "example_start = \<lparr>se_config = demo_config, se_memory = (\<lambda>i. zero_memory), se_thr_num = 1, se_alloc = first_free,
     se_staging = empty_head, se_locals = (\<lambda>i. link_locals),
     se_workers = replicate MAXWORKERS \<lparr>workernum = 0, optimization = (link_processor zero_memory)\<lparr>pr_queue := empty_head\<rparr>,
       deoptimization = (link_processor zero_memory)\<lparr>pr_queue := empty_head\<rparr>, wk_state = 0\<rparr>\<rparr>"

lemma example_idle: "list_all idle_worker (se_workers example_start)"
  by (simp add: example_start_def idle_worker_def list_all_length)

lemma first_free_fresh: "fresh_buffers first_free" "fresh_alloc first_free_session"
  by (auto simp: fresh_buffers_def fresh_alloc_def first_free_def first_free_session_def find_Some_iff)

lemma example_starts_with: "\<exists>d. start_daemon (example_start\<lparr>se_config := c\<rparr>) = Some d"
proof -
  obtain ws where "start_workers c (\<lambda>i. zero_memory) (\<lambda>i. zero_memory) 1 (se_workers example_start, zero_sessions) = Some ws"
    by (simp add: start_workers_def create_workers_def create_worker_def upd_worker_def initialize_sessiontable_def zero_sessions_def
        get_workers_def set_workers_def example_start_def MAXWORKERS_def)
  moreover obtain mm where "memorymanager_init first_free empty_head zero_mm = Some mm"
  proof -
    let ?mm = "zero_mm\<lparr>freepacketbuffers := (freepacketbuffers zero_mm)\<lparr>hd_qlen := 0\<rparr>\<rparr>"
    have z: "queue_rep (mm_heap ?mm) (freepacketbuffers ?mm) []" by (simp add: zero_mm_def queue_rep_def head_ok_def)
    have "\<exists>y. memorymanager_init first_free empty_head zero_mm = Some y"
      using stage_buffers_ok [OF z, of empty_head initialfreepacketbuffers 2000 first_free] first_free_ok
      by (auto simp: zero_mm_def initialfreepacketbuffers_def memorymanager_init_def empty_head_def)
    then show thesis using that by blast
  qed
  ultimately show ?thesis by (cases ws; cases mm) (simp add: start_daemon_def example_start_def)
qed

lemma example_starts: "\<exists>d. start_daemon example_start = Some d"
  using example_starts_with [of demo_config] by (simp add: example_start_def)

lemma example_run:
  assumes "start_daemon example_start = Some d"
  shows "\<exists>d'. daemon_run d [(Some 1, 5)] d'"
proof -
  obtain ws mm staging where w: "start_workers demo_config (\<lambda>i. zero_memory) (\<lambda>i. zero_memory) 1 (se_workers example_start, zero_sessions) = Some (ws, d_sessions d)"
    "memorymanager_init first_free empty_head zero_mm = Some (staging, mm)" "d_mm d = mm"
    using assms by (auto simp: start_daemon_def example_start_def bind_eq_Some_conv)
  have st: "d_sessions d = zero_sessions\<lparr>numworkers := 1\<rparr>" using start_workers_eq(1) [OF w(1)] by simp
  have "getsession (d_sessions d) k = Some None" for k by (simp add: st getsession_def zero_sessions_def)
  then obtain s where s: "fetcher_callback example_env example_packet (fetch_view d) = Some s"
    using example_fetch [of "fetch_view d"] by (auto simp: fetch_view_def)
  have "card (dom (mm_heap (d_mm d))) = 1000"
  proof -
    let ?mm = "zero_mm\<lparr>freepacketbuffers := (freepacketbuffers zero_mm)\<lparr>hd_qlen := 0\<rparr>\<rparr>"
    have z: "queue_rep (mm_heap ?mm) (freepacketbuffers ?mm) []" by (simp add: zero_mm_def queue_rep_def head_ok_def)
    show ?thesis
      using stage_buffers_ok [OF z, of empty_head initialfreepacketbuffers 2000 first_free] first_free_ok w(2,3)
      by (auto simp: zero_mm_def initialfreepacketbuffers_def memorymanager_init_def empty_head_def)
  qed
  then have "has_room d" using st by (simp add: has_room_def zero_sessions_def)
  then have "daemon_step d [(fp_hq example_packet, fp_id example_packet)] (after_fetch s d)"
    by (intro daemon_step.fetch [OF s]) (use first_free_fresh in \<open>simp_all add: example_env_def\<close>)
  then have "daemon_step d [(Some 1, 5)] (after_fetch s d)" by (simp add: example_packet_def)
  then show ?thesis using daemon_run.step [OF daemon_run.stay] by force
qed

theorem packets_conserved_witness:
  "\<exists>d d'. start_daemon example_start = Some d \<and> daemon_run d [(Some 1, 5)] d' \<and> daemon_buffers d' (contents d') \<and>
    image_mset verdict_ticket (mset (d_verdicts d')) + in_flight (mm_heap (d_mm d')) (contents d') = {#(Some 1, 5)#}"
proof -
  obtain d where d: "start_daemon example_start = Some d" using example_starts by blast
  obtain d' where r: "daemon_run d [(Some 1, 5)] d'" using example_run [OF d] by blast
  have a: "alloc_ok 2000 (se_alloc example_start)" using first_free_ok by (simp add: example_start_def)
  show ?thesis using packets_conserved [OF d example_idle a _ _ r] d r by (auto simp: initialfreepacketbuffers_def)
qed


end
