(* ===== verification/Fetcher_Dispatch.thy ===== *)
theory Fetcher_Dispatch
  imports Daemon
begin

text \<open>
  What the fetcher does with the packets of known and unknown sessions: it hands segments to the
  worker of their session, and it answers keepalives.  The keepalives are those \<open>sendkeepalive\<close> of a
  peer sends.
\<close>

section \<open>Handing a packet over succeeds\<close>

lemma get_buffer_runs:
  assumes ok: "buffers_ok P (mm_heap mm) Q L" and P: "Pool \<in> P" "Q Pool = freepacketbuffers mm" and al: "alloc (mm_heap mm) = Some c"
  shows "\<exists>b mm'. get_freepacket_buffer alloc (\<lambda>x. x) mm = Some (b, mm')"
proof (cases "L Pool")
  case Nil
  then have z: "hd_qlen (freepacketbuffers mm) = 0" using ok P queue_rep_qlen unfolding buffers_ok_def by metis
  show ?thesis unfolding get_freepacket_buffer_make [OF z] make_buffer_def newpacket_def using al by simp
next
  case (Cons a as)
  then have "hd_qlen (freepacketbuffers mm) \<noteq> 0" using ok P queue_rep_qlen unfolding buffers_ok_def by (metis list.distinct(1))
  then have z: "0 < hd_qlen (freepacketbuffers mm)" by (simp add: word_gt_0)
  obtain q' h' where d: "dequeue_packet (\<lambda>x. x) False (freepacketbuffers mm) (mm_heap mm) = Some (Some a, q', h')"
    using take_buffer_place [OF ok P(1) Cons, of "\<lambda>x. x" False] P(2) by auto
  show ?thesis unfolding get_freepacket_buffer_take [OF z] take_buffer_def using d by (auto simp: Let_def)
qed

lemma enqueue_for_runs:
  assumes ok: "flow_ok s L" and e: "fe_others e = (\<lambda>x. x)" "fresh_buffers (fe_alloc e)" "fe_alloc e (mm_heap (f_mm s)) = Some c"
    and room: "card (dom (mm_heap (f_mm s))) + 2 < 2 ^ 32" and q: "unat q < length (f_workers s)"
    and len: "fp_ret fp \<le> BUFSIZE" "fp_ret fp \<le> length (fp_data fp)"
  shows "\<exists>b s'. enqueue_for e opt q fp s = Some (b, s')"
proof -
  note ok' = ok [unfolded flow_ok_def]
  obtain b mm where y: "get_freepacket_buffer (fe_alloc e) (\<lambda>x. x) (f_mm s) = Some (b, mm)"
    using get_buffer_runs [OF ok', of "fe_alloc e" c] e(3) by auto
  let ?n = "length (f_workers s)"
  obtain a as where a: "b = Some a" "mm_heap mm a = Some zero_packet"
    "buffers_ok (places ?n) (mm_heap mm) ((heads_of (f_mm s) (f_workers s))(Pool := freepacketbuffers mm)) (L(Pool := as))"
    "spare (mm_heap mm) (L(Pool := as)) a" "dom (mm_heap mm) = insert a (dom (mm_heap (f_mm s)))"
    using get_buffer [OF ok' _ _ e(2) y] by auto
  obtain d where d: "memcpy (replicate BUFSIZE 0) 0 (fp_data fp) 0 (fp_ret fp) = Some d" using len by (simp add: mem_simps)
  let ?p = "zero_packet\<lparr>pkt_hq := fp_hq fp, pkt_id := fp_id fp, pkt_data := d\<rparr>"
  let ?h = "(mm_heap mm)(a \<mapsto> ?p)"
  have sv: "save_packet a (fp_hq fp) (fp_id fp) (fp_ret fp) (fp_data fp) (mm_heap mm) = Some (0, ?h)"
    using a(2) d by (simp add: save_packet_def zero_packet_def)
  have na: "\<forall>x. a \<notin> set ((L(Pool := as)) x)" using a(4) by (simp add: spare_def)
  have h: "buffers_ok (places ?n) ?h ((heads_of (f_mm s) (f_workers s))(Pool := freepacketbuffers mm)) (L(Pool := as))"
    by (rule buffers_ok_write(1) [OF a(3) na])
  have sp: "spare ?h (L(Pool := as)) a" by (rule buffers_ok_write(2) [OF a(3) na]) (simp add: zero_packet_def)
  have "card (dom ?h) \<le> card (dom (mm_heap (f_mm s))) + 1" using a(5) ok'
    by (simp add: buffers_ok_def insert_absorb card_insert_if)
  then have cr: "card (dom ?h) + 1 < 2 ^ 32" using room by simp
  have x: "handed_to opt q \<in> places ?n" "handed_to opt q \<noteq> Pool" using q by (auto simp: handed_to_def)
  obtain q' h' where "queue_packet (((heads_of (f_mm s) (f_workers s))(Pool := freepacketbuffers mm)) (handed_to opt q)) (Some a) ?h = Some (0, q', h')"
    using put_buffer [OF h x(1) sp cr] by blast
  then show ?thesis using y a(1) sv e(1) x(2) q
    by (cases opt) (auto simp: enqueue_for_def handed_to_def optimize_packet_def deoptimize_packet_def Let_def)
qed

section \<open>Segments of known sessions\<close>

text \<open>The packet is a TCP segment of the connection \<open>key\<close>, and the daemon is running.\<close>

definition is_segment :: "f_env \<Rightarrow> f_packet \<Rightarrow> session_key \<Rightarrow> u32 \<Rightarrow> u8 \<Rightarrow> u8 \<Rightarrow> bool" where
  "is_segment e fp key remoteID inqueue flags \<longleftrightarrow> RUNNING \<le> fe_servicestate e \<and> fp_id fp \<noteq> 0 \<and>
     (\<exists>tot t. ip_tot_len (fp_data fp) = Some tot \<and> ip_protocol (fp_data fp) = Some IPPROTO_TCP \<and> ip_ihl4 (fp_data fp) = Some t \<and>
       packet_key (fp_data fp) t = Some key \<and> fetch_remote t (fp_data fp) = Some (Some (remoteID, inqueue)) \<and>
       tcp_flags (fp_data fp) t = Some flags)"

lemma is_segment_known:
  assumes "is_segment e fp key i q f" and "\<not> bit f TH_SYN" and "getsession (f_sessions s) key = Some (Some a)"
  shows "\<exists>m. fetcher_callback e fp s = fetch_known e fp i a (s\<lparr>f_metrics := m\<rparr>)"
  using assms unfolding is_segment_def by (auto simp: fetcher_callback_def Let_def)

text \<open>There is memory for one more packet, and the queues are well-formed.\<close>

definition can_queue :: "f_env \<Rightarrow> f_packet \<Rightarrow> f_state \<Rightarrow> (place \<Rightarrow> addr list) \<Rightarrow> bool" where
  "can_queue e fp s L \<longleftrightarrow> flow_ok s L \<and> fe_others e = (\<lambda>x. x) \<and> fresh_buffers (fe_alloc e) \<and> fe_alloc e (mm_heap (f_mm s)) \<noteq> None \<and>
     card (dom (mm_heap (f_mm s))) + 2 < 2 ^ 32 \<and> fp_ret fp \<le> BUFSIZE \<and> fp_ret fp \<le> length (fp_data fp)"

text \<open>
  (C26) A data segment of a known session reaches the worker of its session.  The callback returns
  without a verdict; the bytes of the packet, with its queue handle and number, are in a buffer
  appended to the optimisation queue of that worker, or to its deoptimisation queue if the segment
  carries the header of another accelerator; no other worker queue changes; and the session is
  marked active, so that the cleanup thread starts counting anew.
\<close>

theorem known_segment_dispatched:
  assumes "is_segment e fp key remoteID inqueue flags" and "\<not> bit flags TH_SYN" and "getsession (f_sessions s) key = Some (Some a)"
    and "st_heap (f_sessions s) a = Some x" and "unat (s_queue x) < length (f_workers s)"
    and "get_tcp_option (fp_data fp) 32 = Some v" and "v \<noteq> 2" and "can_queue e fp s L"
  shows "\<exists>s' b pk as. fetcher_callback e fp s = Some s' \<and> f_verdicts s' = f_verdicts s \<and>
    flow_ok s' (L(Pool := as, handed_to (remoteID = 0) (s_queue x) := L (handed_to (remoteID = 0) (s_queue x)) @ [b])) \<and>
    mm_heap (f_mm s') b = Some pk \<and> pkt_hq pk = fp_hq fp \<and> pkt_id pk = fp_id fp \<and>
    take (fp_ret fp) (pkt_data pk) = take (fp_ret fp) (fp_data fp) \<and>
    st_heap (f_sessions s') a = Some (x\<lparr>lastactive := fe_time e, deadcounter := 0\<rparr>)"
proof -
  have c: "flow_ok s L" "fe_others e = (\<lambda>x. x)" "fresh_buffers (fe_alloc e)" "card (dom (mm_heap (f_mm s))) + 2 < 2 ^ 32"
    "fp_ret fp \<le> BUFSIZE" "fp_ret fp \<le> length (fp_data fp)" using assms(8) by (simp_all add: can_queue_def)
  obtain al where al: "fe_alloc e (mm_heap (f_mm s)) = Some al" using assms(8) by (auto simp: can_queue_def)
  obtain m where m: "fetcher_callback e fp s = fetch_known e fp remoteID a (s\<lparr>f_metrics := m\<rparr>)"
    using is_segment_known [OF assms(1-3)] by blast
  let ?x = "x\<lparr>lastactive := fe_time e, deadcounter := 0\<rparr>"
  let ?s = "put_session a ?x (s\<lparr>f_metrics := m\<rparr>)"
  have s: "f_mm ?s = f_mm s" "f_workers ?s = f_workers s" "f_verdicts ?s = f_verdicts s" by (simp_all add: put_session_def)
  have ok: "flow_ok ?s L" using c(1) by (simp add: flow_ok_def s)
  obtain b s2 where q: "enqueue_for e (remoteID = 0) (s_queue x) fp ?s = Some (b, s2)"
    using enqueue_for_runs [OF ok c(2,3), of al "s_queue x" fp "remoteID = 0"] al c(4-6) assms(5) s by auto
  have r: "fetcher_callback e fp s = Some (count_packet s2)" using m q assms(4,6,7) by (simp add: fetch_known_def)
  obtain L' p pk as where L': "flow_ok s2 L'" "mm_heap (f_mm s2) p = Some pk" "pkt_hq pk = fp_hq fp" "pkt_id pk = fp_id fp"
    "take (fp_ret fp) (pkt_data pk) = take (fp_ret fp) (fp_data fp)"
    "L' = L(Pool := as, handed_to (remoteID = 0) (s_queue x) := L (handed_to (remoteID = 0) (s_queue x)) @ [p])"
    using enqueue_for_flow [OF ok c(2,3) _ q] c(4) s by auto
  have "f_mm (count_packet s2) = f_mm s2" "f_workers (count_packet s2) = f_workers s2" "f_verdicts (count_packet s2) = f_verdicts s2"
    by (simp_all add: count_packet_def)
  moreover have "f_verdicts s2 = f_verdicts s" "f_sessions s2 = f_sessions ?s"
    using enqueue_for_frame(1) [OF q] enqueue_for_sessions [OF q] s by simp_all
  moreover have "st_heap (f_sessions ?s) a = Some ?x" by (simp add: put_session_def)
  ultimately show ?thesis using r L' unfolding flow_ok_def by (metis count_packet_sessions)
qed

section \<open>Keepalives\<close>

lemma load_same:
  assumes "\<forall>i<n. h ! (k + i) = g ! (k + i)" and "k + n \<le> length h" and "k + n \<le> length g"
  shows "n = 2 \<Longrightarrow> load16 h k = load16 g k" and "n = 4 \<Longrightarrow> load32 h k = load32 g k"
  using assms by (simp_all add: load16_def load32_def load8_def numeral_eq_Suc less_Suc_eq all_conj_distrib)

lemma keepalive_fields:
  "load32 (keepalive_bytes sa sp q da dp k) 12 = Some sa" "load32 (keepalive_bytes sa sp q da dp k) 16 = Some da"
  "load16 (keepalive_bytes sa sp q da dp k) 20 = Some sp" "load16 (keepalive_bytes sa sp q da dp k) 22 = Some dp"
  by (rule load32_le32 load16_le16, simp add: keepalive_bytes_def le16_def le32_def)+

lemma keepalive_segment:
  assumes k: "sendkeepalive localID sa sp q da dp k = Some (da, p)" and fp: "fp_data fp = p @ rest"
    and e: "RUNNING \<le> fe_servicestate e" "fp_id fp \<noteq> 0"
  shows "is_segment e fp (sort_sockets sa sp da dp) localID 0 0x10" and "get_tcp_option (fp_data fp) 32 = Some 2"
    and "length p = 60"
proof -
  let ?oh = "keepalive_header localID" and ?g = "keepalive_bytes sa sp q da dp k"
  obtain h where h: "sendkeepalive localID sa sp q da dp k = Some (da, h @ header_bytes ?oh)"
    "hdr_ok h 20 6 16" "tagged 2 h 20" "tcp_flags h 20 = Some 0x10"
    "\<forall>i<20 + 20. i \<notin> insert (20 + 12) (volatile 20) \<longrightarrow> h ! i = ?g ! i"
    by (rule sendkeepalive_ok)
  have p: "p = h @ header_bytes ?oh" using k h(1) by simp
  have l: "length h = 44" using h(3) by (simp add: tagged_def)
  show "length p = 60" using p l by simp
  have d: "fp_data fp = h @ header_bytes ?oh @ rest" using fp p by simp
  show t: "get_tcp_option (fp_data fp) 32 = Some 2" unfolding d using tagged_get [OF h(2,3)] by simp
  have same: "h ! i = ?g ! i" if "12 \<le> i" "i < 24" for i using h(5) that by (simp add: volatile_def)
  have hl: "load32 h 12 = Some sa" "load32 h 16 = Some da" "load16 h 20 = Some sp" "load16 h 22 = Some dp"
    using load_same(2) [of 4 h 12 ?g] load_same(2) [of 4 h 16 ?g] load_same(1) [of 2 h 20 ?g] load_same(1) [of 2 h 22 ?g]
      keepalive_fields [of sa sp q da dp k] same l by simp_all
  have key: "packet_key (fp_data fp) 20 = Some (sort_sockets sa sp da dp)"
    unfolding d packet_key_def ip_addrs_def using hl l by (simp add: load32_append load16_append)
  have rd: "read_header (h @ header_bytes ?oh @ rest) (20 + 4 * 6) = Some ?oh" by (rule read_header_mid) (simp add: l)
  have rem: "fetch_remote 20 (fp_data fp) = Some (Some (localID, 0))"
    using t rd hdr_ok_fields(2,5) [OF h(2)] unfolding d by (simp add: fetch_remote_def keepalive_header_def OHSIZE_def)
  show "is_segment e fp (sort_sockets sa sp da dp) localID 0 0x10"
    unfolding is_segment_def using e key rem hdr_ok_fields(1,3,4,7) [OF h(2)] h(4) d by auto
qed

text \<open>
  (C27) A keepalive keeps the session of its connection alive: what \<open>sendkeepalive\<close> of an accelerator
  sends for a connection is recognised by the fetcher of another one, in either direction; it is
  dropped, with exactly one verdict, and the session is marked active, its count of unanswered
  rounds being reset.  Nothing is queued.
\<close>

theorem keepalive_refreshes_session:
  assumes "sendkeepalive localID saddr source seq daddr dest ack_seq = Some (daddr, p)" and "fp_data fp = p @ rest"
    and "RUNNING \<le> fe_servicestate e" and "fp_id fp \<noteq> 0"
    and "getsession (f_sessions s) (sort_sockets saddr source daddr dest) = Some (Some a)" and "st_heap (f_sessions s) a = Some x"
  shows "\<exists>s'. fetcher_callback e fp s = Some s' \<and> f_verdicts s' = f_verdicts s @ [Dropped (fp_hq fp) (fp_id fp)] \<and>
    f_sessions s' = put_heap a (x\<lparr>lastactive := fe_time e, deadcounter := 0\<rparr>) (f_sessions s) \<and>
    f_workers s' = f_workers s \<and> f_mm s' = f_mm s"
proof -
  note k = keepalive_segment [OF assms(1-4)]
  have "\<not> bit (0x10 :: u8) TH_SYN" by (simp add: TH_SYN_def)
  then obtain m where "fetcher_callback e fp s = fetch_known e fp localID a (s\<lparr>f_metrics := m\<rparr>)"
    using is_segment_known [OF k(1) _ assms(5)] by blast
  then show ?thesis using k(2) assms(6)
    by (simp add: fetch_known_def Let_def add_verdict_def put_session_def put_heap_def)
qed

lemma is_segment_unknown:
  assumes "is_segment e fp key i q f" and "\<not> bit f TH_SYN" and "getsession (f_sessions s) key = Some None"
  shows "\<exists>m t. fetcher_callback e fp s = fetch_unknown e fp t key i q f (s\<lparr>f_metrics := m\<rparr>) \<and>
    packet_key (fp_data fp) t = Some key \<and> tcp_flags (fp_data fp) t = Some f"
  using assms unfolding is_segment_def by (auto simp: fetcher_callback_def Let_def) blast

lemma segment_headers:
  assumes "packet_key p t = Some key" and "tcp_flags p t = Some f"
  shows "\<exists>ip th. ip_addrs p = Some ip \<and> tcp_hdr p t = Some th"
  using assms by (auto simp: packet_key_def tcp_hdr_def tcp_flags_def load32_def load8_def bind_eq_Some_conv split: if_splits)

lemma saveacceleratorid_new:
  "\<exists>y. snd (saveacceleratorid lip i ip (Some (x\<lparr>s_state := c\<rparr>))) = Some y \<and> same_place x y \<and> s_state y = c"
  by (auto simp: saveacceleratorid_def same_place_def session_key_def split: option.splits)

lemma updateseqnumber_new:
  "\<exists>y. snd (updateseqnumber lip ip th (Some x)) = Some y \<and> same_place x y \<and> s_state y = s_state x"
  by (auto simp: updateseqnumber_def same_place_def session_key_def split: option.splits)

text \<open>A session that is inserted with a queue number is given to that queue.\<close>

lemma bucket_append_queue:
  assumes "bucket_append i a st = Some st'" and "st_heap st a = Some x"
  shows "\<exists>y. st_heap st' a = Some y \<and> s_queue y = s_queue x"
  using assms by (auto simp: bucket_append_def Let_def bind_eq_Some_conv split: if_splits option.splits)

lemma insertsession_queue:
  assumes "insertsession alloc k (int (unat q)) st = Some (Some a, st')"
  shows "\<exists>x. st_heap st' a = Some x \<and> s_queue x = q"
proof -
  obtain lip lport sip sport where k: "k = (lip, lport, sip, sport)" by (cases k)
  have q: "(if int (unat q) = -1 then choose_queue st else Some (word_of_int (int (unat q)))) = Some q"
  proof -
    have "int (unat q) \<noteq> -1" by linarith
    then show ?thesis by (simp only: if_False) simp
  qed
  note rest = assms [unfolded insertsession_def k Let_def prod.case q Option.bind.simps]
  have "\<exists>st1 x. bucket_append (session_bucket k) a st1 = Some st' \<and> st_heap st1 a = Some x \<and> s_queue x = q"
    using rest by (fastforce simp: k bind_eq_Some_conv increment_worker_sessions_def split: option.splits)
  then show ?thesis using bucket_append_queue by metis
qed


section \<open>Examples\<close>

definition example_worker :: worker where
  "example_worker = \<lparr>workernum = 0, optimization = (link_processor zero_memory)\<lparr>pr_queue := empty_head\<rparr>,
     deoptimization = (link_processor zero_memory)\<lparr>pr_queue := empty_head\<rparr>, wk_state = RUNNING\<rparr>"

definition example_state :: "session_state \<Rightarrow> f_state" where
  "example_state st = \<lparr>f_sessions = st, f_mm = zero_mm, f_workers = [example_worker], f_metrics = zero_fetcher, f_verdicts = []\<rparr>"

definition one_session :: session_state where
  "one_session = w_sessions (link_shared (link_session 2) 7 [])"

lemma one_session_found:
  "getsession one_session (0x0200000a, 0x5000, 0x0100000a, 0xa00f) = Some (Some 1)" "st_heap one_session 1 = Some (link_session 2)"
  using link_getsession [of "link_session 2" "(0x0200000a, 0x5000, 0x0100000a, 0xa00f)" 7 "[]"]
  by (simp_all add: one_session_def session_key_def link_session_def link_shared_def)

lemma example_can_queue:
  assumes "fp_ret fp \<le> BUFSIZE" and "fp_ret fp \<le> length (fp_data fp)"
  shows "can_queue example_env fp (example_state st) (\<lambda>x. [])"
proof -
  have "first_free Map.empty \<noteq> None" by (simp add: first_free_def find_None_iff exI [of _ 0])
  moreover have "flow_ok (example_state st) (\<lambda>x. [])"
    by (auto simp: flow_ok_def buffers_ok_def example_state_def example_worker_def zero_mm_def places_def queue_rep_def head_ok_def empty_head_def)
  ultimately show ?thesis
    using assms first_free_fresh by (simp add: can_queue_def example_env_def example_state_def zero_mm_def)
qed

lemma example_is_segment: "is_segment example_env example_packet (0x0200000a, 0x5000, 0x0100000a, 0xa00f) 0 0 0x18"
  unfolding is_segment_def using example_fields example_remote by (simp add: example_env_def example_packet_def)

theorem known_segment_dispatched_witness:
  "\<exists>s' b pk. fetcher_callback example_env example_packet (example_state one_session) = Some s' \<and> f_verdicts s' = [] \<and>
    mm_heap (f_mm s') b = Some pk \<and> pkt_id pk = 5 \<and> take 40 (pkt_data pk) = demo_head 0"
proof -
  have o: "get_tcp_option (fp_data example_packet) 32 = Some 0"
    using bare_no_option [OF demo_head_ok [of 0]] by (simp add: example_packet_def)
  have c: "can_queue example_env example_packet (example_state one_session) (\<lambda>x. [])"
    by (rule example_can_queue) (simp_all add: example_packet_def BUFSIZE_def example_fields)
  have s: "getsession (f_sessions (example_state one_session)) (0x0200000a, 0x5000, 0x0100000a, 0xa00f) = Some (Some 1)"
    "st_heap (f_sessions (example_state one_session)) 1 = Some (link_session 2)"
    "unat (s_queue (link_session 2)) < length (f_workers (example_state one_session))"
    using one_session_found by (simp_all add: example_state_def link_session_def zero_session_def)
  have z: "(0 :: u64) \<noteq> 2" by simp
  obtain s' b pk where "fetcher_callback example_env example_packet (example_state one_session) = Some s'"
    "f_verdicts s' = f_verdicts (example_state one_session)" "mm_heap (f_mm s') b = Some pk" "pkt_id pk = fp_id example_packet"
    "take (fp_ret example_packet) (pkt_data pk) = take (fp_ret example_packet) (fp_data example_packet)"
    using known_segment_dispatched [OF example_is_segment example_fields(7) s o _ c] by auto
  then show ?thesis using example_fields(6) by (auto simp: example_packet_def example_state_def)
qed

lemma example_keepalive:
  obtains p where "sendkeepalive 7 0x0200000a 0x5000 1 0x0100000a 0xa00f 1 = Some (0x0100000a, p)" "length p = 60"
proof -
  obtain p where p: "sendkeepalive 7 0x0200000a 0x5000 1 0x0100000a 0xa00f 1 = Some (0x0100000a, p)" by (rule sendkeepalive_ok)
  have "length p = 60"
    using keepalive_segment(3) [OF p, of "\<lparr>fp_hq = None, fp_id = 1, fp_ret = 60, fp_data = p @ []\<rparr>" "[]" example_env]
    by (simp add: example_env_def)
  then show thesis using that p by blast
qed

theorem keepalive_refreshes_session_witness:
  "\<exists>p s'. sendkeepalive 7 0x0200000a 0x5000 1 0x0100000a 0xa00f 1 = Some (0x0100000a, p) \<and>
    fetcher_callback example_env \<lparr>fp_hq = None, fp_id = 3, fp_ret = 60, fp_data = p\<rparr> (example_state one_session) = Some s' \<and>
    f_verdicts s' = [Dropped None 3]"
proof -
  obtain p where p: "sendkeepalive 7 0x0200000a 0x5000 1 0x0100000a 0xa00f 1 = Some (0x0100000a, p)" "length p = 60" by (rule example_keepalive)
  show ?thesis
    using keepalive_refreshes_session [OF p(1), of "\<lparr>fp_hq = None, fp_id = 3, fp_ret = 60, fp_data = p\<rparr>" "[]" example_env
        "example_state one_session" 1 "link_session 2"] p(1) one_session_found
    by (auto simp: example_env_def example_state_def sort_sockets_def)
qed


end
