(* ===== verification/Session_Aging.thy ===== *)
theory Session_Aging
  imports Session_Cleanup
begin

text \<open>
  What the passes of the cleanup thread do to one session: it is counted once per pass while it is
  idle, and removed in the pass after its third unanswered round.
\<close>

section \<open>One session in one pass\<close>

text \<open>The step of a pass for bucket \<open>j\<close>.\<close>

definition pass_step :: "u32 \<Rightarrow> (nat \<Rightarrow> u64) \<Rightarrow> nat \<Rightarrow> session_state \<times> datagram list \<Rightarrow> (session_state \<times> datagram list) option" where
  "pass_step localID time = (\<lambda>i (st, out).
     if hd_next (getsessionhead st (of_nat i)) \<noteq> None then do {
       (st, ds) \<leftarrow> cleanuplist localID (time i) (of_nat i) st;
       Some (st, out @ ds) }
     else Some (st, out))"

lemma cleanup_pass_steps: "cleanup_pass localID time = foldM (pass_step localID time) [0..<65536]"
  by (simp add: cleanup_pass_def pass_step_def)

text \<open>What a session becomes when its bucket is visited, up to links.\<close>

definition visit :: "u64 \<Rightarrow> session option \<Rightarrow> session option" where
  "visit T x = (case x of None \<Rightarrow> None | Some s \<Rightarrow> if dead s then None else Some (core (aged T s)))"

lemma pass_step_visits:
  assumes "sessions_ok st"
  shows "\<exists>st' out'. pass_step localID time j (st, out) = Some (st', out') \<and> sessions_ok st' \<and>
    (\<forall>a s. st_heap st a = Some s \<longrightarrow> map_option core (st_heap st' a) =
       (if s_head s = of_nat j then visit (time j - 60) (Some s) else Some (core s))) \<and>
    (\<forall>a. st_heap st a = None \<longrightarrow> st_heap st' a = None)"
proof -
  let ?i = "of_nat j :: u16"
  obtain L where L: "table_ok st L" using assms by (auto simp: sessions_ok_def)
  have head: "s_head s = i \<longleftrightarrow> a \<in> set (L i)" if "st_heap st a = Some s" for a s i
    using L that by (fastforce simp: table_ok_def bucket_ok_def)
  show ?thesis
  proof (cases "hd_next (getsessionhead st ?i) = None")
    case True
    have "bucket_ok (st_heap st) (sessiontable st ?i) ?i (L ?i)" using L by (simp add: table_ok_def)
    then have "L ?i = []" using True nchain_hd [of s_next "st_heap st" "hd_next (sessiontable st ?i)" "L ?i"]
      by (auto simp: bucket_ok_def getsessionhead_def split: list.splits)
    then have "s_head s \<noteq> ?i" if "st_heap st a = Some s" for a s using head [OF that, of ?i] by simp
    then show ?thesis using True assms by (intro exI [of _ st] exI [of _ out]) (auto simp: pass_step_def)
  next
    case False
    obtain st' ds where r: "cleanuplist localID (time j) ?i st = Some (st', ds)" "visited (time j - 60) (L ?i) (st_heap st) (st_heap st')"
      using cleanuplist_run [OF L] by blast
    have ok: "sessions_ok st'" using cleanuplist_sessions_ok [OF assms, of localID "time j" ?i] r(1) by simp
    have v: "case st_heap st a of None \<Rightarrow> st_heap st' a = None
     | Some s \<Rightarrow> if a \<in> set (L ?i) \<and> dead s then st_heap st' a = None
         else map_option core (st_heap st' a) = Some (core (if a \<in> set (L ?i) then aged (time j - 60) s else s))" for a
      using r(2) by (simp add: visited_def)
    have "map_option core (st_heap st' a) = (if s_head s = ?i then visit (time j - 60) (Some s) else Some (core s))"
      if s: "st_heap st a = Some s" for a s
      using v [of a] s head [OF s, of ?i] by (auto simp: visit_def split: if_splits)
    moreover have "st_heap st' a = None" if "st_heap st a = None" for a using v [of a] that by simp
    ultimately show ?thesis using False r(1) ok by (intro exI [of _ st'] exI [of _ "out @ ds"]) (simp add: pass_step_def)
  qed
qed

lemma core_eq_head: "core s = core t \<Longrightarrow> s_head s = s_head t"
  by (cases s; cases t) (simp add: core_def)

lemma core_fields: "core s = core t \<Longrightarrow> deadcounter s = deadcounter t \<and> session_key s = session_key t"
  by (cases s; cases t) (simp add: core_def session_key_def)

lemma core_core [simp]: "core (core s) = core s"
  by (simp add: core_def)

lemma visit_core:
  assumes "core s = core t"
  shows "visit T (Some s) = visit T (Some t)"
  using core_status(1) [OF assms] core_status(3) [OF assms, of T] by (simp add: visit_def)

text \<open>The buckets of a list that does not have the session leave it alone.\<close>

lemma pass_steps_others:
  assumes ok: "sessions_ok st" and xs: "\<forall>j\<in>set xs. of_nat j \<noteq> s_head s" and s: "map_option core (st_heap st a) \<in> {Some (core s), None}"
  shows "\<exists>st' out'. foldM (pass_step localID time) xs (st, out) = Some (st', out') \<and> sessions_ok st' \<and>
    map_option core (st_heap st' a) = map_option core (st_heap st a)"
proof -
  define I where "I = (\<lambda>(st1, out1 :: datagram list). sessions_ok st1 \<and> map_option core (st_heap st1 a) = map_option core (st_heap st a))"
  have "\<exists>x. foldM (pass_step localID time) xs (st, out) = Some x \<and> I x"
  proof (rule foldM_inv [where I = I])
    show "I (st, out)" using ok by (simp add: I_def)
    fix j x assume j: "j \<in> set xs" and "I x"
    then obtain st1 out1 where x: "x = (st1, out1)" "sessions_ok st1" "map_option core (st_heap st1 a) = map_option core (st_heap st a)"
      by (cases x) (auto simp: I_def)
    obtain st2 out2 where r: "pass_step localID time j (st1, out1) = Some (st2, out2)" "sessions_ok st2"
      "\<And>a s. st_heap st1 a = Some s \<Longrightarrow> map_option core (st_heap st2 a) =
       (if s_head s = of_nat j then visit (time j - 60) (Some s) else Some (core s))"
      "\<And>a. st_heap st1 a = None \<Longrightarrow> st_heap st2 a = None" using pass_step_visits [OF x(2)] by metis
    have "map_option core (st_heap st2 a) = map_option core (st_heap st1 a)"
    proof (cases "st_heap st1 a")
      case None
      then show ?thesis using r(4) by simp
    next
      case (Some t)
      then have "core t = core s" using x(3) s by auto
      then have "s_head t \<noteq> of_nat j" using core_eq_head xs j by metis
      then show ?thesis using r(3) [OF Some] Some by simp
    qed
    then show "\<exists>y. pass_step localID time j x = Some y \<and> I y" using r(1,2) x by (auto simp: I_def)
  qed
  then show ?thesis by (auto simp: I_def)
qed

lemma cleanup_pass_session:
  assumes ok: "sessions_ok st" and s: "st_heap st a = Some s"
  shows "\<exists>st' out'. cleanup_pass localID time (st, out) = Some (st', out') \<and> sessions_ok st' \<and>
    map_option core (st_heap st' a) = visit (time (unat (s_head s)) - 60) (Some s)"
proof -
  let ?i = "unat (s_head s)"
  have i: "?i < 65536" using unsigned_less [of "s_head s"] by simp
  have "[0..<65536] = [0..<?i] @ ?i # [Suc ?i..<65536]" using i by (metis le_add1 less_imp_add_positive upt_add_eq_append upt_conv_Cons zero_le)
  then have split: "cleanup_pass localID time (st, out) =
      (foldM (pass_step localID time) [0..<?i] (st, out) \<bind> pass_step localID time ?i) \<bind> foldM (pass_step localID time) [Suc ?i..<65536]"
    unfolding cleanup_pass_steps by (simp only: foldM_append foldM.simps) (cases "foldM (pass_step localID time) [0..<?i] (st, out)"; simp)
  have ne: "of_nat j \<noteq> s_head s" if "j < 65536" "j \<noteq> ?i" for j
  proof
    assume "of_nat j = s_head s"
    then have "unat (of_nat j :: u16) = ?i" by simp
    then show False using that by (simp add: unat_of_nat)
  qed
  obtain st1 out1 where 1: "foldM (pass_step localID time) [0..<?i] (st, out) = Some (st1, out1)" "sessions_ok st1"
    "map_option core (st_heap st1 a) = Some (core s)"
    using pass_steps_others [OF ok, of "[0..<?i]" s a localID time out] ne i s by auto
  then obtain s1 where s1: "st_heap st1 a = Some s1" "core s1 = core s" by auto
  obtain st2 out2 where 2: "pass_step localID time ?i (st1, out1) = Some (st2, out2)" "sessions_ok st2"
    "map_option core (st_heap st2 a) = visit (time ?i - 60) (Some s)"
    using pass_step_visits [OF 1(2), of localID time ?i out1] s1 core_eq_head [OF s1(2)] visit_core [OF s1(2)] by auto
  let ?t = "aged (time ?i - 60) s"
  have t: "s_head ?t = s_head s" "map_option core (st_heap st2 a) \<in> {Some (core ?t), None}"
    using 2(3) by (auto simp: aged_def visit_def)
  obtain st3 out3 where 3: "foldM (pass_step localID time) [Suc ?i..<65536] (st2, out2) = Some (st3, out3)" "sessions_ok st3"
    "map_option core (st_heap st3 a) = map_option core (st_heap st2 a)"
    using pass_steps_others [OF 2(2) _ t(2), of "[Suc ?i..<65536]" localID time out2] ne t(1) by auto
  show ?thesis using split 1(1) 2 3 by auto
qed

section \<open>Several passes\<close>

text \<open>A number of passes, at the given times, with no other thread in between.\<close>

abbreviation passes :: "(nat \<Rightarrow> u64) list \<Rightarrow> (int \<times> (session_state \<Rightarrow> session_state) \<times> (nat \<Rightarrow> u64)) list" where
  "passes ts \<equiv> map (\<lambda>t. (1, \<lambda>x. x, t)) ts"

lemma cleanup_function_counts:
  assumes "sessions_ok st" and "map_option core (st_heap st a) = Some (core s)"
    and "\<forall>t\<in>set ts. lastactive s < t (unat (s_head s)) - 60" and "unat (deadcounter s) + length ts \<le> 3"
  shows "\<exists>st' out'. cleanup_function localID (passes ts) (st, out) = Some (st', out') \<and> sessions_ok st' \<and>
    map_option core (st_heap st' a) = Some (core (s\<lparr>deadcounter := deadcounter s + of_nat (length ts)\<rparr>))"
  using assms
proof (induction ts arbitrary: st s out)
  case (Cons t ts)
  let ?s = "s\<lparr>deadcounter := deadcounter s + 1\<rparr>"
  obtain s0 where s0: "st_heap st a = Some s0" "core s0 = core s" using Cons.prems(2) by auto
  have "unat (deadcounter s) \<le> 2" using Cons.prems(4) by simp
  then have n: "\<not> dead s" "unat (deadcounter s + 1) = unat (deadcounter s) + 1"
    by (simp_all add: dead_def word_less_nat_alt unat_word_ariths)
  have ag: "visit (t (unat (s_head s)) - 60) (Some s) = Some (core ?s)" using n(1) Cons.prems(3) by (simp add: visit_def aged_def idle_def)
  obtain st1 out1 where 1: "cleanup_pass localID t (st, out) = Some (st1, out1)" "sessions_ok st1" "map_option core (st_heap st1 a) = Some (core ?s)"
    using cleanup_pass_session [OF Cons.prems(1) s0(1), of localID t out] core_eq_head [OF s0(2)] visit_core [OF s0(2)] ag by auto
  have "\<forall>t\<in>set ts. lastactive ?s < t (unat (s_head ?s)) - 60" "unat (deadcounter ?s) + length ts \<le> 3" using Cons.prems(3,4) n(2) by simp_all
  from Cons.IH [OF 1(2,3) this, of out1] show ?case using 1(1) by (auto simp: ac_simps)
qed (auto simp: core_def)

lemma cleanup_function_append:
  "cleanup_function localID (passes (ts @ us)) (st, out) = cleanup_function localID (passes ts) (st, out) \<bind> cleanup_function localID (passes us)"
proof (induction ts arbitrary: st out)
  case (Cons t ts)
  then show ?case by (cases "cleanup_pass localID t (st, out)") auto
qed simp


lemma stale_sessions_ok: "sessions_ok stale_sessions"
  using stale_ok by (auto simp: sessions_ok_def unique_keys_def stale_sessions_def session_key_def zero_session_def MAXWORKERS_def split: if_splits)


end
