(* ===== verification/Counter_Registry.thy ===== *)
theory Counter_Registry
  imports Fetcher
begin

text \<open>
  The registry of counters (\<open>opennopd/subsystems/counters.c\<close>): threads register a function and the metrics it
  works on, and the counters thread calls every entry in a round.  A pointer to metrics names the
  optimisation or deoptimisation side of a worker or the fetcher; a function called on metrics of the
  other kind, or on a worker that does not exist, is a fault.
\<close>

section \<open>State\<close>

datatype t_counterdata = Optimization_metrics nat | Deoptimization_metrics nat | Fetcher_metrics

datatype t_counterfunction = Update_worker_metrics | Update_fetcher_metrics

record counter =
  cn_handler :: "t_counterfunction option"
  cn_data :: "t_counterdata option"

section \<open>Operations\<close>

definition allocate_counter :: counter where
  "allocate_counter = \<lparr>cn_handler = None, cn_data = None\<rparr>"

text \<open>The list \<open>counters\<close> in the order of its \<open>next\<close> pointers.\<close>

definition register_counter :: "t_counterfunction \<Rightarrow> t_counterdata \<Rightarrow> counter list \<Rightarrow> int \<times> counter list" where
  "register_counter h d counters = (1, counters @ [allocate_counter\<lparr>cn_handler := Some h, cn_data := Some d\<rparr>])"

definition update_optimization :: "worker \<Rightarrow> worker" where
  "update_optimization w = w\<lparr>optimization := (optimization w)\<lparr>metrics := counter_updateworkermetrics (metrics (optimization w))\<rparr>\<rparr>"

definition update_deoptimization :: "worker \<Rightarrow> worker" where
  "update_deoptimization w = w\<lparr>deoptimization := (deoptimization w)\<lparr>metrics := counter_updateworkermetrics (metrics (deoptimization w))\<rparr>\<rparr>"

fun call_counter :: "t_counterfunction \<Rightarrow> t_counterdata \<Rightarrow> worker list \<times> fetchercounters \<Rightarrow> (worker list \<times> fetchercounters) option" where
  "call_counter Update_worker_metrics (Optimization_metrics i) (ws, m) = do { ws \<leftarrow> upd_worker i update_optimization ws; Some (ws, m) }"
| "call_counter Update_worker_metrics (Deoptimization_metrics i) (ws, m) = do { ws \<leftarrow> upd_worker i update_deoptimization ws; Some (ws, m) }"
| "call_counter Update_fetcher_metrics Fetcher_metrics (ws, m) = Some (ws, counter_updatefetchermetrics m)"
| "call_counter h d s = None"

definition execute_counters :: "counter list \<Rightarrow> worker list \<times> fetchercounters \<Rightarrow> (worker list \<times> fetchercounters) option" where
  "execute_counters counters s = foldM (\<lambda>c s. do { h \<leftarrow> cn_handler c; d \<leftarrow> cn_data c; call_counter h d s }) counters s"

text \<open>Rounds of \<open>counters_function\<close>, one for each time the thread wakes up while the service runs.\<close>

definition counters_function :: "nat \<Rightarrow> counter list \<Rightarrow> worker list \<times> fetchercounters \<Rightarrow> (worker list \<times> fetchercounters) option" where
  "counters_function rounds counters s = foldM (\<lambda>_ s. execute_counters counters s) [0..<rounds] s"

section \<open>A round\<close>

text \<open>What the threads register: each thread once, the function that fits its metrics.\<close>

fun fits :: "nat \<Rightarrow> t_counterfunction \<times> t_counterdata \<Rightarrow> bool" where
  "fits n (Update_worker_metrics, Optimization_metrics i) = (i < n)"
| "fits n (Update_worker_metrics, Deoptimization_metrics i) = (i < n)"
| "fits n (Update_fetcher_metrics, Fetcher_metrics) = True"
| "fits n _ = False"

definition register_counters :: "(t_counterfunction \<times> t_counterdata) list \<Rightarrow> counter list \<Rightarrow> counter list" where
  "register_counters rs counters = fold (\<lambda>(h, d) cs. snd (register_counter h d cs)) rs counters"

lemma register_counters_map:
  "register_counters rs counters = counters @ map (\<lambda>(h, d). \<lparr>cn_handler = Some h, cn_data = Some d\<rparr>) rs"
  unfolding register_counters_def
  by (induction rs arbitrary: counters) (auto simp: register_counter_def allocate_counter_def)

text \<open>The worker with number \<open>i\<close> after a round that calls the entries for the data \<open>D\<close>.\<close>

definition after_round :: "t_counterdata set \<Rightarrow> nat \<Rightarrow> worker \<Rightarrow> worker" where
  "after_round D i w = (
     let w = (if Optimization_metrics i \<in> D then update_optimization w else w) in
     if Deoptimization_metrics i \<in> D then update_deoptimization w else w)"

lemma updates_commute: "update_deoptimization (update_optimization w) = update_optimization (update_deoptimization w)"
  by (simp add: update_optimization_def update_deoptimization_def)

text \<open>
  A round updates every registered metrics exactly once: when each thread has registered once, with the
  function that fits its metrics and a worker that exists, the round ends without a fault, the
  sides of the workers that are registered have their rates updated, and nothing else changes.
\<close>

theorem execute_round:
  assumes "\<forall>r\<in>set rs. fits (length ws) r" and "distinct (map snd rs)"
  shows "\<exists>ws' m'. execute_counters (register_counters rs []) (ws, m) = Some (ws', m') \<and> length ws' = length ws \<and>
    (\<forall>i<length ws. ws' ! i = after_round (snd ` set rs) i (ws ! i)) \<and>
    m' = (if Fetcher_metrics \<in> snd ` set rs then counter_updatefetchermetrics m else m)"
  using assms
proof (induction rs rule: rev_induct)
  case Nil
  then show ?case by (simp add: execute_counters_def register_counters_map after_round_def)
next
  case (snoc r rs)
  obtain ws1 m1 where IH: "execute_counters (register_counters rs []) (ws, m) = Some (ws1, m1)" "length ws1 = length ws"
    "\<forall>i<length ws. ws1 ! i = after_round (snd ` set rs) i (ws ! i)"
    "m1 = (if Fetcher_metrics \<in> snd ` set rs then counter_updatefetchermetrics m else m)"
    using snoc by auto
  obtain h d where r: "r = (h, d)" by (cases r)
  have new: "d \<notin> snd ` set rs" using snoc.prems(2) r by simp
  have run: "execute_counters (register_counters (rs @ [r]) []) (ws, m) = call_counter h d (ws1, m1)"
    using IH(1) by (cases "call_counter h d (ws1, m1)") (simp_all add: execute_counters_def register_counters_map foldM_append r)
  have f: "fits (length ws) (h, d)" using snoc.prems(1) r by simp
  show ?case
  proof (cases h)
    case h: Update_worker_metrics
    show ?thesis
    proof (cases d)
      case (Optimization_metrics i)
      then show ?thesis unfolding run using f h IH(2,3,4) new r
        by (auto simp: upd_worker_def nth_list_update after_round_def Let_def updates_commute)
    next
      case (Deoptimization_metrics i)
      then show ?thesis unfolding run using f h IH(2,3,4) new r
        by (auto simp: upd_worker_def nth_list_update after_round_def Let_def)
    next
      case Fetcher_metrics
      then show ?thesis using f h by simp
    qed
  next
    case h: Update_fetcher_metrics
    then have "d = Fetcher_metrics" using f by (cases d) auto
    then show ?thesis unfolding run using h IH(2,3,4) new r by (auto simp: after_round_def)
  qed
qed

end
