(* ===== verification/C_Text.thy ===== *)
theory C_Text
  imports Host_Order
begin

text \<open>
  The text routines of the C library that the console and the configuration reader use:
  \<open>strtok_r\<close>, the numbers of \<open>printf\<close> and \<open>sscanf\<close>, \<open>atoi\<close>, \<open>fgets\<close> and the dotted IP addresses, on
  strings without the terminating zero.  The lemmas are the laws the clients need: what a string of
  tokens separated by delimiters is split into, and that a printed number is read back.
\<close>

named_theorems text_simps \<open>evaluation of the text routines\<close>

section \<open>Tokens\<close>

text \<open>
  \<open>strtok_r\<close> and \<open>strtok\<close>: skip the delimiters, cut the token at the next delimiter, go on behind it.
  The result \<^const>\<open>None\<close> is the null pointer.
\<close>

definition strtok_r :: "string \<Rightarrow> string \<Rightarrow> (string \<times> string) option" where
  "strtok_r delim s = (
     let s = dropWhile (\<lambda>c. c \<in> set delim) s in
     if s = [] then None
     else Some (takeWhile (\<lambda>c. c \<notin> set delim) s, tl (dropWhile (\<lambda>c. c \<notin> set delim) s)))"

text \<open>What a buffer holds up to its first zero byte once \<open>strtok\<close> has cut its first token.\<close>

definition strtok_cut :: "string \<Rightarrow> string \<Rightarrow> string" where
  "strtok_cut delim s = takeWhile (\<lambda>c. c \<in> set delim) s @
     takeWhile (\<lambda>c. c \<notin> set delim) (dropWhile (\<lambda>c. c \<in> set delim) s)"

lemma strtok_shorter: "strtok_r delim s = Some (t, r) \<Longrightarrow> length r < length s"
proof -
  assume a: "strtok_r delim s = Some (t, r)"
  let ?s = "dropWhile (\<lambda>c. c \<in> set delim) s" and ?r = "dropWhile (\<lambda>c. c \<notin> set delim) (dropWhile (\<lambda>c. c \<in> set delim) s)"
  have "0 < length ?s" "length r = length ?r - 1" using a by (auto simp: strtok_r_def Let_def split: if_splits)
  moreover have "length ?r \<le> length ?s" "length ?s \<le> length s" by (rule length_dropWhile_le)+
  ultimately show ?thesis by arith
qed

function tokens :: "string \<Rightarrow> string \<Rightarrow> string list" where
  "tokens delim s = (case strtok_r delim s of None \<Rightarrow> [] | Some (t, r) \<Rightarrow> t # tokens delim r)"
  by auto
termination by (relation "measure (\<lambda>(d, s). length s)") (auto dest: strtok_shorter)

declare tokens.simps [simp del]

text \<open>A word is a token as it is registered and typed: not empty, no delimiter in it.\<close>

definition word_ok :: "string \<Rightarrow> string \<Rightarrow> bool" where
  "word_ok delim w \<longleftrightarrow> w \<noteq> [] \<and> set w \<inter> set delim = {}"

lemma tokens_strtok:
  "strtok_r delim s = None \<Longrightarrow> tokens delim s = []"
  "strtok_r delim s = Some (t, r) \<Longrightarrow> tokens delim s = t # tokens delim r"
  by (simp_all add: tokens.simps [of delim s])

lemma strtok_tokens:
  "tokens delim s = [] \<longleftrightarrow> strtok_r delim s = None"
  "tokens delim s = t # ts \<longleftrightarrow> (\<exists>r. strtok_r delim s = Some (t, r) \<and> tokens delim r = ts)"
  by (auto simp: tokens.simps [of delim s] split: option.splits)

lemma strtok_word:
  assumes "strtok_r delim s = Some (t, r)"
  shows "word_ok delim t"
proof -
  let ?s = "dropWhile (\<lambda>c. c \<in> set delim) s"
  have s: "?s \<noteq> []" "t = takeWhile (\<lambda>c. c \<notin> set delim) ?s"
    using assms by (auto simp: strtok_r_def Let_def split: if_splits)
  then obtain a s' where "?s = a # s'" by (cases ?s) auto
  moreover from this have "a \<notin> set delim" by (metis hd_dropWhile list.sel(1) list.distinct(1))
  moreover have "set t \<inter> set delim = {}" using s(2) by (auto dest: set_takeWhileD)
  ultimately show ?thesis using s(2) by (simp add: word_ok_def)
qed

lemma tokens_words: "t \<in> set (tokens delim s) \<Longrightarrow> word_ok delim t"
proof (induction delim s rule: tokens.induct)
  case (1 delim s)
  then show ?case
    by (cases "strtok_r delim s") (auto simp: tokens_strtok dest: strtok_word)
qed

lemma strtok_skip: "c \<in> set delim \<Longrightarrow> strtok_r delim (c # s) = strtok_r delim s"
  by (simp add: strtok_r_def)

lemma strtok_last:
  assumes "word_ok delim w"
  shows "strtok_r delim w = Some (w, [])"
proof -
  have out: "\<forall>c\<in>set w. c \<notin> set delim" using assms by (auto simp: word_ok_def)
  then have d: "dropWhile (\<lambda>c. c \<in> set delim) w = w"
    using assms by (cases w) (auto simp: word_ok_def)
  have e: "takeWhile (\<lambda>c. c \<notin> set delim) w = w" "dropWhile (\<lambda>c. c \<notin> set delim) w = []"
    using out by (simp_all add: takeWhile_eq_all_conv dropWhile_eq_Nil_conv)
  show ?thesis using assms by (simp add: strtok_r_def d e word_ok_def)
qed

lemma strtok_next:
  assumes "word_ok delim w" and "c \<in> set delim"
  shows "strtok_r delim (w @ c # s) = Some (w, s)"
proof -
  have out: "\<forall>x\<in>set w. x \<notin> set delim" using assms by (auto simp: word_ok_def)
  then have d: "dropWhile (\<lambda>c. c \<in> set delim) (w @ c # s) = w @ c # s"
    using assms by (cases w) (auto simp: word_ok_def)
  have "takeWhile (\<lambda>c. c \<notin> set delim) (w @ c # s) = w" "dropWhile (\<lambda>c. c \<notin> set delim) (w @ c # s) = c # s"
    using out assms(2) by (simp_all add: takeWhile_append2 dropWhile_append2)
  then show ?thesis by (simp add: strtok_r_def d)
qed

lemma tokens_none: "set s \<subseteq> set delim \<Longrightarrow> tokens delim s = []"
  by (rule tokens_strtok(1)) (simp add: strtok_r_def Let_def dropWhile_eq_Nil_conv subset_iff)

lemma strtok_cut_tokens: "tokens delim (strtok_cut delim s) = take 1 (tokens delim s)"
proof (cases "strtok_r delim s")
  case None
  then have "dropWhile (\<lambda>c. c \<in> set delim) s = []" by (auto simp: strtok_r_def Let_def split: if_splits)
  from this [THEN arg_cong, of "takeWhile (\<lambda>c. c \<notin> set delim)"]
  have "set (strtok_cut delim s) \<subseteq> set delim" unfolding strtok_cut_def by (auto dest: set_takeWhileD)
  then show ?thesis using None by (simp add: tokens_none tokens_strtok)
next
  case (Some p)
  obtain t r where p: "p = (t, r)" by (cases p)
  have t: "t = takeWhile (\<lambda>c. c \<notin> set delim) (dropWhile (\<lambda>c. c \<in> set delim) s)"
    using Some p by (auto simp: strtok_r_def Let_def split: if_splits)
  have skip: "strtok_r delim (takeWhile (\<lambda>c. c \<in> set delim) u @ t) = strtok_r delim t" for u
    by (induction u) (auto simp: strtok_skip)
  have "strtok_r delim (strtok_cut delim s) = Some (t, [])"
    unfolding strtok_cut_def t [symmetric] skip using Some p strtok_word strtok_last by blast
  then show ?thesis using Some p by (simp add: tokens_strtok tokens_none)
qed

text \<open>The words of a line, written with one delimiter between them.\<close>

fun unwords :: "char \<Rightarrow> string list \<Rightarrow> string" where
  "unwords c [] = []"
| "unwords c [w] = w"
| "unwords c (w # ws) = w @ c # unwords c ws"

lemma tokens_unwords:
  assumes "c \<in> set delim" and "\<forall>w\<in>set ws. word_ok delim w"
  shows "tokens delim (unwords c ws) = ws"
  using assms
proof (induction c ws rule: unwords.induct)
  case (3 c' w v ws)
  then have "strtok_r delim (unwords c' (w # v # ws)) = Some (w, unwords c' (v # ws))"
    by (simp add: strtok_next)
  then show ?case using 3 by (simp add: tokens_strtok)
qed (auto simp: tokens_none strtok_last tokens_strtok)

section \<open>Numbers\<close>

definition digit_char :: "nat \<Rightarrow> char" where
  "digit_char d = (if d < 10 then char_of (48 + d) else char_of (87 + d))"

definition digit_val :: "nat \<Rightarrow> char \<Rightarrow> nat option" where
  "digit_val b c = (
     let n = of_char c;
         v = (if 48 \<le> n \<and> n \<le> 57 then Some (n - 48) else if 97 \<le> n \<and> n \<le> 102 then Some (n - 87)
              else if 65 \<le> n \<and> n \<le> 70 then Some (n - 55) else None)
     in case v of None \<Rightarrow> None | Some d \<Rightarrow> if d < b then Some d else None)"

text \<open>\<open>printf\<close> of an unsigned number: base 10 is \<open>%u\<close>, base 16 is \<open>%x\<close>.\<close>

function show_nat :: "nat \<Rightarrow> nat \<Rightarrow> string" where
  "show_nat b n = (if n < b \<or> b < 2 then [digit_char n] else show_nat b (n div b) @ [digit_char (n mod b)])"
  by auto
termination by (relation "measure snd") auto

declare show_nat.simps [simp del]

definition show_int :: "int \<Rightarrow> string" where
  "show_int n = (if n < 0 then CHR ''-'' # show_nat 10 (nat (- n)) else show_nat 10 (nat n))"

text \<open>The field \<open>%-<n>s\<close>.\<close>

definition pad_right :: "nat \<Rightarrow> string \<Rightarrow> string" where
  "pad_right n s = s @ replicate (n - length s) CHR '' ''"

text \<open>
  Reading a number: the conversions of \<open>sscanf\<close> and \<open>atoi\<close> skip white space and take an optional sign.  A
  number the result type cannot hold is undefined behaviour in C.
\<close>

datatype 'a scanned = No_match | Out_of_range | Matched 'a

definition isspace :: "char \<Rightarrow> bool" where
  "isspace c \<longleftrightarrow> c = CHR '' '' \<or> (9 \<le> (of_char c :: nat) \<and> (of_char c :: nat) \<le> 13)"

definition scan_sign :: "string \<Rightarrow> bool \<times> string" where
  "scan_sign s = (case dropWhile isspace s of [] \<Rightarrow> (False, [])
     | c # r \<Rightarrow> if c = CHR ''-'' then (True, r) else if c = CHR ''+'' then (False, r) else (False, c # r))"

definition scan_digits :: "nat \<Rightarrow> string \<Rightarrow> string" where
  "scan_digits b s = takeWhile (\<lambda>c. digit_val b c \<noteq> None) s"

definition digits_value :: "nat \<Rightarrow> string \<Rightarrow> nat" where
  "digits_value b ds = foldl (\<lambda>n c. n * b + the (digit_val b c)) 0 ds"

definition scan_word :: "nat \<Rightarrow> bool \<Rightarrow> string \<Rightarrow> 'w::len word scanned" where
  "scan_word b neg s = (
     let ds = scan_digits b s; n = digits_value b ds in
     if ds = [] then No_match
     else if 2 ^ LENGTH('w) \<le> n then Out_of_range
     else Matched (if neg then - of_nat n else of_nat n))"

text \<open>\<open>sscanf(s, "%u", ...)\<close> and \<open>sscanf(s, "%" SCNx64, ...)\<close>\<close>

definition sscanf_u :: "string \<Rightarrow> u32 scanned" where
  "sscanf_u s = (case scan_sign s of (neg, s) \<Rightarrow> scan_word 10 neg s)"

definition sscanf_x :: "string \<Rightarrow> u64 scanned" where
  "sscanf_x s = (case scan_sign s of (neg, s) \<Rightarrow>
     if take 2 s = ''0x'' \<or> take 2 s = ''0X'' then scan_word 16 neg (drop 2 s) else scan_word 16 neg s)"

text \<open>\<open>atoi\<close>: without digits the result is 0.\<close>

definition atoi :: "string \<Rightarrow> int option" where
  "atoi s = (case scan_sign s of (neg, s) \<Rightarrow>
     let n = int (digits_value 10 (scan_digits 10 s)); v = (if neg then - n else n) in
     if - (2 ^ 31) \<le> v \<and> v < 2 ^ 31 then Some v else None)"

lemma of_digit: "d < 16 \<Longrightarrow> of_char (digit_char d) = (if d < 10 then 48 + d else 87 + d)"
  by (auto simp: digit_char_def)

lemma digit_round [simp]: "d < b \<Longrightarrow> b \<le> 16 \<Longrightarrow> digit_val b (digit_char d) = Some d"
  by (simp add: digit_val_def of_digit Let_def)

text \<open>A digit is none of the characters that structure a line.\<close>

lemma digit_char_neq:
  assumes "d < 16" and "(of_char c :: nat) < 48 \<or> 57 < (of_char c :: nat) \<and> (of_char c :: nat) < 97 \<or> 102 < (of_char c :: nat)"
  shows "digit_char d \<noteq> c"
  using assms of_digit [of d] by (auto split: if_splits)

lemma digit_char_plain:
  assumes "d < 16"
  shows "digit_char d \<noteq> CHR ''-''" "digit_char d \<noteq> CHR ''+''" "\<not> isspace (digit_char d)" "digit_char d \<noteq> CHR ''x''"
    "digit_char d \<noteq> CHR ''X''" "digit_char d \<noteq> CHR ''=''" "digit_char d \<noteq> CHR 0x00"
  using assms of_digit [OF assms] by (auto intro!: digit_char_neq simp: isspace_def split: if_splits)

lemma show_nat_digits:
  "2 \<le> b \<Longrightarrow> b \<le> 16 \<Longrightarrow> show_nat b n \<noteq> [] \<and> (\<forall>c\<in>set (show_nat b n). \<exists>d<b. c = digit_char d)"
proof (induction b n rule: show_nat.induct)
  case (1 b n)
  show ?case using 1 by (auto simp: show_nat.simps [of b n] intro!: exI [of _ "n mod b"])
qed

lemma show_nat_length: "2 \<le> b \<Longrightarrow> n < b ^ k \<Longrightarrow> 0 < k \<Longrightarrow> length (show_nat b n) \<le> k"
proof (induction b n arbitrary: k rule: show_nat.induct)
  case (1 b n)
  show ?case
  proof (cases "n < b")
    case False
    then obtain j where k: "k = Suc j" "0 < j" using "1.prems" by (cases k; cases "k - 1") auto
    have "n div b < b ^ j" using "1.prems" k by (simp add: less_mult_imp_div_less mult.commute)
    then have "length (show_nat b (n div b)) \<le> j" using 1 False k(2) by simp
    then show ?thesis using False "1.prems"(1) k by (simp add: show_nat.simps [of b n])
  qed (use "1.prems" in \<open>simp add: show_nat.simps [of b n]\<close>)
qed

lemma nat_word_length: "length (show_nat 10 (unat (w :: u32))) \<le> 10"
  using unsigned_less [of w, where 'a = nat] by (intro show_nat_length) auto

lemma digits_value_show: "2 \<le> b \<Longrightarrow> b \<le> 16 \<Longrightarrow> digits_value b (show_nat b n) = n"
proof (induction b n rule: show_nat.induct)
  case (1 b n)
  have "n mod b < b" using "1.prems" by simp
  then show ?case using 1 by (simp add: show_nat.simps [of b n] digits_value_def)
qed

lemma scan_digits_show: "2 \<le> b \<Longrightarrow> b \<le> 16 \<Longrightarrow> scan_digits b (show_nat b n) = show_nat b n"
  unfolding scan_digits_def takeWhile_eq_all_conv using show_nat_digits [of b n] by fastforce

lemma scan_sign_show:
  assumes "2 \<le> b" and "b \<le> 16"
  shows "scan_sign (show_nat b n) = (False, show_nat b n)"
proof -
  obtain c r where s: "show_nat b n = c # r" using show_nat_digits [OF assms, of n] by (cases "show_nat b n") auto
  then obtain d where "d < b" "c = digit_char d" using show_nat_digits [OF assms, of n] by auto
  then show ?thesis using digit_char_plain [of d] assms(2) s by (simp add: scan_sign_def)
qed

text \<open>What \<open>printf\<close> writes, \<open>sscanf\<close> reads back.\<close>

lemma sscanf_u_show: "n < 2 ^ 32 \<Longrightarrow> sscanf_u (show_nat 10 n) = Matched (of_nat n)"
  by (simp add: sscanf_u_def scan_sign_show scan_word_def Let_def scan_digits_show digits_value_show show_nat_digits)

lemma atoi_show: "n < 2 ^ 31 \<Longrightarrow> atoi (show_nat 10 n) = Some (int n)"
  by (simp add: atoi_def scan_sign_show Let_def scan_digits_show digits_value_show)

lemma show_nat_no_x:
  assumes "2 \<le> b" and "b \<le> 16"
  shows "take 2 (show_nat b n) \<noteq> ''0x''" "take 2 (show_nat b n) \<noteq> ''0X''"
proof -
  have "CHR ''x'' \<notin> set (show_nat b n)" "CHR ''X'' \<notin> set (show_nat b n)"
    using show_nat_digits [OF assms, of n] digit_char_plain assms(2) by (metis order_less_le_trans)+
  then show "take 2 (show_nat b n) \<noteq> ''0x''" "take 2 (show_nat b n) \<noteq> ''0X''"
    using set_take_subset [of 2 "show_nat b n"] by auto
qed

lemma sscanf_x_show: "n < 2 ^ 64 \<Longrightarrow> sscanf_x (show_nat 16 n) = Matched (of_nat n)"
  by (simp add: sscanf_x_def scan_sign_show show_nat_no_x scan_word_def Let_def scan_digits_show digits_value_show show_nat_digits)

section \<open>Lines\<close>

definition newline :: char where "newline = CHR 0x0A"

fun take_line :: "nat \<Rightarrow> string \<Rightarrow> string \<times> string" where
  "take_line 0 s = ([], s)"
| "take_line (Suc k) [] = ([], [])"
| "take_line (Suc k) (c # s) = (if c = newline then ([c], s) else case take_line k s of (l, r) \<Rightarrow> (c # l, r))"

text \<open>\<open>fgets(line, n, fp)\<close> with \<open>s\<close> left to read: the buffer, and what is left behind it.\<close>

definition fgets :: "nat \<Rightarrow> string \<Rightarrow> (string \<times> string) option" where
  "fgets n s = (if s = [] then None else Some (take_line (n - 1) s))"

definition c_string :: "string \<Rightarrow> string" where
  "c_string s = takeWhile (\<lambda>c. c \<noteq> CHR 0x00) s"

lemma take_line_append: "take_line k s = (l, r) \<Longrightarrow> l @ r = s"
  by (induction k s arbitrary: l r rule: take_line.induct) (auto split: if_splits prod.splits)

lemma fgets_shorter: "fgets n s = Some (l, r) \<Longrightarrow> 2 \<le> n \<Longrightarrow> length r < length s"
proof -
  assume a: "fgets n s = Some (l, r)" "2 \<le> n"
  then have t: "take_line (n - 1) s = (l, r)" "s \<noteq> []" by (auto simp: fgets_def split: if_splits)
  then have "l \<noteq> []" using a(2) by (cases "n - 1"; cases s) (auto split: if_splits prod.splits)
  then show ?thesis using take_line_append [OF t(1)] by force
qed

lemma take_line_newline: "newline \<notin> set l \<Longrightarrow> length l < k \<Longrightarrow> take_line k (l @ newline # r) = (l @ [newline], r)"
proof (induction l arbitrary: k)
  case Nil
  then show ?case by (cases k) simp_all
next
  case (Cons c l)
  then show ?case by (cases k) auto
qed

section \<open>Addresses\<close>

text \<open>\<open>inet_ntop\<close> and \<open>inet_pton\<close> for IPv4; an address is its four bytes in memory, read as a word of the host.\<close>

definition inet_ntop :: "u32 \<Rightarrow> string" where
  "inet_ntop w = unwords CHR ''.'' (map (\<lambda>b. show_nat 10 (unat b)) (le32 w))"

text \<open>The octets read so far, the last first, and the one being read once it has a digit.\<close>

fun inet_loop :: "string \<Rightarrow> nat list \<Rightarrow> nat option \<Rightarrow> nat list option" where
  "inet_loop [] done (Some v) = (if length done = 3 then Some (rev (v # done)) else None)"
| "inet_loop [] done None = None"
| "inet_loop (c # s) done cur = (case digit_val 10 c of
     Some d \<Rightarrow> (case cur of
         None \<Rightarrow> inet_loop s done (Some d)
       | Some v \<Rightarrow> if v = 0 \<or> 255 < v * 10 + d then None else inet_loop s done (Some (v * 10 + d)))
   | None \<Rightarrow> (case cur of
         Some v \<Rightarrow> if c = CHR ''.'' \<and> length done \<noteq> 3 then inet_loop s (v # done) None else None
       | None \<Rightarrow> None))"

definition inet_pton :: "string \<Rightarrow> u32 option" where
  "inet_pton s = (case inet_loop s [] None of
     Some [a, b, c, d] \<Rightarrow> Some (of_nat a OR push_bit 8 (of_nat b) OR push_bit 16 (of_nat c) OR push_bit 24 (of_nat d))
   | _ \<Rightarrow> None)"

lemma inet_number: "n < 256 \<Longrightarrow> inet_loop (show_nat 10 n @ s) done None = inet_loop s done (Some n)"
proof (induction "10 :: nat" n arbitrary: s rule: show_nat.induct)
  case (1 n)
  show ?case
  proof (cases "n < 10")
    case False
    have "inet_loop (show_nat 10 (n div 10) @ digit_char (n mod 10) # s) done None =
        inet_loop (digit_char (n mod 10) # s) done (Some (n div 10))"
      using 1 False by simp
    moreover have "n div 10 \<noteq> 0" using False by simp
    ultimately show ?thesis using False "1.prems" by (simp add: show_nat.simps [of 10 n])
  qed (simp add: show_nat.simps [of 10 n])
qed

lemma inet_dot: "length done \<noteq> 3 \<Longrightarrow> inet_loop (CHR ''.'' # s) done (Some v) = inet_loop s (v # done) None"
  by (simp add: digit_val_def Let_def)

lemma inet_round: "inet_pton (inet_ntop w) = Some w"
proof -
  have b: "unat (x :: u8) < 256" for x using unsigned_less [of x, where 'a = nat] by simp
  have "inet_loop (inet_ntop w) [] None = Some (map unat (le32 w))"
    by (simp add: inet_ntop_def le32_def inet_number inet_number [where s = "[]", simplified] inet_dot b del: inet_loop.simps(3))
  then show ?thesis by (simp add: inet_pton_def le32_def le32_join)
qed

end
