(* ===== verification/Cli_Commands.thy ===== *)
theory Cli_Commands
  imports C_Text "HOL-Library.Sublist"
begin

text \<open>
  The command tree of the console (\<open>subsystems/clicommands.c\<close>): registration of commands by the words
  of their name, and execution of a line.  A node of the tree is the list of its commands in the order
  of registration; \<open>find_command\<close> returns a pointer into that list, which is the rest of the list from
  the command on.  The pair of arguments \<open>parameters\<close>, \<open>numparameters\<close> of a handler is one list.
\<close>

section \<open>Data\<close>

definition CLI_ERROR :: int where "CLI_ERROR = -1"
definition CLI_SUCCESS :: int where "CLI_SUCCESS = 0"
definition CLI_SHUTDOWN :: int where "CLI_SHUTDOWN = 1"
definition CLI_INV_CMD :: int where "CLI_INV_CMD = 2"
definition CLI_ERR_CMD :: int where "CLI_ERR_CMD = 3"

lemmas cli_codes = CLI_ERROR_def CLI_SUCCESS_def CLI_SHUTDOWN_def CLI_INV_CMD_def CLI_ERR_CMD_def

text \<open>The field \<open>hidden\<close> is \<^const>\<open>None\<close> as long as nothing has been assigned to it.\<close>

datatype 'h command = Command
  (cmd_name: string)
  (command_handler: "'h option")
  (child: "'h command list")
  (hasparams: bool)
  (hidden: "bool option")

text \<open>A handler returns its code, what it has sent to the client, and the state it leaves.\<close>

type_synonym ('h, 's) cli_run = "'h \<Rightarrow> string list \<Rightarrow> 's \<Rightarrow> (int \<times> string list \<times> 's) option"

definition delimiters :: string where "delimiters = '' ''"

section \<open>Operations\<close>

definition allocate_command :: "string \<Rightarrow> 'h command" where
  "allocate_command token = Command token None [] False None"

definition find_command :: "'h command list \<Rightarrow> string \<Rightarrow> 'h command list" where
  "find_command node command_name = dropWhile (\<lambda>c. cmd_name c \<noteq> command_name) node"

definition lookup_command :: "'h command list \<Rightarrow> string \<Rightarrow> 'h command list" where
  "lookup_command head_node command_name = find_command head_node command_name"

text \<open>Assignment through the pointer that \<open>find_command\<close> returns.\<close>

fun upd_command :: "string \<Rightarrow> ('h command \<Rightarrow> 'h command) \<Rightarrow> 'h command list \<Rightarrow> 'h command list" where
  "upd_command t f [] = []"
| "upd_command t f (c # cs) = (if cmd_name c = t then f c # cs else c # upd_command t f cs)"

definition set_handler :: "'h \<Rightarrow> bool \<Rightarrow> bool \<Rightarrow> 'h command \<Rightarrow> 'h command" where
  "set_handler h params hide c = Command (cmd_name c) (Some h) (child c) params (Some hide)"

definition set_child :: "'h command list \<Rightarrow> 'h command \<Rightarrow> 'h command" where
  "set_child node c = Command (cmd_name c) (command_handler c) node (hasparams c) (hidden c)"

primrec register_path :: "string list \<Rightarrow> 'h \<Rightarrow> bool \<Rightarrow> bool \<Rightarrow> 'h command list \<Rightarrow> 'h command list" where
  "register_path [] h params hide node = node"
| "register_path (token # ts) h params hide node = (
     let node = (if find_command node token = [] then node @ [allocate_command token] else node) in
     upd_command token (\<lambda>c. if ts = [] then set_handler h params hide c
       else set_child (register_path ts h params hide (child c)) c) node)"

definition register_command :: "string \<Rightarrow> 'h \<Rightarrow> bool \<Rightarrow> bool \<Rightarrow> 'h command list \<Rightarrow> 'h command list" where
  "register_command command_name h params hide head_node = register_path (tokens delimiters command_name) h params hide head_node"

text \<open>The listing of a node reads the field \<open>hidden\<close> of each command.\<close>

fun node_help :: "nat \<Rightarrow> 'h command list \<Rightarrow> string list option" where
  "node_help count [] = Some []"
| "node_help count (c # cs) = (case hidden c of
     None \<Rightarrow> None
   | Some True \<Rightarrow> node_help count cs
   | Some False \<Rightarrow> do {
       ms \<leftarrow> node_help (count + 1) cs;
       Some ((''['' @ show_nat 10 count @ '']:['' @ cmd_name c @ '']'' @ [newline]) # ms) })"

definition cli_node_help :: "'h command list \<Rightarrow> string list option" where
  "cli_node_help node = node_help 1 node"

text \<open>\<open>cli_help\<close> lists the top of the tree in another format.\<close>

fun top_help :: "nat \<Rightarrow> 'h command list \<Rightarrow> string list option" where
  "top_help count [] = Some []"
| "top_help count (c # cs) = (case hidden c of
     None \<Rightarrow> None
   | Some True \<Rightarrow> top_help count cs
   | Some False \<Rightarrow> do {
       ms \<leftarrow> top_help (count + 1) cs;
       Some ((''|['' @ show_nat 10 count @ '']: ['' @ cmd_name c @ '']| '' @ [newline]) # ms) })"

definition cli_help :: "'h command list \<Rightarrow> (int \<times> string list) option" where
  "cli_help head_node = do { ms \<leftarrow> top_help 1 head_node; Some (0, ms) }"

definition cli_show_param :: "string list \<Rightarrow> int \<times> string list" where
  "cli_show_param parameters =
     (0, map (\<lambda>(i, p). ''['' @ show_nat 10 i @ ''] '' @ p @ [newline]) (zip [0..<length parameters] parameters))"

section \<open>Execution of a line\<close>

definition detect_delim_count :: "string \<Rightarrow> string \<Rightarrow> int" where
  "detect_delim_count i_str delim = int (length (filter (\<lambda>parser. parser \<noteq> delim) (tokens delim i_str))) - 1"

text \<open>The loop that copies the parameters; \<open>strlen\<close> of a null pointer is a fault.\<close>

fun take_params :: "nat \<Rightarrow> string \<Rightarrow> string list option" where
  "take_params 0 s = Some []"
| "take_params (Suc k) s = (case strtok_r '' '' s of
     None \<Rightarrow> None
   | Some (token, r) \<Rightarrow> do { ps \<leftarrow> take_params k r; Some (token # ps) })"

definition call_handler :: "('h, 's) cli_run \<Rightarrow> 'h \<Rightarrow> bool \<Rightarrow> string \<Rightarrow> 's \<Rightarrow> (int \<times> string list \<times> 's) option" where
  "call_handler run h params saved_token s = (
     if params \<and> saved_token \<noteq> [] then do {
       ps \<leftarrow> take_params (nat (detect_delim_count saved_token delimiters + 1)) saved_token;
       run h ps s }
     else run h [] s)"

text \<open>
  The inner loop, from the command found on; the result says whether a command was executed, and what
  the calls of \<open>strtok\<close> for the parameters have left of the line.
\<close>

fun run_node :: "('h, 's) cli_run \<Rightarrow> string \<Rightarrow> string \<Rightarrow> 'h command list \<Rightarrow> int \<Rightarrow> 's
    \<Rightarrow> (int \<times> string list \<times> bool \<times> string \<times> 's) option" where
  "run_node run token saved_token [] shutdown s = Some (shutdown, [], False, saved_token, s)"
| "run_node run token saved_token (c # cs) shutdown s = (case command_handler c of
     Some h \<Rightarrow>
       if cmd_name c = token then do {
         (shutdown, out, s) \<leftarrow> call_handler run h (hasparams c) saved_token s;
         Some (shutdown, out, True, if hasparams c then strtok_cut delimiters saved_token else saved_token, s) }
       else run_node run token saved_token cs CLI_ERR_CMD s
   | None \<Rightarrow> run_node run token saved_token cs CLI_ERR_CMD s)"

definition to_lower :: "char \<Rightarrow> char" where
  "to_lower c = (let n = of_char c :: nat in if 65 \<le> n \<and> n \<le> 90 then char_of (n + 32) else c)"

definition asks_help :: "string \<Rightarrow> bool" where
  "asks_help token \<longleftrightarrow> map to_lower token = ''help'' \<or> token = ''?''"

text \<open>
  One round of the outer loop for a token: it ends the loop (\<^const>\<open>Inl\<close>), or goes on with a node and
  the rest of the line (\<^const>\<open>Inr\<close>).
\<close>

definition exec_token :: "('h, 's) cli_run \<Rightarrow> 'h command list \<Rightarrow> string \<Rightarrow> string \<Rightarrow> int \<Rightarrow> 's
    \<Rightarrow> ((int \<times> string list \<times> 's) + ('h command list \<times> int \<times> string list \<times> bool \<times> string \<times> 's)) option" where
  "exec_token run node token saved_token shutdown s = (
     if asks_help token then do { ms \<leftarrow> cli_node_help node; Some (Inl (shutdown, ms, s)) }
     else case find_command node token of
       [] \<Rightarrow> Some (Inl (CLI_INV_CMD, [], s))
     | c # cs \<Rightarrow>
         if child c \<noteq> [] then Some (Inr (child c, shutdown, [], False, saved_token, s))
         else do {
           (shutdown, out, executed, saved_token, s) \<leftarrow> run_node run token saved_token (c # cs) shutdown s;
           Some (Inr (node, shutdown, out, executed, saved_token, s)) })"

lemma strtok_cut_shorter: "length (strtok_cut delim s) \<le> length s"
proof -
  have "length (takeWhile P (dropWhile Q s)) \<le> length (dropWhile Q s)" for P Q by (rule length_takeWhile_le)
  moreover have "length (takeWhile Q s) + length (dropWhile Q s) = length s" for Q
    by (metis length_append takeWhile_dropWhile_id)
  ultimately show ?thesis unfolding strtok_cut_def length_append by (metis add_left_mono)
qed

lemma run_node_shorter: "run_node run token r cs c s = Some (c', out, x, r', s') \<Longrightarrow> length r' \<le> length r"
  by (induction run token r cs c s rule: run_node.induct)
    (auto simp: bind_eq_Some_conv strtok_cut_shorter split: option.splits if_splits)

lemma exec_token_shorter: "exec_token run node t r c s = Some (Inr (node', c', out, x, r', s')) \<Longrightarrow> length r' \<le> length r"
  by (auto simp: exec_token_def bind_eq_Some_conv simp del: run_node.simps split: list.splits if_splits dest: run_node_shorter)

function exec_loop :: "('h, 's) cli_run \<Rightarrow> 'h command list \<Rightarrow> (string \<times> string) option \<Rightarrow> int \<Rightarrow> 's
    \<Rightarrow> (int \<times> string list \<times> 's) option" where
  "exec_loop run node None shutdown s = Some (shutdown, [], s)"
| "exec_loop run node (Some (token, saved_token)) shutdown s = (
     case exec_token run node token saved_token shutdown s of
       None \<Rightarrow> None
     | Some (Inl res) \<Rightarrow> Some res
     | Some (Inr (node, shutdown, out, executed, saved_token, s)) \<Rightarrow>
         let nt = strtok_r delimiters saved_token in do {
         ms \<leftarrow> (if nt = None \<and> shutdown = CLI_ERROR then cli_node_help node else Some []);
         (shutdown, out', s) \<leftarrow> (if executed then Some (shutdown, [], s) else exec_loop run node nt shutdown s);
         Some (shutdown, out @ ms @ out', s) })"
  by pat_completeness auto
termination
  by (relation "measure (\<lambda>(run, node, nt, c, s). case nt of None \<Rightarrow> 0 | Some (t, r) \<Rightarrow> Suc (length r))")
    (auto split: option.splits dest!: strtok_shorter exec_token_shorter)

definition execute_commands :: "('h, 's) cli_run \<Rightarrow> 'h command list \<Rightarrow> string \<Rightarrow> 's \<Rightarrow> (int \<times> string list \<times> 's) option" where
  "execute_commands run head_node command_name s = (
     if head_node = [] then Some (CLI_INV_CMD, [], s)
     else exec_loop run head_node (strtok_r delimiters command_name) CLI_ERROR s)"

section \<open>The tree as a table of paths\<close>

definition find_first :: "'h command list \<Rightarrow> string \<Rightarrow> 'h command option" where
  "find_first node t = (case find_command node t of [] \<Rightarrow> None | c # cs \<Rightarrow> Some c)"

fun cmd_at :: "'h command list \<Rightarrow> string list \<Rightarrow> 'h command option" where
  "cmd_at node [] = None"
| "cmd_at node (t # ts) = (case find_first node t of None \<Rightarrow> None
     | Some c \<Rightarrow> if ts = [] then Some c else cmd_at (child c) ts)"

text \<open>What the console promises: a table from the words of a command to its handler and whether it takes parameters.\<close>

definition handlers :: "'h command list \<Rightarrow> string list \<rightharpoonup> 'h \<times> bool" where
  "handlers node ts = (case cmd_at node ts of None \<Rightarrow> None
     | Some c \<Rightarrow> map_option (\<lambda>h. (h, hasparams c)) (command_handler c))"

lemma find_first_Nil [simp]: "find_first [] t = None"
  by (simp add: find_first_def find_command_def)

lemma find_first_Cons [simp]: "find_first (c # cs) t = (if cmd_name c = t then Some c else find_first cs t)"
  by (simp add: find_first_def find_command_def)

lemma find_first_None: "find_first node t = None \<longleftrightarrow> find_command node t = []"
  by (simp add: find_first_def split: list.splits)

lemma find_first_append:
  "find_first (node @ cs) t = (case find_first node t of None \<Rightarrow> find_first cs t | Some c \<Rightarrow> Some c)"
  by (induction node) auto

lemma find_first_upd:
  assumes "\<And>c. cmd_name (f c) = cmd_name c"
  shows "find_first (upd_command t f node) u = (if u = t then map_option f (find_first node t) else find_first node u)"
  by (induction node) (auto simp: assms)

lemma set_names [simp]: "cmd_name (set_handler h q d c) = cmd_name c" "cmd_name (set_child cs c) = cmd_name c"
  "child (set_handler h q d c) = child c" "child (set_child cs c) = cs"
  "command_handler (set_handler h q d c) = Some h" "command_handler (set_child cs c) = command_handler c"
  "hasparams (set_handler h q d c) = q" "hasparams (set_child cs c) = hasparams c"
  "hidden (set_handler h q d c) = Some d" "hidden (set_child cs c) = hidden c"
  by (simp_all add: set_handler_def set_child_def)

lemma allocated [simp]: "cmd_name (allocate_command t) = t" "child (allocate_command t) = []"
  "command_handler (allocate_command t) = None" "hidden (allocate_command t) = None"
  by (simp_all add: allocate_command_def)

text \<open>The command of the next word after a registration: the one found, or a new one.\<close>

lemma find_first_register:
  "find_first (register_path (t # ts) h q d node) u = (
     if u \<noteq> t then find_first node u
     else let c = (case find_first node t of None \<Rightarrow> allocate_command t | Some c \<Rightarrow> c) in
       Some (if ts = [] then set_handler h q d c else set_child (register_path ts h q d (child c)) c))"
  by (simp add: find_first_upd find_first_append find_first_None [symmetric] Let_def split: option.splits)

lemma cmd_at_Nil [simp]: "cmd_at [] ts = None"
  by (cases ts) simp_all

lemma cmd_at_child: "cmd_at node ts = Some c \<Longrightarrow> child c = e # es \<Longrightarrow> cmd_at node (ts @ [cmd_name e]) = Some e"
proof (induction ts arbitrary: node)
  case (Cons u ts)
  then show ?case by (cases "ts = []") (auto split: option.splits)
qed simp

lemma register_handlers:
  "ts \<noteq> [] \<Longrightarrow> handlers (register_path ts h q d node) us = ((handlers node)(ts \<mapsto> (h, q))) us"
proof (induction ts arbitrary: node us)
  case (Cons t ts)
  show ?case
  proof (cases us)
    case Nil
    then show ?thesis by (simp add: handlers_def)
  next
    case us: (Cons u vs)
    let ?c = "case find_first node t of None \<Rightarrow> allocate_command t | Some c \<Rightarrow> c"
    have IH: "ts \<noteq> [] \<Longrightarrow> handlers (register_path ts h q d (child ?c)) vs = ((handlers (child ?c))(ts \<mapsto> (h, q))) vs"
      by (rule Cons.IH)
    have new: "find_first node t = None \<Longrightarrow> handlers (child ?c) vs = None" by (cases vs) (simp_all add: handlers_def)
    show ?thesis
      using us IH new
      by (cases "find_first node t"; cases "ts = []"; cases "vs = []")
        (auto simp: handlers_def find_first_register Let_def simp del: register_path.simps)
  qed
qed simp

text \<open>The paths of the tree are the prefixes of the registered ones.\<close>

lemma register_paths:
  "cmd_at (register_path ts h q d node) us \<noteq> None \<longleftrightarrow> cmd_at node us \<noteq> None \<or> us \<noteq> [] \<and> prefix us ts"
proof (induction ts arbitrary: node us)
  case (Cons t ts)
  show ?case
  proof (cases us)
    case us: (Cons u vs)
    let ?c = "case find_first node t of None \<Rightarrow> allocate_command t | Some c \<Rightarrow> c"
    have IH: "cmd_at (register_path ts h q d (child ?c)) vs \<noteq> None \<longleftrightarrow> cmd_at (child ?c) vs \<noteq> None \<or> vs \<noteq> [] \<and> prefix vs ts"
      by (rule Cons.IH)
    show ?thesis
      using us IH
      by (cases "find_first node t"; cases "ts = []"; cases "vs = []")
        (auto simp: find_first_register Let_def simp del: register_path.simps)
  qed simp
qed auto

section \<open>Dispatch\<close>

lemma take_params_tokens: "take_params (length (tokens '' '' s)) s = Some (tokens '' '' s)"
proof (induction "'' '' :: string" s rule: tokens.induct)
  case (1 s)
  then show ?case by (cases "strtok_r '' '' s") (auto simp: tokens_strtok)
qed

lemma detect_delim_tokens: "detect_delim_count s delimiters = int (length (tokens delimiters s)) - 1"
proof -
  have "t \<noteq> delimiters" if "t \<in> set (tokens delimiters s)" for t
    using tokens_words [OF that] by (auto simp: word_ok_def delimiters_def)
  then have "filter (\<lambda>t. t \<noteq> delimiters) (tokens delimiters s) = tokens delimiters s" by (auto simp: filter_id_conv)
  then show ?thesis by (simp add: detect_delim_count_def)
qed

text \<open>A handler gets the remaining words of the line as its parameters.\<close>

lemma call_handler_params:
  "call_handler run h q r s = run h (if q then tokens delimiters r else []) s"
  unfolding call_handler_def detect_delim_tokens by (auto simp: take_params_tokens delimiters_def tokens_none)

lemma run_node_first:
  assumes "command_handler c = Some h"
    and "run h (if hasparams c then tokens delimiters r else []) s = Some (x, out, s')"
  shows "\<exists>r'. run_node run (cmd_name c) r (c # cs) sh s = Some (x, out, True, r', s')"
  using assms by (simp add: call_handler_params)

lemma find_first_command: "find_first node t = Some c \<Longrightarrow> \<exists>cs. find_command node t = c # cs \<and> cmd_name c = t"
  by (induction node) (auto simp: find_command_def split: if_splits)

lemma exec_path:
  assumes "cmd_at node ts = Some c" and "child c = []" and "command_handler c = Some h"
    and "\<forall>t\<in>set ts. \<not> asks_help t"
    and "tokens delimiters line = ts @ ps"
    and "run h (if hasparams c then ps else []) s = Some (x, out, s')" and "x \<noteq> CLI_ERROR"
  shows "exec_loop run node (strtok_r delimiters line) CLI_ERROR s = Some (x, out, s')"
  using assms
proof (induction ts arbitrary: node line)
  case (Cons t ts)
  obtain c0 where c0: "find_first node t = Some c0" "if ts = [] then c0 = c else cmd_at (child c0) ts = Some c"
    using Cons.prems(1) by (auto split: option.splits if_splits)
  obtain cs where cs: "find_command node t = c0 # cs" "cmd_name c0 = t" using find_first_command [OF c0(1)] by blast
  obtain r where r: "strtok_r delimiters line = Some (t, r)" "tokens delimiters r = ts @ ps"
    using Cons.prems(5) by (auto simp: strtok_tokens)
  have nh: "\<not> asks_help t" using Cons.prems(4) by simp
  show ?case
  proof (cases "ts = []")
    case True
    then have c: "c0 = c" "tokens delimiters r = ps" using c0(2) r(2) by auto
    obtain r' where "run_node run t r (c # cs) CLI_ERROR s = Some (x, out, True, r', s')"
      using run_node_first [of c h run r s x out s'] Cons.prems(3,6) c cs(2) by blast
    then have "exec_token run node t r CLI_ERROR s = Some (Inr (node, x, out, True, r', s'))"
      using nh cs c Cons.prems(2) by (simp add: exec_token_def del: run_node.simps)
    then show ?thesis using r(1) Cons.prems(7) by simp
  next
    case False
    then obtain u us where ts: "ts = u # us" by (cases ts) auto
    then have "child c0 \<noteq> []" using c0(2) by auto
    then have step: "exec_token run node t r CLI_ERROR s = Some (Inr (child c0, CLI_ERROR, [], False, r, s))"
      using nh cs by (simp add: exec_token_def)
    obtain p where "strtok_r delimiters r = Some p" using r(2) ts by (auto simp: strtok_tokens)
    moreover have "exec_loop run (child c0) (strtok_r delimiters r) CLI_ERROR s = Some (x, out, s')"
      using Cons.IH [of "child c0" r] c0(2) False Cons.prems r(2) by simp
    ultimately show ?thesis using r(1) step by simp
  qed
qed simp

section \<open>A sequence of registrations\<close>

text \<open>Any table that an operation extends by one entry holds, after a sequence of them, the last entry of each key.\<close>

locale registry =
  fixes add :: "'k \<Rightarrow> 'v \<Rightarrow> 't \<Rightarrow> 't" and look :: "'t \<Rightarrow> 'k \<rightharpoonup> 'w" and view :: "'v \<Rightarrow> 'w" and key_ok :: "'k \<Rightarrow> bool"
  assumes look_add: "key_ok k \<Longrightarrow> look (add k v t) = (look t)(k \<mapsto> view v)"
begin

lemma look_fold:
  assumes "\<forall>r\<in>set rs. key_ok (fst r)"
  shows "look (fold (\<lambda>(k, v). add k v) rs t) = look t ++ map_of (rev (map (\<lambda>(k, v). (k, view v)) rs))"
  using assms
proof (induction rs arbitrary: t)
  case (Cons r rs)
  obtain k v where r: "r = (k, v)" by (cases r)
  then show ?case using Cons look_add [of k v t] by (simp add: map_add_assoc [symmetric] map_add_upd_left [symmetric] map_upds_def)
qed simp

end

type_synonym 'h registration = "string \<times> 'h \<times> bool \<times> bool"

definition cmd_path :: "'h registration \<Rightarrow> string list" where
  "cmd_path r = tokens delimiters (fst r)"

definition register_all :: "'h registration list \<Rightarrow> 'h command list \<Rightarrow> 'h command list" where
  "register_all rs node = fold (\<lambda>(n, h, q, d). register_command n h q d) rs node"

interpretation command_table: registry "\<lambda>ts (h, q, d). register_path ts h q d" handlers "\<lambda>(h, q, d). (h, q)" "\<lambda>ts. ts \<noteq> []"
proof (unfold_locales, goal_cases)
  case (1 k v t)
  then show ?case by (cases v) (auto simp: register_handlers fun_eq_iff)
qed

lemma register_all_fold: "register_all rs node = fold (\<lambda>(k, h, q, d). register_path k h q d) (map (\<lambda>r. (cmd_path r, snd r)) rs) node"
  unfolding register_all_def by (induction rs arbitrary: node) (auto simp: cmd_path_def register_command_def)

lemma register_all_handlers:
  assumes "\<forall>r\<in>set rs. cmd_path r \<noteq> []"
  shows "handlers (register_all rs node) = handlers node ++ map_of (rev (map (\<lambda>r. (cmd_path r, fst (snd r), fst (snd (snd r)))) rs))"
proof -
  let ?rs = "map (\<lambda>r. (cmd_path r, snd r)) rs"
  have view: "map (\<lambda>(k, v). (k, case v of (h, q, d) \<Rightarrow> (h, q))) ?rs = map (\<lambda>r. (cmd_path r, fst (snd r), fst (snd (snd r)))) rs"
    by (simp add: case_prod_beta)
  have "\<forall>r\<in>set ?rs. fst r \<noteq> []" using assms by simp
  from command_table.look_fold [OF this, of node] show ?thesis unfolding register_all_fold view .
qed

lemma register_all_paths:
  "cmd_at (register_all rs node) us \<noteq> None \<longleftrightarrow> cmd_at node us \<noteq> None \<or> us \<noteq> [] \<and> (\<exists>r\<in>set rs. prefix us (cmd_path r))"
proof (induction rs arbitrary: node)
  case (Cons r rs)
  obtain n h q d where "r = (n, h, q, d)" by (cases r)
  then have "register_all (r # rs) node = register_all rs (register_path (cmd_path r) h q d node)"
    by (simp add: register_all_def register_command_def cmd_path_def)
  then show ?case using Cons.IH [of "register_path (cmd_path r) h q d node"] register_paths [of "cmd_path r" h q d node us]
    by (metis list.set_intros(1) list.set_intros(2) set_ConsD)
qed (simp add: register_all_def)

text \<open>No command is the beginning of another one: then each of them is a leaf of the tree.\<close>

definition prefix_free :: "'h registration list \<Rightarrow> bool" where
  "prefix_free rs \<longleftrightarrow> (\<forall>r\<in>set rs. \<forall>r'\<in>set rs. prefix (cmd_path r) (cmd_path r') \<longrightarrow> r = r')"

lemma prefix_free_leaf:
  assumes rs: "prefix_free rs" "\<forall>r\<in>set rs. cmd_path r \<noteq> []" and r: "(n, h, q, d) \<in> set rs"
  shows "\<exists>c. cmd_at (register_all rs []) (tokens delimiters n) = Some c \<and> child c = [] \<and> command_handler c = Some h \<and> hasparams c = q"
proof -
  let ?p = "tokens delimiters n" and ?rs = "rev (map (\<lambda>r. (cmd_path r, fst (snd r), fst (snd (snd r)))) rs)"
  have p: "cmd_path (n, h, q, d) = ?p" by (simp add: cmd_path_def)
  have one: "v = (h, q)" if v: "(?p, v) \<in> set ?rs" for v
  proof -
    obtain r' where r': "r' \<in> set rs" "cmd_path r' = ?p" "v = (fst (snd r'), fst (snd (snd r')))" using v by auto
    then have "r' = (n, h, q, d)" using rs(1) r p unfolding prefix_free_def by (metis prefix_order.refl)
    then show ?thesis using r'(3) by simp
  qed
  have "(?p, h, q) \<in> set ?rs" using imageI [OF r, of "\<lambda>r. (cmd_path r, fst (snd r), fst (snd (snd r)))"] p by simp
  from weak_map_of_SomeI [OF this] obtain v where v: "map_of ?rs ?p = Some v" ..
  have "v = (h, q)" by (rule one [OF map_of_SomeD [OF v]])
  then have "handlers (register_all rs []) ?p = Some (h, q)"
    using v by (simp add: register_all_handlers [OF rs(2)] map_add_def)
  then obtain c where c: "cmd_at (register_all rs []) ?p = Some c" "command_handler c = Some h" "hasparams c = q"
    by (auto simp: handlers_def split: option.splits)
  have "child c = []"
  proof (rule ccontr)
    assume "child c \<noteq> []"
    then obtain e es where "child c = e # es" by (cases "child c") auto
    then have "cmd_at (register_all rs []) (?p @ [cmd_name e]) \<noteq> None" using cmd_at_child [OF c(1)] by simp
    then obtain r' where "r' \<in> set rs" "prefix (?p @ [cmd_name e]) (cmd_path r')"
      unfolding register_all_paths by auto
    moreover from this have "r' = (n, h, q, d)" using rs(1) r p by (metis append_prefixD prefix_free_def)
    ultimately show False using p by (auto dest: prefix_length_le)
  qed
  then show ?thesis using c by blast
qed

section \<open>Well-formed trees\<close>

text \<open>
  Names are single words and differ among siblings, a command without children has a handler, and
  \<open>hidden\<close> has been assigned exactly when there is a handler.
\<close>

fun cmd_ok :: "'h command \<Rightarrow> bool" where
  "cmd_ok (Command n h cs q d) \<longleftrightarrow> word_ok delimiters n \<and> (cs = [] \<longrightarrow> h \<noteq> None) \<and> (d = None \<longleftrightarrow> h = None) \<and>
     distinct (map cmd_name cs) \<and> (\<forall>c\<in>set cs. cmd_ok c)"

definition tree_ok :: "'h command list \<Rightarrow> bool" where
  "tree_ok node \<longleftrightarrow> distinct (map cmd_name node) \<and> (\<forall>c\<in>set node. cmd_ok c)"

lemma cmd_ok_iff: "cmd_ok c \<longleftrightarrow> word_ok delimiters (cmd_name c) \<and> (child c = [] \<longrightarrow> command_handler c \<noteq> None) \<and>
    (hidden c = None \<longleftrightarrow> command_handler c = None) \<and> tree_ok (child c)"
  by (cases c) (auto simp: tree_ok_def)

lemma upd_names: "(\<And>c. cmd_name (f c) = cmd_name c) \<Longrightarrow> map cmd_name (upd_command t f node) = map cmd_name node"
  by (induction node) auto

lemma upd_set: "c \<in> set (upd_command t f node) \<Longrightarrow> c \<in> set node \<or> (\<exists>c0\<in>set node. cmd_name c0 = t \<and> c = f c0)"
  by (induction node) (auto split: if_splits)

lemma find_none: "find_command node t = [] \<longleftrightarrow> t \<notin> cmd_name ` set node"
  by (auto simp: find_command_def dropWhile_eq_Nil_conv)

lemma upd_new: "find_command node t = [] \<Longrightarrow> cmd_name c = t \<Longrightarrow> upd_command t f (node @ [c]) = node @ [f c]"
  unfolding find_none by (induction node) auto

lemma tree_ok_upd:
  assumes "tree_ok node" and "\<And>c. cmd_name (f c) = cmd_name c" and "\<And>c. cmd_ok c \<Longrightarrow> cmd_ok (f c)"
  shows "tree_ok (upd_command t f node)"
  unfolding tree_ok_def upd_names [of f, OF assms(2)]
  using assms(1,3) by (auto simp: tree_ok_def dest!: upd_set)

lemma register_tree_ok:
  "tree_ok node \<Longrightarrow> ts \<noteq> [] \<Longrightarrow> \<forall>t\<in>set ts. word_ok delimiters t \<Longrightarrow>
   tree_ok (register_path ts h q d node) \<and> register_path ts h q d node \<noteq> []"
proof (induction ts arbitrary: node)
  case (Cons t ts)
  let ?f = "\<lambda>c. if ts = [] then set_handler h q d c else set_child (register_path ts h q d (child c)) c"
  have names: "cmd_name (?f c) = cmd_name c" for c by simp
  have keep: "cmd_ok (?f c)"
    if "word_ok delimiters (cmd_name c)" "tree_ok (child c)" "hidden c = None \<longleftrightarrow> command_handler c = None" for c
    using that Cons.IH [OF that(2)] Cons.prems(3) by (auto simp: cmd_ok_iff)
  show ?case
  proof (cases "find_command node t = []")
    case True
    have "cmd_ok (?f (allocate_command t))" by (rule keep) (use Cons.prems(3) in \<open>auto simp: tree_ok_def\<close>)
    moreover have "register_path (t # ts) h q d node = node @ [?f (allocate_command t)]"
      using True by (simp add: upd_new)
    ultimately show ?thesis using Cons.prems(1) True by (auto simp: tree_ok_def find_none)
  next
    case False
    have "tree_ok (upd_command t ?f node)"
      by (rule tree_ok_upd [OF Cons.prems(1) names]) (rule keep; simp add: cmd_ok_iff)
    moreover have "upd_command t ?f node \<noteq> []" using False upd_names [of ?f t node, OF names] by (auto simp: find_command_def)
    ultimately show ?thesis using False by simp
  qed
qed simp

lemma register_all_tree_ok: "tree_ok node \<Longrightarrow> \<forall>r\<in>set rs. cmd_path r \<noteq> [] \<Longrightarrow> tree_ok (register_all rs node)"
  unfolding register_all_def
proof (induction rs arbitrary: node)
  case (Cons r rs)
  obtain n h q d where r: "r = (n, h, q, d)" by (cases r)
  have "tree_ok (register_command n h q d node)"
    using register_tree_ok [OF Cons.prems(1), of "tokens delimiters n"] Cons.prems(2) tokens_words
    by (simp add: r register_command_def cmd_path_def)
  then show ?case using Cons r by simp
qed simp

text \<open>A listing of a node with a command that has no handler reads a field that was never assigned.\<close>

lemma node_help_unset: "c \<in> set node \<Longrightarrow> hidden c = None \<Longrightarrow> node_help k node = None"
  by (induction k node rule: node_help.induct) (auto split: option.splits bool.splits)

lemma help_unset:
  assumes "tree_ok node" and "find_first node t = Some c" and "command_handler c = None"
  shows "cli_node_help node = None"
proof -
  have c: "c \<in> set node" using assms(2) by (induction node) (auto split: if_splits)
  then have "cmd_ok c" using assms(1) by (simp add: tree_ok_def)
  then have "hidden c = None" using assms(3) by (simp add: cmd_ok_iff)
  then show ?thesis using c by (simp add: cli_node_help_def node_help_unset)
qed

text \<open>What every handler keeps, the execution of a line keeps.\<close>

lemma run_node_keeps:
  assumes r: "run_node run t r cs x s = Some (x', out, b, r', s')" and "I s"
    and keep: "\<And>h ps s x out s'. run h ps s = Some (x, out, s') \<Longrightarrow> I s \<Longrightarrow> I s'"
  shows "I s'"
  using r \<open>I s\<close>
proof (induction cs arbitrary: x)
  case (Cons c cs)
  show ?case
  proof (cases "\<exists>h. command_handler c = Some h \<and> cmd_name c = t")
    case True
    then obtain h where "command_handler c = Some h" "cmd_name c = t" by blast
    then show ?thesis using Cons.prems keep by (auto simp: bind_eq_Some_conv call_handler_params)
  next
    case False
    then have "run_node run t r cs CLI_ERR_CMD s = Some (x', out, b, r', s')"
      using Cons.prems(1) by (auto split: option.splits if_splits)
    then show ?thesis using Cons.IH Cons.prems(2) by blast
  qed
qed auto

lemma exec_token_keeps:
  assumes "exec_token run node t r x s = Some z" and "I s"
    and "\<And>h ps s x out s'. run h ps s = Some (x, out, s') \<Longrightarrow> I s \<Longrightarrow> I s'"
  shows "case z of Inl (x', out, s') \<Rightarrow> I s' | Inr (node', x', out, b, r', s') \<Rightarrow> I s'"
  using assms(1,2)
  by (auto simp: exec_token_def bind_eq_Some_conv simp del: run_node.simps split: list.splits if_splits
      dest!: run_node_keeps [where I = I, OF _ _ assms(3)])

lemma exec_loop_keeps:
  assumes "exec_loop run node nt x s = Some (x', out, s')" and "I s"
    and keep: "\<And>h ps s x out s'. run h ps s = Some (x, out, s') \<Longrightarrow> I s \<Longrightarrow> I s'"
  shows "I s'"
  using assms
proof (induction run node nt x s arbitrary: x' out s' rule: exec_loop.induct)
  case (2 run node t r x s)
  obtain z where z: "exec_token run node t r x s = Some z" using "2.prems"(1) by (auto split: option.splits)
  note kept = exec_token_keeps [where I = I, OF z "2.prems"(2,3)]
  show ?case
  proof (cases z)
    case (Inl e)
    then show ?thesis using "2.prems"(1) z kept by auto
  next
    case (Inr e)
    obtain node1 x1 out1 b r1 s1 where e: "e = (node1, x1, out1, b, r1, s1)" by (cases e)
    have i: "I s1" using kept Inr e by simp
    show ?thesis
    proof (cases b)
      case True
      then show ?thesis using "2.prems"(1) z Inr e i by (auto simp: bind_eq_Some_conv Let_def)
    next
      case False
      then obtain x2 out2 ms where
        h: "(if strtok_r delimiters r1 = None \<and> x1 = CLI_ERROR then cli_node_help node1 else Some []) = Some ms"
        and l: "exec_loop run node1 (strtok_r delimiters r1) x1 s1 = Some (x2, out2, s')"
        using "2.prems"(1) z Inr e by (auto simp: bind_eq_Some_conv Let_def)
      show ?thesis
        by (rule "2.IH" [OF z Inr e [symmetric] refl refl refl refl refl h False l i]) (rule "2.prems"(3))
    qed
  qed
qed simp

lemma execute_keeps:
  assumes "execute_commands run node m s = Some (x, out, s')" and "I s"
    and "\<And>h ps s x out s'. run h ps s = Some (x, out, s') \<Longrightarrow> I s \<Longrightarrow> I s'"
  shows "I s'"
  using assms exec_loop_keeps [where I = I and run = run] by (auto simp: execute_commands_def split: if_splits)

section \<open>Properties\<close>

text \<open>(C30) Registration refines the update of a table: \<open>register_command\<close> maps the words of the name to
  the handler and its kind, and leaves the binding of every other sequence of words as it was,
  whatever the tree holds.\<close>

theorem register_command_refines:
  assumes "tokens delimiters name \<noteq> []"
  shows "handlers (register_command name h params hide node) = (handlers node)(tokens delimiters name \<mapsto> (h, params))"
  using assms by (auto simp: register_command_def register_handlers fun_eq_iff)

theorem register_command_refines_witness:
  "handlers (register_command ''show  version'' (7 :: nat) False False []) [''show'', ''version''] = Some (7, False)"
proof -
  have "tokens delimiters ''show  version'' = [''show'', ''version'']" by code_simp
  then show ?thesis using register_command_refines [of "''show  version''" "7 :: nat" False False "[]"] by simp
qed

text \<open>(C31) The command tree stays well-formed: whatever commands are registered, in whatever order, names of
  the tree are single words, no two siblings have the same name, and every command without
  children has a handler.\<close>

theorem command_tree_well_formed:
  assumes "\<forall>r\<in>set rs. cmd_path r \<noteq> []"
  shows "tree_ok (register_all rs [])"
  using assms by (intro register_all_tree_ok) (simp_all add: tree_ok_def)

theorem command_tree_well_formed_witness:
  "tree_ok (register_all [(''show traces  mask'', True, False, False), (''show'', False, True, False)] [])"
proof -
  have "tokens delimiters ''show traces  mask'' \<noteq> []" "tokens delimiters ''show'' \<noteq> []" by code_simp+
  then show ?thesis
    using command_tree_well_formed [of "[(''show traces  mask'', True, False, False), (''show'', False, True, False)]"]
    by (simp add: cmd_path_def)
qed

text \<open>A registered command is executed: when no registered command is the beginning of another and
  none has a help word in it, a line that starts with the words of a command, however they are spaced,
  calls that command's handler, with the remaining words of the line if it takes parameters, and the
  console returns what the handler returns.\<close>

lemma registered_command_executes:
  assumes "prefix_free rs" and "\<forall>r\<in>set rs. cmd_path r \<noteq> [] \<and> (\<forall>t\<in>set (cmd_path r). \<not> asks_help t)"
    and "(name, h, params, hide) \<in> set rs"
    and "tokens delimiters line = tokens delimiters name @ ps"
    and "run h (if params then ps else []) s = Some (code, out, s')" and "code \<noteq> CLI_ERROR"
  shows "execute_commands run (register_all rs []) line s = Some (code, out, s')"
proof -
  obtain c where c: "cmd_at (register_all rs []) (tokens delimiters name) = Some c" "child c = []"
    "command_handler c = Some h" "hasparams c = params"
    using prefix_free_leaf [OF assms(1) _ assms(3)] assms(2) by blast
  have "\<forall>t\<in>set (tokens delimiters name). \<not> asks_help t" using assms(2,3) by (auto simp: cmd_path_def)
  from exec_path [OF c(1-3) this assms(4), of run s code out s']
  have "exec_loop run (register_all rs []) (strtok_r delimiters line) CLI_ERROR s = Some (code, out, s')"
    using assms(5,6) c(4) by blast
  moreover have "register_all rs [] \<noteq> []" using c(1) by auto
  ultimately show ?thesis by (simp add: execute_commands_def)
qed

end
