(* ===== verification/Trace_Masks.thy ===== *)
theory Trace_Masks
  imports Cli_Commands
begin

text \<open>
  The trace levels of the daemon (\<open>lib/debugd.c\<close>): the word \<open>debugword\<close> holds a level for each category,
  and the console shows and changes them.  A handler maps its parameters and the word to the code it
  returns, the lines it sends and the new word; \<^const>\<open>None\<close> is the use of a variable that a failed
  \<open>sscanf\<close> has left unset, or a number \<open>atoi\<close> cannot represent.
\<close>

section \<open>Data\<close>

record TRACECOMMAND =
  tc_name :: string
  tc_mask :: u64
  tc_doc :: string
  offset_bits :: nat

definition trace_commands :: "TRACECOMMAND list" where
  "trace_commands = [
     \<lparr>tc_name = ''update_cache'', tc_mask = 0x3, tc_doc = ''UPDATE_CACHE_MASK'', offset_bits = 0\<rparr>,
     \<lparr>tc_name = ''local_update_cache'', tc_mask = 0xC, tc_doc = ''LOCAL_UPDATE_CACHE_MASK'', offset_bits = 2\<rparr>,
     \<lparr>tc_name = ''update_cache_rtx'', tc_mask = 0x30, tc_doc = ''UPDATE_CACHE_RTX_MASK'', offset_bits = 4\<rparr>,
     \<lparr>tc_name = ''dedup'', tc_mask = 0xC0, tc_doc = ''DEDUP_MASK'', offset_bits = 6\<rparr>,
     \<lparr>tc_name = ''put_in_cache'', tc_mask = 0x300, tc_doc = ''PUT_IN_CACHE_MASK'', offset_bits = 8\<rparr>,
     \<lparr>tc_name = ''uncomp'', tc_mask = 0xC00, tc_doc = ''UNCOMP_MASK'', offset_bits = 12\<rparr>]"

definition dashes :: "nat \<Rightarrow> string" where
  "dashes n = replicate n CHR ''-'' @ [newline]"

abbreviation long_line :: string where "long_line \<equiv> dashes 79"

text \<open>A line of text with its end.\<close>

definition text_line :: "string \<Rightarrow> string" where
  "text_line s = s @ [newline]"

definition quoted :: "string \<Rightarrow> string" where
  "quoted s = CHR 0x27 # s @ [CHR 0x27]"

section \<open>Operations\<close>

definition find_trace_command :: "string \<Rightarrow> TRACECOMMAND option" where
  "find_trace_command name = find (\<lambda>tc. tc_name tc = name) trace_commands"

definition print_traces_help :: "bool \<Rightarrow> string list" where
  "print_traces_help hasnumber = (
     let names = map tc_name trace_commands; k = (if hasnumber then 2 else 1) in
     (if hasnumber then [text_line ''[1]: [Number(1..3)]''] else []) @
     map (\<lambda>(i, n). text_line (''['' @ show_nat 10 (i + k) @ '']: '' @ n)) (zip [0..<length names] names) @ [long_line])"

text \<open>The test for a number: \<open>atoi\<close> gives 0 for text that is no number.\<close>

definition no_number :: "int \<Rightarrow> string \<Rightarrow> bool" where
  "no_number argument s \<longleftrightarrow> argument = 0 \<and> take 1 s \<noteq> ''0''"

definition validate_traces_level :: "string \<Rightarrow> (int \<times> string list) option" where
  "validate_traces_level level = do {
     argument \<leftarrow> atoi level;
     if no_number argument level then Some (CLI_ERROR, [text_line ''Command needs a number.''])
     else if 0 < argument \<and> argument < 4 then Some (argument, [])
     else Some (CLI_ERROR, [text_line ''Level traces between 1 and 3'', long_line]) }"

definition trace_level :: "u64 \<Rightarrow> TRACECOMMAND \<Rightarrow> u64" where
  "trace_level debugword tc = drop_bit (offset_bits tc) (debugword AND tc_mask tc)"

definition cli_show_traces_mask :: "u64 \<Rightarrow> int \<times> string list" where
  "cli_show_traces_mask debugword = (CLI_SUCCESS,
     [long_line, text_line (''Current debug mask '' @ show_nat 16 (unat debugword)), long_line] @
     map (\<lambda>tc. text_line (pad_right 25 (tc_doc tc) @ '':'' @ show_nat 16 (unat (trace_level debugword tc)))) trace_commands @
     [long_line])"

abbreviation show_mask :: "u64 \<Rightarrow> string list" where
  "show_mask debugword \<equiv> snd (cli_show_traces_mask debugword)"

text \<open>A number read by \<open>sscanf\<close> into a variable without a value.\<close>

definition read_mask :: "string \<Rightarrow> u64 option" where
  "read_mask s = (case sscanf_x s of Matched v \<Rightarrow> Some v | No_match \<Rightarrow> None | Out_of_range \<Rightarrow> None)"

definition enable_all :: "string \<Rightarrow> u64 \<Rightarrow> (int \<times> string list \<times> u64) option" where
  "enable_all p debugword = do {
     argument \<leftarrow> atoi p;
     if no_number argument p then Some (CLI_ERR_CMD, print_traces_help True, debugword)
     else if argument = 1 then Some (CLI_SUCCESS, show_mask 0x1555, 0x1555)
     else if argument = 2 then Some (CLI_SUCCESS, show_mask 0x2aaa, 0x2aaa)
     else if argument = 3 then Some (CLI_SUCCESS, show_mask 0xffff, 0xffff)
     else Some (CLI_SUCCESS, [text_line ''Level traces between 1 and 3'', long_line], debugword) }"

definition enable_one :: "string \<Rightarrow> string \<Rightarrow> u64 \<Rightarrow> (int \<times> string list \<times> u64) option" where
  "enable_one name p debugword = do {
     (level, out) \<leftarrow> validate_traces_level p;
     if level = CLI_ERROR then Some (level, out, debugword)
     else case find_trace_command name of
       Some tc \<Rightarrow>
         (let debugword = (debugword AND NOT (tc_mask tc)) + push_bit (offset_bits tc) (word_of_int level) in
          Some (0, out @ [text_line (''Traces '' @ quoted (tc_name tc) @ '' changed to '' @ show_int level)] @ show_mask debugword, debugword))
     | None \<Rightarrow> Some (CLI_ERR_CMD, out @ [text_line (''Mask not found: '' @ name)] @ print_traces_help False, debugword) }"

definition cli_traces_enable :: "string list \<Rightarrow> u64 \<Rightarrow> (int \<times> string list \<times> u64) option" where
  "cli_traces_enable parameters debugword = (case parameters of
     [p] \<Rightarrow> do { (c, out, w) \<leftarrow> enable_all p debugword; Some (c, long_line # out, w) }
   | [name, p] \<Rightarrow>
       if name = ''mask'' then do {
         w \<leftarrow> read_mask p;
         Some (CLI_SUCCESS, [long_line, text_line (''Traces mask changed to '' @ show_nat 16 (unat w))] @ show_mask w, w) }
       else do { (c, out, w) \<leftarrow> enable_one name p debugword; Some (c, long_line # out, w) }
   | _ \<Rightarrow> Some (CLI_ERR_CMD, long_line # print_traces_help True, debugword))"

definition cli_traces_disable :: "string list \<Rightarrow> u64 \<Rightarrow> int \<times> string list \<times> u64" where
  "cli_traces_disable parameters debugword = (case parameters of
     [] \<Rightarrow> (CLI_SUCCESS, long_line # show_mask 0, 0)
   | [name] \<Rightarrow> (case find_trace_command name of
         Some tc \<Rightarrow>
           (let w = debugword AND NOT (tc_mask tc) in
            (CLI_SUCCESS, [long_line, text_line (''Traces '' @ quoted (tc_name tc) @ '' disable'')] @ show_mask w, w))
       | None \<Rightarrow> (CLI_ERR_CMD, [long_line, text_line (''Mask not found: '' @ name)] @ print_traces_help False, debugword))
   | _ \<Rightarrow> (CLI_ERR_CMD, long_line # print_traces_help False, debugword))"

text \<open>The three commands that combine the word with a mask differ in the operation and their name.\<close>

definition traces_mask :: "string \<Rightarrow> (u64 \<Rightarrow> u64 \<Rightarrow> u64) \<Rightarrow> string list \<Rightarrow> u64 \<Rightarrow> (int \<times> string list \<times> u64) option" where
  "traces_mask name f parameters debugword = (case parameters of
     [p] \<Rightarrow> do {
       argument \<leftarrow> read_mask p;
       let w = f debugword argument;
       Some (CLI_SUCCESS, [long_line, text_line (''Traces mask changed to '' @ show_nat 16 (unat w))] @ show_mask w, w) }
   | _ \<Rightarrow> Some (CLI_ERR_CMD,
       [text_line (''Incorrect number of parameters. Command '' @ quoted (''traces mask '' @ name) @ '' needs 1 parameter.''), long_line], debugword))"

definition cli_traces_mask_orr :: "string list \<Rightarrow> u64 \<Rightarrow> (int \<times> string list \<times> u64) option" where
  "cli_traces_mask_orr = traces_mask ''orr'' (\<lambda>w a. w OR a)"

definition cli_traces_mask_and :: "string list \<Rightarrow> u64 \<Rightarrow> (int \<times> string list \<times> u64) option" where
  "cli_traces_mask_and = traces_mask ''and'' (\<lambda>w a. w AND a)"

definition cli_traces_mask_nand :: "string list \<Rightarrow> u64 \<Rightarrow> (int \<times> string list \<times> u64) option" where
  "cli_traces_mask_nand = traces_mask ''nand'' (\<lambda>w a. w AND NOT a)"

section \<open>Setting and showing levels\<close>

lemma replace_field:
  fixes w m v :: u64
  assumes "v AND m = v"
  shows "((w AND NOT m) + v) AND m = v" and "m AND m' = 0 \<Longrightarrow> ((w AND NOT m) + v) AND m' = w AND m'"
proof -
  have "(w AND NOT m) AND v = 0" using assms by (auto simp: bit_eq_iff bit_simps)
  then have sum: "(w AND NOT m) + v = (w AND NOT m) OR v" by (rule disjunctive_add_eq_or)
  show "((w AND NOT m) + v) AND m = v" unfolding sum using assms by (auto simp: bit_eq_iff bit_simps)
  show "((w AND NOT m) + v) AND m' = w AND m'" if "m AND m' = 0"
    unfolding sum using assms that by (auto simp: bit_eq_iff bit_simps)
qed

text \<open>The masks are disjoint, and a level fits in its own mask, except for \<open>uncomp\<close>.\<close>

lemma masks_disjoint:
  "tc \<in> set trace_commands \<Longrightarrow> tc' \<in> set trace_commands \<Longrightarrow> tc_name tc \<noteq> tc_name tc' \<Longrightarrow> tc_mask tc AND tc_mask tc' = 0"
  by (auto simp: trace_commands_def)

lemma level_fits:
  assumes "tc \<in> set trace_commands" and "tc_name tc \<noteq> ''uncomp''" and "0 < l" and "l < 4"
  shows "push_bit (offset_bits tc) (of_nat l) AND tc_mask tc = push_bit (offset_bits tc) (of_nat l)"
    and "drop_bit (offset_bits tc) (push_bit (offset_bits tc) (of_nat l :: u64)) = of_nat l"
proof -
  have "l = 1 \<or> l = 2 \<or> l = 3" using assms(3,4) by linarith
  then show "push_bit (offset_bits tc) (of_nat l) AND tc_mask tc = push_bit (offset_bits tc) (of_nat l)"
    "drop_bit (offset_bits tc) (push_bit (offset_bits tc) (of_nat l :: u64)) = of_nat l"
    using assms(1,2) by (auto simp: trace_commands_def)
qed

lemma find_trace_found: "tc \<in> set trace_commands \<Longrightarrow> find_trace_command (tc_name tc) = Some tc"
proof -
  have "\<forall>tc\<in>set trace_commands. find_trace_command (tc_name tc) = Some tc" by code_simp
  then show "tc \<in> set trace_commands \<Longrightarrow> find_trace_command (tc_name tc) = Some tc" by blast
qed

lemma validate_level:
  assumes "0 < l" "l < 4"
  shows "validate_traces_level (show_nat 10 l) = Some (int l, [])"
  using assms by (simp add: validate_traces_level_def atoi_show no_number_def)

lemma enable_category:
  assumes "tc \<in> set trace_commands" and "0 < l" and "l < 4"
  shows "\<exists>out. cli_traces_enable [tc_name tc, show_nat 10 l] w =
    Some (0, out, (w AND NOT (tc_mask tc)) + push_bit (offset_bits tc) (of_nat l))"
proof -
  have "tc_name tc \<noteq> ''mask''" using assms(1) by (auto simp: trace_commands_def)
  then show ?thesis using assms
    by (simp add: cli_traces_enable_def enable_one_def validate_level find_trace_found Let_def CLI_ERROR_def)
qed

text \<open>Setting a trace level takes effect: for every category but \<open>uncomp\<close>, the command
  \<open>traces enable <category> <level>\<close> with a level from 1 to 3 succeeds, the level shown for that category
  is then the one given, and the level shown for every other category is what it was.\<close>

theorem trace_level_set:
  assumes "tc \<in> set trace_commands" and "tc_name tc \<noteq> ''uncomp''" and "0 < l" and "l < 4"
  shows "\<exists>out w'. cli_traces_enable [tc_name tc, show_nat 10 l] w = Some (0, out, w') \<and> trace_level w' tc = of_nat l \<and>
    (\<forall>tc'\<in>set trace_commands. tc_name tc' \<noteq> tc_name tc \<longrightarrow> trace_level w' tc' = trace_level w tc')"
proof -
  let ?v = "push_bit (offset_bits tc) (of_nat l) :: u64"
  let ?w = "(w AND NOT (tc_mask tc)) + ?v"
  note fits = level_fits [OF assms]
  have "trace_level ?w tc = of_nat l" unfolding trace_level_def replace_field(1) [OF fits(1)] by (rule fits(2))
  moreover have "trace_level ?w tc' = trace_level w tc'"
    if "tc' \<in> set trace_commands" "tc_name tc' \<noteq> tc_name tc" for tc'
    unfolding trace_level_def
    using replace_field(2) [OF fits(1), of "tc_mask tc'" w] masks_disjoint [OF assms(1) that(1)] that(2) by simp
  ultimately show ?thesis using enable_category [OF assms(1,3,4), of w] by blast
qed

theorem trace_level_set_witness:
  "\<exists>out w'. cli_traces_enable [''dedup'', show_nat 10 2] 0x1555 = Some (0, out, w') \<and>
    map (trace_level w') (take 5 trace_commands) = [1, 1, 1, 2, 1]"
proof -
  let ?tc = "\<lparr>tc_name = ''dedup'', tc_mask = 0xC0, tc_doc = ''DEDUP_MASK'', offset_bits = 6\<rparr>"
  have "?tc \<in> set trace_commands" by (simp add: trace_commands_def)
  from trace_level_set [OF this, of 2 "0x1555"]
  obtain out w' where w: "cli_traces_enable [''dedup'', show_nat 10 2] 0x1555 = Some (0, out, w')" "trace_level w' ?tc = 2"
    "\<forall>tc'\<in>set trace_commands. tc_name tc' \<noteq> ''dedup'' \<longrightarrow> trace_level w' tc' = trace_level 0x1555 tc'" by auto
  then have "map (trace_level w') (take 5 trace_commands) = [1, 1, 1, 2, 1]"
    by (simp add: trace_commands_def) (simp add: trace_level_def)
  then show ?thesis using w(1) by (intro exI [of _ out] exI [of _ w'] conjI)
qed

text \<open>Adding to the bits from 12 on does not change the lower ones.\<close>

lemma high_bits: "(x + push_bit 12 y) AND 0xC00 = x AND (0xC00 :: u64)"
proof -
  have "take_bit 12 x + push_bit 12 (drop_bit 12 x + y) = push_bit 12 (drop_bit 12 x) + take_bit 12 x + push_bit 12 y"
    by (simp only: push_bit_add ac_simps)
  then have "x + push_bit 12 y = take_bit 12 x + push_bit 12 (drop_bit 12 x + y)" by (simp only: bits_ident)
  also have "\<dots> = take_bit 12 x OR push_bit 12 (drop_bit 12 x + y)"
    by (rule disjunctive_add_eq_or) (auto simp: bit_eq_iff bit_simps)
  finally have "(x + push_bit 12 y) AND mask 12 = x AND mask 12" by (auto simp: bit_eq_iff bit_simps)
  from arg_cong [OF this, of "\<lambda>z. z AND 0xC00"]
  have "(x + push_bit 12 y) AND (mask 12 AND 0xC00) = x AND (mask 12 AND 0xC00)" by (simp only: and.assoc)
  then show ?thesis by (simp add: mask_eq_exp_minus_1)
qed

text \<open>
  The category \<open>uncomp\<close> has its mask in bits 10 and 11 and its offset at bit 12: a level set for it is never
  shown and never tested, and it stays in the word when the category is disabled.
\<close>

theorem uncomp_level_lost:
  assumes "0 < l" and "l < 4"
  shows "\<exists>out w'. cli_traces_enable [''uncomp'', show_nat 10 l] w = Some (0, out, w') \<and> w' AND 0xC00 = 0"
proof -
  let ?tc = "\<lparr>tc_name = ''uncomp'', tc_mask = 0xC00, tc_doc = ''UNCOMP_MASK'', offset_bits = 12\<rparr>"
  have "?tc \<in> set trace_commands" by (simp add: trace_commands_def)
  from enable_category [OF this assms, of w]
  obtain out where "cli_traces_enable [''uncomp'', show_nat 10 l] w = Some (0, out, (w AND NOT 0xC00) + push_bit 12 (of_nat l))"
    by auto
  moreover have "((w AND NOT 0xC00) + push_bit 12 (of_nat l)) AND 0xC00 = (0 :: u64)"
  proof -
    have "((w AND NOT 0xC00) + push_bit 12 (of_nat l)) AND 0xC00 = (w AND NOT 0xC00) AND (0xC00 :: u64)" by (rule high_bits)
    then show ?thesis by (simp add: and.assoc)
  qed
  ultimately show ?thesis by blast
qed

end
