(* ===== verification/Dedup_Report.thy ===== *)
theory Dedup_Report
  imports Worker_Control Worker_Link Trace_Masks
begin

text \<open>
  The console's view of the deduplicators (\<open>opennopd/deduplication.c\<close>): resetting and showing the statistics
  of all workers, as a sum or one by one.  The compressor of a worker is the deduplicator of its
  optimisation side, the decompressor that of the other side.
\<close>

section \<open>Lines of statistics\<close>

text \<open>The first line of a report has a blank before its end.\<close>

definition stat_lines :: "string list \<Rightarrow> u64 list \<Rightarrow> string list" where
  "stat_lines names vs = map (\<lambda>(name, v). text_line (name @ ''.value '' @ show_nat 10 (unat v) @
     (if name = ''total_input_bytes'' then '' '' else []))) (zip names vs)"

definition comp_names :: "string list" where
  "comp_names = [''total_input_bytes'', ''total_output_bytes'', ''processed_packets'', ''compressed_packets'', ''FP_entries'',
     ''last_pktId'', ''FP_hash_collisions'', ''FP_collisions'', ''short_packets'']"

definition comp_values :: "Statistics \<Rightarrow> u64 list" where
  "comp_values cs = [inputBytes cs, outputBytes cs, processedPackets cs, compressedPackets cs, numOfFPEntries cs, lastPktId cs,
     numberOfFPHashCollisions cs, numberOfFPCollisions cs, numberOfShortPkts cs]"

definition decomp_names :: "string list" where
  "decomp_names = [''total_input_bytes'', ''total_output_bytes'', ''processed_packets'', ''uncompressed_packets'',
     ''FP_entries_not_found'', ''packet_hashes_not_found'', ''bad_packet_format'', ''bad_packet_hash'']"

definition decomp_values :: "Statistics \<Rightarrow> u64 list" where
  "decomp_values ds = [inputBytes ds, outputBytes ds, processedPackets ds, uncompressedPackets ds, errorsMissingFP ds,
     errorsMissingPacket ds, errorsPacketFormat ds, errorsPacketHash ds]"

text \<open>The sums wrap around at 64 bits.\<close>

definition sum_values :: "nat \<Rightarrow> u64 list list \<Rightarrow> u64 list" where
  "sum_values k vss = foldl (map2 (+)) (replicate k 0) vss"

text \<open>The statistics of the deduplicators of the first \<open>n\<close> workers.\<close>

definition all_stats :: "(nat \<Rightarrow> worker list \<Rightarrow> Deduplicator option) \<Rightarrow> u8 \<Rightarrow> worker list \<Rightarrow> Statistics list option" where
  "all_stats get n ws = foldM (\<lambda>si acc. do { pd \<leftarrow> get si ws; Some (acc @ [getStatistics pd]) }) [0..<unat n] []"

section \<open>The compressor\<close>

definition reset_compressor :: "worker \<Rightarrow> worker" where
  "reset_compressor k = k\<lparr>optimization := (optimization k)\<lparr>dedupProcessor := resetStatistics (dedupProcessor (optimization k))\<rparr>\<rparr>"

definition cli_reset_stats_in_dedup :: "u8 \<Rightarrow> worker list \<Rightarrow> (int \<times> string list \<times> worker list) option" where
  "cli_reset_stats_in_dedup n ws = do {
     ws \<leftarrow> foldM (\<lambda>si. upd_worker si reset_compressor) [0..<unat n] ws;
     Some (0, [long_line, text_line ''Compressor statistics reset'', long_line], ws) }"

text \<open>The variant that is never registered has the same body.\<close>

definition cli_reset_stats_in_dedup_thread :: "u8 \<Rightarrow> worker list \<Rightarrow> (int \<times> string list \<times> worker list) option" where
  "cli_reset_stats_in_dedup_thread n ws = do {
     ws \<leftarrow> foldM (\<lambda>si. upd_worker si reset_compressor) [0..<unat n] ws;
     Some (0, [long_line, text_line ''Compressor statistics reset'', long_line], ws) }"

definition cli_show_stats_in_dedup :: "u8 \<Rightarrow> worker list \<Rightarrow> (int \<times> string list) option" where
  "cli_show_stats_in_dedup n ws = do {
     cs \<leftarrow> all_stats get_worker_compressor n ws;
     Some (0, [dashes 66, text_line ''Compressor statistics''] @ stat_lines comp_names (sum_values 9 (map comp_values cs)) @ [dashes 66]) }"

definition cli_show_stats_in_dedup_thread :: "u8 \<Rightarrow> worker list \<Rightarrow> (int \<times> string list) option" where
  "cli_show_stats_in_dedup_thread n ws = do {
     cs \<leftarrow> all_stats get_worker_compressor n ws;
     Some (0, dashes 66 # concat (map (\<lambda>(si, c). text_line (''Compressor statistics (thread '' @ show_nat 10 si @ '')'') #
       stat_lines comp_names (comp_values c) @ [dashes 66]) (zip [0..<length cs] cs))) }"

section \<open>The decompressor\<close>

definition reset_decompressor :: "worker \<Rightarrow> worker" where
  "reset_decompressor k = k\<lparr>deoptimization := (deoptimization k)\<lparr>dedupProcessor := resetStatistics (dedupProcessor (deoptimization k))\<rparr>\<rparr>"

definition cli_reset_stats_out_dedup :: "u8 \<Rightarrow> worker list \<Rightarrow> (int \<times> string list \<times> worker list) option" where
  "cli_reset_stats_out_dedup n ws = do {
     ws \<leftarrow> foldM (\<lambda>si. upd_worker si reset_decompressor) [0..<unat n] ws;
     Some (0, [long_line, text_line ''Decompressor statistics reset'', long_line], ws) }"

definition cli_reset_stats_out_dedup_thread :: "u8 \<Rightarrow> worker list \<Rightarrow> (int \<times> string list \<times> worker list) option" where
  "cli_reset_stats_out_dedup_thread n ws = do {
     ws \<leftarrow> foldM (\<lambda>si. upd_worker si reset_decompressor) [0..<unat n] ws;
     Some (0, [long_line, text_line ''Decompressor statistics reset'', long_line], ws) }"

definition cli_show_stats_out_dedup :: "u8 \<Rightarrow> worker list \<Rightarrow> (int \<times> string list) option" where
  "cli_show_stats_out_dedup n ws = do {
     ds \<leftarrow> all_stats get_worker_decompressor n ws;
     Some (0, [dashes 66, text_line ''Decompressor statistics''] @ stat_lines decomp_names (sum_values 8 (map decomp_values ds)) @ [dashes 66]) }"

text \<open>The report by thread has no line for bad packet hashes.\<close>

definition cli_show_stats_out_dedup_thread :: "u8 \<Rightarrow> worker list \<Rightarrow> (int \<times> string list) option" where
  "cli_show_stats_out_dedup_thread n ws = do {
     ds \<leftarrow> all_stats get_worker_decompressor n ws;
     Some (0, dashes 66 # concat (map (\<lambda>(si, c). text_line (''Decompressor statistics (thread '' @ show_nat 10 si @ '')'') #
       stat_lines (butlast decomp_names) (butlast (decomp_values c)) @ [dashes 66]) (zip [0..<length ds] ds))) }"

section \<open>Reset and show\<close>

lemma upd_all:
  assumes "n \<le> length ws"
  shows "foldM (\<lambda>si. upd_worker si f) [0..<n] ws = Some (map f (take n ws) @ drop n ws)"
  using assms
proof (induction n)
  case (Suc n)
  have "upd_worker n f (map f (take n ws) @ drop n ws) = Some (map f (take (Suc n) ws) @ drop (Suc n) ws)"
    using Suc.prems by (simp add: upd_worker_def nth_append list_update_append take_Suc_conv_app_nth Cons_nth_drop_Suc [symmetric])
  then show ?case using Suc by (simp add: foldM_append)
qed simp

lemma all_stats_map:
  assumes "unat n \<le> length ws" and "\<And>i. i < length ws \<Longrightarrow> get i ws = Some (d (ws ! i))"
  shows "all_stats get n ws = Some (map (getStatistics \<circ> d) (take (unat n) ws))"
proof -
  have "foldM (\<lambda>si acc. do { pd \<leftarrow> get si ws; Some (acc @ [getStatistics pd]) }) [0..<k] [] =
      Some (map (getStatistics \<circ> d) (take k ws))" if "k \<le> length ws" for k
    using that
  proof (induction k)
    case (Suc k)
    then show ?case by (simp add: foldM_append assms(2) take_Suc_conv_app_nth)
  qed simp
  then show ?thesis using assms(1) by (simp add: all_stats_def)
qed

lemma sum_zero: "(\<forall>vs\<in>set vss. vs = replicate k 0) \<Longrightarrow> sum_values k vss = replicate k 0"
  unfolding sum_values_def
proof (induction vss)
  case (Cons vs vss)
  have "map2 (+) (replicate k 0) (replicate k 0) = (replicate k 0 :: u64 list)" by (induction k) auto
  then show ?case using Cons by simp
qed simp

lemma reset_values: "comp_values (getStatistics (resetStatistics pd)) = replicate 9 0"
  by (simp add: getStatistics_def resetStatistics_def zero_stats_def comp_values_def numeral_eq_Suc)

section \<open>Properties\<close>

text \<open>Resetting the compressors' statistics works on every worker: after \<open>reset stats in_dedup\<close> the sum that
  \<open>show stats in_dedup\<close> prints is 0 in each of its nine lines, and nothing but the statistics of the
  compressors of the running workers has changed.\<close>

theorem reset_then_show:
  assumes "unat n \<le> length ws"
  shows "\<exists>out ws'. cli_reset_stats_in_dedup n ws = Some (0, out, ws') \<and>
    ws' = map reset_compressor (take (unat n) ws) @ drop (unat n) ws \<and>
    cli_show_stats_in_dedup n ws' =
      Some (0, [dashes 66, text_line ''Compressor statistics''] @ stat_lines comp_names (replicate 9 0) @ [dashes 66])"
proof -
  let ?ws = "map reset_compressor (take (unat n) ws) @ drop (unat n) ws"
  have l: "length ?ws = length ws" using assms by simp
  have "all_stats get_worker_compressor n ?ws = Some (map (getStatistics \<circ> (dedupProcessor \<circ> optimization)) (take (unat n) ?ws))"
    using assms l by (intro all_stats_map) (simp_all add: get_worker_compressor_def)
  moreover have "take (unat n) ?ws = map reset_compressor (take (unat n) ws)" using assms by simp
  ultimately have "all_stats get_worker_compressor n ?ws =
      Some (map (\<lambda>k. getStatistics (resetStatistics (dedupProcessor (optimization k)))) (take (unat n) ws))"
    using assms by (simp add: reset_compressor_def comp_def min_absorb2)
  moreover have "sum_values 9 (map comp_values (map (\<lambda>k. getStatistics (resetStatistics (dedupProcessor (optimization k)))) (take (unat n) ws)))
      = replicate 9 0"
    by (rule sum_zero) (auto simp: reset_values)
  ultimately have "cli_show_stats_in_dedup n ?ws =
      Some (0, [dashes 66, text_line ''Compressor statistics''] @ stat_lines comp_names (replicate 9 0) @ [dashes 66])"
    by (simp add: cli_show_stats_in_dedup_def)
  then show ?thesis using upd_all [OF assms, of reset_compressor] by (simp add: cli_reset_stats_in_dedup_def)
qed

theorem reset_then_show_witness:
  "let ws = replicate 3 \<lparr>workernum = 0, optimization = link_processor zero_memory, deoptimization = link_processor zero_memory, wk_state = 0\<rparr> in
   \<exists>out ws'. cli_reset_stats_in_dedup 2 ws = Some (0, out, ws') \<and> ws' ! 2 = ws ! 2 \<and>
     cli_show_stats_in_dedup 2 ws' =
       Some (0, [dashes 66, text_line ''Compressor statistics''] @ stat_lines comp_names (replicate 9 0) @ [dashes 66])"
proof -
  let ?w = "\<lparr>workernum = 0, optimization = link_processor zero_memory, deoptimization = link_processor zero_memory, wk_state = 0\<rparr>"
  from reset_then_show [of 2 "replicate 3 ?w"]
  obtain out ws' where "cli_reset_stats_in_dedup 2 (replicate 3 ?w) = Some (0, out, ws')"
    "ws' = map reset_compressor (take 2 (replicate 3 ?w)) @ drop 2 (replicate 3 ?w)"
    "cli_show_stats_in_dedup 2 ws' =
       Some (0, [dashes 66, text_line ''Compressor statistics''] @ stat_lines comp_names (replicate 9 0) @ [dashes 66])"
    by auto
  then show ?thesis by (auto simp: Let_def numeral_eq_Suc)
qed

end
