(* ===== verification/Traffic_Report.thy ===== *)
theory Traffic_Report
  imports Fetcher Worker_Link Trace_Masks
begin

text \<open>
  The traffic reports of the console: rates as text (\<open>bytestostringbps\<close> in \<open>clicommands.c\<close>), the report of
  the fetcher (\<open>fetcher.c\<close>) and the tables of the workers (\<open>worker.c\<close>).  \<open>sprintf\<close> writes to arrays of
  a fixed size; text that does not fit with its terminating zero is a fault.
\<close>

section \<open>Rates as text\<close>

definition bytestostringbps :: "u64 \<Rightarrow> string" where
  "bytestostringbps count = (
     let bits = sint (count * 8) in
     if bits < 1024 then show_int bits @ '' bps''
     else if 1024 \<le> (bits div 1024) div 1024 then
       show_int (((bits div 1024) div 1024) div 1024) @ ''.'' @ show_int ((((bits div 1024) div 1024) mod 1024) div 10) @ '' Gbps''
     else if 1024 \<le> bits div 1024 then
       show_int ((bits div 1024) div 1024) @ ''.'' @ show_int (((bits div 1024) mod 1024) div 10) @ '' Mbps''
     else show_int (bits div 1024) @ ''.'' @ show_int ((bits mod 1024) div 10) @ '' Kbps'')"

text \<open>An array of \<open>n\<close> characters that \<open>sprintf\<close> fills.\<close>

definition array :: "nat \<Rightarrow> string \<Rightarrow> string option" where
  "array n s = (if length s < n then Some s else None)"

section \<open>The report of the fetcher\<close>

definition cli_show_fetcher :: "fetchercounters \<Rightarrow> (int \<times> string list) option" where
  "cli_show_fetcher m = do {
     let ppsbps = f_pps m;
     bps \<leftarrow> array 11 (bytestostringbps (ucast ppsbps));
     col1 \<leftarrow> array 11 (''| '' @ pad_right 8 (show_nat 10 (unat ppsbps)));
     let ppsbps = f_bpsin m;
     bps \<leftarrow> array 11 (bytestostringbps (ucast ppsbps));
     col2 \<leftarrow> array 14 (''| '' @ pad_right 11 bps);
     col3 \<leftarrow> array 3 (text_line ''|'');
     Some (0, [dashes 24, text_line ''|  5 sec  |  fetcher   |'', dashes 24, text_line ''|   pps   |     in     |'', dashes 24,
       col1 @ col2 @ col3, dashes 24]) }"

section \<open>The tables of the workers\<close>

text \<open>
  The cells of a row: a width and a text each.  The cells of a worker go through the array \<open>colagr\<close> of
  255 characters, those of the last row are written to \<open>msg\<close> at once.
\<close>

fun cells :: "nat \<Rightarrow> (nat \<times> string) list \<Rightarrow> string option" where
  "cells k [] = Some []"
| "cells k ((n, s) # cs) = do { c \<leftarrow> array k (''| '' @ pad_right n s); r \<leftarrow> cells k cs; Some (c @ r) }"

definition worker_cell :: "nat \<Rightarrow> string" where
  "worker_cell i = ''|    '' @ pad_right 5 (show_nat 10 i)"

definition table_row :: "nat \<Rightarrow> string \<Rightarrow> (nat \<times> string) list \<Rightarrow> string option" where
  "table_row k first cs = do { r \<leftarrow> cells k cs; array 4096 (first @ r @ text_line ''|'') }"

definition rate_cells :: "u32 \<Rightarrow> u64 \<Rightarrow> u64 \<Rightarrow> (nat \<times> string) list option" where
  "rate_cells pps32 bin bout = do {
     i \<leftarrow> array 255 (bytestostringbps bin);
     j \<leftarrow> array 255 (bytestostringbps bout);
     Some [(6, show_nat 10 (unat pps32)), (13, i), (13, j)] }"

definition rate_row :: "nat \<Rightarrow> string \<Rightarrow> u32 \<times> u64 \<times> u64 \<Rightarrow> u32 \<times> u64 \<times> u64 \<Rightarrow> string option" where
  "rate_row k first = (\<lambda>(p, x, y) (p', x', y'). do {
     cs \<leftarrow> rate_cells p x y;
     cs' \<leftarrow> rate_cells p' x' y';
     table_row k first (cs @ cs') })"

definition rates :: "workercounters \<Rightarrow> u32 \<times> u64 \<times> u64" where
  "rates m = (ucast (pps m), bpsin m, bpsout m)"

definition total_rates :: "workercounters list \<Rightarrow> u32 \<times> u64 \<times> u64" where
  "total_rates ms = (sum_list (map (\<lambda>m. ucast (pps m)) ms), sum_list (map bpsin ms), sum_list (map bpsout ms))"

definition totals :: "workercounters \<Rightarrow> u64 list" where
  "totals m = [bytesin m, bytesout m, diffBytesCompression m, diffBytesDeduplication m, diffBytesIpTcpHeader m, packets m,
     packetsWithOnlyCompression m, packetsWithOnlyDeduplication m, packetsWithBothCompressionAndDeduplication m, sequenceGaps m]"

definition add_totals :: "workercounters list \<Rightarrow> u64 list" where
  "add_totals ms = foldl (\<lambda>acc m. map2 (+) acc (totals m)) (replicate 10 0) ms"

text \<open>The format \<open>%lld\<close> reads the 64 bits as a signed number.\<close>

definition total_row :: "nat \<Rightarrow> string \<Rightarrow> u64 list \<Rightarrow> string option" where
  "total_row k first vs = table_row k first (zip [12, 12, 12, 11, 7, 10, 10, 10, 10, 10] (map (\<lambda>v. show_int (sint v)) vs))"

fun rows :: "(nat \<Rightarrow> 'a \<Rightarrow> string option) \<Rightarrow> nat \<Rightarrow> 'a list \<Rightarrow> string list option" where
  "rows f i [] = Some []"
| "rows f i (x # xs) = do { r \<leftarrow> f i x; rs \<leftarrow> rows f (Suc i) xs; Some (r # rs) }"

definition rate_table :: "worker list \<Rightarrow> string list option" where
  "rate_table ws = do {
     rs \<leftarrow> rows (\<lambda>i w. rate_row 255 (worker_cell i) (rates (metrics (optimization w))) (rates (metrics (deoptimization w)))) 0 ws;
     t \<leftarrow> rate_row 4096 ''|  total  '' (total_rates (map (metrics \<circ> optimization) ws)) (total_rates (map (metrics \<circ> deoptimization) ws));
     Some ([dashes 87, text_line ''|  5 sec  |          optimization               |          deoptimization             |'', dashes 87,
       text_line ''|  worker |  pps  |     in       |     out      |  pps  |     in       |     out      |'', dashes 87] @
       rs @ [dashes 87, t, dashes 87]) }"

definition total_table :: "string list \<Rightarrow> workercounters list \<Rightarrow> string list option" where
  "total_table heading ms = do {
     rs \<leftarrow> rows (\<lambda>i m. total_row 255 (worker_cell i) (totals m)) 0 ms;
     t \<leftarrow> total_row 4096 ''|  total  '' (add_totals ms);
     Some (heading @ rs @ [dashes 135, t, dashes 135]) }"

definition optimization_heading :: "string list" where
  "optimization_heading = [dashes 123,
     text_line ''| accmltd.|                                                     optimization                                              |'', dashes 123,
     text_line ''|  worker |  bytes in   |  bytes out  |   bcomp     |  bdedup    | bhead  | pkts      |   cpkts   |  dpkts    | c&dpkts   |'',
     dashes 135]"

definition deoptimization_heading :: "string list" where
  "deoptimization_heading = [dashes 135,
     text_line ''| accmltd.|                                                   deoptimization                                                          |'',
     dashes 135,
     text_line ''|  worker |  bytes in   |  bytes out  |   bcomp     |  bdedup    | bhead  | pkts      |   cpkts   |  dpkts    | c&dpkts   | seqGaps   |'',
     dashes 135]"

definition cli_show_workers :: "u8 \<Rightarrow> worker list \<Rightarrow> (int \<times> string list) option" where
  "cli_show_workers n workers = do {
     c_assert (unat n \<le> length workers);
     let ws = take (unat n) workers;
     a \<leftarrow> rate_table ws;
     b \<leftarrow> total_table optimization_heading (map (metrics \<circ> optimization) ws);
     c \<leftarrow> total_table deoptimization_heading (map (metrics \<circ> deoptimization) ws);
     Some (0, a @ b @ c) }"

section \<open>The reports fit\<close>

lemma show_int_length:
  assumes "0 < k" and "\<bar>x\<bar> < 10 ^ k"
  shows "length (show_int x) \<le> Suc k" and "0 \<le> x \<Longrightarrow> length (show_int x) \<le> k"
proof -
  have "nat \<bar>x\<bar> < 10 ^ k" using assms(2) by (simp add: nat_less_iff)
  then have "length (show_nat 10 (nat \<bar>x\<bar>)) \<le> k" using assms(1) by (intro show_nat_length) auto
  then show "length (show_int x) \<le> Suc k" "0 \<le> x \<Longrightarrow> length (show_int x) \<le> k" by (auto simp: show_int_def)
qed

lemma sint64: "\<bar>sint (w :: u64)\<bar> < 10 ^ 19"
  using sint_greater_eq [of w] sint_less [of w] by (simp add: abs_if)

lemma show_sint_length: "length (show_int (sint (w :: u64))) \<le> 20"
  using show_int_length(1) [of 19, OF _ sint64] by simp

lemma div_1024: "0 \<le> (x :: int) \<Longrightarrow> 0 \<le> x div 1024 \<and> x div 1024 \<le> x"
  using zdiv_mono2 [of x 1 1024] by simp

text \<open>The two numbers around the point: at most 19 and 3 digits.\<close>

definition unit_text :: "int \<Rightarrow> string \<Rightarrow> string" where
  "unit_text x u = show_int (x div 1024) @ ''.'' @ show_int (x mod 1024 div 10) @ u"

lemma bps_units:
  "bytestostringbps count = (
     let b = sint (count * 8) in
     if b < 1024 then show_int b @ '' bps''
     else if 1024 \<le> b div 1024 div 1024 then unit_text (b div 1024 div 1024) '' Gbps''
     else if 1024 \<le> b div 1024 then unit_text (b div 1024) '' Mbps''
     else unit_text b '' Kbps'')"
  unfolding bytestostringbps_def unit_text_def Let_def ..

lemma unit_length:
  assumes "0 \<le> x" and "x < 10 ^ 19"
  shows "length (unit_text x u) \<le> 23 + length u"
proof -
  have "x div 1024 \<le> x" "0 \<le> x div 1024" using div_1024 [OF assms(1)] by simp_all
  then have "length (show_int (x div 1024)) \<le> 19" using assms(2) by (intro show_int_length(2)) simp_all
  moreover have "length (show_int (x mod 1024 div 10)) \<le> 3" by (rule show_int_length(2)) (auto simp: abs_if)
  ultimately show ?thesis by (simp add: unit_text_def)
qed

lemma bps_length: "length (bytestostringbps count) \<le> 28"
proof -
  let ?b = "sint (count * 8 :: u64)"
  have b: "?b < 10 ^ 19" using sint64 [of "count * 8"] by linarith
  have low: "length (show_int ?b @ '' bps'') \<le> 28" using show_sint_length [of "count * 8"] by simp
  have u: "length (unit_text x u) \<le> 28" if "0 \<le> x" "x \<le> ?b" "length u = 5" for x u
    using unit_length [of x u] that b by simp
  have d: "0 \<le> ?b div 1024" "?b div 1024 \<le> ?b" "0 \<le> ?b div 1024 div 1024" "?b div 1024 div 1024 \<le> ?b" if "\<not> ?b < 1024"
    using div_1024 [of ?b] div_1024 [of "?b div 1024"] that by linarith+
  show ?thesis unfolding bps_units Let_def
  proof (split if_split, intro conjI impI)
    show "length (show_int ?b @ '' bps'') \<le> 28" by (rule low)
  next
    assume n: "\<not> ?b < 1024"
    then have "length (unit_text (?b div 1024 div 1024) '' Gbps'') \<le> 28" "length (unit_text (?b div 1024) '' Mbps'') \<le> 28"
      "length (unit_text ?b '' Kbps'') \<le> 28" using d by (intro u; simp)+
    then show "length (if 1024 \<le> ?b div 1024 div 1024 then unit_text (?b div 1024 div 1024) '' Gbps''
      else if 1024 \<le> ?b div 1024 then unit_text (?b div 1024) '' Mbps'' else unit_text ?b '' Kbps'') \<le> 28"
      by (simp only: split: if_split) blast
  qed
qed

lemma cells_fit:
  "\<forall>(n, s)\<in>set cs. n \<le> 30 \<and> length s \<le> 30 \<Longrightarrow> 32 < k \<Longrightarrow> \<exists>r. cells k cs = Some r \<and> length r \<le> 32 * length cs"
proof (induction cs)
  case (Cons c cs)
  obtain n s where c: "c = (n, s)" by (cases c)
  then have l: "length (''| '' @ pad_right n s) \<le> 32" using Cons.prems(1) by (auto simp: pad_right_def)
  then have "array k (''| '' @ pad_right n s) = Some (''| '' @ pad_right n s)" using Cons.prems(2) by (simp add: array_def)
  then show ?case using Cons c l by auto
qed simp

lemma table_row_fits:
  assumes "\<forall>(n, s)\<in>set cs. n \<le> 30 \<and> length s \<le> 30" and "32 < k" and "length cs \<le> 10" and "length first \<le> 100"
  shows "\<exists>r. table_row k first cs = Some r"
  using cells_fit [OF assms(1,2)] assms(3,4) by (auto simp: table_row_def array_def text_line_def)

lemma rate_row_fits: "32 < k \<Longrightarrow> length first \<le> 100 \<Longrightarrow> \<exists>r. rate_row k first x y = Some r"
proof -
  assume k: "32 < k" "length first \<le> 100"
  obtain p i j p' i' j' where xy: "x = (p, i, j)" "y = (p', i', j')" by (cases x; cases y)
  have c: "rate_cells p i j = Some [(6, show_nat 10 (unat p)), (13, bytestostringbps i), (13, bytestostringbps j)]" for p i j
    using bps_length [of i] bps_length [of j] by (simp add: rate_cells_def array_def)
  show ?thesis unfolding xy rate_row_def prod.case c Option.bind.simps
    by (rule table_row_fits) (use k in \<open>auto intro: order_trans [OF bps_length] order_trans [OF nat_word_length]\<close>)
qed

lemma total_row_fits:
  assumes "32 < k" and "length first \<le> 100"
  shows "\<exists>r. total_row k first vs = Some r"
  unfolding total_row_def
proof (rule table_row_fits [OF _ assms(1) _ assms(2)])
  have "n \<le> 30 \<and> length s \<le> 30"
    if ns: "(n, s) \<in> set (zip [12, 12, 12, 11, 7, 10, 10, 10, 10, 10] (map (\<lambda>v :: u64. show_int (sint v)) vs))" for n :: nat and s
  proof -
    have "n \<in> {12, 11, 7, 10}" using set_zip_leftD [OF ns] by auto
    moreover obtain v where "s = show_int (sint (v :: u64))" using set_zip_rightD [OF ns] by auto
    then have "length s \<le> 20" using show_sint_length by simp
    ultimately show ?thesis by auto
  qed
  then show "\<forall>(n :: nat, s)\<in>set (zip [12, 12, 12, 11, 7, 10, 10, 10, 10, 10] (map (\<lambda>v. show_int (sint v)) vs)). n \<le> 30 \<and> length s \<le> 30"
    by blast
qed simp

lemma rows_fit: "(\<And>i x. i < j + length xs \<Longrightarrow> \<exists>r. f i x = Some r) \<Longrightarrow> \<exists>rs. rows f j xs = Some rs \<and> length rs = length xs"
proof (induction xs arbitrary: j)
  case (Cons x xs)
  obtain r where r: "f j x = Some r" using Cons.prems [of j x] by auto
  obtain rs where "rows f (Suc j) xs = Some rs" "length rs = length xs" using Cons.IH [of "Suc j"] Cons.prems by auto
  then show ?case using r by simp
qed simp

lemma worker_cell_length: "i < 256 \<Longrightarrow> length (worker_cell i) \<le> 100"
  using show_nat_length [of 10 i 3] by (simp add: worker_cell_def pad_right_def)

section \<open>Properties\<close>

text \<open>(C36) The report of the workers never overruns its arrays: whatever the metrics are, as long as the
  number of workers is within the array of workers, \<open>cli_show_workers\<close> ends without a fault, and each of its three
  tables has one row for every worker.\<close>

theorem worker_report_fits:
  assumes "unat n \<le> length workers"
  shows "\<exists>out. cli_show_workers n workers = Some (0, out) \<and> length out = 24 + 3 * unat n"
proof -
  let ?ws = "take (unat n) workers"
  have l: "length ?ws = unat n" using assms by simp
  have n: "unat n < 256" using unsigned_less [of n, where 'a = nat] by simp
  have c: "length (worker_cell i) \<le> 100" if "i < 0 + unat n" for i using worker_cell_length that n by simp
  have rr: "\<exists>rs. rows (\<lambda>i w. rate_row 255 (worker_cell i) (rates (metrics (optimization w))) (rates (metrics (deoptimization w)))) 0 ?ws
      = Some rs \<and> length rs = unat n"
    using rows_fit [of 0 ?ws] rate_row_fits [of 255] c unfolding l by simp
  have tr: "\<exists>rs. rows (\<lambda>i m. total_row 255 (worker_cell i) (totals m)) 0 ms = Some rs \<and> length rs = unat n"
    if "length ms = unat n" for ms
    using rows_fit [of 0 ms] total_row_fits [of 255] c that by simp
  have rt: "\<exists>out. rate_table ?ws = Some out \<and> length out = 8 + unat n"
  proof -
    obtain t where "rate_row 4096 ''|  total  '' (total_rates (map (metrics \<circ> optimization) ?ws))
        (total_rates (map (metrics \<circ> deoptimization) ?ws)) = Some t"
      using rate_row_fits [of 4096 "''|  total  ''" "total_rates (map (metrics \<circ> optimization) ?ws)"
        "total_rates (map (metrics \<circ> deoptimization) ?ws)"] by auto
    then show ?thesis using rr by (auto simp: rate_table_def)
  qed
  have tt: "\<exists>out. total_table hs ms = Some out \<and> length out = length hs + 3 + unat n" if "length ms = unat n" for hs ms
    using tr [OF that] total_row_fits [of 4096 "''|  total  ''" "add_totals ms"] by (auto simp: total_table_def)
  obtain a where a: "rate_table ?ws = Some a" "length a = 8 + unat n" using rt by blast
  obtain b where b: "total_table optimization_heading (map (metrics \<circ> optimization) ?ws) = Some b" "length b = 8 + unat n"
    using tt [of "map (metrics \<circ> optimization) ?ws" optimization_heading] l by (auto simp: optimization_heading_def)
  obtain d where d: "total_table deoptimization_heading (map (metrics \<circ> deoptimization) ?ws) = Some d" "length d = 8 + unat n"
    using tt [of "map (metrics \<circ> deoptimization) ?ws" deoptimization_heading] l by (auto simp: deoptimization_heading_def)
  show ?thesis using a b d assms by (simp add: cli_show_workers_def)
qed

text \<open>
  The report of the fetcher has an array of 11 characters for a rate.  A rate below 10 Kbps fits; one of
  100.10 Kbps does not, nor does any with five digits or more.
\<close>

lemma slow_rate_fits:
  assumes "unat c < 1280"
  shows "length (bytestostringbps (ucast (c :: u32))) \<le> 10"
proof -
  have m: "unat (ucast c * 8 :: u64) = unat c * 8"
    using assms by (simp add: unat_word_ariths unsigned_ucast_eq take_bit_nat_eq_self)
  have "int (unat c) < int 1280" using assms by (simp only: of_nat_less_iff)
  then have c: "uint c < 1280" by simp
  have "uint (ucast c * 8 :: u64) = uint c * 8" using arg_cong [OF m, of int] by simp
  then have b: "sint (ucast c * 8 :: u64) = uint c * 8"
    unfolding sint_uint using c by (subst signed_take_bit_int_eq_self) (auto intro: order_trans [OF _ uint_ge_0])
  let ?b = "uint c * 8"
  have "length (show_int ?b) \<le> 4" if "?b < 1024" using that show_int_length(2) [of 4 ?b] by simp
  moreover have "length (unit_text ?b '' Kbps'') \<le> 10"
  proof -
    have "0 \<le> ?b div 1024" "?b div 1024 < 10" using c uint_ge_0 [of c] by linarith+
    then have "length (show_int (?b div 1024)) \<le> 1" by (intro show_int_length(2)) simp_all
    moreover have "length (show_int (?b mod 1024 div 10)) \<le> 3" by (rule show_int_length(2)) (auto simp: abs_if)
    ultimately show ?thesis by (simp add: unit_text_def)
  qed
  moreover have "\<not> 1024 \<le> ?b div 1024" "\<not> 1024 \<le> ?b div 1024 div 1024" using c by auto
  ultimately show ?thesis unfolding bps_units Let_def b by auto
qed

theorem fetcher_report_fits:
  assumes "unat (f_pps m) < 1280" and "unat (f_bpsin m) < 1280"
  shows "\<exists>out. cli_show_fetcher m = Some (0, out)"
proof -
  have "length (show_nat 10 (unat (f_pps m))) \<le> 4" using assms(1) by (intro show_nat_length) auto
  then show ?thesis
    using slow_rate_fits [OF assms(1)] slow_rate_fits [OF assms(2)]
    by (simp add: cli_show_fetcher_def array_def pad_right_def text_line_def Let_def)
qed

theorem fetcher_report_overruns: "f_bpsin m = 12813 \<Longrightarrow> cli_show_fetcher m = None"
proof -
  have s: "show_int 100 = ''100''" "show_int 10 = ''10''" by code_simp+
  have "bytestostringbps 12813 = ''100.10 Kbps''" by (simp add: bytestostringbps_def s)
  then have "\<not> length (bytestostringbps 12813) < 11" by simp
  then show "f_bpsin m = 12813 \<Longrightarrow> cli_show_fetcher m = None" by (simp add: cli_show_fetcher_def Let_def array_def)
qed

theorem worker_report_fits_witness:
  "\<exists>out. cli_show_workers 2 (replicate 2 \<lparr>workernum = 0, optimization = (link_processor zero_memory)\<lparr>metrics := busy_metrics\<rparr>,
     deoptimization = link_processor zero_memory, wk_state = 0\<rparr>) = Some (0, out) \<and> length out = 30"
  using worker_report_fits [of 2 "replicate 2 w" for w] by simp

end
