(* ===== verification/Session_Report.thy ===== *)
theory Session_Report
  imports Session_Map Trace_Masks
begin

text \<open>
  The console's list of sessions (\<open>cli_show_sessionss\<close> in \<open>opennopd/sessionmanager.c\<close>): a walk over
  all buckets that prints a row for every session whose client and server are known.
\<close>

section \<open>Operations\<close>

definition ref_ip :: "session \<Rightarrow> ip_ref \<Rightarrow> u32" where
  "ref_ip s r = (case r of LargerIP \<Rightarrow> largerIP s | SmallerIP \<Rightarrow> smallerIP s)"

definition optimizing :: "u32 \<Rightarrow> session \<Rightarrow> bool" where
  "optimizing localID s \<longleftrightarrow> (largerIPAccelerator s = localID \<or> smallerIPAccelerator s = localID) \<and>
     (largerIPAccelerator s \<noteq> 0 \<and> smallerIPAccelerator s \<noteq> 0) \<and> largerIPAccelerator s \<noteq> smallerIPAccelerator s"

definition session_row :: "u32 \<Rightarrow> nat \<Rightarrow> session \<Rightarrow> string list" where
  "session_row localID i s = (case (client s, server s) of
     (Some c, Some v) \<Rightarrow>
       [''|  '' @ pad_right 7 (show_nat 10 i) @
        ''| '' @ pad_right 15 (inet_ntop (ref_ip s c)) @
        ''|   '' @ pad_right 10 (show_nat 10 (unat (ntohs (largerIPPort s)))) @
        ''| '' @ pad_right 15 (inet_ntop (ref_ip s v)) @
        ''|   '' @ pad_right 10 (show_nat 10 (unat (ntohs (smallerIPPort s)))) @
        (if optimizing localID s then ''|     Yes    '' else ''|     No     '') @ text_line ''|'']
   | _ \<Rightarrow> [])"

partial_function (option) show_from :: "u32 \<Rightarrow> nat \<Rightarrow> session heap \<Rightarrow> addr option \<Rightarrow> string list \<Rightarrow> string list option" where
  [code]: "show_from localID i h cur out = (case cur of
     None \<Rightarrow> Some out
   | Some a \<Rightarrow> do { s \<leftarrow> h a; show_from localID i h (s_next s) (out @ session_row localID i s) })"

text \<open>One round for each of the \<open>SESSIONBUCKETS\<close> buckets; the flag is \<open>sess_found\<close>.\<close>

definition show_bucket :: "u32 \<Rightarrow> session_state \<Rightarrow> nat \<Rightarrow> string list \<times> bool \<Rightarrow> (string list \<times> bool) option" where
  "show_bucket localID st i = (\<lambda>(out, sess_found).
     if hd_next (sessiontable st (of_nat i)) \<noteq> None then do {
       out \<leftarrow> show_from localID i (st_heap st) (hd_next (sessiontable st (of_nat i))) out;
       Some (out, True) }
     else Some (out, sess_found))"

definition cli_show_sessionss :: "u32 \<Rightarrow> session_state \<Rightarrow> (int \<times> string list) option" where
  "cli_show_sessionss localID st = do {
     (rs, sess_found) \<leftarrow> foldM (show_bucket localID st) [0..<65536] ([], False);
     Some (0, [dashes 86, text_line ''|  Index  |   Client IP    | Client Port |    Server IP   | Server Port | Optimizing |'', dashes 86] @
       rs @ (if sess_found then [] else [text_line ''None active sessions'']) @ [dashes 86]) }"

section \<open>The rows are the sessions\<close>

definition rows_of :: "u32 \<Rightarrow> session heap \<Rightarrow> nat \<Rightarrow> addr list \<Rightarrow> string list" where
  "rows_of localID h i as = concat (map (\<lambda>a. case h a of None \<Rightarrow> [] | Some s \<Rightarrow> session_row localID i s) as)"

lemma show_from_rows: "nchain s_next h p as \<Longrightarrow> show_from localID i h p out = Some (out @ rows_of localID h i as)"
proof (induction as arbitrary: p out)
  case Nil
  then show ?case by (simp add: show_from.simps rows_of_def)
next
  case (Cons a as)
  then obtain s where "p = Some a" "h a = Some s" "nchain s_next h (s_next s) as" by (auto split: option.splits)
  then show ?case using Cons.IH [of "s_next s"] by (subst show_from.simps) (simp add: rows_of_def)
qed

lemma show_buckets:
  assumes "table_ok st L"
  shows "foldM (show_bucket localID st) is (out, b) =
    Some (out @ concat (map (\<lambda>i. rows_of localID (st_heap st) i (L (of_nat i))) is), b \<or> (\<exists>i\<in>set is. L (of_nat i) \<noteq> []))"
proof (induction "is" arbitrary: out b)
  case (Cons i "is")
  have ch: "nchain s_next (st_heap st) (hd_next (sessiontable st (of_nat i))) (L (of_nat i))"
    using assms by (simp add: table_ok_def bucket_ok_def)
  have e: "(hd_next (sessiontable st (of_nat i)) = None) = (L (of_nat i) = [])"
    using nchain_hd [OF ch] by (cases "L (of_nat i)") auto
  have "show_bucket localID st i (out, b) = Some (out @ rows_of localID (st_heap st) i (L (of_nat i)), b \<or> L (of_nat i) \<noteq> [])"
    using e show_from_rows [OF ch, of localID i out] by (auto simp: show_bucket_def rows_of_def)
  then show ?case using Cons.IH by auto
qed simp

text \<open>The sessions in the order of the walk.\<close>

definition walk :: "(u16 \<Rightarrow> addr list) \<Rightarrow> nat \<Rightarrow> addr list" where
  "walk L n = concat (map (\<lambda>i. L (of_nat i)) [0..<n])"

lemma walk_Suc [simp]: "walk L 0 = []" "walk L (Suc n) = walk L n @ L (of_nat n)"
  by (simp_all add: walk_def)

lemma walk_set: "set (walk L n) = {a. \<exists>i<n. a \<in> set (L (of_nat i))}"
  by (induction n) (auto simp: less_Suc_eq)

lemma walk_member:
  assumes "table_ok st L" and "a \<in> set (L i)"
  obtains s where "st_heap st a = Some s" and "s_head s = i"
proof -
  have "bucket_ok (st_heap st) (sessiontable st i) i (L i)" using assms(1) by (simp add: table_ok_def)
  then show ?thesis using assms(2) that unfolding bucket_ok_def by blast
qed

lemma walk_distinct: "table_ok st L \<Longrightarrow> n \<le> 65536 \<Longrightarrow> distinct (walk L n)"
proof (induction n)
  case (Suc n)
  have "set (walk L n) \<inter> set (L (of_nat n)) = {}"
  proof (rule ccontr)
    assume "set (walk L n) \<inter> set (L (of_nat n)) \<noteq> {}"
    then obtain a i where i: "i < n" "a \<in> set (L (of_nat i))" "a \<in> set (L (of_nat n))" by (auto simp: walk_set)
    then have "(of_nat i :: u16) = of_nat n"
      using walk_member [OF Suc.prems(1) i(2)] walk_member [OF Suc.prems(1) i(3)] by (metis option.inject)
    then have "unat (of_nat i :: u16) = unat (of_nat n :: u16)" by simp
    then show False using i(1) Suc.prems(2) by (simp add: unat_of_nat)
  qed
  moreover have "distinct (L (of_nat n))" using Suc.prems(1) by (simp add: table_ok_def bucket_ok_def)
  ultimately show ?case using Suc by simp
qed simp

lemma walk_dom:
  assumes ok: "table_ok st L"
  shows "set (walk L 65536) = dom (st_heap st)"
proof -
  have "\<exists>i<65536. a \<in> set (L (of_nat i))" if "st_heap st a = Some s" for a s
  proof -
    have "a \<in> set (L (of_nat (unat (s_head s))))" using ok that by (simp add: table_ok_def)
    moreover have "unat (s_head s) < 65536" using unsigned_less [of "s_head s", where 'a = nat] by simp
    ultimately show ?thesis by blast
  qed
  moreover have "a \<in> dom (st_heap st)" if "a \<in> set (L i)" for a i
    by (rule walk_member [OF ok that]) (simp add: domIff)
  ultimately show ?thesis unfolding walk_set by blast
qed

definition listed :: "u32 \<Rightarrow> session heap \<Rightarrow> addr \<Rightarrow> string list" where
  "listed localID h a = (case h a of None \<Rightarrow> [] | Some s \<Rightarrow> session_row localID (unat (s_head s)) s)"

lemma rows_listed:
  assumes "table_ok st L" and "i < 65536"
  shows "rows_of localID (st_heap st) i (L (of_nat i)) = concat (map (listed localID (st_heap st)) (L (of_nat i)))"
proof -
  have "(case st_heap st a of None \<Rightarrow> [] | Some s \<Rightarrow> session_row localID i s) = listed localID (st_heap st) a"
    if a: "a \<in> set (L (of_nat i))" for a
  proof -
    obtain s where "st_heap st a = Some s" "s_head s = of_nat i" by (rule walk_member [OF assms(1) a])
    then show ?thesis using assms(2) by (simp add: listed_def unat_of_nat)
  qed
  then show ?thesis unfolding rows_of_def by (metis (no_types, lifting) map_eq_conv)
qed

lemma walk_rows:
  "table_ok st L \<Longrightarrow> n \<le> 65536 \<Longrightarrow> concat (map (\<lambda>i. rows_of localID (st_heap st) i (L (of_nat i))) [0..<n]) =
    concat (map (listed localID (st_heap st)) (walk L n))"
proof (induction n)
  case (Suc n)
  then show ?case using rows_listed [of st L n localID] by simp
qed simp

section \<open>Properties\<close>

text \<open>(C34) The console lists every session exactly once: on a well-formed table \<open>cli_show_sessionss\<close> ends
  without a fault, and between its heading and its last line it has, for an enumeration of all
  sessions of the table without repetition, the row of each session under the number of its bucket
  (no row when client or server is not known); with no session at all it says so.\<close>

theorem sessions_listed_once:
  assumes "sessions_ok st"
  shows "\<exists>as. distinct as \<and> set as = dom (st_heap st) \<and> cli_show_sessionss localID st = Some (0,
    [dashes 86, text_line ''|  Index  |   Client IP    | Client Port |    Server IP   | Server Port | Optimizing |'', dashes 86] @
    concat (map (listed localID (st_heap st)) as) @
    (if as = [] then [text_line ''None active sessions''] else []) @ [dashes 86])"
proof -
  obtain L where ok: "table_ok st L" using assms by (auto simp: sessions_ok_def)
  have e: "(\<exists>i\<in>set [0..<65536]. L (of_nat i) \<noteq> []) \<longleftrightarrow> walk L 65536 \<noteq> []"
    unfolding walk_def by (simp add: Bex_def)
  have "cli_show_sessionss localID st = Some (0,
    [dashes 86, text_line ''|  Index  |   Client IP    | Client Port |    Server IP   | Server Port | Optimizing |'', dashes 86] @
    concat (map (listed localID (st_heap st)) (walk L 65536)) @
    (if walk L 65536 = [] then [text_line ''None active sessions''] else []) @ [dashes 86])"
    unfolding cli_show_sessionss_def show_buckets [OF ok] walk_rows [OF ok order_refl] e by simp
  then show ?thesis using walk_distinct [OF ok order_refl] walk_dom [OF ok] by blast
qed

text \<open>A table with one session, 10.0.0.1 to 10.0.0.2.\<close>

definition demo_session :: session where
  "demo_session = zero_session\<lparr>largerIP := 0x0200000A, smallerIP := 0x0100000A, largerIPPort := 0x5000, smallerIPPort := 0x901F,
     s_head := session_bucket (0x0200000A, 0x5000, 0x0100000A, 0x901F), client := Some SmallerIP, server := Some LargerIP\<rparr>"

definition demo_table :: session_state where
  "demo_table = empty_sessions\<lparr>sessiontable := (sessiontable empty_sessions)(s_head demo_session :=
     \<lparr>hd_next = Some 7, hd_prev = Some 7, hd_qlen = 1\<rparr>), st_heap := [7 \<mapsto> demo_session],
     worker_sessions := (replicate MAXWORKERS 0)[0 := 1]\<rparr>"

lemma demo_table_ok: "sessions_ok demo_table"
proof -
  let ?L = "\<lambda>i. if i = s_head demo_session then [7] else []"
  have key: "session_bucket (session_key demo_session) = s_head demo_session"
    by (simp add: session_key_def demo_session_def)
  have links: "s_next demo_session = None" "s_prev demo_session = None" "s_queue demo_session = 0"
    by (simp_all add: demo_session_def zero_session_def)
  have as: "assigned [7 \<mapsto> demo_session] w = (if w = 0 then {7} else {})" for w
    by (auto simp: assigned_def links)
  have "counters_ok (st_heap demo_table) (worker_sessions demo_table)"
    by (auto simp: counters_ok_def demo_table_def as links MAXWORKERS_def nth_list_update)
  moreover have "bucket_ok (st_heap demo_table) (sessiontable demo_table i) i (?L i)" for i
    by (simp add: bucket_ok_def demo_table_def empty_sessions_def head_ok_def links key)
  ultimately have "table_ok demo_table ?L" by (auto simp: table_ok_def demo_table_def)
  moreover have "unique_keys (st_heap demo_table)" by (simp add: unique_keys_def demo_table_def)
  ultimately show ?thesis by (auto simp: sessions_ok_def demo_table_def)
qed

theorem sessions_listed_once_witness:
  "cli_show_sessionss 1 demo_table = Some (0,
    [dashes 86, text_line ''|  Index  |   Client IP    | Client Port |    Server IP   | Server Port | Optimizing |'', dashes 86] @
    session_row 1 (unat (s_head demo_session)) demo_session @ [dashes 86])"
proof -
  have h: "st_heap demo_table = [7 \<mapsto> demo_session]" by (simp add: demo_table_def)
  obtain as where as: "distinct as" "set as = dom (st_heap demo_table)" "cli_show_sessionss 1 demo_table = Some (0,
    [dashes 86, text_line ''|  Index  |   Client IP    | Client Port |    Server IP   | Server Port | Optimizing |'', dashes 86] @
    concat (map (listed 1 (st_heap demo_table)) as) @
    (if as = [] then [text_line ''None active sessions''] else []) @ [dashes 86])"
    using sessions_listed_once [OF demo_table_ok, of 1] by blast
  have "as = [7]" using as(1,2) by (cases as; cases "tl as") (auto simp: h)
  then show ?thesis using as(3) by (simp add: h listed_def)
qed

end
