(* ===== verification/Console.thy ===== *)
theory Console
  imports Dedup_Report Traffic_Report Session_Report
begin

text \<open>
  The daemon's console: the handlers of all registered commands (\<open>compression.c\<close>, \<open>deduplication.c\<close>,
  \<open>version.c\<close> and the reports of the other theories), the commands that \<open>main\<close> (\<open>opennopd.c\<close>) and the
  console thread (\<open>subsystems/climanager.c\<close>) register, and a client's connection.  The result of \<open>send\<close> is
  ignored by every caller, so a feedback is the text that is sent.
\<close>

section \<open>State\<close>

text \<open>The variables of the daemon that the handlers read and write.\<close>

record console =
  debugword :: u64
  compression :: bool
  deduplication :: bool
  shareddict :: bool
  con_workers :: "worker list"
  con_sessions :: session_state
  con_fetcher :: fetchercounters
  con_localID :: u32
  num_sock :: int
  num_tot_sock :: int

section \<open>Switches\<close>

abbreviation framed :: "string \<Rightarrow> string list" where
  "framed s \<equiv> [dashes 66, text_line s, dashes 66]"

definition cli_show_compression :: "console \<Rightarrow> int \<times> string list" where
  "cli_show_compression s = (0, framed (if compression s then ''compression enabled'' else ''compression disabled''))"

definition cli_compression_enable :: "console \<Rightarrow> int \<times> string list \<times> console" where
  "cli_compression_enable s = (0, framed ''Compression enabled'', s\<lparr>compression := True\<rparr>)"

definition cli_compression_disable :: "console \<Rightarrow> int \<times> string list \<times> console" where
  "cli_compression_disable s = (0, framed ''Compression disabled'', s\<lparr>compression := False\<rparr>)"

definition cli_show_deduplication :: "console \<Rightarrow> int \<times> string list" where
  "cli_show_deduplication s = (0, framed (if deduplication s then ''Deduplication enabled'' else ''Deduplication disabled''))"

definition cli_deduplication_enable :: "console \<Rightarrow> int \<times> string list \<times> console" where
  "cli_deduplication_enable s = (0, framed ''Deduplication enabled'', s\<lparr>deduplication := True\<rparr>)"

definition cli_deduplication_disable :: "console \<Rightarrow> int \<times> string list \<times> console" where
  "cli_deduplication_disable s = (0, framed ''Deduplication disabled'', s\<lparr>deduplication := False\<rparr>)"

text \<open>The version is a macro of the build.\<close>

definition cli_show_version :: "string \<Rightarrow> int \<times> string list" where
  "cli_show_version VERSION = (0, [text_line (''Version '' @ VERSION @ ''.'')])"

definition cli_quit :: int where "cli_quit = 1"

section \<open>Commands\<close>

datatype cli_handler =
  Quit | Show_param | Show_traces_mask | Traces_mask_orr | Traces_mask_and | Traces_mask_nand
| Reset_stats_in_dedup | Show_stats_in_dedup | Show_stats_in_dedup_thread
| Reset_stats_out_dedup | Show_stats_out_dedup | Show_stats_out_dedup_thread
| Traces_enable | Traces_disable | Show_version | Show_compression | Show_workers | Show_fetcher | Show_sessions
| Show_deduplication | Compression_enable | Compression_disable | Deduplication_enable | Deduplication_disable

text \<open>A report leaves the state alone; a trace command changes \<open>debugword\<close>, a reset the workers.\<close>

definition report :: "console \<Rightarrow> (int \<times> string list) option \<Rightarrow> (int \<times> string list \<times> console) option" where
  "report s r = map_option (\<lambda>(c, out). (c, out, s)) r"

definition set_mask :: "console \<Rightarrow> (int \<times> string list \<times> u64) option \<Rightarrow> (int \<times> string list \<times> console) option" where
  "set_mask s r = map_option (\<lambda>(c, out, w). (c, out, s\<lparr>debugword := w\<rparr>)) r"

definition set_stats :: "console \<Rightarrow> (int \<times> string list \<times> worker list) option \<Rightarrow> (int \<times> string list \<times> console) option" where
  "set_stats s r = map_option (\<lambda>(c, out, ws). (c, out, s\<lparr>con_workers := ws\<rparr>)) r"

fun run_handler :: "string \<Rightarrow> (cli_handler, console) cli_run" where
  "run_handler V Quit ps s = Some (cli_quit, [], s)"
| "run_handler V Show_param ps s = report s (Some (cli_show_param ps))"
| "run_handler V Show_traces_mask ps s = report s (Some (cli_show_traces_mask (debugword s)))"
| "run_handler V Traces_mask_orr ps s = set_mask s (cli_traces_mask_orr ps (debugword s))"
| "run_handler V Traces_mask_and ps s = set_mask s (cli_traces_mask_and ps (debugword s))"
| "run_handler V Traces_mask_nand ps s = set_mask s (cli_traces_mask_nand ps (debugword s))"
| "run_handler V Reset_stats_in_dedup ps s = set_stats s (cli_reset_stats_in_dedup (get_workers (con_sessions s)) (con_workers s))"
| "run_handler V Show_stats_in_dedup ps s = report s (cli_show_stats_in_dedup (get_workers (con_sessions s)) (con_workers s))"
| "run_handler V Show_stats_in_dedup_thread ps s =
     report s (cli_show_stats_in_dedup_thread (get_workers (con_sessions s)) (con_workers s))"
| "run_handler V Reset_stats_out_dedup ps s = set_stats s (cli_reset_stats_out_dedup (get_workers (con_sessions s)) (con_workers s))"
| "run_handler V Show_stats_out_dedup ps s = report s (cli_show_stats_out_dedup (get_workers (con_sessions s)) (con_workers s))"
| "run_handler V Show_stats_out_dedup_thread ps s =
     report s (cli_show_stats_out_dedup_thread (get_workers (con_sessions s)) (con_workers s))"
| "run_handler V Traces_enable ps s = set_mask s (cli_traces_enable ps (debugword s))"
| "run_handler V Traces_disable ps s = set_mask s (Some (cli_traces_disable ps (debugword s)))"
| "run_handler V Show_version ps s = report s (Some (cli_show_version V))"
| "run_handler V Show_compression ps s = report s (Some (cli_show_compression s))"
| "run_handler V Show_workers ps s = report s (cli_show_workers (get_workers (con_sessions s)) (con_workers s))"
| "run_handler V Show_fetcher ps s = report s (cli_show_fetcher (con_fetcher s))"
| "run_handler V Show_sessions ps s = report s (cli_show_sessionss (con_localID s) (con_sessions s))"
| "run_handler V Show_deduplication ps s = report s (Some (cli_show_deduplication s))"
| "run_handler V Compression_enable ps s = Some (cli_compression_enable s)"
| "run_handler V Compression_disable ps s = Some (cli_compression_disable s)"
| "run_handler V Deduplication_enable ps s = Some (cli_deduplication_enable s)"
| "run_handler V Deduplication_disable ps s = Some (cli_deduplication_disable s)"

definition main_commands :: "cli_handler registration list" where
  "main_commands = [
     (''show traces mask'', Show_traces_mask, False, False),
     (''traces mask orr'', Traces_mask_orr, True, False),
     (''traces mask and'', Traces_mask_and, True, False),
     (''traces mask nand'', Traces_mask_nand, True, False),
     (''reset stats in_dedup'', Reset_stats_in_dedup, False, False),
     (''reset stats in_dedup_thread'', Reset_stats_in_dedup, False, False),
     (''show stats in_dedup'', Show_stats_in_dedup, False, False),
     (''show stats in_dedup_thread'', Show_stats_in_dedup_thread, False, False),
     (''reset stats out_dedup'', Reset_stats_out_dedup, False, False),
     (''reset stats out_dedup_thread'', Reset_stats_out_dedup, False, False),
     (''show stats out_dedup'', Show_stats_out_dedup, False, False),
     (''show stats out_dedup_thread'', Show_stats_out_dedup_thread, False, False),
     (''traces enable'', Traces_enable, True, False),
     (''traces disable'', Traces_disable, True, False),
     (''show version'', Show_version, False, False),
     (''show compression'', Show_compression, False, False),
     (''show workers'', Show_workers, False, False),
     (''show fetcher'', Show_fetcher, False, False),
     (''show sessions'', Show_sessions, False, False),
     (''show deduplication'', Show_deduplication, False, False),
     (''compression enable'', Compression_enable, False, False),
     (''compression disable'', Compression_disable, False, False),
     (''deduplication enable'', Deduplication_enable, False, False),
     (''deduplication disable'', Deduplication_disable, False, False)]"

definition manager_commands :: "cli_handler registration list" where
  "manager_commands = [(''quit'', Quit, False, True), (''show parameters'', Show_param, True, True)]"

section \<open>A connection\<close>

definition MAX_BUFFER_SIZE :: nat where "MAX_BUFFER_SIZE = 4096"

definition reply :: "int \<Rightarrow> string list" where
  "reply finish = (
     if finish = CLI_ERR_CMD then [text_line ''Command arguments are incorrect or command not executed properly'']
     else if finish = CLI_INV_CMD then [text_line ''Command Not Found''] else []) @ [text_line ''EOC'']"

text \<open>
  The loop of \<open>client_handler\<close> over what \<open>recv\<close> returns, up to \<open>MAX_BUFFER_SIZE\<close> bytes each time; the list
  ends where \<open>recv\<close> returns no more.  The byte behind the message is set to zero.
\<close>

fun client_loop :: "string \<Rightarrow> cli_handler command list \<Rightarrow> string list \<Rightarrow> int \<Rightarrow> console \<Rightarrow> (string list \<times> console) option" where
  "client_loop V node [] finish s = Some ([], s)"
| "client_loop V node (m # ms) finish s = (
     if finish = CLI_SHUTDOWN then Some ([], s) else do {
     c_assert (length m < MAX_BUFFER_SIZE);
     (finish, out, s) \<leftarrow> execute_commands (run_handler V) node (c_string m) s;
     (out', s) \<leftarrow> client_loop V node ms finish s;
     Some (out @ reply finish @ out', s) })"

definition client_handler :: "string \<Rightarrow> cli_handler command list \<Rightarrow> string list \<Rightarrow> console \<Rightarrow> (string list \<times> console) option" where
  "client_handler V node ms s = do {
     (out, s) \<leftarrow> client_loop V node ms 0 (s\<lparr>num_sock := num_sock s + 1, num_tot_sock := num_tot_sock s + 1\<rparr>);
     Some (out, s\<lparr>num_sock := num_sock s - 1\<rparr>) }"

section \<open>The daemon's commands\<close>

text \<open>The two threads register their commands under one lock; any order of the calls is possible.\<close>

definition all_commands :: "cli_handler registration list" where
  "all_commands = main_commands @ manager_commands"

lemma all_commands_ok:
  "\<forall>r\<in>set all_commands. \<forall>r'\<in>set all_commands. prefix (cmd_path r) (cmd_path r') \<longrightarrow> r = r'"
  "\<forall>r\<in>set all_commands. cmd_path r \<noteq> [] \<and> (\<forall>t\<in>set (cmd_path r). \<not> asks_help t)"
  by code_simp+

lemma any_order_ok:
  assumes "set rs = set all_commands"
  shows "prefix_free rs" and "\<forall>r\<in>set rs. cmd_path r \<noteq> [] \<and> (\<forall>t\<in>set (cmd_path r). \<not> asks_help t)"
  using all_commands_ok unfolding prefix_free_def assms by blast+

lemma console_line:
  assumes "set rs = set all_commands" and "(name, h, params, hide) \<in> set all_commands"
    and "tokens delimiters line = tokens delimiters name @ ps"
    and "run_handler V h (if params then ps else []) s = Some (code, out, s')" and "code \<noteq> CLI_ERROR"
  shows "execute_commands (run_handler V) (register_all rs []) line s = Some (code, out, s')"
proof -
  have "(name, h, params, hide) \<in> set rs" using assms(1,2) by simp
  from registered_command_executes [OF any_order_ok [OF assms(1)] this assms(3), of "run_handler V" s code out s']
  show ?thesis using assms(4,5) by blast
qed

section \<open>What the console can change\<close>

text \<open>A worker without the statistics of its deduplicators.\<close>

definition no_stats :: "worker \<Rightarrow> worker" where
  "no_stats k = k\<lparr>optimization := (optimization k)\<lparr>dedupProcessor := resetStatistics (dedupProcessor (optimization k))\<rparr>,
     deoptimization := (deoptimization k)\<lparr>dedupProcessor := resetStatistics (dedupProcessor (deoptimization k))\<rparr>\<rparr>"

text \<open>The parts of the daemon that commands do not touch.\<close>

definition same_daemon :: "console \<Rightarrow> console \<Rightarrow> bool" where
  "same_daemon s s' \<longleftrightarrow> con_sessions s' = con_sessions s \<and> con_fetcher s' = con_fetcher s \<and> con_localID s' = con_localID s \<and>
     shareddict s' = shareddict s \<and> num_sock s' = num_sock s \<and> num_tot_sock s' = num_tot_sock s \<and>
     map no_stats (con_workers s') = map no_stats (con_workers s)"

lemma reset_no_stats [simp]: "no_stats (reset_compressor k) = no_stats k" "no_stats (reset_decompressor k) = no_stats k"
  by (simp_all add: no_stats_def reset_compressor_def reset_decompressor_def resetStatistics_def)

lemma upd_all_no_stats:
  assumes "foldM (\<lambda>si. upd_worker si f) is ws = Some ws'" and "\<And>k. no_stats (f k) = no_stats k"
  shows "map no_stats ws' = map no_stats ws"
proof (rule foldM_keeps [where I = "\<lambda>ws'. map no_stats ws' = map no_stats ws", OF assms(1)])
  fix i ws1 ws2 assume u: "upd_worker i f ws1 = Some ws2" "map no_stats ws1 = map no_stats ws"
  then have "map no_stats ws2 = (map no_stats ws1)[i := no_stats (ws1 ! i)]" "i < length ws1"
    using assms(2) by (auto simp: upd_worker_def map_update split: if_splits)
  then show "map no_stats ws2 = map no_stats ws" using u(2) by (metis length_map list_update_id nth_map)
qed simp

lemma report_same: "report s r = Some (c, out, s') \<Longrightarrow> same_daemon s s'"
  by (auto simp: report_def same_daemon_def split: prod.splits)

lemma set_mask_same: "set_mask s r = Some (c, out, s') \<Longrightarrow> same_daemon s s'"
  by (auto simp: set_mask_def same_daemon_def split: prod.splits)

lemma reset_same:
  assumes "set_stats s (cli_reset_stats_in_dedup n (con_workers s)) = Some (c, out, s') \<or>
    set_stats s (cli_reset_stats_out_dedup n (con_workers s)) = Some (c, out, s')"
  shows "same_daemon s s'"
  using assms
  by (auto simp: set_stats_def same_daemon_def cli_reset_stats_in_dedup_def cli_reset_stats_out_dedup_def bind_eq_Some_conv
      dest!: upd_all_no_stats)

lemmas switch_defs = cli_compression_enable_def cli_compression_disable_def cli_deduplication_enable_def cli_deduplication_disable_def

lemma handler_same_daemon:
  assumes "run_handler V h ps s1 = Some (c, out, s2)" and "same_daemon s s1"
  shows "same_daemon s s2"
proof -
  have "same_daemon s1 s2"
    using assms(1)
    by (cases h) (auto simp: switch_defs dest: report_same set_mask_same reset_same [OF disjI1] reset_same [OF disjI2],
      auto simp: same_daemon_def)
  then show ?thesis using assms(2) by (auto simp: same_daemon_def)
qed

lemma client_loop_same: "client_loop V node ms f s1 = Some (out, s2) \<Longrightarrow> same_daemon s s1 \<Longrightarrow> same_daemon s s2"
proof (induction ms arbitrary: f s1 out)
  case (Cons m ms)
  show ?case
  proof (cases "f = CLI_SHUTDOWN")
    case False
    then obtain f1 out1 s3 out2 where e: "execute_commands (run_handler V) node (c_string m) s1 = Some (f1, out1, s3)"
      "client_loop V node ms f1 s3 = Some (out2, s2)"
      using Cons.prems(1) by (auto simp: bind_eq_Some_conv)
    have "same_daemon s s3"
      by (rule execute_keeps [where I = "same_daemon s", OF e(1) Cons.prems(2)]) (rule handler_same_daemon)
    then show ?thesis using Cons.IH e(2) by blast
  qed (use Cons.prems in simp)
qed simp

section \<open>Properties\<close>

text \<open>(C29) Every command of the daemon is executed: in whatever order the main thread and the console thread
  have registered their commands, a line that starts with the words of a registered command, however they
  are spaced, runs that command's handler on the current state, with the remaining words as
  parameters if the command takes any, and the console returns the handler's code and text.\<close>

theorem console_executes_command:
  assumes "set rs = set all_commands" and "(name, h, params, hide) \<in> set all_commands"
    and "tokens delimiters line = tokens delimiters name @ ps"
    and "run_handler V h (if params then ps else []) s = Some (code, out, s')" and "code \<noteq> CLI_ERROR"
  shows "execute_commands (run_handler V) (register_all rs []) line s = Some (code, out, s')"
  by (rule console_line [OF assms])

theorem console_executes_command_witness:
  "\<forall>s. execute_commands (run_handler ''1'') (register_all (rev all_commands) []) ''  compression   disable now'' s =
    Some (0, framed ''Compression disabled'', s\<lparr>compression := False\<rparr>)"
proof
  fix s
  have "(''compression disable'', Compression_disable, False, False) \<in> set all_commands"
    by (simp add: all_commands_def main_commands_def)
  moreover have "tokens delimiters ''  compression   disable now'' = tokens delimiters ''compression disable'' @ [''now'']"
    by code_simp
  ultimately show "execute_commands (run_handler ''1'') (register_all (rev all_commands) []) ''  compression   disable now'' s =
    Some (0, framed ''Compression disabled'', s\<lparr>compression := False\<rparr>)"
    using console_executes_command [of "rev all_commands" "''compression disable''" Compression_disable False False
        "''  compression   disable now''" "[''now'']" "''1''" s 0 "framed ''Compression disabled''" "s\<lparr>compression := False\<rparr>"]
    by (simp add: cli_compression_disable_def CLI_ERROR_def)
qed



text \<open>
  The words \<open>help\<close> and \<open>?\<close> read the field \<open>hidden\<close> of commands such as \<open>show\<close>, which exist only as the first
  word of others and for which the field was never assigned.
\<close>

theorem help_reads_unassigned:
  assumes "set rs = set all_commands"
  shows "execute_commands (run_handler V) (register_all rs []) ''help'' s = None"
proof -
  have ok: "tree_ok (register_all rs [])"
    by (rule register_all_tree_ok) (use any_order_ok(2) [OF assms] in \<open>auto simp: tree_ok_def\<close>)
  have "\<forall>r\<in>set all_commands. cmd_path r \<noteq> [''show'']" by code_simp
  then have no: "[''show''] \<notin> cmd_path ` set rs" unfolding assms image_iff by metis
  have "cmd_at (register_all rs []) [''show''] \<noteq> None"
  proof -
    have "(''show version'', Show_version, False, False) \<in> set rs" using assms by (simp add: all_commands_def main_commands_def)
    moreover have "cmd_path (''show version'', Show_version, False, False) = [''show'', ''version'']" by code_simp
    ultimately show ?thesis unfolding register_all_paths by (metis Cons_prefix_Cons Nil_prefix list.distinct(1))
  qed
  then obtain c where c: "find_first (register_all rs []) ''show'' = Some c" by (auto split: option.splits)
  let ?rs = "rev (map (\<lambda>r. (cmd_path r, fst (snd r), fst (snd (snd r)))) rs)"
  have "fst ` set ?rs = cmd_path ` set rs" by (simp add: image_image)
  then have "[''show''] \<notin> fst ` set ?rs" using no by (simp only: not_False_eq_True)
  then have "map_of ?rs [''show''] = None" by (rule iffD2 [OF map_of_eq_None_iff])
  moreover have "handlers (register_all rs []) = handlers [] ++ map_of ?rs"
    using any_order_ok(2) [OF assms] by (intro register_all_handlers) blast
  ultimately have "handlers (register_all rs []) [''show''] = None" by (simp add: handlers_def map_add_def)
  then have "command_handler c = None" using c by (simp add: handlers_def)
  then have h: "cli_node_help (register_all rs []) = None" using help_unset [OF ok c] by blast
  have t: "strtok_r delimiters ''help'' = Some (''help'', [])" "asks_help ''help''" by code_simp+
  have "register_all rs [] \<noteq> []" using c by auto
  then show ?thesis by (simp add: execute_commands_def t exec_token_def h)
qed

text \<open>A message that fills the buffer is terminated behind its end.\<close>

theorem full_message_overruns: "length m = MAX_BUFFER_SIZE \<Longrightarrow> client_handler V node (m # ms) s = None"
  by (simp add: client_handler_def CLI_SHUTDOWN_def)

end
