(* ===== verification/Cli_Client.thy ===== *)
theory Cli_Client
  imports Console
begin

text \<open>
  The command-line client (\<open>opennop/opennop.c\<close>): the completion of command words, the line it sends to the
  daemon, and what it prints of the replies.  A function pointer in a table is the function itself.
  The terminal, the readline library and the socket are left out: a message printed and a line
  sent are results, what \<open>recv\<close> returns is an argument.
\<close>

section \<open>Tables of words\<close>

text \<open>
  A completion function takes the words not yet used (the null pointer is \<^const>\<open>None\<close>), the position in
  its table, the length of the text, the text and the rest of the line; it returns the next
  word that fits and the new position.  \<^const>\<open>None\<close> as a result is an access behind the table.
\<close>

type_synonym completer = "string option \<Rightarrow> nat \<Rightarrow> nat \<Rightarrow> string \<Rightarrow> string \<Rightarrow> (string option \<times> nat) option"

record COMMAND =
  co_name :: string
  co_func :: "completer option"
  co_doc :: string

text \<open>The entry with the null pointer that ends a table is left out.\<close>

definition plain_entries :: "(string \<times> string) list \<Rightarrow> COMMAND list" where
  "plain_entries nds = map (\<lambda>(n, d). \<lparr>co_name = n, co_func = None, co_doc = d\<rparr>) nds"

definition comp_dedup_options :: "COMMAND list" where
  "comp_dedup_options = plain_entries [(''enable'', ''Compression enable''), (''disable'', ''Compression disable'')]"

definition traces_enable_options :: "COMMAND list" where
  "traces_enable_options = plain_entries [(''mask'', ''MASK''), (''update_cache'', ''UPDATE_CACHE_MASK''),
     (''local_update_cache'', ''LOCAL_UPDATE_CACHE_MASK''), (''update_cache_rtx'', ''UPDATE_CACHE_RTX_MASK''),
     (''dedup'', ''DEDUP_MASK''), (''put_in_cache'', ''PUT_IN_CACHE_MASK''), (''uncomp'', ''UNCOMP_MASK'')]"

definition traces_disable_options :: "COMMAND list" where
  "traces_disable_options = plain_entries [(''update_cache'', ''UPDATE_CACHE_MASK''),
     (''local_update_cache'', ''LOCAL_UPDATE_CACHE_MASK''), (''update_cache_rtx'', ''UPDATE_CACHE_RTX_MASK''),
     (''dedup'', ''DEDUP_MASK''), (''put_in_cache'', ''PUT_IN_CACHE_MASK''), (''uncomp'', ''UNCOMP_MASK'')]"

definition show_traces_options :: "COMMAND list" where
  "show_traces_options = plain_entries [(''mask'', ''MASK'')]"

definition traces_mask_options :: "COMMAND list" where
  "traces_mask_options = plain_entries [(''orr'', ''traces mask orr''), (''and'', ''traces mask and''), (''nand'', ''traces mask nand'')]"

definition show_reset_stats_options :: "COMMAND list" where
  "show_reset_stats_options = plain_entries [(''in_dedup'', ''reset stats in_dedup''), (''out_dedup'', ''reset stats out_dedup''),
     (''in_dedup_thread'', ''reset stats in_dedup_thread''), (''out_dedup_thread'', ''reset stats out_dedup_thread'')]"

section \<open>Searching a table\<close>

definition strncmp_eq :: "string \<Rightarrow> string \<Rightarrow> nat \<Rightarrow> bool" where
  "strncmp_eq a b n \<longleftrightarrow> take n a = take n b"

definition find_option :: "COMMAND list \<Rightarrow> string option \<Rightarrow> COMMAND option" where
  "find_option table name = (case name of None \<Rightarrow> None | Some n \<Rightarrow> find (\<lambda>c. co_name c = n) table)"

definition find_comp_dedup_options :: "string option \<Rightarrow> COMMAND option" where
  "find_comp_dedup_options = find_option comp_dedup_options"

definition find_traces_enable_options :: "string option \<Rightarrow> COMMAND option" where
  "find_traces_enable_options = find_option traces_enable_options"

definition find_traces_disable_options :: "string option \<Rightarrow> COMMAND option" where
  "find_traces_disable_options = find_option traces_disable_options"

definition find_traces_mask_options :: "string option \<Rightarrow> COMMAND option" where
  "find_traces_mask_options = find_option traces_mask_options"

definition find_show_traces_options :: "string option \<Rightarrow> COMMAND option" where
  "find_show_traces_options = find_option show_traces_options"

definition find_show_reset_stats_options :: "string option \<Rightarrow> COMMAND option" where
  "find_show_reset_stats_options = find_option show_reset_stats_options"

text \<open>The loop all completion functions share: the next name of the table that starts with the text.\<close>

function next_match :: "COMMAND list \<Rightarrow> nat \<Rightarrow> nat \<Rightarrow> string \<Rightarrow> (string option \<times> nat) option" where
  "next_match table list_index len text = (
     if list_index < length table then
       (if strncmp_eq (co_name (table ! list_index)) text len then Some (Some (co_name (table ! list_index)), list_index + 1)
        else next_match table (list_index + 1) len text)
     else if list_index = length table then Some (None, list_index) else None)"
  by auto
termination by (relation "measure (\<lambda>(table, i, len, text). length table - i)") auto

declare next_match.simps [simp del]

text \<open>
  The third word: \<open>fun_comp_dedup\<close>, \<open>fun_traces_enable\<close>, \<open>fun_traces_disable\<close>, \<open>fun_traces_mask\<close>, \<open>fun_show_traces\<close> and
  \<open>fun_show_reset_stats\<close> differ in the table only.
\<close>

definition last_word :: "(string option \<Rightarrow> COMMAND option) \<Rightarrow> COMMAND list \<Rightarrow> completer" where
  "last_word find_fun table arg list_index len text saved_token = (case arg of
     None \<Rightarrow> next_match table list_index len text
   | Some a \<Rightarrow>
       let token3 = map_option fst (strtok_r delimiters a) in
       case find_fun token3 of
         Some c \<Rightarrow> (case co_func c of None \<Rightarrow> Some (None, list_index) | Some f \<Rightarrow> f token3 list_index len text saved_token)
       | None \<Rightarrow> next_match table list_index len text)"

definition fun_comp_dedup :: completer where "fun_comp_dedup = last_word find_comp_dedup_options comp_dedup_options"

definition fun_traces_enable :: completer where "fun_traces_enable = last_word find_traces_enable_options traces_enable_options"

definition fun_traces_disable :: completer where "fun_traces_disable = last_word find_traces_disable_options traces_disable_options"

definition fun_traces_mask :: completer where "fun_traces_mask = last_word find_traces_mask_options traces_mask_options"

definition fun_show_traces :: completer where "fun_show_traces = last_word find_show_traces_options show_traces_options"

definition fun_show_reset_stats :: completer where "fun_show_reset_stats = last_word find_show_reset_stats_options show_reset_stats_options"

text \<open>The second word: \<open>fun_show\<close>, \<open>fun_traces\<close> and \<open>fun_reset\<close> hand the rest of the line on.\<close>

definition inner_word :: "(string option \<Rightarrow> COMMAND option) \<Rightarrow> COMMAND list \<Rightarrow> completer" where
  "inner_word find_fun table arg list_index len text saved_token = (case arg of
     None \<Rightarrow> next_match table list_index len text
   | Some a \<Rightarrow> (case find_fun (Some a) of
         Some c \<Rightarrow> (case co_func c of None \<Rightarrow> Some (None, list_index) | Some f \<Rightarrow> f (Some saved_token) list_index len text saved_token)
       | None \<Rightarrow> next_match table list_index len text))"

definition entry :: "string \<Rightarrow> completer \<Rightarrow> string \<Rightarrow> COMMAND" where
  "entry n f d = \<lparr>co_name = n, co_func = Some f, co_doc = d\<rparr>"

definition show_options :: "COMMAND list" where
  "show_options = [entry ''traces'' fun_show_traces ''Show traces'', entry ''stats'' fun_show_reset_stats ''Show stats''] @
     plain_entries [(''version'', ''Show version''), (''compression'', ''Show compression''), (''workers'', ''Show workers''),
       (''fetcher'', ''Show fetcher''), (''sessions'', ''Show sessions''), (''deduplication'', ''Show deduplication'')]"

definition traces_options :: "COMMAND list" where
  "traces_options = [entry ''enable'' fun_traces_enable ''Enable'', entry ''disable'' fun_traces_disable ''Disable'',
     entry ''mask'' fun_traces_mask ''Mask'']"

definition reset_options :: "COMMAND list" where
  "reset_options = [entry ''stats'' fun_show_reset_stats ''reset stats'']"

definition find_show_options :: "string option \<Rightarrow> COMMAND option" where
  "find_show_options = find_option show_options"

definition find_traces_options :: "string option \<Rightarrow> COMMAND option" where
  "find_traces_options = find_option traces_options"

definition find_reset_options :: "string option \<Rightarrow> COMMAND option" where
  "find_reset_options = find_option reset_options"

definition fun_show :: completer where "fun_show = inner_word find_show_options show_options"

definition fun_traces :: completer where "fun_traces = inner_word find_traces_options traces_options"

definition fun_reset :: completer where "fun_reset = inner_word find_reset_options reset_options"

definition commands :: "COMMAND list" where
  "commands = [entry ''show'' fun_show ''Show'', entry ''traces'' fun_traces ''Traces'', entry ''reset'' fun_reset ''Reset'',
     entry ''compression'' fun_comp_dedup ''Compression'', entry ''deduplication'' fun_comp_dedup ''Deduplication''] @
     plain_entries [(''quit'', ''Quit''), (''?'', ''Help'')]"

definition find_cli_command :: "string option \<Rightarrow> COMMAND option" where "find_cli_command = find_option commands"

text \<open>
  The generator: \<open>list_index\<close> and \<open>len\<close> are its static variables, which the call with state 0 sets; the line is
  the buffer of readline.
\<close>

definition generate :: "string \<Rightarrow> nat \<Rightarrow> nat \<Rightarrow> string \<Rightarrow> (string option \<times> nat) option" where
  "generate rl_line_buffer list_index len text = (case strtok_r delimiters rl_line_buffer of
     None \<Rightarrow> next_match commands list_index len text
   | Some (token, saved_token) \<Rightarrow> (case find_cli_command (Some token) of
       Some c \<Rightarrow>
         let (token2, saved_token) = (case strtok_r delimiters saved_token of None \<Rightarrow> (None, []) | Some (t, r) \<Rightarrow> (Some t, r)) in
         (case co_func c of None \<Rightarrow> Some (None, list_index) | Some f \<Rightarrow> f token2 list_index len text saved_token)
     | None \<Rightarrow> next_match commands list_index len text))"

definition command_generator :: "string \<Rightarrow> string \<Rightarrow> int \<Rightarrow> nat \<times> nat \<Rightarrow> (string option \<times> nat \<times> nat) option" where
  "command_generator rl_line_buffer text state = (\<lambda>(list_index, len).
     let (list_index, len) = (if state = 0 then (0, length text) else (list_index, len)) in do {
     (name, list_index) \<leftarrow> generate rl_line_buffer list_index len text;
     Some (name, list_index, len) })"

section \<open>Lines and replies\<close>

text \<open>
  A line typed by the user: the client ends, or sends it and keeps it in its history if it is not
  empty.  The state is the lines sent and the history.
\<close>

definition rlctx_send_user_command :: "string option \<Rightarrow> string list \<times> string list \<Rightarrow> bool \<times> string list \<times> string list" where
  "rlctx_send_user_command line = (\<lambda>(sent, hist). case line of
     None \<Rightarrow> (False, sent, hist)
   | Some l \<Rightarrow>
       if l = ''exit'' \<or> l = ''quit'' \<or> l = ''quit '' then (True, sent, hist)
       else (False, sent @ [l], if l \<noteq> [] then hist @ [l] else hist))"

text \<open>The command of the arguments of the program, built in an array of 400 characters.\<close>

definition batch_command :: "string list \<Rightarrow> string option" where
  "batch_command argv = array 400 (concat (map (\<lambda>a. a @ '' '') argv))"

definition END_OF_COMMAND :: string where "END_OF_COMMAND = ''EOC''"

definition find_end_of_command :: "string \<Rightarrow> bool" where
  "find_end_of_command message \<longleftrightarrow> sublist END_OF_COMMAND message"

text \<open>Writing the zero that cuts off the end mark; in front of the array it is a fault.\<close>

definition cut_end :: "string \<Rightarrow> string option" where
  "cut_end s = (if length END_OF_COMMAND + 1 \<le> length s then Some (take (length s - length END_OF_COMMAND - 1) s) else None)"

text \<open>The replies to a command from the arguments: what is printed, and the exit code when the daemon closes the connection.\<close>

fun batch_replies :: "string list \<Rightarrow> (string \<times> int) option" where
  "batch_replies [] = Some (text_line ''server closed connection'', 1)"
| "batch_replies (m # ms) = do {
     c_assert (length m < MAX_BUFFER_SIZE);
     if find_end_of_command (c_string m) then do { t \<leftarrow> cut_end m; Some (c_string t, 0) }
     else do { (out, code) \<leftarrow> batch_replies ms; Some (c_string m @ out, code) } }"

text \<open>\<open>display_line\<close> on a reply to a typed line: the messages given to readline.\<close>

definition rl_line :: "string \<Rightarrow> string" where
  "rl_line s = s @ '' '' @ [newline]"

fun display_loop :: "string \<Rightarrow> string \<Rightarrow> string list option" where
  "display_loop line [] = (
     if find_end_of_command line \<and> length END_OF_COMMAND + 1 < length line then Some [rl_line line] else Some [])"
| "display_loop line (c # temp_buffer) = (
     if c \<noteq> newline then display_loop (line @ [c]) temp_buffer
     else if find_end_of_command line then
       (if length END_OF_COMMAND < length line then do {
          t \<leftarrow> cut_end line; ms \<leftarrow> display_loop [] temp_buffer; Some (rl_line t # ms) }
        else display_loop [] temp_buffer)
     else do { ms \<leftarrow> display_loop [] temp_buffer; Some (rl_line line # ms) })"

definition display_line :: "string \<Rightarrow> string list option" where
  "display_line mensaje = (
     let buffer = c_string mensaje in
     if newline \<in> set buffer then display_loop [] buffer
     else do {
       temp_buffer \<leftarrow> (if find_end_of_command buffer then cut_end buffer else Some buffer);
       ms \<leftarrow> display_loop [] temp_buffer;
       Some (rl_line temp_buffer # ms) })"

section \<open>The menu\<close>

text \<open>
  What the tables mean: a tree of words.  After some words the choices are those of the node they lead
  to; a word the node does not have is one that is still being typed.
\<close>

datatype menu = Menu "(string \<times> menu) list"

abbreviation leaves :: "string list \<Rightarrow> menu" where
  "leaves ws \<equiv> Menu (map (\<lambda>w. (w, Menu [])) ws)"

fun offered :: "menu \<Rightarrow> string list \<Rightarrow> string list" where
  "offered (Menu es) [] = map fst es"
| "offered (Menu es) (w # ws) = (case map_of es w of Some m \<Rightarrow> offered m ws | None \<Rightarrow> map fst es)"

fun menu_paths :: "menu \<Rightarrow> string list list" where
  "menu_paths (Menu es) = (if es = [] then [[]] else concat (map (\<lambda>(w, m). map ((#) w) (menu_paths m)) es))"

abbreviation stats_menu :: menu where
  "stats_menu \<equiv> leaves [''in_dedup'', ''out_dedup'', ''in_dedup_thread'', ''out_dedup_thread'']"

abbreviation switch_menu :: menu where "switch_menu \<equiv> leaves [''enable'', ''disable'']"

abbreviation trace_words :: "string list" where
  "trace_words \<equiv> [''update_cache'', ''local_update_cache'', ''update_cache_rtx'', ''dedup'', ''put_in_cache'', ''uncomp'']"

abbreviation show_menu :: menu where
  "show_menu \<equiv> Menu [(''traces'', leaves [''mask'']), (''stats'', stats_menu), (''version'', Menu []), (''compression'', Menu []),
     (''workers'', Menu []), (''fetcher'', Menu []), (''sessions'', Menu []), (''deduplication'', Menu [])]"

abbreviation traces_menu :: menu where
  "traces_menu \<equiv> Menu [(''enable'', leaves (''mask'' # trace_words)), (''disable'', leaves trace_words),
     (''mask'', leaves [''orr'', ''and'', ''nand''])]"

abbreviation reset_menu :: menu where "reset_menu \<equiv> Menu [(''stats'', stats_menu)]"

definition cli_menu :: menu where
  "cli_menu = Menu [(''show'', show_menu), (''traces'', traces_menu), (''reset'', reset_menu),
     (''compression'', switch_menu), (''deduplication'', switch_menu), (''quit'', Menu []), (''?'', Menu [])]"

text \<open>A completion function works on a node when it goes through the names the node offers for the words left.\<close>

definition goes_through :: "(nat \<Rightarrow> nat \<Rightarrow> string \<Rightarrow> (string option \<times> nat) option) \<Rightarrow> string list \<Rightarrow> bool" where
  "goes_through f ns \<longleftrightarrow> (\<exists>table. map co_name table = ns \<and> (\<forall>i\<le>length table. \<forall>len text. f i len text = next_match table i len text))"

lemma goes_table: "goes_through (next_match table) (map co_name table)"
  by (auto simp: goes_through_def)

lemma goes_nothing: "goes_through (\<lambda>i len text. Some (None, i)) []"
  by (auto simp: goes_through_def next_match.simps)

definition serves :: "(completer \<Rightarrow> nat \<Rightarrow> nat \<Rightarrow> string \<Rightarrow> (string option \<times> nat) option) \<Rightarrow> string list \<Rightarrow> COMMAND \<Rightarrow> string \<times> menu \<Rightarrow> bool" where
  "serves call ws c e \<longleftrightarrow> co_name c = fst e \<and>
     (case co_func c of None \<Rightarrow> snd e = Menu [] | Some f \<Rightarrow> goes_through (call f) (offered (snd e) ws))"

lemma find_served:
  assumes "list_all2 (serves call ws) table es"
  shows "find (\<lambda>c. co_name c = w) table = Some c \<Longrightarrow> \<exists>m. map_of es w = Some m \<and> serves call ws c (w, m)"
    and "find (\<lambda>c. co_name c = w) table = None \<Longrightarrow> map_of es w = None"
    and "map fst es = map co_name table"
  using assms by (induction rule: list_all2_induct) (auto simp: serves_def split: if_splits option.splits)

lemma empty_menu [simp]: "offered (Menu []) ws = []" by (cases ws) simp_all

text \<open>The step every completion function takes at its table.\<close>

lemma node_goes:
  assumes "list_all2 (serves call ws) table es"
  shows "goes_through (\<lambda>i len text. case find_option table (Some w) of
      Some c \<Rightarrow> (case co_func c of None \<Rightarrow> Some (None, i) | Some f \<Rightarrow> call f i len text)
    | None \<Rightarrow> next_match table i len text) (offered (Menu es) (w # ws))"
proof (cases "find (\<lambda>c. co_name c = w) table")
  case None
  then show ?thesis using find_served [OF assms] goes_table by (simp add: find_option_def)
next
  case (Some c)
  from find_served(1) [OF assms this] obtain m where "map_of es w = Some m" "serves call ws c (w, m)" by blast
  then show ?thesis using Some
    by (cases "co_func c") (simp_all add: find_option_def serves_def goes_nothing)
qed

lemma table_goes: "list_all2 (serves call ws) table es \<Longrightarrow> goes_through (next_match table) (offered (Menu es) [])"
  using find_served(3) [of call ws table es] goes_table by simp

lemma plain_serves: "list_all2 (serves call ws) (plain_entries nds) (map (\<lambda>w. (w, Menu [])) (map fst nds))"
  by (induction nds) (auto simp: plain_entries_def serves_def)

lemma last_word_goes:
  assumes table: "table = plain_entries nds" and ns: "map fst nds = ns"
  shows "goes_through (\<lambda>i len text. last_word (find_option table) table (Some a) i len text r) (offered (leaves ns) (tokens delimiters a))"
    and "goes_through (\<lambda>i len text. last_word (find_option table) table None i len text r) (offered (leaves ns) [])"
proof -
  let ?call = "\<lambda>t (f :: completer) i len text. f (Some t) i len text r"
  have l: "list_all2 (serves (?call t) ws) table (map (\<lambda>w. (w, Menu [])) ns)" for t ws
    unfolding table using plain_serves [of "?call t" ws nds] ns by simp
  show "goes_through (\<lambda>i len text. last_word (find_option table) table None i len text r) (offered (leaves ns) [])"
    using table_goes [OF l] by (simp add: last_word_def)
  show "goes_through (\<lambda>i len text. last_word (find_option table) table (Some a) i len text r) (offered (leaves ns) (tokens delimiters a))"
  proof (cases "strtok_r delimiters a")
    case None
    then show ?thesis using table_goes [OF l] by (simp add: last_word_def tokens_strtok find_option_def)
  next
    case (Some p)
    obtain t s where "p = (t, s)" by (cases p)
    then show ?thesis using Some node_goes [OF l [of t "tokens delimiters s"], of t]
      by (simp add: last_word_def tokens_strtok Let_def)
  qed
qed

lemma inner_word_goes:
  assumes "list_all2 (serves (\<lambda>f i len text. f (Some r) i len text r) (tokens delimiters r)) table es"
  shows "goes_through (\<lambda>i len text. inner_word (find_option table) table (Some t) i len text r) (offered (Menu es) (t # tokens delimiters r))"
    and "goes_through (\<lambda>i len text. inner_word (find_option table) table None i len text r) (offered (Menu es) [])"
  using node_goes [OF assms] table_goes [OF assms] by (simp_all add: inner_word_def)

text \<open>The words of each table.\<close>

lemma last_words:
  "goes_through (\<lambda>i len text. fun_comp_dedup (Some a) i len text r) (offered (leaves [''enable'', ''disable'']) (tokens delimiters a))"
  "goes_through (\<lambda>i len text. fun_comp_dedup None i len text r) (offered (leaves [''enable'', ''disable'']) [])"
  "goes_through (\<lambda>i len text. fun_show_traces (Some a) i len text r) (offered (leaves [''mask'']) (tokens delimiters a))"
  "goes_through (\<lambda>i len text. fun_show_reset_stats (Some a) i len text r)
     (offered (leaves [''in_dedup'', ''out_dedup'', ''in_dedup_thread'', ''out_dedup_thread'']) (tokens delimiters a))"
  "goes_through (\<lambda>i len text. fun_traces_mask (Some a) i len text r) (offered (leaves [''orr'', ''and'', ''nand'']) (tokens delimiters a))"
  "goes_through (\<lambda>i len text. fun_traces_enable (Some a) i len text r) (offered (leaves [''mask'', ''update_cache'', ''local_update_cache'',
     ''update_cache_rtx'', ''dedup'', ''put_in_cache'', ''uncomp'']) (tokens delimiters a))"
  "goes_through (\<lambda>i len text. fun_traces_disable (Some a) i len text r) (offered (leaves [''update_cache'', ''local_update_cache'',
     ''update_cache_rtx'', ''dedup'', ''put_in_cache'', ''uncomp'']) (tokens delimiters a))"
  unfolding fun_comp_dedup_def fun_show_traces_def fun_show_reset_stats_def fun_traces_mask_def fun_traces_enable_def fun_traces_disable_def
    find_comp_dedup_options_def find_show_traces_options_def find_show_reset_stats_options_def find_traces_mask_options_def
    find_traces_enable_options_def find_traces_disable_options_def
  by (rule last_word_goes [OF comp_dedup_options_def], simp, rule last_word_goes [OF comp_dedup_options_def], simp,
      rule last_word_goes [OF show_traces_options_def], simp, rule last_word_goes [OF show_reset_stats_options_def], simp,
      rule last_word_goes [OF traces_mask_options_def], simp, rule last_word_goes [OF traces_enable_options_def], simp,
      rule last_word_goes [OF traces_disable_options_def], simp)

lemma leaf_words: "offered (leaves ns) (t # ws) = offered (leaves ns) [t]"
proof -
  have "map_of (map (\<lambda>w. (w, Menu [])) ns) t \<in> {None, Some (Menu [])}" by (induction ns) auto
  then show ?thesis by auto
qed

lemma inner_tables:
  "list_all2 (serves (\<lambda>f i len text. f (Some r) i len text r) (tokens delimiters r)) show_options
     [(''traces'', leaves [''mask'']), (''stats'', stats_menu), (''version'', Menu []), (''compression'', Menu []),
      (''workers'', Menu []), (''fetcher'', Menu []), (''sessions'', Menu []), (''deduplication'', Menu [])]"
  "list_all2 (serves (\<lambda>f i len text. f (Some r) i len text r) (tokens delimiters r)) traces_options
     [(''enable'', leaves (''mask'' # trace_words)), (''disable'', leaves trace_words), (''mask'', leaves [''orr'', ''and'', ''nand''])]"
  "list_all2 (serves (\<lambda>f i len text. f (Some r) i len text r) (tokens delimiters r)) reset_options [(''stats'', stats_menu)]"
  unfolding show_options_def traces_options_def reset_options_def
  using last_words(3-7) [of r r] by (simp_all add: entry_def plain_entries_def serves_def)

lemma inner_words:
  "goes_through (\<lambda>i len text. fun_show (Some t) i len text r) (offered show_menu (t # tokens delimiters r))"
  "goes_through (\<lambda>i len text. fun_show None i len text r) (offered show_menu [])"
  "goes_through (\<lambda>i len text. fun_traces (Some t) i len text r) (offered traces_menu (t # tokens delimiters r))"
  "goes_through (\<lambda>i len text. fun_traces None i len text r) (offered traces_menu [])"
  "goes_through (\<lambda>i len text. fun_reset (Some t) i len text r) (offered reset_menu (t # tokens delimiters r))"
  "goes_through (\<lambda>i len text. fun_reset None i len text r) (offered reset_menu [])"
  unfolding fun_show_def fun_traces_def fun_reset_def find_show_options_def find_traces_options_def find_reset_options_def
  by (rule inner_word_goes [OF inner_tables(1)] inner_word_goes [OF inner_tables(2)] inner_word_goes [OF inner_tables(3)])+

text \<open>The words behind the first one, as the generator splits them off.\<close>

definition words_left :: "string option \<Rightarrow> string \<Rightarrow> string list" where
  "words_left t r = (case t of None \<Rightarrow> [] | Some w \<Rightarrow> w # tokens delimiters r)"

lemma command_table:
  assumes "\<And>w. t = Some w \<Longrightarrow> word_ok delimiters w"
  shows "list_all2 (serves (\<lambda>f i len text. f t i len text r) (words_left t r)) commands
    [(''show'', show_menu), (''traces'', traces_menu), (''reset'', reset_menu),
     (''compression'', switch_menu), (''deduplication'', switch_menu), (''quit'', Menu []), (''?'', Menu [])]"
proof -
  have "goes_through (\<lambda>i len text. fun_comp_dedup t i len text r) (offered switch_menu (words_left t r))"
  proof (cases t)
    case None
    then show ?thesis using last_words(2) by (simp add: words_left_def)
  next
    case (Some w)
    then have "tokens delimiters w = [w]" using assms by (simp add: strtok_last tokens_strtok tokens_none)
    then have "goes_through (\<lambda>i len text. fun_comp_dedup t i len text r) (offered switch_menu [w])"
      using last_words(1) [of w r] Some by simp
    then show ?thesis using leaf_words [of "[''enable'', ''disable'']" w "tokens delimiters r"] by (simp only: Some words_left_def option.case)
  qed
  moreover have "goes_through (\<lambda>i len text. fun_show t i len text r) (offered show_menu (words_left t r))"
    "goes_through (\<lambda>i len text. fun_traces t i len text r) (offered traces_menu (words_left t r))"
    "goes_through (\<lambda>i len text. fun_reset t i len text r) (offered reset_menu (words_left t r))"
    using inner_words unfolding words_left_def by (cases t; simp only: option.case)+
  ultimately show ?thesis by (simp add: commands_def entry_def plain_entries_def serves_def)
qed

lemma generate_goes: "goes_through (generate line) (offered cli_menu (tokens delimiters line))"
proof (cases "strtok_r delimiters line")
  case None
  then have "generate line = next_match commands" by (intro ext) (simp add: generate_def)
  then show ?thesis using None table_goes [OF command_table [of None "[]"]] by (simp add: cli_menu_def tokens_strtok)
next
  case (Some p)
  obtain t s where p: "p = (t, s)" by (cases p)
  define q where "q = (case strtok_r delimiters s of None \<Rightarrow> (None, []) | Some (t, r) \<Rightarrow> (Some t, r))"
  have ok: "\<And>w. fst q = Some w \<Longrightarrow> word_ok delimiters w" and w: "words_left (fst q) (snd q) = tokens delimiters s"
    unfolding q_def by (auto simp: words_left_def tokens_strtok dest: strtok_word split: option.splits)
  let ?f = "\<lambda>i len text. case find_option commands (Some t) of
      Some c \<Rightarrow> (case co_func c of None \<Rightarrow> Some (None, i) | Some f \<Rightarrow> f (fst q) i len text (snd q))
    | None \<Rightarrow> next_match commands i len text"
  have n: "goes_through ?f (offered cli_menu (t # tokens delimiters s))"
    using node_goes [OF command_table [of "fst q" "snd q"], where w = t] ok unfolding w cli_menu_def by blast
  have "generate line = ?f"
    unfolding generate_def Some p find_cli_command_def option.case prod.case q_def Let_def case_prod_unfold fst_conv snd_conv by (rule refl)
  then show ?thesis using n Some p by (simp only: tokens_strtok)
qed

text \<open>
  The protocol of readline's \<open>rl_completion_matches\<close>: the generator is called with state 0, then with other
  states until it returns the null pointer.
\<close>

partial_function (option) collect :: "string \<Rightarrow> string \<Rightarrow> int \<Rightarrow> nat \<times> nat \<Rightarrow> string list option" where
  "collect line text state st = do {
     (name, st) \<leftarrow> command_generator line text state st;
     case name of None \<Rightarrow> Some [] | Some n \<Rightarrow> do { ns \<leftarrow> collect line text (state + 1) st; Some (n # ns) } }"

lemma strncmp_prefix: "strncmp_eq name text (length text) \<longleftrightarrow> prefix text name"
  by (auto simp: strncmp_eq_def prefix_def) (metis append_take_drop_id)

lemma next_match_cases:
  "i \<le> length table \<Longrightarrow> case filter (prefix text) (map co_name (drop i table)) of
     [] \<Rightarrow> \<exists>j. next_match table i (length text) text = Some (None, j)
   | n # ns \<Rightarrow> \<exists>j\<le>length table. i < j \<and> next_match table i (length text) text = Some (Some n, j) \<and>
       filter (prefix text) (map co_name (drop j table)) = ns"
proof (induction "length table - i" arbitrary: i)
  case 0
  then show ?case by (simp add: next_match.simps)
next
  case (Suc k)
  then have i: "i < length table" "drop i table = table ! i # drop (Suc i) table" by (simp_all add: Cons_nth_drop_Suc)
  show ?case
  proof (cases "prefix text (co_name (table ! i))")
    case True
    then have "next_match table i (length text) text = Some (Some (co_name (table ! i)), Suc i)"
      using i(1) by (simp add: next_match.simps [of table i] strncmp_prefix)
    then show ?thesis using i True by (auto intro!: exI [of _ "Suc i"])
  next
    case False
    then have n: "next_match table i (length text) text = next_match table (Suc i) (length text) text"
      using i(1) by (simp add: next_match.simps [of table i] strncmp_prefix)
    have "k = length table - Suc i" "Suc i \<le> length table" using Suc(2) i(1) by auto
    from Suc(1) [OF this] show ?thesis unfolding n using i False
      by (auto split: list.splits intro: Suc_lessD)
  qed
qed

lemma collect_from:
  assumes "\<forall>i\<le>length table. \<forall>len text. generate line i len text = next_match table i len text"
  shows "i \<le> length table \<Longrightarrow> k \<noteq> 0 \<or> (i, len) = (0, length text) \<Longrightarrow> 0 \<le> k \<Longrightarrow> len = length text \<Longrightarrow>
    collect line text k (i, len) = Some (filter (prefix text) (map co_name (drop i table)))"
proof (induction "length table - i" arbitrary: i k rule: less_induct)
  case less
  have gen: "command_generator line text k (i, len) = map_option (\<lambda>(n, j). (n, j, len)) (next_match table i len text)"
    using less.prems assms by (cases "next_match table i len text") (auto simp: command_generator_def)
  note c = next_match_cases [OF less.prems(1), of "text"]
  show ?case
  proof (cases "filter (prefix text) (map co_name (drop i table))")
    case Nil
    then show ?thesis using c gen less.prems(4) by (auto simp: collect.simps [of line "text" k])
  next
    case (Cons n ns)
    then obtain j where j: "j \<le> length table" "i < j" "next_match table i (length text) text = Some (Some n, j)"
      "filter (prefix text) (map co_name (drop j table)) = ns" using c by auto
    have "collect line text (k + 1) (j, len) = Some ns"
      using less.hyps [of j "k + 1"] j less.prems by simp
    then show ?thesis using gen j(3) less.prems(4) Cons by (simp add: collect.simps [of line "text" k])
  qed
qed

lemma collect_offered: "collect line text 0 st = Some (filter (prefix text) (offered cli_menu (tokens delimiters line)))"
proof -
  obtain table where t: "map co_name table = offered cli_menu (tokens delimiters line)"
    "\<forall>i\<le>length table. \<forall>len text. generate line i len text = next_match table i len text"
    using generate_goes unfolding goes_through_def by blast
  have "collect line text 0 st = collect line text 0 (0, length text)"
    by (cases st) (simp add: collect.simps [of line "text" 0] command_generator_def)
  then show ?thesis using collect_from [OF t(2), of 0 0 "length text" "text"] t(1) by simp
qed

section \<open>The client and the daemon\<close>

lemma menu_commands:
  "\<forall>p\<in>set (menu_paths cli_menu). p = [''?''] \<or> (\<exists>r\<in>set all_commands. prefix (cmd_path r) p)"
  "\<forall>r\<in>set all_commands. snd (snd (snd r)) \<or> (\<exists>p\<in>set (menu_paths cli_menu). prefix (cmd_path r) p)"
  by code_simp+

lemma no_zero [simp]: "CHR 0x00 \<notin> set s \<Longrightarrow> c_string s = s"
  by (auto simp: c_string_def takeWhile_eq_all_conv)

lemma batch_line:
  assumes "batch_command argv = Some line" and "\<forall>a\<in>set argv. word_ok delimiters a \<and> CHR 0x00 \<notin> set a"
  shows "tokens delimiters line = argv" and "length line < MAX_BUFFER_SIZE" and "c_string line = line"
proof -
  have l: "line = concat (map (\<lambda>a. a @ '' '') argv)" "length line < 400"
    using assms(1) by (auto simp: batch_command_def array_def split: if_splits)
  have "tokens delimiters (concat (map (\<lambda>a. a @ '' '') ws)) = ws" if "\<forall>a\<in>set ws. word_ok delimiters a" for ws
    using that
  proof (induction ws)
    case Nil
    then show ?case by (simp add: tokens_none)
  next
    case (Cons w ws)
    then show ?case using strtok_next [of delimiters w "CHR '' ''" "concat (map (\<lambda>a. a @ '' '') ws)"]
      by (simp add: tokens_strtok(2) delimiters_def)
  qed
  then show "tokens delimiters line = argv" using assms(2) l(1) by blast
  show "length line < MAX_BUFFER_SIZE" using l(2) by (simp add: MAX_BUFFER_SIZE_def)
  show "c_string line = line" using assms(2) by (intro no_zero) (auto simp: l(1))
qed

text \<open>The replies of a connection with one message.\<close>

lemma one_message:
  assumes "execute_commands (run_handler V) node line (s\<lparr>num_sock := num_sock s + 1, num_tot_sock := num_tot_sock s + 1\<rparr>) = Some (code, out, s')"
    and "length line < MAX_BUFFER_SIZE" and "c_string line = line"
  shows "client_handler V node [line] s = Some (out @ reply code, s'\<lparr>num_sock := num_sock s' - 1\<rparr>)"
  using assms by (simp add: client_handler_def CLI_SHUTDOWN_def)

lemma batch_replies_end:
  assumes "\<forall>x\<in>set ms. length x < MAX_BUFFER_SIZE \<and> CHR 0x00 \<notin> set x \<and> \<not> find_end_of_command x"
    and "length m + 4 < MAX_BUFFER_SIZE" and "CHR 0x00 \<notin> set m"
  shows "batch_replies (ms @ (m @ text_line END_OF_COMMAND) # later) = Some (concat ms @ m, 0)"
  using assms(1)
proof (induction ms)
  case Nil
  have "find_end_of_command (m @ text_line END_OF_COMMAND)"
    by (auto simp: find_end_of_command_def text_line_def sublist_def)
  moreover have "CHR 0x00 \<notin> set (m @ text_line END_OF_COMMAND)" using assms(3) by (simp add: text_line_def END_OF_COMMAND_def newline_def)
  ultimately show ?case using assms(2,3) by (simp add: cut_end_def text_line_def END_OF_COMMAND_def)
qed auto

section \<open>Properties\<close>

text \<open>(C37) Completion: whatever the line and the text to complete are, the generator, called until it has no more, ends
  without reading behind a table and returns exactly the words that start with the text among those
  the menu offers after the words of the line, in the order of the menu.\<close>

theorem completion_follows_menu:
  "collect line text 0 st = Some (filter (prefix text) (offered cli_menu (tokens delimiters line)))"
  by (rule collect_offered)

text \<open>(C38) The menu of the client is the command set of the daemon: every path of words the client offers, other than the
  question mark, starts with a command registered by the daemon, so that the line runs that command's
  handler, with the rest of the path as parameters, in whatever order the commands were registered; and
  every command that is not hidden is on a path of the menu.\<close>

theorem menu_is_command_set:
  assumes "set rs = set all_commands"
  shows "(\<forall>p line V. p \<in> set (menu_paths cli_menu) \<longrightarrow> p \<noteq> [''?''] \<longrightarrow> tokens delimiters line = p \<longrightarrow>
      (\<exists>name h params hide ps. (name, h, params, hide) \<in> set rs \<and> p = tokens delimiters name @ ps \<and>
        (\<forall>s code out s'. run_handler V h (if params then ps else []) s = Some (code, out, s') \<longrightarrow> code \<noteq> CLI_ERROR \<longrightarrow>
          execute_commands (run_handler V) (register_all rs []) line s = Some (code, out, s')))) \<and>
    (\<forall>name h params. (name, h, params, False) \<in> set rs \<longrightarrow> (\<exists>p\<in>set (menu_paths cli_menu). prefix (tokens delimiters name) p))"
proof (intro conjI allI impI)
  fix name h params
  assume "(name, h, params, False) \<in> set rs"
  then show "\<exists>p\<in>set (menu_paths cli_menu). prefix (tokens delimiters name) p"
    using menu_commands(2) unfolding assms by (fastforce simp: cmd_path_def)
next
  fix p line V
  assume p: "p \<in> set (menu_paths cli_menu)" "p \<noteq> [''?'']" "tokens delimiters line = p"
  then obtain r where "r \<in> set all_commands" "prefix (cmd_path r) p" using menu_commands(1) by blast
  moreover obtain name h params hide where "r = (name, h, params, hide)" by (cases r)
  ultimately obtain ps where r: "(name, h, params, hide) \<in> set all_commands" "p = tokens delimiters name @ ps"
    by (auto simp: cmd_path_def prefix_def)
  show "\<exists>name h params hide ps. (name, h, params, hide) \<in> set rs \<and> p = tokens delimiters name @ ps \<and>
        (\<forall>s code out s'. run_handler V h (if params then ps else []) s = Some (code, out, s') \<longrightarrow> code \<noteq> CLI_ERROR \<longrightarrow>
          execute_commands (run_handler V) (register_all rs []) line s = Some (code, out, s'))"
    using r assms console_line [OF assms r(1), of line ps] p(3) by blast
qed

theorem menu_is_command_set_witness:
  "\<exists>name h params hide ps. (name, h, params, hide) \<in> set all_commands \<and> [''traces'', ''enable'', ''dedup''] = tokens delimiters name @ ps"
proof -
  have "[''traces'', ''enable'', ''dedup''] \<in> set (menu_paths cli_menu)" "tokens delimiters ''traces enable dedup'' = [''traces'', ''enable'', ''dedup'']"
    by code_simp+
  then show ?thesis using menu_is_command_set [of all_commands] by blast
qed

text \<open>(C39) A command given on the command line: the client puts the words of its arguments together to a line, the daemon
  runs the command with these words, and whatever pieces the reply arrives in, the client prints
  exactly what the command's handler has sent, without the end mark, and ends.  The pieces fit the buffer, and
  the end mark arrives in one piece, at the end of it, and not earlier.\<close>

theorem batch_command_roundtrip:
  assumes "set rs = set all_commands" and "(name, h, params, hide) \<in> set all_commands"
    and "batch_command (tokens delimiters name @ ps) = Some line"
    and "\<forall>a\<in>set (tokens delimiters name @ ps). word_ok delimiters a \<and> CHR 0x00 \<notin> set a"
    and "run_handler V h (if params then ps else []) (s\<lparr>num_sock := num_sock s + 1, num_tot_sock := num_tot_sock s + 1\<rparr>) = Some (CLI_SUCCESS, out, s')"
  shows "\<exists>sent s''. client_handler V (register_all rs []) [line] s = Some (sent, s'') \<and>
    concat sent = concat out @ text_line END_OF_COMMAND \<and>
    (\<forall>ms m. concat sent = concat ms @ m @ text_line END_OF_COMMAND \<longrightarrow>
      (\<forall>x\<in>set ms. length x < MAX_BUFFER_SIZE \<and> CHR 0x00 \<notin> set x \<and> \<not> find_end_of_command x) \<longrightarrow>
      length m + 4 < MAX_BUFFER_SIZE \<longrightarrow> CHR 0x00 \<notin> set m \<longrightarrow>
      batch_replies (ms @ [m @ text_line END_OF_COMMAND]) = Some (concat out, 0))"
proof -
  note l = batch_line [OF assms(3,4)]
  have e: "execute_commands (run_handler V) (register_all rs []) line (s\<lparr>num_sock := num_sock s + 1, num_tot_sock := num_tot_sock s + 1\<rparr>) =
      Some (CLI_SUCCESS, out, s')"
    by (rule console_line [OF assms(1,2) l(1) assms(5)]) (simp add: cli_codes)
  have "concat (out @ reply CLI_SUCCESS) = concat out @ text_line END_OF_COMMAND" by (simp add: reply_def cli_codes END_OF_COMMAND_def)
  then show ?thesis using one_message [OF e l(2,3)] batch_replies_end by fastforce
qed

theorem batch_command_roundtrip_witness:
  "\<forall>s. \<exists>sent s''. client_handler ''1'' (register_all all_commands []) [''compression disable ''] s = Some (sent, s'') \<and>
    batch_replies [concat (framed ''Compression disabled'') @ text_line END_OF_COMMAND] = Some (concat (framed ''Compression disabled''), 0)"
proof
  fix s :: console
  let ?out = "framed ''Compression disabled''" and ?s = "s\<lparr>num_sock := num_sock s + 1, num_tot_sock := num_tot_sock s + 1\<rparr>"
  have m: "(''compression disable'', Compression_disable, False, False) \<in> set all_commands"
    by (simp add: all_commands_def main_commands_def)
  have b: "batch_command (tokens delimiters ''compression disable'' @ []) = Some ''compression disable ''"
    "\<forall>a\<in>set (tokens delimiters ''compression disable'' @ []). word_ok delimiters a \<and> CHR 0x00 \<notin> set a"
    "length (concat ?out) + 4 < MAX_BUFFER_SIZE" "CHR 0x00 \<notin> set (concat ?out)"
    by code_simp+
  have r: "run_handler ''1'' Compression_disable (if False then [] else []) ?s = Some (CLI_SUCCESS, ?out, ?s\<lparr>compression := False\<rparr>)"
    by (simp add: cli_compression_disable_def CLI_SUCCESS_def)
  obtain sent s'' where t: "client_handler ''1'' (register_all all_commands []) [''compression disable ''] s = Some (sent, s'')"
    "concat sent = concat ?out @ text_line END_OF_COMMAND"
    "\<forall>ms m. concat sent = concat ms @ m @ text_line END_OF_COMMAND \<longrightarrow>
      (\<forall>x\<in>set ms. length x < MAX_BUFFER_SIZE \<and> CHR 0x00 \<notin> set x \<and> \<not> find_end_of_command x) \<longrightarrow>
      length m + 4 < MAX_BUFFER_SIZE \<longrightarrow> CHR 0x00 \<notin> set m \<longrightarrow>
      batch_replies (ms @ [m @ text_line END_OF_COMMAND]) = Some (concat ?out, 0)"
    using batch_command_roundtrip [OF refl m b(1,2) r] by blast
  show "\<exists>sent s''. client_handler ''1'' (register_all all_commands []) [''compression disable ''] s = Some (sent, s'') \<and>
    batch_replies [concat ?out @ text_line END_OF_COMMAND] = Some (concat ?out, 0)"
    using t(1) t(3) [rule_format, of "[]" "concat ?out"] t(2) b(3,4) by simp
qed

text \<open>
  A reply to a typed line is shown line by line.  When the piece that \<open>recv\<close> returns ends inside a line and has other
  lines before it, the last part is not shown.
\<close>

lemma display_loop_line:
  "newline \<notin> set l \<Longrightarrow> \<not> find_end_of_command (acc @ l) \<Longrightarrow>
    display_loop acc (l @ newline # r) = map_option ((#) (rl_line (acc @ l))) (display_loop [] r)"
proof (induction l arbitrary: acc)
  case Nil
  then show ?case by (cases "display_loop [] r") simp_all
next
  case (Cons a l)
  then have "a \<noteq> newline" "newline \<notin> set l" "\<not> find_end_of_command ((acc @ [a]) @ l)" by auto
  then show ?case using Cons.IH [of "acc @ [a]"] by simp
qed

lemma display_loop_lines:
  "\<forall>l\<in>set ls. newline \<notin> set l \<and> \<not> find_end_of_command l \<Longrightarrow>
    display_loop [] (concat (map text_line ls) @ r) = map_option ((@) (map rl_line ls)) (display_loop [] r)"
proof (induction ls)
  case (Cons l ls)
  have "concat (map text_line (l # ls)) @ r = l @ newline # concat (map text_line ls) @ r" by (simp add: text_line_def)
  moreover have "display_loop [] (l @ newline # concat (map text_line ls) @ r) = map_option ((@) (map rl_line (l # ls))) (display_loop [] r)"
    using Cons display_loop_line [of l "[]" "concat (map text_line ls) @ r"]
    by (cases "display_loop [] r") simp_all
  ultimately show ?case by (simp only:)
qed (cases "display_loop [] r"; simp)

lemma display_loop_rest: "newline \<notin> set p \<Longrightarrow> \<not> find_end_of_command (acc @ p) \<Longrightarrow> display_loop acc p = Some []"
  by (induction p arbitrary: acc) auto

theorem display_line_shows:
  assumes "\<forall>l\<in>set ls. newline \<notin> set l \<and> CHR 0x00 \<notin> set l \<and> \<not> find_end_of_command l"
  shows "display_line (concat (map text_line ls) @ text_line END_OF_COMMAND) = Some (map rl_line ls)"
proof -
  let ?m = "concat (map text_line ls) @ text_line END_OF_COMMAND"
  have "CHR 0x00 \<notin> set ?m" "newline \<in> set ?m" using assms by (auto simp: text_line_def END_OF_COMMAND_def newline_def)
  moreover have "display_loop [] (text_line END_OF_COMMAND) = Some []" by code_simp
  ultimately show ?thesis using display_loop_lines [of ls "text_line END_OF_COMMAND"] assms by (simp add: display_line_def)
qed

theorem display_line_drops_rest:
  assumes "\<forall>l\<in>set ls. newline \<notin> set l \<and> CHR 0x00 \<notin> set l \<and> \<not> find_end_of_command l" and "ls \<noteq> []"
    and "newline \<notin> set p" and "CHR 0x00 \<notin> set p" and "\<not> find_end_of_command p"
  shows "display_line (concat (map text_line ls) @ p) = Some (map rl_line ls)"
proof -
  let ?m = "concat (map text_line ls) @ p"
  have "CHR 0x00 \<notin> set ?m" "newline \<in> set ?m" using assms by (cases ls; auto simp: text_line_def newline_def)+
  then show ?thesis using display_loop_lines [of ls p] display_loop_rest [of p "[]"] assms by (simp add: display_line_def)
qed

end
