(* ===== verification/Configuration.thy ===== *)
theory Configuration
  imports C_Text Packet_Dictionary
begin

text \<open>
  Reading the configuration file (\<open>opennopd/configure.c\<close>).  The variables that \<open>configure\<close> sets through
  pointers, the switches of other files it sets and its own locals are one record.  \<^const>\<open>None\<close> is the use
  of the null pointer that \<open>strtok\<close> returns when a line has no value, or a number out of the range of its type.
\<close>

section \<open>State\<close>

record settings =
  localID :: u32
  packet_number :: u32
  packet_size :: u32
  thr_num :: u32
  fpPerPkt :: u32
  fpsFactor :: u32
  set_compression :: bool
  set_deduplication :: bool
  set_shareddict :: bool
  packetPipeline :: bool
  tempIP :: u32
  checked :: bool
  num_pkts :: u32
  pkt_size :: u32

section \<open>Operations\<close>

definition clz :: "u32 \<Rightarrow> nat" where
  "clz x = length (takeWhile (\<lambda>i. \<not> bit x i) (rev [0..<32]))"

definition round_down_to_power_of_2 :: "u32 \<Rightarrow> u32" where
  "round_down_to_power_of_2 x = drop_bit (clz x) 0x80000000"

definition conf_delim :: string where
  "conf_delim = [CHR 0x09, CHR '' '', CHR ''='', CHR 0x0A, CHR 0x0D]"

definition LOOPBACK :: u32 where "LOOPBACK = 16777343"

text \<open>\<open>sscanf(token, "%u", &v)\<close> on a variable with the value \<open>old\<close>.\<close>

definition scan_into :: "u32 \<Rightarrow> string \<Rightarrow> u32 option" where
  "scan_into old token = (case sscanf_u token of Matched v \<Rightarrow> Some v | No_match \<Rightarrow> Some old | Out_of_range \<Rightarrow> None)"

text \<open>The switches of \<open>compression.c\<close> and \<open>deduplication.c\<close>.\<close>

definition compression_enable :: "settings \<Rightarrow> int \<times> settings" where
  "compression_enable c = (0, c\<lparr>set_compression := True\<rparr>)"

definition compression_disable :: "settings \<Rightarrow> int \<times> settings" where
  "compression_disable c = (0, c\<lparr>set_compression := False\<rparr>)"

definition deduplication_enable :: "settings \<Rightarrow> int \<times> settings" where
  "deduplication_enable c = (0, c\<lparr>set_deduplication := True\<rparr>)"

definition deduplication_disable :: "settings \<Rightarrow> int \<times> settings" where
  "deduplication_disable c = (0, c\<lparr>set_deduplication := False\<rparr>)"

definition shareddict_enable :: "settings \<Rightarrow> int \<times> settings" where
  "shareddict_enable c = (0, c\<lparr>set_shareddict := True\<rparr>)"

definition shareddict_disable :: "settings \<Rightarrow> int \<times> settings" where
  "shareddict_disable c = (0, c\<lparr>set_shareddict := False\<rparr>)"

lemmas switch_sets = compression_enable_def compression_disable_def deduplication_enable_def deduplication_disable_def
  shareddict_enable_def shareddict_disable_def

definition set_optimization :: "string \<Rightarrow> settings \<Rightarrow> settings" where
  "set_optimization token c = (
     if token = ''compression'' then snd (deduplication_disable (snd (compression_enable c)))
     else if token = ''deduplication'' then snd (compression_disable (snd (deduplication_enable c)))
     else if token = ''combined'' then snd (compression_enable (snd (deduplication_enable c)))
     else let c = snd (deduplication_disable (snd (compression_disable c))) in
       if token = ''pipeline'' then c\<lparr>packetPipeline := True\<rparr> else c)"

definition set_dictionary :: "string \<Rightarrow> settings \<Rightarrow> settings" where
  "set_dictionary token c = (
     if token = ''shared'' then snd (shareddict_enable c)
     else if token = ''thread'' then snd (shareddict_disable c) else c)"

text \<open>On failure \<open>inet_pton\<close> leaves its result alone.\<close>

definition set_localid :: "string \<Rightarrow> settings \<Rightarrow> settings" where
  "set_localid token c = (case inet_pton token of
     None \<Rightarrow> c
   | Some ip \<Rightarrow> let c = c\<lparr>tempIP := ip\<rparr> in
       if tempIP c \<noteq> LOOPBACK then c\<lparr>localID := tempIP c, checked := True\<rparr> else c)"

definition set_number :: "string \<Rightarrow> string \<Rightarrow> settings \<Rightarrow> settings option" where
  "set_number key token c = (
     if key = ''thrnum'' then do { v \<leftarrow> scan_into (thr_num c) token; Some (c\<lparr>thr_num := v\<rparr>) }
     else if key = ''fp_per_pkt'' then do {
       v \<leftarrow> scan_into (fpPerPkt c) token;
       Some (c\<lparr>fpPerPkt := (if 0 < v then round_down_to_power_of_2 v else v)\<rparr>) }
     else if key = ''fps_factor'' then do {
       v \<leftarrow> scan_into (fpsFactor c) token;
       Some (c\<lparr>fpsFactor := (if 0 < v then round_down_to_power_of_2 v else v)\<rparr>) }
     else if key = ''num_pkt_cache_size'' then do {
       v \<leftarrow> scan_into (num_pkts c) token;
       Some (if 0 < v then c\<lparr>num_pkts := v, packet_number := round_down_to_power_of_2 v\<rparr> else c\<lparr>num_pkts := v\<rparr>) }
     else do {
       v \<leftarrow> scan_into (pkt_size c) token;
       Some (if 0 < v then c\<lparr>pkt_size := v, packet_size := v\<rparr> else c\<lparr>pkt_size := v\<rparr>) })"

definition number_keys :: "string list" where
  "number_keys = [''thrnum'', ''fp_per_pkt'', ''fps_factor'', ''num_pkt_cache_size'', ''pkt_size'']"

definition known_keys :: "string list" where
  "known_keys = [''optimization'', ''dictionary'', ''localid''] @ number_keys"

definition configure_line :: "string \<Rightarrow> settings \<Rightarrow> settings option" where
  "configure_line line c = (case strtok_r conf_delim line of
     None \<Rightarrow> Some c
   | Some (token, saved) \<Rightarrow>
       if take 1 token = ''#'' \<or> token \<notin> set known_keys then Some c
       else do {
         (v, saved) \<leftarrow> strtok_r conf_delim saved;
         if token = ''optimization'' then Some (set_optimization v c)
         else if token = ''dictionary'' then Some (set_dictionary v c)
         else if token = ''localid'' then Some (set_localid v c)
         else set_number token v c })"

definition MAX_LINE_LEN :: nat where "MAX_LINE_LEN = 256"

function configure_loop :: "string \<Rightarrow> settings \<Rightarrow> settings option" where
  "configure_loop file c = (case fgets MAX_LINE_LEN file of
     None \<Rightarrow> Some c
   | Some (line, file') \<Rightarrow> configure_line (c_string line) c \<bind> configure_loop file')"
  by auto
termination
  by (relation "measure (\<lambda>(file, c). length file)") (auto simp: MAX_LINE_LEN_def dest: fgets_shorter)

declare configure_loop.simps [simp del]

text \<open>The file is \<^const>\<open>None\<close> when it cannot be opened.\<close>

definition configure :: "string option \<Rightarrow> settings \<Rightarrow> (int \<times> settings) option" where
  "configure path c = (
     let c = c\<lparr>tempIP := 0, checked := False, num_pkts := 0, pkt_size := 0\<rparr> in
     case path of
       None \<Rightarrow> Some (1, c)
     | Some file \<Rightarrow> do {
         c \<leftarrow> configure_loop file c;
         Some (if checked c then 0 else 1, c) })"

text \<open>The values \<open>main\<close> starts from, and the call of \<open>init_common\<close> with what was read.\<close>

definition default_settings :: settings where
  "default_settings = \<lparr>localID = 0, packet_number = 131072, packet_size = 1500, thr_num = 1, fpPerPkt = 32, fpsFactor = 2,
     set_compression = True, set_deduplication = True, set_shareddict = False, packetPipeline = False, tempIP = 0, checked = False,
     num_pkts = 0, pkt_size = 0\<rparr>"

definition dictionary_config :: "settings \<Rightarrow> config" where
  "dictionary_config c = init_common (packet_number c) (packet_size c) (fpPerPkt c) (fpsFactor c) (set_shareddict c)"

section \<open>Rounding\<close>

lemma clz_top:
  fixes x :: u32
  assumes "x \<noteq> 0"
  shows "clz x < 32" and "bit x (31 - clz x)" and "31 - clz x < i \<Longrightarrow> \<not> bit x i"
proof -
  let ?P = "\<lambda>i. \<not> bit x i" and ?xs = "rev [0..<32 :: nat]"
  have nth: "?xs ! j = 31 - j" if "j < 32" for j using that by (simp add: rev_nth)
  obtain i where i: "bit x i" "i < 32" using assms bit_imp_le_length [of x] by (auto simp: bit_eq_iff)
  then have "\<not> ?P i" "i \<in> set ?xs" by auto
  then have "takeWhile ?P ?xs \<noteq> ?xs" by (metis (mono_tags) set_takeWhileD)
  moreover have "length (takeWhile ?P ?xs) \<le> length ?xs" by (rule length_takeWhile_le)
  ultimately show l: "clz x < 32"
    unfolding clz_def by (metis length_rev length_upt diff_zero le_neq_implies_less takeWhile_eq_take take_all)
  then have "length (takeWhile ?P ?xs) < length ?xs" by (simp add: clz_def)
  then have "\<not> ?P (?xs ! clz x)" unfolding clz_def by (rule nth_length_takeWhile)
  then show "bit x (31 - clz x)" using nth [OF l] by simp
  show "\<not> bit x i" if "31 - clz x < i" for i
  proof (cases "i < 32")
    case True
    then have j: "31 - i < clz x" using that l by arith
    then have "takeWhile ?P ?xs ! (31 - i) = ?xs ! (31 - i)" by (intro takeWhile_nth) (simp add: clz_def)
    moreover have "takeWhile ?P ?xs ! (31 - i) \<in> set (takeWhile ?P ?xs)" using j by (intro nth_mem) (simp add: clz_def)
    ultimately show ?thesis using True nth [of "31 - i"] by (auto dest: set_takeWhileD)
  qed (auto dest: bit_imp_le_length)
qed

lemma unat_2p:
  assumes "k < 32"
  shows "unat (2 ^ k :: u32) = 2 ^ k"
proof -
  have "(2 :: nat) ^ k < 2 ^ 32" using assms by (intro power_strict_increasing) simp_all
  then have "unat (of_nat (2 ^ k) :: u32) = 2 ^ k" by (simp add: unat_of_nat del: of_nat_power)
  then show ?thesis by simp
qed

lemma round_down_power:
  fixes x :: u32
  assumes "x \<noteq> 0"
  obtains k where "k < 32" and "round_down_to_power_of_2 x = 2 ^ k" and "2 ^ k \<le> unat x" and "unat x < 2 ^ Suc k"
proof
  let ?k = "31 - clz x"
  note top = clz_top [OF assms]
  show "?k < 32" by simp
  have "unat (drop_bit (clz x) 0x80000000 :: u32) = 2 ^ 31 div 2 ^ clz x"
    unfolding unat_drop_bit_eq by (simp add: drop_bit_eq_div)
  also have "\<dots> = 2 ^ ?k" using top(1) by (simp add: power_diff)
  finally show "round_down_to_power_of_2 x = 2 ^ ?k"
    by (simp only: round_down_to_power_of_2_def word_unat_eq_iff unat_2p [of ?k] \<open>?k < 32\<close>)
  have "bit (unat x) ?k" using top(2) by (simp add: bit_unsigned_iff)
  then show "2 ^ ?k \<le> unat x" by (metis bit_iff_odd div_less even_zero not_le)
  have "take_bit (Suc ?k) x = x"
  proof (rule bit_word_eqI)
    show "bit (take_bit (Suc ?k) x) n = bit x n" for n using top(3) [of n] by (cases "31 - clz x < n") (auto simp: bit_simps)
  qed
  then have "unat x = take_bit (Suc ?k) (unat x)" by (metis unsigned_take_bit_eq)
  then show "unat x < 2 ^ Suc ?k" by (metis take_bit_nat_less_exp)
qed

lemma round_down_fixed: "k < 32 \<Longrightarrow> round_down_to_power_of_2 (2 ^ k) = 2 ^ k"
proof -
  assume k: "k < 32"
  then have u: "unat (2 ^ k :: u32) = 2 ^ k" by (rule unat_2p)
  then have "(2 ^ k :: u32) \<noteq> 0" by (metis unsigned_0 power_not_zero zero_neq_numeral)
  then obtain j where j: "round_down_to_power_of_2 (2 ^ k) = (2 ^ j :: u32)" "2 ^ j \<le> (2 :: nat) ^ k" "(2 :: nat) ^ k < 2 ^ Suc j"
    using round_down_power u by metis
  then have "j = k" by (metis le_antisym less_Suc_eq_le power_increasing_iff power_strict_increasing_iff one_less_numeral_iff semiring_norm(76))
  then show ?thesis using j(1) by simp
qed

section \<open>Sizes that are powers of two\<close>

definition power_of_2 :: "u32 \<Rightarrow> bool" where
  "power_of_2 w \<longleftrightarrow> (\<exists>k<32. w = 2 ^ k)"

definition settings_ok :: "settings \<Rightarrow> bool" where
  "settings_ok c \<longleftrightarrow> power_of_2 (packet_number c) \<and> (fpPerPkt c = 0 \<or> power_of_2 (fpPerPkt c)) \<and> (fpsFactor c = 0 \<or> power_of_2 (fpsFactor c))"

lemma round_down_ok: "0 < (v :: u32) \<Longrightarrow> power_of_2 (round_down_to_power_of_2 v)"
  by (rule round_down_power [of v]) (auto simp: power_of_2_def)

lemma settings_ok_upd [simp]:
  "settings_ok (c\<lparr>localID := a\<rparr>) = settings_ok c" "settings_ok (c\<lparr>packet_size := a\<rparr>) = settings_ok c"
  "settings_ok (c\<lparr>thr_num := a\<rparr>) = settings_ok c" "settings_ok (c\<lparr>tempIP := a\<rparr>) = settings_ok c"
  "settings_ok (c\<lparr>checked := b\<rparr>) = settings_ok c" "settings_ok (c\<lparr>num_pkts := a\<rparr>) = settings_ok c"
  "settings_ok (c\<lparr>pkt_size := a\<rparr>) = settings_ok c" "settings_ok (c\<lparr>set_compression := b\<rparr>) = settings_ok c"
  "settings_ok (c\<lparr>set_deduplication := b\<rparr>) = settings_ok c" "settings_ok (c\<lparr>set_shareddict := b\<rparr>) = settings_ok c"
  "settings_ok (c\<lparr>packetPipeline := b\<rparr>) = settings_ok c"
  by (simp_all add: settings_ok_def)

lemma settings_ok_sizes:
  assumes "settings_ok c"
  shows "settings_ok (c\<lparr>fpPerPkt := (if 0 < v then round_down_to_power_of_2 v else v)\<rparr>)"
    and "settings_ok (c\<lparr>fpsFactor := (if 0 < v then round_down_to_power_of_2 v else v)\<rparr>)"
    and "0 < v \<Longrightarrow> settings_ok (c\<lparr>packet_number := round_down_to_power_of_2 v\<rparr>)"
  using assms round_down_ok [of v] by (auto simp: settings_ok_def word_gt_0)

lemma bind_all: "x \<bind> (\<lambda>v. Some (f v)) = Some y \<Longrightarrow> (\<And>v. P (f v)) \<Longrightarrow> P y"
  by (cases x) auto

lemma set_number_ok:
  assumes "set_number key token c = Some c'" and "settings_ok c"
  shows "settings_ok c'"
proof -
  have n: "settings_ok (if 0 < v then c\<lparr>num_pkts := v, packet_number := round_down_to_power_of_2 v\<rparr> else c\<lparr>num_pkts := v\<rparr>)" for v
    using settings_ok_sizes(3) [of "c\<lparr>num_pkts := v\<rparr>" v] assms(2) by simp
  have p: "settings_ok (if 0 < v then c\<lparr>pkt_size := v, packet_size := v\<rparr> else c\<lparr>pkt_size := v\<rparr>)" for v using assms(2) by simp
  have t: "settings_ok (c\<lparr>thr_num := v\<rparr>)" for v using assms(2) by simp
  note oks = t settings_ok_sizes(1,2) [OF assms(2)] n p
  note r = assms(1) [unfolded set_number_def]
  show ?thesis
  proof (cases "key = ''thrnum''")
    case True
    show ?thesis using r unfolding if_P [OF True] by (rule bind_all) (rule oks)
  next
    case a: False
    note r = r [unfolded if_not_P [OF a]]
    show ?thesis
    proof (cases "key = ''fp_per_pkt''")
      case True
      show ?thesis using r unfolding if_P [OF True] by (rule bind_all) (rule oks)
    next
      case b: False
      note r = r [unfolded if_not_P [OF b]]
      show ?thesis
      proof (cases "key = ''fps_factor''")
        case True
        show ?thesis using r unfolding if_P [OF True] by (rule bind_all) (rule oks)
      next
        case d: False
        note r = r [unfolded if_not_P [OF d]]
        show ?thesis
        proof (cases "key = ''num_pkt_cache_size''")
          case True
          show ?thesis using r unfolding if_P [OF True] by (rule bind_all) (rule oks)
        next
          case False
          show ?thesis using r unfolding if_not_P [OF False] by (rule bind_all) (rule oks)
        qed
      qed
    qed
  qed
qed

lemma configure_line_ok:
  assumes "configure_line line c = Some c'" and "settings_ok c"
  shows "settings_ok c'"
proof -
  have "settings_ok (set_optimization v c)" "settings_ok (set_dictionary v c)" "settings_ok (set_localid v c)" for v
    using assms(2) by (auto simp: set_optimization_def set_dictionary_def set_localid_def switch_sets Let_def split: option.splits)
  then show ?thesis using assms set_number_ok
    by (auto simp: configure_line_def bind_eq_Some_conv split: option.splits if_splits)
qed

text \<open>What every line keeps holds after the file.\<close>

lemma configure_loop_keeps:
  assumes "configure_loop file c = Some c'" and "I c" and "\<And>line c c'. configure_line line c = Some c' \<Longrightarrow> I c \<Longrightarrow> I c'"
  shows "I c'"
  using assms(1,2)
proof (induction "file" c arbitrary: c' rule: configure_loop.induct)
  case (1 fl c)
  show ?case
  proof (cases "fgets MAX_LINE_LEN fl")
    case None
    then show ?thesis using "1.prems" by (simp add: configure_loop.simps [of fl c])
  next
    case (Some p)
    obtain line rest where p: "p = (line, rest)" by (cases p)
    then obtain c1 where c1: "configure_line (c_string line) c = Some c1" "configure_loop rest c1 = Some c'"
      using "1.prems"(1) Some by (auto simp: configure_loop.simps [of fl c] bind_eq_Some_conv)
    have "I c1" using assms(3) [OF c1(1) "1.prems"(2)] .
    then show ?thesis using "1.IH" [OF Some p [symmetric]] c1 by blast
  qed
qed

lemma configure_ok:
  assumes "configure path c = Some (r, c')" and "settings_ok c"
  shows "settings_ok c'"
proof -
  have "settings_ok (c\<lparr>tempIP := 0, checked := False, num_pkts := 0, pkt_size := 0\<rparr>)" using assms(2) by (simp add: settings_ok_def)
  then show ?thesis using assms(1) configure_loop_keeps [where I = settings_ok] configure_line_ok
    by (auto simp: configure_def Let_def bind_eq_Some_conv split: option.splits)
qed

lemma default_ok: "settings_ok default_settings"
proof -
  have "power_of_2 131072" "power_of_2 32" "power_of_2 2"
    unfolding power_of_2_def by (intro exI [of _ 17] exI [of _ 5] exI [of _ 1]; simp)+
  then show ?thesis by (simp add: settings_ok_def default_settings_def)
qed

section \<open>A file that names every setting\<close>

definition conf_line :: "string \<times> string \<Rightarrow> string" where
  "conf_line = (\<lambda>(key, v). key @ CHR '' '' # v @ [newline])"

definition conf_entries :: "settings \<Rightarrow> (string \<times> string) list" where
  "conf_entries c = [
     (''optimization'', if set_deduplication c then (if set_compression c then ''combined'' else ''deduplication'')
        else if set_compression c then ''compression'' else ''none''),
     (''dictionary'', if set_shareddict c then ''shared'' else ''thread''),
     (''localid'', inet_ntop (localID c)),
     (''thrnum'', show_nat 10 (unat (thr_num c))),
     (''fp_per_pkt'', show_nat 10 (unat (fpPerPkt c))),
     (''fps_factor'', show_nat 10 (unat (fpsFactor c))),
     (''num_pkt_cache_size'', show_nat 10 (unat (packet_number c))),
     (''pkt_size'', show_nat 10 (unat (packet_size c)))]"

definition conf_file :: "settings \<Rightarrow> string" where
  "conf_file c = concat (map conf_line (conf_entries c))"

text \<open>Keys and values are words of plain characters that fit in the line buffer.\<close>

definition plain :: "string \<Rightarrow> bool" where
  "plain w \<longleftrightarrow> word_ok conf_delim w \<and> CHR 0x00 \<notin> set w \<and> length w \<le> 100"

lemma plain_line:
  assumes "plain k" and "plain v" and "k \<in> set known_keys" and "take 1 k \<noteq> ''#''"
  shows "configure_loop (conf_line (k, v) @ rest) c =
    (if k = ''optimization'' then configure_loop rest (set_optimization v c)
     else if k = ''dictionary'' then configure_loop rest (set_dictionary v c)
     else if k = ''localid'' then configure_loop rest (set_localid v c)
     else set_number k v c \<bind> configure_loop rest)"
proof -
  let ?l = "k @ CHR '' '' # v"
  have nl: "newline \<notin> set ?l" and nul: "CHR 0x00 \<notin> set (?l @ [newline])" and len: "length ?l < 255"
    using assms(1,2) by (auto simp: plain_def word_ok_def conf_delim_def newline_def)
  have "fgets MAX_LINE_LEN (conf_line (k, v) @ rest) = Some (?l @ [newline], rest)"
    using take_line_newline [OF nl len, of rest] by (simp add: fgets_def conf_line_def MAX_LINE_LEN_def)
  moreover have "c_string (?l @ [newline]) = ?l @ [newline]"
    unfolding c_string_def takeWhile_eq_all_conv using nul by metis
  moreover have "strtok_r conf_delim (?l @ [newline]) = Some (k, v @ [newline])"
    using strtok_next [of conf_delim k "CHR '' ''" "v @ [newline]"] assms(1) by (simp add: plain_def conf_delim_def)
  moreover have "strtok_r conf_delim (v @ [newline]) = Some (v, [])"
    using strtok_next [of conf_delim v newline "[]"] assms(2) by (simp add: plain_def conf_delim_def newline_def)
  ultimately show ?thesis using assms(3,4)
    by (subst configure_loop.simps) (simp add: configure_line_def)
qed

lemma digit_in_conf:
  assumes "d < 16"
  shows "digit_char d \<notin> set conf_delim" and "digit_char d \<noteq> CHR 0x00"
  using digit_char_plain [OF assms] by (auto simp: conf_delim_def isspace_def)

lemma digits_plain: "x \<in> set (show_nat 10 n) \<Longrightarrow> x \<notin> set conf_delim \<and> x \<noteq> CHR 0x00"
proof -
  assume "x \<in> set (show_nat 10 n)"
  then obtain d where "d < 10" "x = digit_char d" using show_nat_digits [of 10 n] by auto
  then show ?thesis using digit_in_conf [of d] by simp
qed

lemma plain_number: "plain (show_nat 10 (unat (w :: u32)))"
  using digits_plain show_nat_digits [of 10 "unat w"] nat_word_length [of w] by (auto simp: plain_def word_ok_def)

lemma plain_ip: "plain (inet_ntop w)"
proof -
  have b: "length (show_nat 10 (unat (x :: u8))) \<le> 3" for x
    using unsigned_less [of x, where 'a = nat] by (intro show_nat_length) auto
  have "CHR ''.'' \<notin> set conf_delim" by (simp add: conf_delim_def)
  moreover have "length (inet_ntop w) \<le> 15"
    using b [of "ucast w"] b [of "ucast (drop_bit 8 w)"] b [of "ucast (drop_bit 16 w)"] b [of "ucast (drop_bit 24 w)"]
    by (simp add: inet_ntop_def Host_Order.le32_def)
  moreover have "inet_ntop w \<noteq> []" by (simp add: inet_ntop_def Host_Order.le32_def)
  moreover have "x = CHR ''.'' \<or> (\<exists>n. x \<in> set (show_nat 10 n))" if "x \<in> set (inet_ntop w)" for x
    using that by (auto simp: inet_ntop_def Host_Order.le32_def)
  ultimately show ?thesis using digits_plain by (fastforce simp: plain_def word_ok_def)
qed

lemma scan_show [simp]: "scan_into old (show_nat 10 (unat w)) = Some w"
  using sscanf_u_show [of "unat w"] unsigned_less [of w, where 'a = nat] by (simp add: scan_into_def)

lemma power_of_2_pos:
  assumes "power_of_2 w"
  shows "0 < w" and "round_down_to_power_of_2 w = w"
proof -
  obtain k where k: "k < 32" "w = 2 ^ k" using assms by (auto simp: power_of_2_def)
  then have "unat w = 2 ^ k" by (simp add: unat_2p)
  then show "0 < w" by (metis word_gt_0 unsigned_0 power_not_zero zero_neq_numeral)
  show "round_down_to_power_of_2 w = w" using k round_down_fixed by simp
qed

lemma keys_plain: "k \<in> set known_keys \<Longrightarrow> plain k \<and> take 1 k \<noteq> ''#''"
proof -
  have "\<forall>k\<in>set known_keys. plain k \<and> take 1 k \<noteq> ''#''" by code_simp
  then show "k \<in> set known_keys \<Longrightarrow> plain k \<and> take 1 k \<noteq> ''#''" by blast
qed

lemma word_values: "plain ''combined''" "plain ''deduplication''" "plain ''compression''" "plain ''none''" "plain ''shared''" "plain ''thread''"
  by code_simp+

text \<open>The lines of the file one after the other.\<close>

lemma known_line:
  assumes "k \<in> set known_keys" and "plain v"
  shows "configure_loop (conf_line (k, v) @ rest) c =
    (if k = ''optimization'' then configure_loop rest (set_optimization v c)
     else if k = ''dictionary'' then configure_loop rest (set_dictionary v c)
     else if k = ''localid'' then configure_loop rest (set_localid v c)
     else set_number k v c \<bind> configure_loop rest)"
  using plain_line keys_plain [OF assms(1)] assms by blast

lemma configure_end: "configure_loop [] c = Some c"
  by (simp add: configure_loop.simps fgets_def)

lemma conf_steps:
  "configure_loop (conf_line (''optimization'', if a then if b then ''combined'' else ''deduplication'' else if b then ''compression'' else ''none'') @ rest) c =
    configure_loop rest (set_optimization (if a then if b then ''combined'' else ''deduplication'' else if b then ''compression'' else ''none'') c)"
  "configure_loop (conf_line (''dictionary'', if a then ''shared'' else ''thread'') @ rest) c =
    configure_loop rest (set_dictionary (if a then ''shared'' else ''thread'') c)"
  "configure_loop (conf_line (''localid'', inet_ntop w) @ rest) c = configure_loop rest (set_localid (inet_ntop w) c)"
  "k \<in> set number_keys \<Longrightarrow> configure_loop (conf_line (k, show_nat 10 (unat w)) @ rest) c = set_number k (show_nat 10 (unat w)) c \<bind> configure_loop rest"
  "k \<in> set number_keys \<Longrightarrow> configure_loop (conf_line (k, show_nat 10 (unat w))) c = set_number k (show_nat 10 (unat w)) c"
proof -
  have k: "k \<in> set known_keys \<and> k \<noteq> ''optimization'' \<and> k \<noteq> ''dictionary'' \<and> k \<noteq> ''localid''" if "k \<in> set number_keys" for k
  proof -
    have "\<forall>k\<in>set number_keys. k \<in> set known_keys \<and> k \<noteq> ''optimization'' \<and> k \<noteq> ''dictionary'' \<and> k \<noteq> ''localid''" by code_simp
    then show ?thesis using that by blast
  qed
  have known: "''optimization'' \<in> set known_keys" "''dictionary'' \<in> set known_keys" "''localid'' \<in> set known_keys" by code_simp+
  have v: "plain (if a then if b then ''combined'' else ''deduplication'' else if b then ''compression'' else ''none'')"
    "plain (if a then ''shared'' else ''thread'')" using word_values by auto
  show "configure_loop (conf_line (''optimization'', if a then if b then ''combined'' else ''deduplication'' else if b then ''compression'' else ''none'') @ rest) c =
    configure_loop rest (set_optimization (if a then if b then ''combined'' else ''deduplication'' else if b then ''compression'' else ''none'') c)"
    unfolding known_line [OF known(1) v(1)] by (simp only: if_True simp_thms)
  show "configure_loop (conf_line (''dictionary'', if a then ''shared'' else ''thread'') @ rest) c =
    configure_loop rest (set_dictionary (if a then ''shared'' else ''thread'') c)"
    unfolding known_line [OF known(2) v(2)] by simp
  show "configure_loop (conf_line (''localid'', inet_ntop w) @ rest) c = configure_loop rest (set_localid (inet_ntop w) c)"
    unfolding known_line [OF known(3) plain_ip] by simp
  show num: "configure_loop (conf_line (k, show_nat 10 (unat w)) @ rest) c = set_number k (show_nat 10 (unat w)) c \<bind> configure_loop rest"
    if "k \<in> set number_keys" for k rest
    using known_line [of k "show_nat 10 (unat w)" rest c] k [OF that] plain_number by simp
  show "configure_loop (conf_line (k, show_nat 10 (unat w))) c = set_number k (show_nat 10 (unat w)) c" if "k \<in> set number_keys"
    using num [OF that, of "[]"] by (cases "set_number k (show_nat 10 (unat w)) c") (simp_all add: configure_end)
qed

lemma conf_file_read:
  assumes "power_of_2 (packet_number c)" and "power_of_2 (fpPerPkt c)" and "power_of_2 (fpsFactor c)"
    and "localID c \<noteq> LOOPBACK" and "0 < packet_size c"
  shows "\<exists>c'. configure (Some (conf_file c)) c0 = Some (0, c') \<and>
    localID c' = localID c \<and> packet_number c' = packet_number c \<and> packet_size c' = packet_size c \<and> thr_num c' = thr_num c \<and>
    fpPerPkt c' = fpPerPkt c \<and> fpsFactor c' = fpsFactor c \<and> set_shareddict c' = set_shareddict c \<and>
    set_compression c' = set_compression c \<and> set_deduplication c' = set_deduplication c"
proof -
  let ?b = "c0\<lparr>tempIP := 0, checked := False, num_pkts := 0, pkt_size := 0\<rparr>"
  obtain x1 where x1: "configure_loop (conf_file c) ?b = configure_loop (concat (map conf_line (drop 2 (conf_entries c)))) x1"
    "set_shareddict x1 = set_shareddict c" "set_compression x1 = set_compression c" "set_deduplication x1 = set_deduplication c"
    by (rule that [of "set_dictionary (snd (conf_entries c ! 1)) (set_optimization (snd (conf_entries c ! 0)) ?b)"])
      (simp_all add: conf_file_def conf_entries_def conf_steps set_optimization_def set_dictionary_def switch_sets Let_def)
  note p = power_of_2_pos [OF assms(1)] power_of_2_pos [OF assms(2)] power_of_2_pos [OF assms(3)]
  show ?thesis using x1 assms(4,5) p
    by (simp add: configure_def Let_def conf_entries_def conf_steps number_keys_def set_localid_def inet_round set_number_def)
qed

section \<open>Properties\<close>

text \<open>(C32) A configuration file round trip: a file that gives every setting of \<open>c\<close> in decimal and dotted form, with
  sizes that are powers of two and a local id other than the loopback address, is read without error,
  and every setting has the value of \<open>c\<close>, whatever it was before.\<close>

theorem configure_roundtrip:
  assumes "power_of_2 (packet_number c)" and "power_of_2 (fpPerPkt c)" and "power_of_2 (fpsFactor c)"
    and "localID c \<noteq> LOOPBACK" and "0 < packet_size c"
  shows "\<exists>c'. configure (Some (conf_file c)) c0 = Some (0, c') \<and>
    localID c' = localID c \<and> packet_number c' = packet_number c \<and> packet_size c' = packet_size c \<and> thr_num c' = thr_num c \<and>
    fpPerPkt c' = fpPerPkt c \<and> fpsFactor c' = fpsFactor c \<and> set_shareddict c' = set_shareddict c \<and>
    set_compression c' = set_compression c \<and> set_deduplication c' = set_deduplication c"
  by (rule conf_file_read [OF assms])

theorem configure_roundtrip_witness:
  "\<exists>c'. configure (Some (conf_file (default_settings\<lparr>localID := 0x0100000A, thr_num := 4\<rparr>))) default_settings = Some (0, c') \<and>
    localID c' = 0x0100000A \<and> thr_num c' = 4 \<and> packet_number c' = 131072"
proof -
  have "settings_ok (default_settings\<lparr>localID := 0x0100000A, thr_num := 4\<rparr>)" using default_ok by simp
  then have "power_of_2 (packet_number (default_settings\<lparr>localID := 0x0100000A, thr_num := 4\<rparr>))"
    "power_of_2 (fpPerPkt (default_settings\<lparr>localID := 0x0100000A, thr_num := 4\<rparr>))"
    "power_of_2 (fpsFactor (default_settings\<lparr>localID := 0x0100000A, thr_num := 4\<rparr>))"
    by (simp_all add: settings_ok_def default_settings_def)
  from configure_roundtrip [OF this, of default_settings] show ?thesis
    by (auto simp: default_settings_def LOOPBACK_def)
qed

text \<open>(C33) The dictionary sizes that come out of the configuration are usable: after reading any file from the
  built-in values, if the number of fingerprints per packet and the table factor are not zero, the size of
  the fingerprint table is at least 256 and below \<open>2 ^ 32\<close>, and the packet size is in range, then
  the call of \<open>init_common\<close> gives a configuration on which the deduplicator's index computations stay
  within their tables.\<close>

theorem configured_dictionary_ok:
  assumes "configure path default_settings = Some (r, c)" and "fpPerPkt c \<noteq> 0" and "fpsFactor c \<noteq> 0"
    and "256 \<le> unat (packet_number c) * unat (fpPerPkt c) * unat (fpsFactor c)"
    and "unat (packet_number c) * unat (fpPerPkt c) * unat (fpsFactor c) < 2 ^ 32"
    and "BETA \<le> unat (packet_size c)" and "unat (packet_size c) < 65536"
  shows "config_ok (dictionary_config c)"
proof -
  have "settings_ok c" by (rule configure_ok [OF assms(1) default_ok])
  then obtain i j k where w: "i < 32" "packet_number c = 2 ^ i" "j < 32" "fpPerPkt c = 2 ^ j" "k < 32" "fpsFactor c = 2 ^ k"
    using assms(2,3) by (auto simp: settings_ok_def power_of_2_def)
  then have u: "unat (packet_number c) = 2 ^ i" "unat (fpPerPkt c) = 2 ^ j" "unat (fpsFactor c) = 2 ^ k" by (simp_all add: unat_2p)
  have "(2 :: nat) ^ (i + j + k) < 2 ^ 32" "(2 :: nat) ^ 8 \<le> 2 ^ (i + j + k)" using assms(4,5) by (simp_all add: u power_add)
  then have e: "i + j + k < 32" "8 \<le> i + j + k" by (metis power_less_imp_less_exp one_less_numeral_iff semiring_norm(76), metis power_increasing_iff one_less_numeral_iff semiring_norm(76))
  have "fpPerPkt c * packet_number c * fpsFactor c = 2 ^ (i + j + k)" by (simp add: w power_add ac_simps)
  then have "FP_STORE_SIZE (dictionary_config c) = 2 ^ (i + j + k)"
    using unat_2p [OF e(1)] by (simp add: FP_STORE_SIZE_def dictionary_config_def init_common_def)
  moreover have "PKT_STORE_SIZE (dictionary_config c) = 2 ^ i" by (simp add: PKT_STORE_SIZE_def dictionary_config_def init_common_def u)
  moreover have "1 \<le> unat (FPPERPKT (dictionary_config c))" "unat (FPPERPKT (dictionary_config c)) \<le> 32"
    using u(2) by (auto simp: dictionary_config_def init_common_def word_le_nat_alt)
  moreover have "MAX_PKT_SIZE (dictionary_config c) = unat (packet_size c)"
    by (simp add: MAX_PKT_SIZE_def dictionary_config_def init_common_def)
  moreover have "\<exists>k\<in>{0..<32}. (2 :: nat) ^ i = 2 ^ k" "\<exists>m\<in>{8..<32}. (2 :: nat) ^ (i + j + k) = 2 ^ m"
    using w(1) e by (intro bexI [of _ i] bexI [of _ "i + j + k"]; simp)+
  ultimately show ?thesis unfolding config_ok_def using assms(6,7) by (simp only: simp_thms)
qed

theorem configured_dictionary_ok_witness:
  "\<exists>c. configure (Some (conf_line (''localid'', inet_ntop 0x0100000A) @ conf_line (''num_pkt_cache_size'', show_nat 10 1000)))
    default_settings = Some (0, c) \<and> config_ok (dictionary_config c) \<and> packet_number c = 512"
proof -
  have n: "configure_loop (conf_line (''num_pkt_cache_size'', show_nat 10 1000)) c = set_number ''num_pkt_cache_size'' (show_nat 10 1000) c" for c
    using conf_steps(5) [of "''num_pkt_cache_size''" 1000 c] by (simp add: number_keys_def)
  have v: "scan_into old (show_nat 10 1000) = Some 1000" for old using scan_show [of old 1000] by simp
  have "round_down_to_power_of_2 1000 = 512" by code_simp
  then have "configure (Some (conf_line (''localid'', inet_ntop 0x0100000A) @ conf_line (''num_pkt_cache_size'', show_nat 10 1000)))
    default_settings = Some (0, default_settings\<lparr>tempIP := 0x0100000A, localID := 0x0100000A, checked := True, num_pkts := 1000,
      packet_number := 512, pkt_size := 0\<rparr>)"
    by (simp add: configure_def Let_def conf_steps(3) n v set_localid_def inet_round set_number_def LOOPBACK_def default_settings_def)
  from configured_dictionary_ok [OF this] this show ?thesis by (simp add: default_settings_def)
qed

text \<open>
  A value of 0 for the fingerprints per packet or the table factor is reported as wrong and used nevertheless,
  and a key without a value makes \<open>configure\<close> follow a null pointer.
\<close>

theorem zero_is_kept: "\<exists>c'. configure_line ''fp_per_pkt 0'' c = Some c' \<and> fpPerPkt c' = 0"
proof -
  have "strtok_r conf_delim ''fp_per_pkt 0'' = Some (''fp_per_pkt'', ''0'')" "strtok_r conf_delim ''0'' = Some (''0'', [])"
    "''fp_per_pkt'' \<in> set known_keys" "show_nat 10 0 = ''0''" by code_simp+
  moreover from this have "sscanf_u ''0'' = Matched 0" using sscanf_u_show [of 0] by simp
  ultimately show ?thesis by (simp add: configure_line_def set_number_def scan_into_def)
qed

theorem missing_value_faults: "configure_line ''localid'' c = None"
proof -
  have "strtok_r conf_delim ''localid'' = Some (''localid'', [])" "strtok_r conf_delim [] = None" "''localid'' \<in> set known_keys" by code_simp+
  then show ?thesis by (simp add: configure_line_def)
qed

end
