(* ===== verification/Service.thy ===== *)
theory Service
  imports Configuration Console Daemon
begin

text \<open>
  The service around the threads: the options and checks \<open>main\<close> goes through before it starts them
  (\<open>opennopd/opennopd.c\<close>), the signals that stop it (\<open>opennopd/signals.c\<close>), and the heartbeat to the kernel
  module (\<open>subsystems/healthagent.c\<close>).  Leaving the program is the value \<^const>\<open>Inl\<close> of its exit code.
\<close>

section \<open>Options\<close>

record options =
  daemonize :: bool
  isdaemon :: bool
  config_file :: string
  pid_file :: string

text \<open>What \<open>getopt\<close> returns for the arguments, with the argument of an option that has one.\<close>

datatype cli_option = Option_h | Option_n | Option_d | Option_c string | Option_p string | Option_unknown

definition default_options :: options where
  "default_options = \<lparr>daemonize = True, isdaemon = True, config_file = ''/etc/opennop/opennop.conf'', pid_file = ''/var/run/solowan.pid''\<rparr>"

text \<open>
  The files are arrays of 100 characters.  What \<open>access\<close> says is \<open>readable\<close> and \<open>writable\<close>, and \<open>dirname\<close> is what the library
  function of this name leaves in its argument, which the code uses instead of the result.
\<close>

fun parse_options :: "(string \<Rightarrow> bool) \<Rightarrow> (string \<Rightarrow> bool) \<Rightarrow> (string \<Rightarrow> string) \<Rightarrow> cli_option list \<Rightarrow> options \<Rightarrow> (int + options) option" where
  "parse_options readable writable dirname [] p = Some (Inr p)"
| "parse_options readable writable dirname (opt # opts) p = (case opt of
     Option_h \<Rightarrow> Some (Inl 0)
   | Option_n \<Rightarrow> parse_options readable writable dirname opts (p\<lparr>daemonize := False, isdaemon := False\<rparr>)
   | Option_d \<Rightarrow> parse_options readable writable dirname opts (p\<lparr>daemonize := True, isdaemon := True\<rparr>)
   | Option_c optarg \<Rightarrow>
       if \<not> readable optarg then Some (Inl 1)
       else do { f \<leftarrow> array 100 optarg; parse_options readable writable dirname opts (p\<lparr>config_file := f\<rparr>) }
   | Option_p optarg \<Rightarrow> do {
       dir \<leftarrow> array 100 optarg;
       if \<not> writable (dirname dir) then Some (Inl 1)
       else do { f \<leftarrow> array 100 optarg; parse_options readable writable dirname opts (p\<lparr>pid_file := f\<rparr>) } }
   | Option_unknown \<Rightarrow> parse_options readable writable dirname opts p)"

text \<open>
  Up to the point where the daemon goes to the background: the configuration is read, and the service
  needs a device id.  \<open>files\<close> gives the contents of the files that can be opened, \<open>interfaces\<close> whether \<open>getifaddrs\<close> succeeds.
\<close>

record start_args =
  sa_readable :: "string \<Rightarrow> bool"
  sa_writable :: "string \<Rightarrow> bool"
  sa_dirname :: "string \<Rightarrow> string"
  sa_files :: "string \<Rightarrow> string option"
  sa_interfaces :: bool

definition start_service :: "start_args \<Rightarrow> cli_option list \<Rightarrow> (int + options \<times> settings) option" where
  "start_service a opts = do {
     r \<leftarrow> parse_options (sa_readable a) (sa_writable a) (sa_dirname a) opts default_options;
     case r of
       Inl code \<Rightarrow> Some (Inl code)
     | Inr p \<Rightarrow> do {
         (tmp, c) \<leftarrow> configure (sa_files a (config_file p)) default_settings;
         if tmp = 1 \<or> \<not> sa_interfaces a \<or> localID c = 0 then Some (Inl 1) else Some (Inr (p, c)) } }"

section \<open>Signals\<close>

datatype signal = SIGHUP | SIGTERM | SIGQUIT | SIGINT | SIGPIPE | Other_signal

datatype stop_action = Fetcher_graceful_exit | Wake_worker nat

definition shutdown_workers :: "session_state \<Rightarrow> stop_action list" where
  "shutdown_workers st = map Wake_worker [0..<unat (get_workers st)]"

text \<open>The new state of the service, what is done, and the exit code if the program ends.\<close>

definition signal_handler :: "signal \<Rightarrow> session_state \<Rightarrow> int \<Rightarrow> int \<times> stop_action list \<times> int option" where
  "signal_handler sig st servicestate = (case sig of
     SIGHUP \<Rightarrow> (servicestate, [], None)
   | SIGTERM \<Rightarrow>
       if servicestate = RUNNING then (STOPPING, Fetcher_graceful_exit # shutdown_workers st, Some 0)
       else (STOPPED, [], Some 0)
   | SIGQUIT \<Rightarrow> (servicestate, [], None)
   | SIGINT \<Rightarrow> (servicestate, [], Some 0)
   | SIGPIPE \<Rightarrow> (servicestate, [], Some 0)
   | Other_signal \<Rightarrow> (servicestate, [], None))"

section \<open>Heartbeat\<close>

definition hb_literal :: "int \<Rightarrow> bytes" where
  "hb_literal servicestate = map of_char (if RUNNING \<le> servicestate then ''UP'' else ''DOWN'') @ [0]"

text \<open>The attribute of the heartbeat is filled with 14 bytes from the literal.\<close>

definition hb_payload :: "int \<Rightarrow> bytes option" where
  "hb_payload servicestate = load_bytes (hb_literal servicestate) 0 14"

text \<open>
  \<open>sendto_fd\<close>: each entry is what a call of \<open>sendto\<close> returns and whether it failed with \<open>EAGAIN\<close>.  The result is the
  code and the bytes the kernel has taken; \<^const>\<open>None\<close> is a loop that still waits.
\<close>

fun sendto_fd :: "(int \<times> bool) list \<Rightarrow> bytes \<Rightarrow> bytes \<Rightarrow> (int \<times> bytes) option" where
  "sendto_fd [] buf taken = None"
| "sendto_fd ((r, again) # rs) buf taken = (
     if r < int (length buf) then
       (if 0 < r then sendto_fd rs (drop (nat r) buf) (taken @ take (nat r) buf)
        else if \<not> again then Some (-1, taken)
        else sendto_fd rs buf taken)
     else Some (0, taken @ buf))"

section \<open>Properties\<close>

lemma set_number_localid: "set_number key token c = Some c' \<Longrightarrow> localID c' = localID c"
  unfolding set_number_def by (auto simp: bind_eq_Some_conv split: if_splits)

lemma localid_line:
  assumes "configure_line line c = Some c'" and "localID c \<noteq> LOOPBACK"
  shows "localID c' \<noteq> LOOPBACK"
proof -
  have "localID (set_optimization v c) = localID c" "localID (set_dictionary v c) = localID c" "localID (set_localid v c) \<noteq> LOOPBACK" for v
    using assms(2) by (auto simp: set_optimization_def set_dictionary_def set_localid_def switch_sets Let_def split: option.splits)
  then show ?thesis using assms set_number_localid
    by (auto simp: configure_line_def bind_eq_Some_conv split: option.splits if_splits)
qed

lemma start_checked:
  assumes "start_service a opts = Some (Inr (p, c))"
  shows "\<exists>content. sa_files a (config_file p) = Some content \<and> configure (Some content) default_settings = Some (0, c)"
    and "localID c \<noteq> 0" and "localID c \<noteq> LOOPBACK"
proof -
  obtain r :: "int + options" where "(case r of Inl code \<Rightarrow> Some (Inl code) | Inr p \<Rightarrow> do {
      (tmp, c) \<leftarrow> configure (sa_files a (config_file p)) default_settings;
      if tmp = 1 \<or> \<not> sa_interfaces a \<or> localID c = 0 then Some (Inl 1) else Some (Inr (p, c)) }) = Some (Inr (p, c))"
    using assms unfolding start_service_def bind_eq_Some_conv by blast
  then obtain tmp where c: "configure (sa_files a (config_file p)) default_settings = Some (tmp, c)" "tmp \<noteq> 1" "localID c \<noteq> 0"
    by (cases r) (auto simp: bind_eq_Some_conv split: if_splits)
  then obtain content where f: "sa_files a (config_file p) = Some content" by (cases "sa_files a (config_file p)") (auto simp: configure_def)
  have "tmp \<in> {0, 1}" using c(1) by (auto simp: configure_def f Let_def bind_eq_Some_conv split: if_splits)
  then show "\<exists>content. sa_files a (config_file p) = Some content \<and> configure (Some content) default_settings = Some (0, c)" "localID c \<noteq> 0"
    using c f by auto
  have "configure_loop content (default_settings\<lparr>tempIP := 0, checked := False, num_pkts := 0, pkt_size := 0\<rparr>) = Some c"
    using c(1) by (auto simp: configure_def f Let_def bind_eq_Some_conv)
  then show "localID c \<noteq> LOOPBACK"
    by (rule configure_loop_keeps [where I = "\<lambda>c. localID c \<noteq> LOOPBACK"]) (auto simp: default_settings_def LOOPBACK_def dest: localid_line [unfolded LOOPBACK_def])
qed

text \<open>The environment of the threads for what was configured.\<close>

definition started_with :: "settings \<Rightarrow> start_env \<Rightarrow> bool" where
  "started_with c x \<longleftrightarrow> se_config x = dictionary_config c \<and> se_thr_num x = thr_num c"

text \<open>(C40) The service starts only when it is configured: if \<open>main\<close> gets past its checks, the configuration file could be
  opened and names a local id, which is neither 0 nor the loopback address; and a daemon started
  with these settings has an empty, well-formed session table and as many workers as the file says, modulo 256.\<close>

theorem service_starts_configured:
  assumes "start_service a opts = Some (Inr (p, c))" and "started_with c x" and "start_daemon x = Some d"
  shows "(\<exists>content. sa_files a (config_file p) = Some content \<and> configure (Some content) default_settings = Some (0, c)) \<and>
    localID c \<noteq> 0 \<and> localID c \<noteq> LOOPBACK \<and>
    sessions_ok (d_sessions d) \<and> st_heap (d_sessions d) = Map.empty \<and> unat (get_workers (d_sessions d)) = unat (thr_num c) mod 256"
proof -
  obtain ws st where st: "start_workers (se_config x) (\<lambda>i. se_memory x (2 * i)) (\<lambda>i. se_memory x (2 * i + 1)) (se_thr_num x)
      (se_workers x, zero_sessions) = Some (ws, st)" "d_sessions d = st"
    using assms(3) by (auto simp: start_daemon_def bind_eq_Some_conv)
  have "unat (ucast (thr_num c) :: u8) = unat (thr_num c) mod 256" by (simp add: unsigned_ucast_eq take_bit_eq_mod)
  then have "st_heap st = Map.empty" "unat (get_workers st) = unat (thr_num c) mod 256"
    using start_workers_eq(1) [OF st(1)] assms(2) by (simp_all add: zero_sessions_def get_workers_def started_with_def)
  then show ?thesis using start_checked [OF assms(1)] start_workers_ok [OF st(1)] st(2) by simp
qed

theorem service_starts_configured_witness:
  "\<exists>p c d. start_service \<lparr>sa_readable = (\<lambda>f. True), sa_writable = (\<lambda>f. True), sa_dirname = id,
      sa_files = (\<lambda>f. if f = ''x'' then Some (conf_file (default_settings\<lparr>localID := 0x0100000A\<rparr>)) else None), sa_interfaces = True\<rparr> [Option_c ''x''] =
      Some (Inr (p, c)) \<and>
    start_daemon (example_start\<lparr>se_config := dictionary_config c\<rparr>) = Some d \<and> localID c = 0x0100000A \<and> get_workers (d_sessions d) = 1"
proof -
  let ?c = "default_settings\<lparr>localID := 0x0100000A\<rparr>"
  let ?a = "\<lparr>sa_readable = (\<lambda>f. True), sa_writable = (\<lambda>f. True), sa_dirname = id,
      sa_files = (\<lambda>f. if f = ''x'' then Some (conf_file ?c) else None), sa_interfaces = True\<rparr>"
  have ok: "power_of_2 (packet_number ?c)" "power_of_2 (fpPerPkt ?c)" "power_of_2 (fpsFactor ?c)" "localID ?c \<noteq> LOOPBACK" "0 < packet_size ?c"
    using default_ok by (simp_all add: settings_ok_def default_settings_def LOOPBACK_def)
  obtain c where c: "configure (Some (conf_file ?c)) default_settings = Some (0, c)" "localID c = 0x0100000A" "thr_num c = 1"
    using conf_file_read [OF ok, of default_settings] by (auto simp: default_settings_def)
  have s: "start_service ?a [Option_c ''x''] = Some (Inr (default_options\<lparr>config_file := ''x''\<rparr>, c))"
    using c by (simp add: start_service_def array_def)
  obtain d where d: "start_daemon (example_start\<lparr>se_config := dictionary_config c\<rparr>) = Some d" using example_starts_with by blast
  have "started_with c (example_start\<lparr>se_config := dictionary_config c\<rparr>)" using c(3) by (simp add: started_with_def example_start_def)
  from service_starts_configured [OF s this d] have "unat (get_workers (d_sessions d)) = 1" using c(3) by simp
  then have "get_workers (d_sessions d) = 1" by (simp add: word_unat_eq_iff)
  then show ?thesis using s d c(2) by blast
qed

text \<open>Signals never start a service again: its state only goes down, SIGTERM always ends the program, and
  a running service closes the fetcher first and then wakes every worker exactly once.\<close>

theorem signals_only_stop:
  assumes "signal_handler sig st servicestate = (s', acts, code)" and "STOPPED \<le> servicestate" and "servicestate \<le> RUNNING"
  shows "STOPPED \<le> s' \<and> s' \<le> servicestate \<and> (sig = SIGTERM \<longrightarrow> code = Some 0 \<and> (s' < servicestate \<or> s' = STOPPED)) \<and>
    (acts \<noteq> [] \<longrightarrow> sig = SIGTERM \<and> acts = Fetcher_graceful_exit # map Wake_worker [0..<unat (get_workers st)])"
  using assms by (cases sig) (auto simp: signal_handler_def shutdown_workers_def STOPPED_def STOPPING_def RUNNING_def split: if_splits)

text \<open>Every heartbeat reads behind the literal of its message.\<close>

theorem heartbeat_overreads: "hb_payload servicestate = None"
  by (simp add: hb_payload_def hb_literal_def load_bytes_def)

text \<open>A message that is sent is sent whole: the kernel has taken its bytes once and in order; after an error it has taken a beginning.\<close>

theorem sendto_fd_complete:
  assumes "sendto_fd rs buf taken = Some (code, out)"
  shows "(code = 0 \<longrightarrow> out = taken @ buf) \<and> (code \<noteq> 0 \<longrightarrow> code = -1 \<and> (\<exists>k. out = taken @ take k buf))"
  using assms
proof (induction rs buf taken rule: sendto_fd.induct)
  case (2 r again rs buf taken)
  have "\<exists>k. taken @ take (nat r) buf @ take k' (drop (nat r) buf) = taken @ take k buf" for k'
    by (metis take_add)
  then show ?case using 2 by (auto split: if_splits intro: exI [of _ 0])
qed simp

end
