(* ===== verification/Chunk_Table.thy ===== *)
theory Chunk_Table
  imports Solowan_Prelude
begin

text \<open>
  The table of chunks of the first version of deduplication (\<open>lib/as.c\<close>, \<open>lib/01dedup.c\<close>) and its hash
  (\<open>lib/hash.c\<close>).  The daemon creates the table when it starts and removes it when it ends.  A table is its
  descriptor with the bytes of its registers; allocation succeeds, and \<open>fresh\<close> stands for
  the contents of memory that \<open>realloc\<close> adds.  Sizes are natural numbers: the products of the code
  fit in 64 bits for the positions it computes.
\<close>

section \<open>Registers\<close>

record desc =
  lvalor :: nat
  lreg :: nat
  nreg :: nat
  dreg :: bytes

definition vacio :: u8 where "vacio = 0"

definition lleno :: u8 where "lleno = 1"

definition as_crear :: "nat \<Rightarrow> nat \<Rightarrow> int \<times> desc" where
  "as_crear n l = (1, \<lparr>lvalor = l, lreg = l + 1, nreg = n, dreg = replicate (n * (l + 1)) 0\<rparr>)"

definition as_cerrar :: "desc \<Rightarrow> int" where "as_cerrar das = 1"

definition realloc :: "(nat \<Rightarrow> u8) \<Rightarrow> nat \<Rightarrow> bytes \<Rightarrow> bytes" where
  "realloc fresh n d = take n d @ map fresh [length d..<n]"

text \<open>\<open>realloc\<close> to no bytes at all returns the null pointer.\<close>

definition as_grow :: "(nat \<Rightarrow> u8) \<Rightarrow> desc \<Rightarrow> nat \<Rightarrow> (bool \<times> desc) option" where
  "as_grow fresh das pos = (
     if nreg das \<le> pos then
       (if pos * lreg das = 0 then Some (False, das\<lparr>dreg := []\<rparr>)
        else do {
          d \<leftarrow> store_bytes (realloc fresh (pos * lreg das) (dreg das)) (lreg das * nreg das) (replicate (pos - nreg das) 0);
          Some (True, das\<lparr>dreg := d, nreg := pos\<rparr>) })
     else Some (True, das))"

definition as_escribir :: "(nat \<Rightarrow> u8) \<Rightarrow> desc \<Rightarrow> nat \<Rightarrow> bytes \<Rightarrow> (int \<times> desc) option" where
  "as_escribir fresh das pos pv = do {
     (grown, das) \<leftarrow> as_grow fresh das pos;
     if \<not> grown then Some (0, das)
     else do {
       let sitio = lreg das * pos;
       d \<leftarrow> store_bytes (dreg das) sitio [lleno];
       v \<leftarrow> load_bytes pv 0 (lvalor das);
       d \<leftarrow> store_bytes d (sitio + 1) v;
       Some (1, das\<lparr>dreg := d\<rparr>) } }"

text \<open>The result is the code and the contents of the buffer \<open>pv\<close>.\<close>

definition as_leer :: "desc \<Rightarrow> nat \<Rightarrow> bytes \<Rightarrow> (int \<times> bytes) option" where
  "as_leer das pos pv = (
     if nreg das \<le> pos then Some (0, pv)
     else do {
       e \<leftarrow> load8 (dreg das) (lreg das * pos);
       if e \<noteq> lleno then Some (0, pv)
       else do {
         v \<leftarrow> load_bytes (dreg das) (lreg das * pos + 1) (lvalor das);
         pv \<leftarrow> store_bytes pv 0 v;
         Some (1, pv) } })"

definition as_borrar :: "desc \<Rightarrow> nat \<Rightarrow> (int \<times> desc) option" where
  "as_borrar das pos = (
     if nreg das \<le> pos then Some (0, das)
     else do {
       e \<leftarrow> load8 (dreg das) (lreg das * pos);
       if e \<noteq> lleno then Some (0, das)
       else do {
         d \<leftarrow> store_bytes (dreg das) (lreg das * pos) [lleno];
         Some (1, das\<lparr>dreg := d\<rparr>) } })"

definition as_llenos :: "desc \<Rightarrow> int option" where
  "as_llenos das = foldM (\<lambda>i llenos. do {
     e \<leftarrow> load8 (dreg das) (lreg das * i);
     Some (if e = lleno then llenos + 1 else llenos) }) [0..<nreg das] 0"

section \<open>Chunks by hash\<close>

text \<open>
  The functions of \<open>01dedup.c\<close> pass their argument on as the handle of the table, although they declare it as a pointer to a
  handle; here it is the handle.
\<close>

definition NREG :: nat where "NREG = 10000000"

definition CHUNK :: nat where "CHUNK = 400"

definition NORMALIZE :: "u32 \<Rightarrow> nat" where
  "NORMALIZE hash = unat hash mod NREG"

definition create_hashmap :: "int \<times> desc" where
  "create_hashmap = as_crear NREG CHUNK"

definition check :: "desc \<Rightarrow> u32 \<Rightarrow> int option" where
  "check t hash = map_option fst (as_leer t (NORMALIZE hash) (replicate CHUNK 0))"

definition put_block :: "(nat \<Rightarrow> u8) \<Rightarrow> desc \<Rightarrow> bytes \<Rightarrow> u32 \<Rightarrow> (int \<times> desc) option" where
  "put_block fresh t buffer hash = do {
     (i, t) \<leftarrow> as_escribir fresh t (NORMALIZE hash) buffer;
     Some (if i \<noteq> 0 then 1 else 0, t) }"

definition get_block :: "u32 \<Rightarrow> desc \<Rightarrow> bytes \<Rightarrow> (int \<times> bytes) option" where
  "get_block hash t retrieved_chunk = as_leer t (NORMALIZE hash) retrieved_chunk"

definition check_collision :: "desc \<Rightarrow> bytes \<Rightarrow> u32 \<Rightarrow> int option" where
  "check_collision t block_ptr hash = do {
     (i, ptr) \<leftarrow> as_leer t (NORMALIZE hash) (replicate CHUNK 0);
     if i \<noteq> 0 then do { eq \<leftarrow> memeq ptr 0 block_ptr 0 CHUNK; Some (if eq then 1 else 0) }
     else Some 1 }"

definition remove_hashmap :: "desc \<Rightarrow> int" where
  "remove_hashmap t = as_cerrar t"

section \<open>The hash\<close>

definition get16bits :: "bytes \<Rightarrow> nat \<Rightarrow> u32 option" where
  "get16bits data i = do {
     lo \<leftarrow> load8 data i;
     hi \<leftarrow> load8 data (i + 1);
     Some (push_bit 8 (ucast hi) + ucast lo) }"

definition sfh_block :: "bytes \<Rightarrow> nat \<Rightarrow> u32 \<Rightarrow> u32 option" where
  "sfh_block data k hash = do {
     a \<leftarrow> get16bits data (4 * k);
     b \<leftarrow> get16bits data (4 * k + 2);
     let hash = hash + a;
     let tmp = push_bit 11 b XOR hash;
     let hash = push_bit 16 hash XOR tmp;
     Some (hash + drop_bit 11 hash) }"

definition sfh_tail :: "bytes \<Rightarrow> nat \<Rightarrow> nat \<Rightarrow> u32 \<Rightarrow> u32 option" where
  "sfh_tail data i rem hash = (
     if rem = 3 then do {
       a \<leftarrow> get16bits data i;
       c \<leftarrow> load8 data (i + 2);
       let hash = hash + a;
       let hash = hash XOR push_bit 16 hash;
       let hash = hash XOR push_bit 18 (scast c);
       Some (hash + drop_bit 11 hash) }
     else if rem = 2 then do {
       a \<leftarrow> get16bits data i;
       let hash = hash + a;
       let hash = hash XOR push_bit 11 hash;
       Some (hash + drop_bit 17 hash) }
     else if rem = 1 then do {
       c \<leftarrow> load8 data i;
       let hash = hash + scast c;
       let hash = hash XOR push_bit 10 hash;
       Some (hash + drop_bit 1 hash) }
     else Some hash)"

definition sfh_final :: "u32 \<Rightarrow> u32" where
  "sfh_final hash = (
     let hash = hash XOR push_bit 3 hash;
         hash = hash + drop_bit 5 hash;
         hash = hash XOR push_bit 4 hash;
         hash = hash + drop_bit 17 hash;
         hash = hash XOR push_bit 25 hash
     in hash + drop_bit 6 hash)"

text \<open>The data pointer is null when it is \<^const>\<open>None\<close>.\<close>

definition SuperFastHash :: "bytes option \<Rightarrow> int \<Rightarrow> u32 option" where
  "SuperFastHash data len = (case data of
     None \<Rightarrow> Some 0
   | Some d \<Rightarrow>
       if len \<le> 0 then Some 0
       else do {
         let n = nat len div 4;
         hash \<leftarrow> foldM (sfh_block d) [0..<n] (word_of_int len);
         hash \<leftarrow> sfh_tail d (4 * n) (nat len mod 4) hash;
         Some (sfh_final hash) })"

section \<open>The table as an array of registers\<close>

definition desc_ok :: "desc \<Rightarrow> bool" where
  "desc_ok t \<longleftrightarrow> lreg t = lvalor t + 1 \<and> length (dreg t) = nreg t * lreg t"

definition reg :: "desc \<Rightarrow> nat \<Rightarrow> bytes" where
  "reg t pos = take (lreg t) (drop (lreg t * pos) (dreg t))"

definition slot :: "desc \<Rightarrow> nat \<Rightarrow> bytes option" where
  "slot t pos = (if pos < nreg t \<and> hd (reg t pos) = lleno then Some (tl (reg t pos)) else None)"

lemma slot_bounds:
  assumes "desc_ok t" and "pos < nreg t"
  shows "lreg t * pos + lreg t \<le> length (dreg t)" and "0 < lreg t"
proof -
  have "lreg t * Suc pos \<le> lreg t * nreg t" using assms(2) by (intro mult_le_mono2) simp
  then show "lreg t * pos + lreg t \<le> length (dreg t)" "0 < lreg t" using assms(1) by (simp_all add: desc_ok_def ac_simps)
qed

lemma reg_split:
  assumes "desc_ok t" and "pos < nreg t"
  shows "reg t pos = dreg t ! (lreg t * pos) # take (lvalor t) (drop (lreg t * pos + 1) (dreg t))"
proof -
  note b = slot_bounds [OF assms]
  have "drop (lreg t * pos) (dreg t) = dreg t ! (lreg t * pos) # drop (lreg t * pos + 1) (dreg t)"
    using b by (simp add: Cons_nth_drop_Suc)
  then show ?thesis using assms(1) by (simp add: reg_def desc_ok_def)
qed

lemma as_leer_slot:
  assumes "desc_ok t" and "lvalor t \<le> length pv"
  shows "as_leer t pos pv = Some (case slot t pos of None \<Rightarrow> (0, pv) | Some v \<Rightarrow> (1, v @ drop (lvalor t) pv))"
proof (cases "pos < nreg t")
  case True
  note b = slot_bounds [OF assms(1) True] and r = reg_split [OF assms(1) True]
  have "lreg t = Suc (lvalor t)" using assms(1) by (simp add: desc_ok_def)
  then show ?thesis using b True assms(2) by (simp add: as_leer_def slot_def r mem_simps)
qed (simp add: as_leer_def slot_def)

text \<open>Two stores next to each other.\<close>

lemma store_pair:
  assumes "i + 1 + length v \<le> length d"
  shows "(store_bytes d i [x] \<bind> (\<lambda>d. store_bytes d (i + 1) v)) = store_bytes d i (x # v)"
proof -
  have "drop (Suc (i + length v)) (take i d @ x # drop (Suc i) d) = drop (Suc (i + length v)) d"
    using assms by (simp add: drop_Cons' ac_simps)
  then show ?thesis using assms by (simp add: mem_simps min_def)
qed

lemma reg_store:
  assumes ok: "desc_ok t" "pos < nreg t" "length v = lvalor t" and d: "store_bytes (dreg t) (lreg t * pos) (lleno # v) = Some d" and q: "q < nreg t"
  shows "reg (t\<lparr>dreg := d\<rparr>) q = (if q = pos then lleno # v else reg t q)"
proof -
  let ?L = "lreg t" and ?s = "lreg t * pos"
  have L: "length (lleno # v) = ?L" using ok by (simp add: desc_ok_def)
  have b: "?s + ?L \<le> length (dreg t)" "?L * q + ?L \<le> length (dreg t)" using slot_bounds ok q by blast+
  have d': "d = take ?s (dreg t) @ (lleno # v) @ drop (?s + ?L) (dreg t)" "length d = length (dreg t)"
    using d store_bytes_length [OF d] L by (auto simp: store_bytes_def split: if_splits)
  show ?thesis
  proof (cases "q = pos")
    case True
    then show ?thesis using b(1) L by (simp add: reg_def d' del: append_Cons)
  next
    case False
    then consider "?L * Suc q \<le> ?s" | "pos \<le> q" "?L * Suc pos \<le> ?L * q" by (meson linorder_neqE_nat mult_le_mono2 Suc_leI less_imp_le)
    then have "take ?L (drop (?L * q) d) = take ?L (drop (?L * q) (dreg t))"
    proof cases
      case 1
      then have "?L * q + k < ?s" if "k < ?L" for k using that by simp
      then show ?thesis using b d'(2) by (intro slice_eqI) (auto simp: d' nth_append)
    next
      case 2
      then have "?s + ?L \<le> ?L * q" by simp
      moreover from this have "drop (?L * q) d = drop (?L * q) (dreg t)" using b(1) L 2(1) by (simp add: d' del: append_Cons)
      ultimately show ?thesis by simp
    qed
    then show ?thesis using False by (simp add: reg_def)
  qed
qed

lemma as_escribir_slot:
  assumes "desc_ok t" and "pos < nreg t" and "lvalor t \<le> length pv"
  shows "\<exists>t'. as_escribir fresh t pos pv = Some (1, t') \<and> desc_ok t' \<and> nreg t' = nreg t \<and> lvalor t' = lvalor t \<and>
    slot t' = (slot t)(pos \<mapsto> take (lvalor t) pv)"
proof -
  let ?v = "take (lvalor t) pv" and ?s = "lreg t * pos"
  note b = slot_bounds [OF assms(1,2)]
  have L: "length ?v = lvalor t" "lreg t = lvalor t + 1" using assms by (simp_all add: desc_ok_def)
  obtain d where d: "store_bytes (dreg t) ?s (lleno # ?v) = Some d" using b(1) L by (simp add: store_bytes_def)
  have "as_escribir fresh t pos pv = map_option (\<lambda>d. (1, t\<lparr>dreg := d\<rparr>)) (store_bytes (dreg t) ?s (lleno # ?v))"
    using store_pair [of ?s ?v "dreg t" lleno] b(1) L assms(2,3)
    by (cases "store_bytes (dreg t) ?s [lleno]") (auto simp: as_escribir_def as_grow_def mem_simps)
  moreover have "slot (t\<lparr>dreg := d\<rparr>) = (slot t)(pos \<mapsto> ?v)"
    using assms(2) reg_store [OF assms(1,2) L(1) d] by (auto simp: slot_def fun_eq_iff split: if_splits)
  moreover have "desc_ok (t\<lparr>dreg := d\<rparr>)" using assms(1) store_bytes_length [OF d] by (simp add: desc_ok_def)
  ultimately show ?thesis using d by auto
qed

section \<open>Writing and reading\<close>

text \<open>The contract of an array of slots, and what a sequence of writes leaves in it.\<close>

locale slot_store =
  fixes ok :: "'t \<Rightarrow> bool" and room :: "'t \<Rightarrow> nat" and rd :: "'t \<Rightarrow> nat \<rightharpoonup> 'v" and wr :: "nat \<Rightarrow> 'v \<Rightarrow> 't \<Rightarrow> 't option"
    and fits :: "'t \<Rightarrow> 'v \<Rightarrow> bool"
  assumes wr_rd: "ok t \<Longrightarrow> pos < room t \<Longrightarrow> fits t v \<Longrightarrow>
    \<exists>t'. wr pos v t = Some t' \<and> ok t' \<and> room t' = room t \<and> fits t' = fits t \<and> rd t' = (rd t)(pos \<mapsto> v)"
begin

lemma writes:
  "ok t \<Longrightarrow> \<forall>(p, v)\<in>set ws. p < room t \<and> fits t v \<Longrightarrow>
    \<exists>t'. foldM (\<lambda>(p, v). wr p v) ws t = Some t' \<and> ok t' \<and> room t' = room t \<and> fits t' = fits t \<and> rd t' = rd t ++ map_of (rev ws)"
proof (induction ws arbitrary: t)
  case (Cons w ws)
  obtain p v where w: "w = (p, v)" by (cases w)
  then obtain t1 where t1: "wr p v t = Some t1" "ok t1" "room t1 = room t" "fits t1 = fits t" "rd t1 = (rd t)(p \<mapsto> v)"
    using wr_rd [of t p v] Cons.prems by auto
  have "rd t1 ++ map_of (rev ws) = rd t ++ map_of (rev (w # ws))" 
    by (rule ext) (simp add: w t1(5) map_add_def map_of_append split: option.splits)
  then show ?case using Cons.IH [OF t1(2)] Cons.prems(2) by (auto simp: w t1(1,3,4))
qed simp

end

interpretation registers: slot_store desc_ok nreg slot "\<lambda>pos v t. map_option snd (as_escribir fresh t pos v)" "\<lambda>t v. length v = lvalor t"
  for fresh
proof
  fix t :: desc and pos and v :: bytes
  assume "desc_ok t" "pos < nreg t" "length v = lvalor t"
  then show "\<exists>t'. map_option snd (as_escribir fresh t pos v) = Some t' \<and> desc_ok t' \<and> nreg t' = nreg t \<and>
      (\<lambda>v. length v = lvalor t') = (\<lambda>v :: bytes. length v = lvalor t) \<and> slot t' = (slot t)(pos \<mapsto> v)"
    using as_escribir_slot [of t pos v fresh] by auto
qed

lemma create_ok: "desc_ok (snd create_hashmap)" "nreg (snd create_hashmap) = NREG" "lvalor (snd create_hashmap) = CHUNK"
  by (simp_all add: create_hashmap_def as_crear_def desc_ok_def)

lemma create_empty: "slot (snd create_hashmap) = Map.empty"
proof
  fix pos
  show "slot (snd create_hashmap) pos = None"
  proof (cases "pos < NREG")
    case True
    then have "dreg (snd create_hashmap) ! (lreg (snd create_hashmap) * pos) = 0"
      using slot_bounds [OF create_ok(1), of pos] by (simp add: create_ok) (simp add: create_hashmap_def as_crear_def)
    then show ?thesis using reg_split [OF create_ok(1), of pos] True by (simp add: slot_def create_ok lleno_def)
  qed (simp add: slot_def create_ok)
qed

text \<open>
  The table keeps the latest chunk of every slot: after any sequence of \<open>put_block\<close> calls on a new table, none of
  which faults, \<open>get_block\<close> returns the chunk put last under a hash with the same slot, and 0 when there is none.
\<close>

theorem latest_block_returned:
  assumes "\<forall>(h, b)\<in>set bs. length b = CHUNK" and "length buf = CHUNK"
  shows "\<exists>t. foldM (\<lambda>(h, b) t. map_option snd (put_block fresh t b h)) bs (snd create_hashmap) = Some t \<and>
    get_block h t buf = Some (case map_of (rev (map (\<lambda>(h, b). (NORMALIZE h, b)) bs)) (NORMALIZE h) of None \<Rightarrow> (0, buf) | Some b \<Rightarrow> (1, b))"
proof -
  let ?ws = "map (\<lambda>(h, b). (NORMALIZE h, b)) bs"
  have w: "\<forall>(p, v)\<in>set ?ws. p < NREG \<and> length v = CHUNK" using assms(1) by (auto simp: NORMALIZE_def NREG_def)
  have "put_block fresh t b h = map_option (\<lambda>(i, t). (if i \<noteq> 0 then 1 else 0, t)) (as_escribir fresh t (NORMALIZE h) b)" for t b h
    by (cases "as_escribir fresh t (NORMALIZE h) b") (auto simp: put_block_def)
  then have "foldM (\<lambda>(h, b) t. map_option snd (put_block fresh t b h)) bs t =
      foldM (\<lambda>(p, v) t. map_option snd (as_escribir fresh t p v)) ?ws t" for t
  proof (induction bs arbitrary: t)
    case (Cons x bs)
    then show ?case by (cases x; cases "as_escribir fresh t (NORMALIZE (fst x)) (snd x)") auto
  qed simp
  moreover obtain t where "foldM (\<lambda>(p, v) t. map_option snd (as_escribir fresh t p v)) ?ws (snd create_hashmap) = Some t" "desc_ok t"
    "(\<lambda>v :: bytes. length v = lvalor t) = (\<lambda>v. length v = CHUNK)" "slot t = map_of (rev ?ws)"
    using registers.writes [OF create_ok(1), of ?ws fresh] w unfolding create_ok create_empty empty_map_add by blast
  moreover from this(3) have "lvalor t = CHUNK" using fun_cong [of _ _ buf] assms(2) by metis
  ultimately show ?thesis using as_leer_slot [of t buf "NORMALIZE h"] assms(2)
    by (auto simp: get_block_def split: option.splits)
qed

text \<open>\<open>as_borrar\<close> marks the register as full again: a deleted register is still read.\<close>

theorem deleted_register_stays:
  assumes "desc_ok t" and "slot t pos = Some v"
  shows "as_borrar t pos = Some (1, t)"
proof -
  have p: "pos < nreg t" "hd (reg t pos) = lleno" using assms(2) by (auto simp: slot_def split: if_splits)
  note b = slot_bounds [OF assms(1) p(1)]
  have e: "dreg t ! (lreg t * pos) = lleno" using reg_split [OF assms(1) p(1)] p(2) by simp
  then have "store_bytes (dreg t) (lreg t * pos) [lleno] = Some (dreg t)"
    using b by (simp add: mem_simps) (metis e add_less_cancel_left id_take_nth_drop less_le_trans nat_arith.rule0)
  then show ?thesis using p(1) b e by (simp add: as_borrar_def mem_simps)
qed

text \<open>
  Growing the table makes room up to the position asked for but not for its own register: the write
  behind the end is outside the memory.
\<close>

theorem write_behind_end_overruns:
  assumes "desc_ok t" and "nreg t \<le> pos" and "0 < pos"
  shows "as_escribir fresh t pos pv = None"
proof -
  have "length (realloc fresh (pos * lreg t) (dreg t)) = pos * lreg t"
  proof -
    have "nreg t * lreg t \<le> pos * lreg t" using assms(2) by simp
    then show ?thesis using assms(1) by (simp add: realloc_def desc_ok_def)
  qed
  then have "lreg t' * pos = length (dreg t') \<or> \<not> g" if "as_grow fresh t pos = Some (g, t')" for g t'
    using that assms(2) by (auto simp: as_grow_def bind_eq_Some_conv ac_simps dest: store_bytes_length split: if_splits)
  moreover have "\<not> (\<exists>t'. as_grow fresh t pos = Some (False, t'))"
    using assms by (auto simp: as_grow_def bind_eq_Some_conv desc_ok_def split: if_splits)
  ultimately show ?thesis by (cases "as_grow fresh t pos") (auto simp: as_escribir_def store_bytes_def)
qed

text \<open>The hash reads the first \<open>len\<close> bytes and nothing else.\<close>

lemma get16bits_take: "i + 1 < m \<Longrightarrow> m \<le> length d \<Longrightarrow> get16bits (take m d) i = get16bits d i \<and> get16bits d i \<noteq> None"
  by (simp add: get16bits_def load8_def)

lemma sfh_block_take:
  assumes "k < m div 4" and "m \<le> length d"
  shows "sfh_block (take m d) k = sfh_block d k" and "\<exists>h'. sfh_block d k h = Some h'"
proof -
  have "4 * k + 3 < m" using assms(1) by linarith
  then show "sfh_block (take m d) k = sfh_block d k" "\<exists>h'. sfh_block d k h = Some h'"
    using get16bits_take [of "4 * k" m d] get16bits_take [of "4 * k + 2" m d] assms(2)
    by (auto simp: sfh_block_def fun_eq_iff Let_def)
qed

lemma sfh_tail_take:
  assumes "m \<le> length d"
  shows "sfh_tail (take m d) (4 * (m div 4)) (m mod 4) h = sfh_tail d (4 * (m div 4)) (m mod 4) h \<and>
    (\<exists>h'. sfh_tail d (4 * (m div 4)) (m mod 4) h = Some h')"
proof -
  let ?i = "4 * (m div 4)"
  have m: "?i + m mod 4 = m" by (simp add: mult_div_mod_eq)
  have "m mod 4 < 4" by simp
  then consider "m mod 4 = 0" | "m mod 4 = 1" | "m mod 4 = 2" | "m mod 4 = 3" by linarith
  then show ?thesis
  proof cases
    case 2
    then have "?i < m" "?i < length d" using m assms by linarith+
    then show ?thesis using 2 assms by (simp add: sfh_tail_def load8_def Let_def)
  next
    case 3
    then have "?i + 1 < m" using m by linarith
    then show ?thesis using 3 get16bits_take [of ?i m d] assms by (auto simp: sfh_tail_def Let_def)
  next
    case 4
    then have "?i + 2 < m" "?i + 2 < length d" using m assms by linarith+
    then show ?thesis using 4 get16bits_take [of ?i m d] assms by (auto simp: sfh_tail_def load8_def Let_def)
  qed (simp add: sfh_tail_def)
qed

theorem hash_of_prefix:
  assumes "nat len \<le> length d"
  shows "SuperFastHash (Some (take (nat len) d)) len = SuperFastHash (Some d) len \<and> (\<exists>h. SuperFastHash (Some d) len = Some h)"
proof -
  let ?m = "nat len"
  have f: "foldM (sfh_block (take ?m d)) [0..<?m div 4] h = foldM (sfh_block d) [0..<?m div 4] h" for h
    by (rule foldM_cong) (simp add: sfh_block_take(1) assms)
  obtain h where h: "foldM (sfh_block d) [0..<?m div 4] (word_of_int len) = Some h"
    using foldM_inv [of "\<lambda>_. True" "word_of_int len" "[0..<?m div 4]" "sfh_block d"] sfh_block_take(2) assms by auto
  show ?thesis using sfh_tail_take [OF assms, of h] by (auto simp: SuperFastHash_def Let_def f h)
qed

end
