(* ===== verification/Spec2Isabelle.thy ===== *)
theory Spec2Isabelle
  imports Uncomp_Safety Fetcher_Dispatch Session_Aging Counter_Registry Cli_Client Service Chunk_Table
begin

text \<open>
  \<^bold>\<open>OpenNOP-SoloWAN\<close> is a daemon for the two ends of a wide area link.  It takes TCP segments
  from the kernel's packet queue, removes redundancy from their data (a dictionary of the packets
  seen before, and QuickLZ compression), and the peer at the other end restores them.  This
  development models the daemon under \<open>src/opennop/opennop-daemon\<close> as functions on an explicit
  state and proves what makes it correct.

  \<^bold>\<open>Conventions.\<close>  C integers are words of their width; sizes and indices that the code keeps in range are
  natural numbers, and where the range is not checked by the code it is a proof obligation.  Memory is
  either a byte list with checked accesses (packets, buffers, the dictionaries) or a heap that maps
  addresses to structures (queues, sessions).  \<^const>\<open>None\<close> is a fault: an access out of bounds, a
  null or dangling pointer, a failed \<open>assert\<close>, a value that was never set, or a loop that does
  not end.  Error codes and early returns are values.  An operation on state returns the new state.
  Loops are structural recursion, \<open>function\<close> with a measure, or \<open>partial_function (option)\<close>; no fuel is
  used, except that the endless loops of the threads run for given rounds: \<open>counters_function\<close> takes their number,
  \<open>cleanup_function\<close>, \<open>memorymanager_function\<close> and the worker loops the list of the rounds with what the
  other threads did in between, and the theorems hold for all of them.  A mutex makes the
  code it protects one step; code that holds no lock is a step as a whole only where the text of the theory says so.

  \<^bold>\<open>Shared theories.\<close>  \<open>Solowan_Prelude\<close> has the machine types, the checked memory accesses and
  generic lemmas; \<open>Host_Order\<close> the byte order of the host; \<open>Linked_List\<close> lists linked
  through a heap; \<open>C_Text\<close> the text functions of the C library (\<open>strtok_r\<close>, \<open>sscanf\<close>, \<open>atoi\<close>, \<open>fgets\<close>,
  \<open>inet_ntop\<close>, \<open>inet_pton\<close>, printed numbers).

  \<^bold>\<open>The deduplication library\<close> (\<open>lib/dedup_common.c\<close>, \<open>lib/solowan_rolling.c\<close>, \<open>lib/uncomp.c\<close>,
  \<open>lib/MurmurHash3.c\<close>).
  \<^item> \<open>Byte_Order\<close>: \<open>hton\<close>/\<open>ntoh\<close> on buffers; the locale \<open>wire_codec\<close>, interpreted for 16, 32 and 64 bits.
  \<^item> \<open>Rabin_Fingerprint\<close>: fingerprints of 64-byte windows and the selection of a packet's fingerprints.  The rolling
    update equals the fingerprint from scratch; the selection ends inside its array.
  \<^item> \<open>Murmur_Hash\<close>: the packet hash; its steps are bijections, so it detects a change of one block.
  \<^item> \<open>Packet_Dictionary\<close>, \<open>Fingerprint_Store\<close>: the ring of packets (locale \<open>packet_store\<close>, interpreted on
    \<open>getPkt\<close> and \<open>putPkt\<close>) and the table of fingerprints, against the history of stored packets.
  \<^item> \<open>Dedup_Encoder\<close>, \<open>Dedup_Decoder\<close>: the loops that write and read optimised packets, against tokens.
  \<^item> \<open>Shared_Dictionary\<close>, \<open>Deduplicator\<close>: the API of the shared dictionary, and the operations of a
    deduplicator in both modes.
  \<^item> \<open>Dedup_Roundtrip\<close>: with private dictionaries no operation faults, both ends refine one abstract
    dictionary, and a stream of packets arrives unchanged.  \<open>Uncomp_Safety\<close>: \<open>uncomp\<close> on arbitrary input, both
    modes: nothing is delivered whose hash differs from the one sent, rejected packets change no dictionary.

  \<^bold>\<open>Packets\<close> (\<open>opennopd/csum.c\<close>, \<open>tcpoptions.c\<close>, \<open>compression.c\<close>, \<open>deduplication.c\<close>).
  \<^item> \<open>Checksum\<close>: header fields and the Internet checksums; what is stored verifies.
  \<^item> \<open>Tcp_Options\<close>: searching and setting options with the 8-bit indices of the code: the value set is read back,
    the data is kept; on some hostile option fields the search runs for ever.
  \<^item> \<open>Tcp_Segment\<close>, \<open>Segment_Tag\<close>, \<open>Opennop_Header\<close>: a segment as header, data and rest; the
    mark of the accelerators and their header.
  \<^item> \<open>Tcp_Compression\<close>, \<open>Tcp_Dedup\<close>: (de)compression and (de)duplication of a segment's data.  QuickLZ is a
    parameter; that it restores what it compressed is a hypothesis, with an instance in the witnesses.

  \<^bold>\<open>Threads and shared state\<close> (\<open>opennopd/queuemanager.c\<close>, \<open>packet.c\<close>, \<open>sessionmanager.c\<close> and
  \<open>subsystems/\<close>).
  \<^item> \<open>Packet_Queue\<close>, \<open>Memory_Manager\<close>: packet buffers, linked queues (locale \<open>fifo\<close>, interpreted on
    \<open>queue_packet\<close> and \<open>dequeue_packet\<close>) and the pool of buffers.
  \<^item> \<open>Session_Table\<close>, \<open>Session_Map\<close>: the hash table of sessions; the locale \<open>keyed_store\<close> is its
    contract, interpreted on \<open>getsession\<close>, \<open>insertsession\<close> and \<open>clearsession\<close>.
  \<^item> \<open>Worker\<close>, \<open>Worker_Segment\<close>, \<open>Worker_Roundtrip\<close>, \<open>Worker_Link\<close>: the optimisation and deoptimisation threads; a
    segment optimised at one end and deoptimised at the other is delivered as it was.
  \<^item> \<open>Worker_Control\<close>, \<open>Counter_Registry\<close>: the array of workers, the rates and the rounds that update them.
  \<^item> \<open>Session_Cleanup\<close>, \<open>Session_Aging\<close>: keepalives and the removal of idle sessions.
  \<^item> \<open>Fetcher\<close>, \<open>Fetcher_Dispatch\<close>: the callback for every packet, and where packets go.
  \<^item> \<open>Session_Invariant\<close>, \<open>Packet_Flow\<close>, \<open>Daemon\<close>: the steps of all threads as a transition
    relation (\<open>opennopd.c\<close>); in every reachable state the session table is well-formed and every packet
    has exactly one verdict or is in exactly one queue.

  \<^bold>\<open>Console and configuration\<close> (\<open>subsystems/clicommands.c\<close>, \<open>climanager.c\<close>, \<open>lib/debugd.c\<close>,
  \<open>configure.c\<close>, the \<open>cli_\<close> functions of the other files).
  \<^item> \<open>Cli_Commands\<close>: the tree of commands (locale \<open>registry\<close>, interpreted on \<open>register_command\<close>) and the
    execution of a line.
  \<^item> \<open>Trace_Masks\<close>, \<open>Session_Report\<close>, \<open>Traffic_Report\<close>, \<open>Dedup_Report\<close>: the handlers, with the
    character arrays they print into.
  \<^item> \<open>Console\<close>: the commands of the daemon and a client's connection: every command line runs its handler,
    whatever the order of registration, and a connection changes nothing but switches and statistics.
  \<^item> \<open>Configuration\<close>: reading the configuration file: a written file is read back, and what is read
    gives a dictionary whose indices stay in range.
  \<^item> \<open>Service\<close>: the options and checks of \<open>main\<close>, the signal handler and the heartbeat's sending loop; the
    service starts only when it is configured.
  \<^item> \<open>Cli_Client\<close>: the command-line client (\<open>opennop/opennop.c\<close>): completion goes through the menu its tables
    describe, the menu is the command set of the daemon, and a command given as arguments is executed and its
    answer printed.

  \<^bold>\<open>The chunk table\<close> (\<open>lib/as.c\<close>, \<open>lib/01dedup.c\<close>, \<open>lib/hash.c\<close>): \<open>Chunk_Table\<close>.  The daemon creates this table and
  never uses it.  The locale \<open>slot_store\<close>, interpreted on its registers, gives what a sequence of writes leaves;
  deleting and growing do not work as meant.

  \<^bold>\<open>Not modelled.\<close>  Opening, binding and reading sockets, the netfilter queue and netlink messages, the terminal
  and readline, logging, the usage text, forking and the PID file are input and output without state of the
  program.  \<open>lib/quicklz.c\<close> is a third-party library and a parameter; \<open>libchash.c\<close> is one that no
  file of the program uses.  The 128-bit variants of MurmurHash3 are never called.  Memory allocation succeeds.
  Interleavings finer than the steps above, and so races on data the code does not lock, are not covered.
\<close>

end
